(* ===== verification/Yuma_Prelude.thy ===== *)
theory Yuma_Prelude
  imports Main "HOL-Library.Word"
begin

unbundle bit_operations_syntax

text \<open>
  Shared vocabulary of the development: the machine integer types of the C sources, the
  status codes of \<^verbatim>\<open>netconf/src/ncx/status.h\<close> that the modelled functions return, the
  collections of simplification rules the component theories extend, and the contract of a
  pair of byte codecs.
\<close>

section \<open>Machine integers and status codes\<close>

type_synonym u8 = "8 word"
type_synonym u32 = "32 word"
type_synonym u64 = "64 word"

text \<open>
  The status codes that the modelled functions can return, under the names of the C
  enumeration \<^verbatim>\<open>status_t\<close>.  \<^verbatim>\<open>SET_ERROR(e)\<close> logs and returns \<^verbatim>\<open>e\<close>; the log is not modelled.
\<close>

datatype status_t =
    NO_ERR
  | ERR_INTERNAL_PTR
  | ERR_INTERNAL_MEM
  | ERR_INTERNAL_VAL
  | ERR_INTERNAL_INIT_SEQ
  | ERR_BUFF_OVFL
  | ERR_NCX_WRONG_TKVAL
  | ERR_NCX_INVALID_VALUE
  | ERR_NCX_NOT_CONFIG
  | ERR_NCX_NO_ACCESS_MAX
  | ERR_NCX_NO_ACCESS_STATE
  | ERR_NCX_NO_ACCESS_LOCK
  | ERR_NCX_LOCK_DENIED
  | ERR_NCX_CANDIDATE_DIRTY
  | ERR_NCX_NOT_WRITABLE
  | ERR_NCX_OPERATION_FAILED
  | ERR_NCX_RESOURCE_DENIED
  | ERR_NCX_IN_USE
  | ERR_NCX_BAD_ELEMENT
  | ERR_NCX_MISSING_ELEMENT
  | ERR_NCX_IN_USE_LOCKED
  | ERR_NCX_IN_USE_COMMIT
  | ERR_NCX_DATA_MISSING
  | ERR_NCX_SKIPPED
  | ERR_NCX_XPATH_NOT_NODESET
  | ERR_NCX_XPATH_NODESET_EMPTY
  | ERR_NCX_INVALID_FRAMING
  | ERR_NCX_INVALID_NUM
  | ERR_NCX_INVALID_HEXNUM
  | ERR_NCX_WRONG_NUMTYP
  | ERR_NCX_WRONG_TKTYPE
  | ERR_NCX_NOT_IN_RANGE
  | ERR_NCX_DEC64_BASEOVFL
  | ERR_NCX_DEC64_FRACOVFL
  | ERR_NCX_READ_FAILED
  | ERR_NCX_SESSION_CLOSED
  | ERR_NCX_OPERATION_NOT_SUPPORTED
  | ERR_NCX_DUP_ENTRY
  | ERR_NCX_WRONG_LEN
  | ERR_TOO_MANY_ENTRIES
  | ERR_DUP_NS
  | ERR_NCX_UNKNOWN_MODULE
  | ERR_NCX_WRONG_VERSION
  | ERR_NCX_DEF_NOT_FOUND
  | ERR_NCX_ACCESS_DENIED
  | ERR_NCX_CFG_NOT_FOUND
  | ERR_NCX_CC_NOT_ACTIVE
  | ERR_NCX_PROTO11_NOT_ENABLED
  | ERR_NCX_UNKNOWN_ELEMENT
  | ERR_NCX_MISSING_PARM
  | ERR_NCX_MISSING_ATTR
  | ERR_NCX_WRONG_NODETYP
  | ERR_NCX_ACCESS_READ_ONLY
  | ERR_NCX_FOUND_URL
  | ERR_NCX_FOUND_INLINE
  | ERR_NCX_NO_MATCHES
  | ERR_NCX_INVALID_STATUS
  | ERR_NCX_NOT_FOUND
  | ERR_NCX_EOF
  | ERR_FIL_OPEN
  | ERR_XML_READER_EOF
  | ERR_NCX_INTERNAL

section \<open>Rule collections\<close>

named_theorems lock_defs "unfolding rules of the lock predicates"

section \<open>Lists\<close>

lemma filter_eq_self_if: "list_all P xs \<Longrightarrow> filter P xs = xs"
  by (induction xs) auto

lemma length_less_4_cases:
  assumes "length xs < 4"
  obtains "xs = []" | a where "xs = [a]" | a b where "xs = [a, b]"
  | a b c where "xs = [a, b, c]"
  using assms by (cases xs rule: list.exhaust; cases "tl xs"; cases "tl (tl xs)") auto

section \<open>Decimal strings\<close>

text \<open>What \<^verbatim>\<open>snprintf\<close> writes for the conversions \<^verbatim>\<open>%u\<close> and \<^verbatim>\<open>%d\<close>, and what reads it back.\<close>

definition digit_char :: "nat \<Rightarrow> char" where
  "digit_char n = char_of (48 + n)"

fun nat_string :: "nat \<Rightarrow> string" where
  "nat_string n =
     (if n < 10 then [digit_char n] else nat_string (n div 10) @ [digit_char (n mod 10)])"

declare nat_string.simps [simp del]

definition int_string :: "int \<Rightarrow> string" where
  "int_string i = (if i < 0 then CHR ''-'' # nat_string (nat (- i)) else nat_string (nat i))"

definition string_nat :: "string \<Rightarrow> nat" where
  "string_nat s = foldl (\<lambda>n c. 10 * n + (of_char c - 48)) 0 s"

lemma of_digit_char: "n < 10 \<Longrightarrow> of_char (digit_char n) = 48 + n"
  by (simp add: digit_char_def)

lemma string_nat_inverse: "string_nat (nat_string n) = n"
proof (induction n rule: nat_string.induct)
  case (1 n)
  then show ?case
    by (subst nat_string.simps) (auto simp: string_nat_def of_digit_char)
qed

lemma nat_string_inj: "nat_string a = nat_string b \<longleftrightarrow> a = b"
  using string_nat_inverse by metis

lemma nat_string_neq_Nil: "nat_string n \<noteq> []"
  by (subst nat_string.simps) simp

lemma hd_nat_string: "\<exists>k<10. hd (nat_string n) = digit_char k"
proof (induction n rule: nat_string.induct)
  case (1 n)
  then show ?case
    by (subst nat_string.simps) (auto simp: nat_string_neq_Nil)
qed

lemma digit_char_neq_minus: "k < 10 \<Longrightarrow> digit_char k \<noteq> CHR ''-''"
  using of_digit_char [of k] by auto

lemma int_string_neq_Nil: "int_string z \<noteq> []"
  by (simp add: int_string_def nat_string_neq_Nil)

lemma int_string_inj: "int_string i = int_string j \<longleftrightarrow> i = j"
proof
  assume eq: "int_string i = int_string j"
  have n: "nat_string a \<noteq> CHR ''-'' # t" for a t
    using hd_nat_string [of a] digit_char_neq_minus by (metis list.sel(1))
  then show "i = j"
    using eq by (auto simp: int_string_def nat_string_inj eq_nat_nat_iff split: if_splits dest: sym)
qed simp

section \<open>Words\<close>

lemma u8_lt: "unat (x :: u8) < 256"
  using unsigned_less [of x, where 'a=nat] by simp

lemma and_masks:
  fixes x :: u8
  shows "x AND 0x03 = take_bit 2 x" and "x AND 0x0f = take_bit 4 x" and "x AND 0x3f = take_bit 6 x"
  by (simp_all add: take_bit_eq_mask mask_eq_exp_minus_1)

lemma unat_bits:
  fixes x :: u8
  shows "unat (drop_bit n x) = unat x div 2 ^ n"
    and "unat (take_bit n x) = unat x mod 2 ^ n"
    and "unat (push_bit n x) = unat x * 2 ^ n mod 256"
proof -
  show "unat (drop_bit n x) = unat x div 2 ^ n"
    unfolding unsigned_drop_bit_eq using u8_lt [of x] by (simp add: drop_bit_eq_div take_bit_nat_eq_self)
  show "unat (take_bit n x) = unat x mod 2 ^ n"
    unfolding unsigned_take_bit_eq by (simp add: take_bit_eq_mod)
  show "unat (push_bit n x) = unat x * 2 ^ n mod 256"
    unfolding unsigned_push_bit_eq by (simp add: push_bit_eq_mult take_bit_eq_mod)
qed

lemma unat_add8: "unat a + unat b < 256 \<Longrightarrow> unat (a + b :: u8) = unat a + unat b"
  by (simp add: unat_word_ariths)

lemma join8: "unat a + unat b = unat x \<Longrightarrow> a + b = (x :: u8)"
  using u8_lt [of x] by (simp add: word_unat_eq_iff unat_add8)

lemma unat_3: "unat (3 :: u32) = 3"
  by simp

lemma unat_of_nat32: "m < 2 ^ 32 \<Longrightarrow> unat (of_nat m :: u32) = m"
  unfolding unat_of_nat by simp

section \<open>Contract of a byte codec\<close>

text \<open>
  A codec writes a byte string as text and reads it back.  The laws are those the value
  layer (\<^verbatim>\<open>val.c\<close>, \<^verbatim>\<open>val_parse.c\<close>, \<^verbatim>\<open>agt_val_parse.c\<close>) relies on: on every input the encoder is
  used for, the decoder accepts the encoder's text and gives the input back, and decoding does
  not depend on line breaks.
\<close>

locale byte_codec =
  fixes enc :: "u32 \<Rightarrow> u8 list \<Rightarrow> u8 list"
    and dec :: "u8 list \<Rightarrow> status_t \<times> u8 list"
    and small :: "u8 list \<Rightarrow> bool"
  assumes dec_enc: "small xs \<Longrightarrow> dec (enc ls xs) = (NO_ERR, xs)"
    and dec_breaks: "dec ts = dec (filter (\<lambda>c. c \<noteq> 13 \<and> c \<noteq> 10) ts)"
begin

lemma enc_inj: "small xs \<Longrightarrow> small ys \<Longrightarrow> enc ls xs = enc ls ys \<Longrightarrow> xs = ys"
  by (metis dec_enc snd_conv)

lemma enc_linesize_irrelevant:
  "small xs \<Longrightarrow> small ys \<Longrightarrow> enc ls xs = enc ls' ys \<Longrightarrow> xs = ys"
  by (metis dec_enc snd_conv)

lemma dec_same_text:
  assumes "small xs"
    and "filter (\<lambda>c. c \<noteq> 13 \<and> c \<noteq> 10) ts = filter (\<lambda>c. c \<noteq> 13 \<and> c \<noteq> 10) (enc ls xs)"
  shows "dec ts = (NO_ERR, xs)"
  using assms dec_breaks [of ts] dec_breaks [of "enc ls xs"] dec_enc by simp

end

end
