(* ===== verification/Obj_Tree.thy ===== *)
theory Obj_Tree
  imports Yuma_Prelude
begin

text \<open>
  The part of the schema tree (\<^verbatim>\<open>netconf/src/ncx/obj.c\<close>, \<^verbatim>\<open>typ.c\<close>, \<^verbatim>\<open>ncx.c\<close>) that the data tree, the partial
  locks and the access control read: object templates with their flags and parents, and the functions
  that classify them.  Templates are immutable after the modules are loaded, so the model is a
  datatype in which a template contains its parent.
\<close>

section \<open>Types\<close>

datatype ncx_btype_t =
    NCX_BT_NONE | NCX_BT_ANYDATA | NCX_BT_ANYXML | NCX_BT_BITS | NCX_BT_ENUM | NCX_BT_EMPTY
  | NCX_BT_BOOLEAN | NCX_BT_INT8 | NCX_BT_INT16 | NCX_BT_INT32 | NCX_BT_INT64 | NCX_BT_UINT8
  | NCX_BT_UINT16 | NCX_BT_UINT32 | NCX_BT_UINT64 | NCX_BT_DECIMAL64 | NCX_BT_FLOAT64
  | NCX_BT_STRING | NCX_BT_BINARY | NCX_BT_INSTANCE_ID | NCX_BT_UNION | NCX_BT_LEAFREF
  | NCX_BT_IDREF | NCX_BT_SLIST | NCX_BT_CONTAINER | NCX_BT_CHOICE | NCX_BT_CASE | NCX_BT_LIST
  | NCX_BT_EXTERN | NCX_BT_INTERN

definition typ_has_children :: "ncx_btype_t \<Rightarrow> bool" where
  "typ_has_children btyp =
     (case btyp of
        NCX_BT_CONTAINER \<Rightarrow> True
      | NCX_BT_CHOICE \<Rightarrow> True
      | NCX_BT_CASE \<Rightarrow> True
      | NCX_BT_LIST \<Rightarrow> True
      | NCX_BT_ANYDATA \<Rightarrow> True
      | NCX_BT_ANYXML \<Rightarrow> True
      | _ \<Rightarrow> False)"

datatype obj_type_t =
    OBJ_TYP_NONE | OBJ_TYP_ANYDATA | OBJ_TYP_ANYXML | OBJ_TYP_CONTAINER | OBJ_TYP_LEAF
  | OBJ_TYP_LEAF_LIST | OBJ_TYP_LIST | OBJ_TYP_CHOICE | OBJ_TYP_CASE | OBJ_TYP_USES
  | OBJ_TYP_REFINE | OBJ_TYP_NOTIF | OBJ_TYP_AUGMENT | OBJ_TYP_RPC | OBJ_TYP_RPCIO

datatype ncx_module =
  Module (mod_name: string) (ismod: bool) (belongs: string) (mod_nsid: u32) (mod_parent: "ncx_module option")

text \<open>
  \<open>od_name\<close> is the name in the type-specific part of the template.  \<open>od_gen\<close> says that the template is
  one of the three shared generic ones (\<^verbatim>\<open>ncx_get_gen_container()\<close>, \<^verbatim>\<open>ncx_get_gen_string()\<close>,
  \<^verbatim>\<open>ncx_get_gen_empty()\<close>), with which the code compares pointers.
\<close>

record obj_data =
  objtype :: obj_type_t
  obj_flags :: u32
  od_name :: string
  od_mod :: "ncx_module option"
  od_tkerr_mod :: "ncx_module option"
  od_nsid :: u32
  od_gen :: bool

datatype obj_template =
  Obj (obj_data: obj_data) (obj_parent: "obj_template option") (obj_targobj: "obj_template option")

text \<open>The bit numbers of the \<^verbatim>\<open>OBJ_FL_*\<close> masks.\<close>

abbreviation OBJ_FL_ROOT :: nat where "OBJ_FL_ROOT \<equiv> 10"
abbreviation OBJ_FL_CLI :: nat where "OBJ_FL_CLI \<equiv> 12"
abbreviation OBJ_FL_ABSTRACT :: nat where "OBJ_FL_ABSTRACT \<equiv> 15"
abbreviation OBJ_FL_CONFSET :: nat where "OBJ_FL_CONFSET \<equiv> 16"
abbreviation OBJ_FL_CONFIG :: nat where "OBJ_FL_CONFIG \<equiv> 17"
abbreviation OBJ_FL_SECURE :: nat where "OBJ_FL_SECURE \<equiv> 24"
abbreviation OBJ_FL_VERY_SECURE :: nat where "OBJ_FL_VERY_SECURE \<equiv> 25"
abbreviation OBJ_FL_BLOCK_CREATE :: nat where "OBJ_FL_BLOCK_CREATE \<equiv> 28"
abbreviation OBJ_FL_BLOCK_UPDATE :: nat where "OBJ_FL_BLOCK_UPDATE \<equiv> 29"
abbreviation OBJ_FL_BLOCK_DELETE :: nat where "OBJ_FL_BLOCK_DELETE \<equiv> 30"

abbreviation obj_flag :: "nat \<Rightarrow> obj_template \<Rightarrow> bool" where
  "obj_flag n obj \<equiv> bit (obj_flags (obj_data obj)) n"

section \<open>Classification\<close>

definition obj_is_root :: "obj_template \<Rightarrow> bool" where
  "obj_is_root obj \<longleftrightarrow> obj_flag OBJ_FL_ROOT obj"

definition obj_is_abstract :: "obj_template \<Rightarrow> bool" where
  "obj_is_abstract obj \<longleftrightarrow> obj_flag OBJ_FL_ABSTRACT obj"

definition obj_is_secure :: "obj_template \<Rightarrow> bool" where
  "obj_is_secure obj \<longleftrightarrow> obj_flag OBJ_FL_SECURE obj"

definition obj_is_very_secure :: "obj_template \<Rightarrow> bool" where
  "obj_is_very_secure obj \<longleftrightarrow> obj_flag OBJ_FL_VERY_SECURE obj"

definition obj_is_block_user_create :: "obj_template \<Rightarrow> bool" where
  "obj_is_block_user_create obj \<longleftrightarrow> obj_flag OBJ_FL_BLOCK_CREATE obj"

definition obj_is_block_user_update :: "obj_template \<Rightarrow> bool" where
  "obj_is_block_user_update obj \<longleftrightarrow> obj_flag OBJ_FL_BLOCK_UPDATE obj"

definition obj_is_block_user_delete :: "obj_template \<Rightarrow> bool" where
  "obj_is_block_user_delete obj \<longleftrightarrow> obj_flag OBJ_FL_BLOCK_DELETE obj"

definition obj_is_rpc :: "obj_template \<Rightarrow> bool" where
  "obj_is_rpc obj \<longleftrightarrow> objtype (obj_data obj) = OBJ_TYP_RPC"

definition obj_is_leaf :: "obj_template \<Rightarrow> bool" where
  "obj_is_leaf obj \<longleftrightarrow> objtype (obj_data obj) = OBJ_TYP_LEAF"

definition obj_is_notif :: "obj_template \<Rightarrow> bool" where
  "obj_is_notif obj \<longleftrightarrow> objtype (obj_data obj) = OBJ_TYP_NOTIF"

fun obj_is_cli :: "obj_template \<Rightarrow> bool" where
  "obj_is_cli (Obj d p t) =
     (if bit (obj_flags d) OBJ_FL_CLI then True
      else case p of Some q \<Rightarrow> obj_is_cli q | None \<Rightarrow> False)"

text \<open>The target of an augment is asserted to exist; without one the model answers \<open>False\<close>.\<close>

fun obj_is_data_db :: "obj_template \<Rightarrow> bool" where
  "obj_is_data_db (Obj d p t) =
     (let obj = Obj d p t
      in if obj_is_cli obj then False
         else if obj_is_abstract obj \<and> \<not> obj_is_root obj then False
         else case objtype d of
                OBJ_TYP_RPC \<Rightarrow> False
              | OBJ_TYP_NOTIF \<Rightarrow> False
              | OBJ_TYP_RPCIO \<Rightarrow> False
              | OBJ_TYP_REFINE \<Rightarrow> False
              | OBJ_TYP_AUGMENT \<Rightarrow> (case t of Some targ \<Rightarrow> obj_is_data_db targ | None \<Rightarrow> False)
              | _ \<Rightarrow>
                  (if obj_is_root obj then True
                   else case p of
                          Some q \<Rightarrow> (if \<not> obj_is_root q then obj_is_data_db q else True)
                        | None \<Rightarrow> True))"

fun obj_get_config_flag_deep :: "obj_template \<Rightarrow> bool" where
  "obj_get_config_flag_deep (Obj d p t) =
     (if objtype d \<in> {OBJ_TYP_CONTAINER, OBJ_TYP_ANYXML, OBJ_TYP_ANYDATA, OBJ_TYP_LEAF,
          OBJ_TYP_LEAF_LIST, OBJ_TYP_LIST, OBJ_TYP_CHOICE}
      then (if obj_is_root (Obj d p t) then True
            else if bit (obj_flags d) OBJ_FL_CONFSET then bit (obj_flags d) OBJ_FL_CONFIG
            else case p of Some q \<Rightarrow> obj_get_config_flag_deep q | None \<Rightarrow> True)
      else if objtype d = OBJ_TYP_CASE
      then (case p of Some q \<Rightarrow> obj_get_config_flag_deep q | None \<Rightarrow> False)
      else if objtype d = OBJ_TYP_AUGMENT
      then (case t of Some targ \<Rightarrow> obj_get_config_flag_deep targ | None \<Rightarrow> False)
      else if objtype d = OBJ_TYP_USES \<or> objtype d = OBJ_TYP_REFINE then False
      else if objtype d = OBJ_TYP_RPC then True
      else if objtype d = OBJ_TYP_RPCIO then od_name d = ''input''
      else False)"

definition obj_get_config_flag :: "obj_template \<Rightarrow> bool" where
  "obj_get_config_flag obj = obj_get_config_flag_deep obj"

section \<open>Names\<close>

definition obj_get_name :: "obj_template \<Rightarrow> string" where
  "obj_get_name obj =
     (case objtype (obj_data obj) of
        OBJ_TYP_USES \<Rightarrow> ''uses''
      | OBJ_TYP_AUGMENT \<Rightarrow> ''augment''
      | OBJ_TYP_REFINE \<Rightarrow> ''refine''
      | OBJ_TYP_NONE \<Rightarrow> ''none''
      | _ \<Rightarrow> od_name (obj_data obj))"

fun ncx_get_mod_nsid :: "ncx_module \<Rightarrow> u32" where
  "ncx_get_mod_nsid (Module n m b i p) = (case p of Some q \<Rightarrow> ncx_get_mod_nsid q | None \<Rightarrow> i)"

definition obj_get_mod_name :: "obj_template \<Rightarrow> string option" where
  "obj_get_mod_name obj =
     (case (case od_mod (obj_data obj) of Some m \<Rightarrow> Some m | None \<Rightarrow> od_tkerr_mod (obj_data obj)) of
        Some usemod \<Rightarrow> Some (if ismod usemod then mod_name usemod else belongs usemod)
      | None \<Rightarrow> None)"

definition obj_get_nsid :: "obj_template \<Rightarrow> u32" where
  "obj_get_nsid obj =
     (if od_nsid (obj_data obj) \<noteq> 0 then od_nsid (obj_data obj)
      else case od_tkerr_mod (obj_data obj) of Some m \<Rightarrow> ncx_get_mod_nsid m | None \<Rightarrow> 0)"

section \<open>Ancestors\<close>

fun obj_ancestors :: "obj_template \<Rightarrow> obj_template list" where
  "obj_ancestors (Obj d p t) =
     Obj d p t # (case p of Some q \<Rightarrow> obj_ancestors q | None \<Rightarrow> [])"

lemma obj_is_cli_ancestors: "obj_is_cli obj \<longleftrightarrow> (\<exists>a \<in> set (obj_ancestors obj). obj_flag OBJ_FL_CLI a)"
  by (induction obj rule: obj_is_cli.induct) (auto split: option.splits)

text \<open>Templates of ordinary data nodes, the ones a data tree is made of.\<close>

definition obj_plain :: "obj_template \<Rightarrow> bool" where
  "obj_plain obj \<longleftrightarrow> objtype (obj_data obj) \<in> {OBJ_TYP_CONTAINER, OBJ_TYP_ANYXML, OBJ_TYP_ANYDATA,
     OBJ_TYP_LEAF, OBJ_TYP_LEAF_LIST, OBJ_TYP_LIST, OBJ_TYP_CHOICE}"

lemma config_inherited:
  assumes "obj_plain obj" "obj_parent obj = Some q" "\<not> obj_is_root obj" "\<not> obj_flag OBJ_FL_CONFSET obj"
  shows "obj_get_config_flag obj = obj_get_config_flag q"
  using assms by (cases obj) (auto simp: obj_get_config_flag_def obj_plain_def)

lemma config_explicit:
  assumes "obj_plain obj" "\<not> obj_is_root obj" "obj_flag OBJ_FL_CONFSET obj"
  shows "obj_get_config_flag obj = obj_flag OBJ_FL_CONFIG obj"
  using assms by (cases obj) (auto simp: obj_get_config_flag_def obj_plain_def)

text \<open>
  the config property of a data node is that of the nearest ancestor-or-self with an
  explicit config statement, and true when no ancestor up to the root has one.
\<close>
theorem obj_config_nearest:
  assumes "\<forall>a \<in> set (obj_ancestors obj). obj_plain a"
  shows "obj_get_config_flag obj =
    (case List.find (\<lambda>a. obj_is_root a \<or> obj_flag OBJ_FL_CONFSET a) (obj_ancestors obj) of
       None \<Rightarrow> True
     | Some a \<Rightarrow> obj_is_root a \<or> obj_flag OBJ_FL_CONFIG a)"
  unfolding obj_get_config_flag_def using assms
proof (induction obj rule: obj_get_config_flag_deep.induct)
  case (1 d p t)
  have plain: "objtype d \<in> {OBJ_TYP_CONTAINER, OBJ_TYP_ANYXML, OBJ_TYP_ANYDATA, OBJ_TYP_LEAF,
      OBJ_TYP_LEAF_LIST, OBJ_TYP_LIST, OBJ_TYP_CHOICE}"
    using 1(4) by (simp add: obj_plain_def)
  show ?case
  proof (cases "obj_is_root (Obj d p t) \<or> bit (obj_flags d) OBJ_FL_CONFSET")
    case True
    with plain show ?thesis by (auto simp del: One_nat_def)
  next
    case False
    show ?thesis
    proof (cases p)
      case (Some q)
      have "\<forall>a \<in> set (obj_ancestors q). obj_plain a" using 1(4) by (simp add: Some)
      from 1(1) [OF plain _ _ Some this] False have
        "obj_get_config_flag_deep q = (case List.find (\<lambda>a. obj_is_root a \<or> obj_flag OBJ_FL_CONFSET a) (obj_ancestors q) of
           None \<Rightarrow> True | Some a \<Rightarrow> obj_is_root a \<or> obj_flag OBJ_FL_CONFIG a)" by blast
      with plain False Some show ?thesis by simp
    qed (use plain False in simp)
  qed
qed

theorem obj_config_nearest_witness:
  "\<not> obj_get_config_flag
     (Obj \<lparr>objtype = OBJ_TYP_LEAF, obj_flags = 0, od_name = ''counter'', od_mod = None, od_tkerr_mod = None,
          od_nsid = 1, od_gen = False\<rparr>
        (Some (Obj \<lparr>objtype = OBJ_TYP_CONTAINER, obj_flags = 0x10000, od_name = ''stats'', od_mod = None,
             od_tkerr_mod = None, od_nsid = 1, od_gen = False\<rparr> None None)) None)"
  by (subst obj_config_nearest) (simp_all add: obj_plain_def obj_is_root_def)

end
