(* ===== verification/Bobhash.thy ===== *)
theory Bobhash
  imports Yuma_Prelude
begin

text \<open>
  The hash function of \<^verbatim>\<open>netconf/src/ncx/bobhash.c\<close> (Bob Jenkins, 1996).  Its word type \<^verbatim>\<open>ub4\<close> is
  \<^verbatim>\<open>unsigned long int\<close>: 32 bits wide on ILP32 platforms, as the comments assume, and 64 bits wide on
  LP64 platforms; the model holds for every width \<open>'w\<close>.  The property the comment claims for \<^verbatim>\<open>mix\<close>, that
  it mixes three words reversibly, is a theorem here.
\<close>

section \<open>Definitions\<close>

text \<open>
  One line of the macro, \<^verbatim>\<open>a -= b; a -= c; a ^= x\<close> with \<open>x\<close> a shift of \<open>c\<close>, and its three forms, which change
  the first, the second or the third word.
\<close>

definition mix_line :: "('w::len word \<Rightarrow> 'w word) \<Rightarrow> 'w word \<Rightarrow> 'w word \<Rightarrow> 'w word \<Rightarrow> 'w word" where
  "mix_line shift a b c = (a - b - c) XOR shift c"

fun mix_a :: "('w::len word \<Rightarrow> 'w word) \<Rightarrow> 'w word \<times> 'w word \<times> 'w word \<Rightarrow> 'w word \<times> 'w word \<times> 'w word" where
  "mix_a shift (a, b, c) = (mix_line shift a b c, b, c)"

fun mix_b :: "('w::len word \<Rightarrow> 'w word) \<Rightarrow> 'w word \<times> 'w word \<times> 'w word \<Rightarrow> 'w word \<times> 'w word \<times> 'w word" where
  "mix_b shift (a, b, c) = (a, mix_line shift b c a, c)"

fun mix_c :: "('w::len word \<Rightarrow> 'w word) \<Rightarrow> 'w word \<times> 'w word \<times> 'w word \<Rightarrow> 'w word \<times> 'w word \<times> 'w word" where
  "mix_c shift (a, b, c) = (a, b, mix_line shift c a b)"

definition mix :: "'w::len word \<times> 'w word \<times> 'w word \<Rightarrow> 'w word \<times> 'w word \<times> 'w word" where
  "mix abc =
     mix_c (drop_bit 15) (mix_b (push_bit 10) (mix_a (drop_bit 3)
       (mix_c (drop_bit 5) (mix_b (push_bit 16) (mix_a (drop_bit 12)
         (mix_c (drop_bit 13) (mix_b (push_bit 8) (mix_a (drop_bit 13) abc))))))))"

text \<open>Little-endian word of four bytes, as the sums of the loop body and of the switch compute it.\<close>

definition le4 :: "u8 list \<Rightarrow> 'w::len word" where
  "le4 k = ucast (k ! 0) + push_bit 8 (ucast (k ! 1)) + push_bit 16 (ucast (k ! 2)) + push_bit 24 (ucast (k ! 3))"

function bobhash_blocks :: "u8 list \<Rightarrow> 'w::len word \<times> 'w word \<times> 'w word \<Rightarrow> u8 list \<times> 'w word \<times> 'w word \<times> 'w word" where
  "bobhash_blocks k (a, b, c) =
     (if length k \<ge> 12
      then bobhash_blocks (drop 12 k) (mix (a + le4 k, b + le4 (drop 4 k), c + le4 (drop 8 k)))
      else (k, a, b, c))"
  by pat_completeness auto
termination by (relation "measure (\<lambda>(k, _). length k)") auto

text \<open>
  The switch over the last bytes falls through from \<^verbatim>\<open>case len\<close> down to \<^verbatim>\<open>case 1\<close>; \<open>add_byte\<close> is the
  statement of one case, executed when the byte is there.
\<close>

definition add_byte :: "u8 list \<Rightarrow> nat \<Rightarrow> nat \<Rightarrow> 'w::len word \<Rightarrow> 'w word" where
  "add_byte k i s x = (if i < length k then x + push_bit s (ucast (k ! i)) else x)"

definition bobhash_tail :: "u8 list \<Rightarrow> 'w::len word \<times> 'w word \<times> 'w word \<Rightarrow> 'w word \<times> 'w word \<times> 'w word" where
  "bobhash_tail k abc =
     (let (a, b, c) = abc;
          c = add_byte k 8 8 (add_byte k 9 16 (add_byte k 10 24 c));
          b = add_byte k 4 0 (add_byte k 5 8 (add_byte k 6 16 (add_byte k 7 24 b)));
          a = add_byte k 0 0 (add_byte k 1 8 (add_byte k 2 16 (add_byte k 3 24 a)))
      in (a, b, c))"

definition bobhash :: "u8 list \<Rightarrow> 'w::len word \<Rightarrow> 'w word" where
  "bobhash k initval =
     (case bobhash_blocks k (0x9e3779b9, 0x9e3779b9, initval) of
        (rest, a, b, c) \<Rightarrow>
          snd (snd (mix (bobhash_tail rest (a, b, c + of_nat (length k))))))"

section \<open>Reversibility of mix\<close>

definition unmix_line :: "('w::len word \<Rightarrow> 'w word) \<Rightarrow> 'w word \<Rightarrow> 'w word \<Rightarrow> 'w word \<Rightarrow> 'w word" where
  "unmix_line shift a b c = (a XOR shift c) + c + b"

lemma unmix_mix_line: "unmix_line s (mix_line s a b c) b c = a" "mix_line s (unmix_line s a b c) b c = a"
  by (simp_all add: mix_line_def unmix_line_def xor.assoc)

fun unmix_a :: "('w::len word \<Rightarrow> 'w word) \<Rightarrow> 'w word \<times> 'w word \<times> 'w word \<Rightarrow> 'w word \<times> 'w word \<times> 'w word" where
  "unmix_a shift (a, b, c) = (unmix_line shift a b c, b, c)"

fun unmix_b :: "('w::len word \<Rightarrow> 'w word) \<Rightarrow> 'w word \<times> 'w word \<times> 'w word \<Rightarrow> 'w word \<times> 'w word \<times> 'w word" where
  "unmix_b shift (a, b, c) = (a, unmix_line shift b c a, c)"

fun unmix_c :: "('w::len word \<Rightarrow> 'w word) \<Rightarrow> 'w word \<times> 'w word \<times> 'w word \<Rightarrow> 'w word \<times> 'w word \<times> 'w word" where
  "unmix_c shift (a, b, c) = (a, b, unmix_line shift c a b)"

lemma unmix_steps:
  "unmix_a s (mix_a s x) = x" "unmix_b s (mix_b s x) = x" "unmix_c s (mix_c s x) = x"
  "mix_a s (unmix_a s x) = x" "mix_b s (unmix_b s x) = x" "mix_c s (unmix_c s x) = x"
  by (cases x, simp add: unmix_mix_line)+

definition unmix :: "'w::len word \<times> 'w word \<times> 'w word \<Rightarrow> 'w word \<times> 'w word \<times> 'w word" where
  "unmix abc =
     unmix_a (drop_bit 13) (unmix_b (push_bit 8) (unmix_c (drop_bit 13)
       (unmix_a (drop_bit 12) (unmix_b (push_bit 16) (unmix_c (drop_bit 5)
         (unmix_a (drop_bit 3) (unmix_b (push_bit 10) (unmix_c (drop_bit 15) abc))))))))"

text \<open>
  \<^verbatim>\<open>mix\<close> is reversible, as its comment says: running its lines backwards restores the three
  words, and every triple of words is the result of exactly one triple.
\<close>
theorem mix_reversible: "unmix (mix x) = x \<and> mix (unmix x) = x"
  by (simp only: mix_def unmix_def unmix_steps simp_thms)

end
