(* ===== verification/Def_Reg.thy ===== *)
theory Def_Reg
  imports Bobhash
begin

text \<open>
  The definition registry of \<^verbatim>\<open>netconf/src/ncx/def_reg.c\<close>: one hash table of 256 chained queues that
  maps namespace URIs to namespace records and file descriptors to session control blocks.  The
  lemmas show that the table implements a finite map, and two interpretations of the registry contract
  give the laws the callers (\<^verbatim>\<open>xmlns.c\<close>, \<^verbatim>\<open>agt_ses.c\<close>) rely on.
\<close>

section \<open>State\<close>

datatype def_nodetyp_t = DEF_NT_NONE | DEF_NT_NSNODE | DEF_NT_FDNODE

text \<open>
  The data pointer of a node: the address of a namespace record, or a file descriptor mapping
  (\<^verbatim>\<open>def_fdmap_t\<close>), which the node owns and which holds its own key, the descriptor and the address of
  the session control block.
\<close>

datatype def_ptr = is_Ns_ptr: Ns_ptr nat | is_Fdmap: Fdmap (fdmap_num: string) (fdmap_fd: int) (fdmap_scb: nat)

record def_topnode_t =
  nodetyp :: def_nodetyp_t
  hdr_key :: string
  dptr :: def_ptr

text \<open>Queue headers that were not created yet, or were zeroed by the cleanup, are empty queues.\<close>

record def_reg =
  topht :: "nat \<Rightarrow> def_topnode_t list"
  def_reg_init_done :: bool

definition DR_HASH_INIT :: u64 where
  "DR_HASH_INIT = 0x7e456289"

text \<open>\<^verbatim>\<open>bobhash(key, len, DR_HASH_INIT)\<close>, truncated to \<^verbatim>\<open>uint32\<close> and masked with \<^verbatim>\<open>DR_TOP_HASH_MASK\<close>.\<close>

definition top_hash :: "string \<Rightarrow> u32" where
  "top_hash k = ucast (bobhash (map of_char k) DR_HASH_INIT) AND 0xff"

section \<open>Operations\<close>

text \<open>The out parameter \<open>*h\<close> keeps its value when the key is empty.\<close>

definition find_top_node_h :: "def_nodetyp_t \<Rightarrow> string \<Rightarrow> u32 \<Rightarrow> def_reg \<Rightarrow> def_topnode_t option \<times> u32" where
  "find_top_node_h nt k h st =
     (if k = [] then (None, h)
      else let h = top_hash k
           in (List.find (\<lambda>hdr. nodetyp hdr = nt \<and> k = hdr_key hdr) (topht st (unat h)), h))"

definition find_top_node :: "def_nodetyp_t \<Rightarrow> string \<Rightarrow> def_reg \<Rightarrow> def_topnode_t option" where
  "find_top_node nt k st = fst (find_top_node_h nt k 0 st)"

text \<open>\<open>mem\<close> tells whether \<^verbatim>\<open>m__getObj\<close> returns a structure.\<close>

definition add_top_node ::
    "bool \<Rightarrow> def_nodetyp_t \<Rightarrow> string \<Rightarrow> def_ptr \<Rightarrow> def_reg \<Rightarrow> status_t \<times> def_reg" where
  "add_top_node mem nt k p st =
     (let (top, h) = find_top_node_h nt k 0 st
      in if top \<noteq> None then (ERR_NCX_DUP_ENTRY, st)
         else if \<not> mem then (ERR_INTERNAL_MEM, st)
         else (NO_ERR, st\<lparr>topht := (topht st)(unat h := topht st (unat h) @
                 [\<lparr>nodetyp = nt, hdr_key = k, dptr = p\<rparr>])\<rparr>))"

definition def_reg_init :: "def_reg \<Rightarrow> def_reg" where
  "def_reg_init st =
     (if \<not> def_reg_init_done st
      then st\<lparr>topht := (\<lambda>i. if i < 256 then [] else topht st i), def_reg_init_done := True\<rparr>
      else st)"

definition def_reg_cleanup :: "def_reg \<Rightarrow> def_reg" where
  "def_reg_cleanup st =
     (if \<not> def_reg_init_done st then st
      else st\<lparr>topht := (\<lambda>i. if i < 256 then [] else topht st i), def_reg_init_done := False\<rparr>)"

definition def_reg_add_ns :: "bool \<Rightarrow> string \<Rightarrow> nat \<Rightarrow> def_reg \<Rightarrow> status_t \<times> def_reg" where
  "def_reg_add_ns mem ns_name ns st = add_top_node mem DEF_NT_NSNODE ns_name (Ns_ptr ns) st"

definition def_reg_find_ns :: "string \<Rightarrow> def_reg \<Rightarrow> nat option" where
  "def_reg_find_ns nsname st =
     (case find_top_node DEF_NT_NSNODE nsname st of
        Some nsdef \<Rightarrow> (case dptr nsdef of Ns_ptr ns \<Rightarrow> Some ns | Fdmap num fd scb \<Rightarrow> None)
      | None \<Rightarrow> None)"

text \<open>\<^verbatim>\<open>dlq_remove\<close> of the node that the search found, the first one that matches.\<close>

fun remove_first :: "('a \<Rightarrow> bool) \<Rightarrow> 'a list \<Rightarrow> 'a list" where
  "remove_first P [] = []"
| "remove_first P (x # xs) = (if P x then xs else x # remove_first P xs)"

definition del_top_node :: "def_nodetyp_t \<Rightarrow> string \<Rightarrow> def_reg \<Rightarrow> def_reg" where
  "del_top_node nt k st =
     (case find_top_node_h nt k 0 st of
        (Some n, h) \<Rightarrow> st\<lparr>topht := (topht st)(unat h :=
            remove_first (\<lambda>hdr. nodetyp hdr = nt \<and> k = hdr_key hdr) (topht st (unat h)))\<rparr>
      | (None, h) \<Rightarrow> st)"

definition def_reg_del_ns :: "string \<Rightarrow> def_reg \<Rightarrow> def_reg" where
  "def_reg_del_ns nsname st = del_top_node DEF_NT_NSNODE nsname st"

text \<open>
  Two allocations: the mapping (\<open>mem1\<close>) and the node (\<open>mem2\<close>).  \<^verbatim>\<open>snprintf\<close> of a 32-bit integer into 47
  characters always returns a positive length.
\<close>

definition def_reg_add_scb :: "bool \<Rightarrow> bool \<Rightarrow> int \<Rightarrow> nat \<Rightarrow> def_reg \<Rightarrow> status_t \<times> def_reg" where
  "def_reg_add_scb mem1 mem2 fd scb st =
     (if \<not> mem1 then (ERR_INTERNAL_MEM, st)
      else add_top_node mem2 DEF_NT_FDNODE (int_string fd) (Fdmap (int_string fd) fd scb) st)"

definition def_reg_find_scb :: "int \<Rightarrow> def_reg \<Rightarrow> nat option" where
  "def_reg_find_scb fd st =
     (case find_top_node DEF_NT_FDNODE (int_string fd) st of
        Some fddef \<Rightarrow> (case dptr fddef of Fdmap num fd' scb \<Rightarrow> Some scb | Ns_ptr ns \<Rightarrow> None)
      | None \<Rightarrow> None)"

definition def_reg_del_scb :: "int \<Rightarrow> def_reg \<Rightarrow> def_reg" where
  "def_reg_del_scb fd st = del_top_node DEF_NT_FDNODE (int_string fd) st"

section \<open>The registry contract\<close>

text \<open>
  What the callers rely on, for an abstract state, key and value: \<open>inv\<close> is the invariant every
  operation keeps and \<open>valid\<close> the keys that can be registered.
\<close>

locale registry =
  fixes find :: "'k \<Rightarrow> 's \<Rightarrow> 'v option"
    and add :: "'k \<Rightarrow> 'v \<Rightarrow> 's \<Rightarrow> status_t \<times> 's"
    and del :: "'k \<Rightarrow> 's \<Rightarrow> 's"
    and inv :: "'s \<Rightarrow> bool"
    and valid :: "'k \<Rightarrow> bool"
  assumes add_dup: "inv s \<Longrightarrow> find k s = Some v' \<Longrightarrow> add k v s = (ERR_NCX_DUP_ENTRY, s)"
    and add_ok: "inv s \<Longrightarrow> valid k \<Longrightarrow> find k s = None \<Longrightarrow> fst (add k v s) = NO_ERR"
    and find_add: "inv s \<Longrightarrow> valid k \<Longrightarrow> find k s = None \<Longrightarrow>
          find k' (snd (add k v s)) = (if k' = k then Some v else find k' s)"
    and find_del: "inv s \<Longrightarrow> valid k \<Longrightarrow> find k' (del k s) = (if k' = k then None else find k' s)"
    and inv_add: "inv s \<Longrightarrow> inv (snd (add k v s))"
    and inv_del: "inv s \<Longrightarrow> inv (del k s)"
begin

lemma add_found: "inv s \<Longrightarrow> valid k \<Longrightarrow> \<exists>v'. find k (snd (add k v s)) = Some v'"
  using add_dup [of s k] find_add [of s k k] by (cases "find k s") auto

lemma add_keeps: "inv s \<Longrightarrow> valid k \<Longrightarrow> find k' s = Some v' \<Longrightarrow> find k' (snd (add k v s)) = Some v'"
  using add_dup [of s k] find_add [of s k k'] by (cases "find k s") auto

lemma del_add: "inv s \<Longrightarrow> valid k \<Longrightarrow> find k s = None \<Longrightarrow> find k' (del k (snd (add k v s))) = find k' s"
  by (simp add: find_del find_add inv_add)

lemma add_again: "inv s \<Longrightarrow> valid k \<Longrightarrow> fst (add k v' (snd (add k v s))) = ERR_NCX_DUP_ENTRY"
  using add_found [of s k v] add_dup inv_add by (metis fst_conv)

definition add_all :: "('k \<times> 'v) list \<Rightarrow> 's \<Rightarrow> 's" where
  "add_all kvs s = fold (\<lambda>(k, v) s. snd (add k v s)) kvs s"

lemma add_all_find:
  "inv s \<Longrightarrow> list_all (\<lambda>(k, v). valid k) kvs \<Longrightarrow>
     find k' (add_all kvs s) = (case find k' s of Some v \<Rightarrow> Some v | None \<Rightarrow> map_of kvs k')"
proof (induction kvs arbitrary: s)
  case (Cons kv kvs)
  obtain k v where kv: "kv = (k, v)" by (cases kv)
  from Cons.prems have v: "valid k" "list_all (\<lambda>(k, v). valid k) kvs" by (simp_all add: kv)
  have IH: "find k' (add_all kvs (snd (add k v s))) =
      (case find k' (snd (add k v s)) of Some v \<Rightarrow> Some v | None \<Rightarrow> map_of kvs k')"
    using Cons.IH [OF inv_add [OF Cons.prems(1)] v(2)] .
  show ?case
  proof (cases "find k s")
    case None
    then show ?thesis
      using IH find_add [OF Cons.prems(1) v(1) None, of k' v]
      by (auto simp: kv add_all_def split: option.splits)
  next
    case (Some v')
    then show ?thesis
      using IH add_dup [OF Cons.prems(1) Some, of v]
      by (auto simp: kv add_all_def split: option.splits)
  qed
qed (simp add: add_all_def split: option.splits)

end

section \<open>Buckets\<close>

abbreviation node_id :: "def_topnode_t \<Rightarrow> def_nodetyp_t \<times> string" where
  "node_id n \<equiv> (nodetyp n, hdr_key n)"

lemma find_append:
  "List.find P (xs @ ys) = (case List.find P xs of None \<Rightarrow> List.find P ys | Some x \<Rightarrow> Some x)"
  by (induction xs) auto

lemma find_remove_first_other:
  "a \<noteq> b \<Longrightarrow> List.find (\<lambda>x. f x = b) (remove_first (\<lambda>x. f x = a) xs) = List.find (\<lambda>x. f x = b) xs"
  by (induction xs) auto

lemma find_remove_first_same:
  assumes "distinct (map f (filter V xs))" and "\<And>x. f x = a \<Longrightarrow> V x"
  shows "List.find (\<lambda>x. f x = a) (remove_first (\<lambda>x. f x = a) xs) = None"
  using assms(1)
proof (induction xs)
  case (Cons x xs)
  show ?case
  proof (cases "f x = a")
    case True
    then have "\<forall>y \<in> set xs. f y \<noteq> a"
      using Cons.prems assms(2) by (fastforce simp: image_iff)
    with True show ?thesis by (simp add: find_None_iff)
  next
    case False
    with Cons show ?thesis by (auto split: if_splits)
  qed
qed simp

lemma distinct_remove_first:
  "distinct (map f (filter V xs)) \<Longrightarrow> distinct (map f (filter V (remove_first P xs)))"
proof (induction xs)
  case (Cons x xs)
  have "set (remove_first P xs) \<subseteq> set xs" by (induction xs) auto
  then show ?case using Cons by auto
qed simp

lemma list_all_remove_first: "list_all Q xs \<Longrightarrow> list_all Q (remove_first P xs)"
  by (induction xs) auto

lemma remove_first_none: "\<forall>x \<in> set xs. \<not> P x \<Longrightarrow> remove_first P xs = xs"
  by (induction xs) auto

section \<open>The table as a finite map\<close>

text \<open>
  The invariant: no two nodes of a bucket have the same type and (non-empty) key, and the data pointer
  fits the type of the node.
\<close>

definition node_typed :: "def_topnode_t \<Rightarrow> bool" where
  "node_typed n \<longleftrightarrow> (nodetyp n = DEF_NT_NSNODE \<longrightarrow> is_Ns_ptr (dptr n)) \<and> (nodetyp n = DEF_NT_FDNODE \<longrightarrow> is_Fdmap (dptr n))"

definition reg_ok :: "def_reg \<Rightarrow> bool" where
  "reg_ok st \<longleftrightarrow>
     (\<forall>h. distinct (map node_id (filter (\<lambda>n. hdr_key n \<noteq> []) (topht st h))) \<and>
          list_all node_typed (topht st h))"

definition reg_map :: "def_nodetyp_t \<Rightarrow> string \<Rightarrow> def_reg \<Rightarrow> def_ptr option" where
  "reg_map nt k st = map_option dptr (find_top_node nt k st)"

lemma find_top_node_bucket:
  "k \<noteq> [] \<Longrightarrow> find_top_node nt k st = List.find (\<lambda>n. node_id n = (nt, k)) (topht st (unat (top_hash k)))"
  unfolding find_top_node_def find_top_node_h_def by (auto simp: Let_def intro!: arg_cong2 [of _ _ _ _ List.find])

lemma find_top_node_Nil: "find_top_node nt [] st = None"
  by (simp add: find_top_node_def find_top_node_h_def)

lemma find_top_node_h_eq:
  "find_top_node_h nt k 0 st = (find_top_node nt k st, if k = [] then 0 else top_hash k)"
  by (simp add: find_top_node_def find_top_node_h_def Let_def)

lemma find_top_node_typed:
  "reg_ok st \<Longrightarrow> find_top_node nt k st = Some n \<Longrightarrow> node_typed n \<and> nodetyp n = nt"
  using find_top_node_bucket [of k nt st]
  by (cases "k = []") (auto simp: find_top_node_Nil find_Some_iff reg_ok_def list_all_length)

lemma add_top_node_eq:
  "add_top_node mem nt k p st =
     (if find_top_node nt k st \<noteq> None then (ERR_NCX_DUP_ENTRY, st)
      else if \<not> mem then (ERR_INTERNAL_MEM, st)
      else (NO_ERR, st\<lparr>topht := (topht st)(unat (if k = [] then 0 else top_hash k) :=
              topht st (unat (if k = [] then 0 else top_hash k)) @ [\<lparr>nodetyp = nt, hdr_key = k, dptr = p\<rparr>])\<rparr>))"
  by (simp add: add_top_node_def find_top_node_h_eq Let_def)

lemma find_add_top_node:
  assumes "k \<noteq> []" "find_top_node nt k st = None"
  shows "find_top_node nt' k' (snd (add_top_node True nt k p st)) =
    (if nt' = nt \<and> k' = k then Some \<lparr>nodetyp = nt, hdr_key = k, dptr = p\<rparr> else find_top_node nt' k' st)"
  using assms
  by (cases "k' = []")
    (auto simp: add_top_node_eq find_top_node_Nil find_top_node_bucket find_append split: option.splits)

lemma del_top_node_eq:
  "k \<noteq> [] \<Longrightarrow> topht (del_top_node nt k st) =
     (topht st)(unat (top_hash k) := remove_first (\<lambda>n. node_id n = (nt, k)) (topht st (unat (top_hash k))))"
proof -
  assume k: "k \<noteq> []"
  have e: "(\<lambda>hdr. nodetyp hdr = nt \<and> k = hdr_key hdr) = (\<lambda>n. node_id n = (nt, k))" by auto
  show ?thesis
  proof (cases "find_top_node nt k st")
    case None
    then have "\<forall>n \<in> set (topht st (unat (top_hash k))). node_id n \<noteq> (nt, k)"
      using k by (auto simp: find_top_node_bucket find_None_iff)
    then have "remove_first (\<lambda>n. node_id n = (nt, k)) (topht st (unat (top_hash k))) = topht st (unat (top_hash k))"
      by (rule remove_first_none)
    with None k show ?thesis by (simp add: del_top_node_def find_top_node_h_eq)
  next
    case (Some n)
    with k show ?thesis by (simp add: del_top_node_def find_top_node_h_eq e)
  qed
qed

lemma find_del_top_node:
  assumes "reg_ok st" "k \<noteq> []"
  shows "find_top_node nt' k' (del_top_node nt k st) =
    (if nt' = nt \<and> k' = k then None else find_top_node nt' k' st)"
proof (cases "k' = []")
  case False
  let ?xs = "topht st (unat (top_hash k))"
  have d: "distinct (map node_id (filter (\<lambda>n. hdr_key n \<noteq> []) ?xs))"
    using assms(1) by (simp add: reg_ok_def)
  have same: "List.find (\<lambda>n. node_id n = (nt, k)) (remove_first (\<lambda>n. node_id n = (nt, k)) ?xs) = None"
    by (rule find_remove_first_same [OF d]) (use assms(2) in auto)
  have other: "(nt, k) \<noteq> (nt', k') \<Longrightarrow>
      List.find (\<lambda>n. node_id n = (nt', k')) (remove_first (\<lambda>n. node_id n = (nt, k)) ?xs) =
      List.find (\<lambda>n. node_id n = (nt', k')) ?xs"
    by (rule find_remove_first_other)
  show ?thesis
    using assms(2) False same other
    by (auto simp: find_top_node_bucket del_top_node_eq simp del: prod.inject)
next
  case True
  with assms(2) show ?thesis by (auto simp: find_top_node_Nil)
qed

lemma reg_ok_add:
  assumes "reg_ok st" and "node_typed \<lparr>nodetyp = nt, hdr_key = k, dptr = p\<rparr>"
  shows "reg_ok (snd (add_top_node mem nt k p st))"
proof (cases "find_top_node nt k st = None \<and> k \<noteq> []")
  case True
  then have "(nt, k) \<notin> node_id ` set (topht st (unat (top_hash k)))"
    by (auto simp: find_top_node_bucket find_None_iff)
  with assms True show ?thesis
    by (auto simp: add_top_node_eq reg_ok_def)
next
  case False
  with assms show ?thesis by (auto simp: add_top_node_eq reg_ok_def)
qed

lemma reg_ok_del: "reg_ok st \<Longrightarrow> k \<noteq> [] \<Longrightarrow> reg_ok (del_top_node nt k st)"
  by (simp add: reg_ok_def del_top_node_eq distinct_remove_first list_all_remove_first)

section \<open>The two registries\<close>

lemma node_typed_new:
  "node_typed \<lparr>nodetyp = DEF_NT_NSNODE, hdr_key = k, dptr = Ns_ptr ns\<rparr>"
  "node_typed \<lparr>nodetyp = DEF_NT_FDNODE, hdr_key = k, dptr = Fdmap num fd scb\<rparr>"
  by (simp_all add: node_typed_def)

lemma find_ns_None:
  "reg_ok st \<Longrightarrow> def_reg_find_ns k st = None \<longleftrightarrow> find_top_node DEF_NT_NSNODE k st = None"
  using find_top_node_typed [of st DEF_NT_NSNODE k]
  by (auto simp: def_reg_find_ns_def node_typed_def is_Ns_ptr_def split: option.splits)

lemma find_scb_None:
  "reg_ok st \<Longrightarrow> def_reg_find_scb fd st = None \<longleftrightarrow> find_top_node DEF_NT_FDNODE (int_string fd) st = None"
  using find_top_node_typed [of st DEF_NT_FDNODE "int_string fd"]
  by (auto simp: def_reg_find_scb_def node_typed_def is_Fdmap_def split: option.splits)

interpretation nsreg: registry def_reg_find_ns "def_reg_add_ns True" def_reg_del_ns reg_ok "\<lambda>k. k \<noteq> []"
proof
  fix st :: def_reg and k k' v v'
  assume ok: "reg_ok st"
  show "reg_ok (snd (def_reg_add_ns True k v st))"
    using ok by (simp add: def_reg_add_ns_def reg_ok_add node_typed_new)
  show "reg_ok (def_reg_del_ns k st)"
    using ok reg_ok_del by (cases "k = []")
      (simp_all add: def_reg_del_ns_def del_top_node_def find_top_node_h_def)
  show "def_reg_add_ns True k v st = (ERR_NCX_DUP_ENTRY, st)" if "def_reg_find_ns k st = Some v'"
  proof -
    from that have "find_top_node DEF_NT_NSNODE k st \<noteq> None"
      using find_ns_None [OF ok] by (metis option.distinct(1))
    then show ?thesis by (simp add: def_reg_add_ns_def add_top_node_eq)
  qed
  assume k: "k \<noteq> []"
  show "def_reg_find_ns k' (def_reg_del_ns k st) = (if k' = k then None else def_reg_find_ns k' st)"
    using ok k by (simp add: def_reg_find_ns_def def_reg_del_ns_def find_del_top_node)
  assume new: "def_reg_find_ns k st = None"
  then show "fst (def_reg_add_ns True k v st) = NO_ERR"
    using ok by (simp add: find_ns_None def_reg_add_ns_def add_top_node_eq)
  show "def_reg_find_ns k' (snd (def_reg_add_ns True k v st)) =
      (if k' = k then Some v else def_reg_find_ns k' st)"
    using ok k new by (simp add: find_ns_None) (simp add: def_reg_find_ns_def def_reg_add_ns_def find_add_top_node)
qed

interpretation fdreg: registry def_reg_find_scb "def_reg_add_scb True True" def_reg_del_scb reg_ok "\<lambda>_. True"
proof
  fix st :: def_reg and k k' v v'
  assume ok: "reg_ok st"
  note ne = int_string_neq_Nil [of k]
  show "reg_ok (snd (def_reg_add_scb True True k v st))"
    using ok by (simp add: def_reg_add_scb_def reg_ok_add node_typed_new)
  show "reg_ok (def_reg_del_scb k st)"
    using ok ne by (simp add: def_reg_del_scb_def reg_ok_del)
  show "def_reg_add_scb True True k v st = (ERR_NCX_DUP_ENTRY, st)" if "def_reg_find_scb k st = Some v'"
  proof -
    from that have "find_top_node DEF_NT_FDNODE (int_string k) st \<noteq> None"
      using find_scb_None [OF ok] by (metis option.distinct(1))
    then show ?thesis by (simp add: def_reg_add_scb_def add_top_node_eq)
  qed
  show "def_reg_find_scb k' (def_reg_del_scb k st) = (if k' = k then None else def_reg_find_scb k' st)"
    using ok ne by (simp add: def_reg_find_scb_def def_reg_del_scb_def find_del_top_node int_string_inj)
  assume new: "def_reg_find_scb k st = None"
  then show "fst (def_reg_add_scb True True k v st) = NO_ERR"
    using ok by (simp add: find_scb_None def_reg_add_scb_def add_top_node_eq)
  show "def_reg_find_scb k' (snd (def_reg_add_scb True True k v st)) =
      (if k' = k then Some v else def_reg_find_scb k' st)"
    using ok ne new by (simp add: find_scb_None)
      (simp add: def_reg_find_scb_def def_reg_add_scb_def find_add_top_node int_string_inj)
qed

lemma reg_ok_init: "\<not> def_reg_init_done st \<Longrightarrow> (\<forall>i \<ge> 256. topht st i = []) \<Longrightarrow> reg_ok (def_reg_init st)"
  by (simp add: reg_ok_def def_reg_init_def)

lemma find_init: "\<not> def_reg_init_done st \<Longrightarrow> (\<forall>i \<ge> 256. topht st i = []) \<Longrightarrow> find_top_node nt k (def_reg_init st) = None"
  by (simp add: find_top_node_def find_top_node_h_def def_reg_init_def Let_def not_less)

section \<open>Properties\<close>

text \<open>
  C35: the hash table implements a finite map.  After any sequence of registrations in a
  registry that satisfies the invariant, a namespace URI is found exactly when it was there before or
  was registered, with the record of its first registration: collisions of the hash function and
  later attempts to register the same URI change nothing.
\<close>
theorem def_reg_implements_map:
  assumes "reg_ok st" and "\<forall>kv \<in> set kvs. fst kv \<noteq> []"
  shows "def_reg_find_ns k (fold (\<lambda>(k, v) s. snd (def_reg_add_ns True k v s)) kvs st) =
    (case def_reg_find_ns k st of Some v \<Rightarrow> Some v | None \<Rightarrow> map_of kvs k)"
  using assms by (intro nsreg.add_all_find [unfolded nsreg.add_all_def]) (auto simp: list_all_iff)

theorem def_reg_implements_map_witness:
  "def_reg_find_ns ''urn:a'' (fold (\<lambda>(k, v) s. snd (def_reg_add_ns True k v s))
      [(''urn:b'', 4), (''urn:a'', 1), (''urn:a'', 7)]
      (def_reg_init \<lparr>topht = (\<lambda>_. []), def_reg_init_done = False\<rparr>)) = Some 1"
proof -
  let ?st = "def_reg_init \<lparr>topht = (\<lambda>_. []), def_reg_init_done = False\<rparr>"
  have ok: "reg_ok ?st" by (simp add: reg_ok_init)
  have "def_reg_find_ns ''urn:a'' ?st = None" using ok by (simp add: find_ns_None find_init)
  then show ?thesis
    using def_reg_implements_map [OF ok, of "[(''urn:b'', 4), (''urn:a'', 1), (''urn:a'', 7)]" "''urn:a''"]
    by simp
qed

text \<open>
  registering a session control block for a file descriptor makes exactly this
  descriptor resolve to it, deleting the entry restores every lookup, and neither touches the
  namespace entries in the same table.
\<close>
theorem def_reg_scb_roundtrip:
  fixes fd fd' :: int and scb :: nat
  assumes "reg_ok st" and "def_reg_find_scb fd st = None"
  defines "st' \<equiv> snd (def_reg_add_scb True True fd scb st)"
  shows "def_reg_find_scb fd' st' = (if fd' = fd then Some scb else def_reg_find_scb fd' st) \<and>
    def_reg_find_scb fd' (def_reg_del_scb fd st') = def_reg_find_scb fd' st \<and>
    def_reg_find_ns ns st' = def_reg_find_ns ns st \<and> reg_ok st'"
proof (intro conjI)
  show "def_reg_find_scb fd' st' = (if fd' = fd then Some scb else def_reg_find_scb fd' st)"
    unfolding st'_def by (rule fdreg.find_add [OF assms(1) TrueI assms(2)])
  show "def_reg_find_scb fd' (def_reg_del_scb fd st') = def_reg_find_scb fd' st"
    unfolding st'_def by (rule fdreg.del_add [OF assms(1) TrueI assms(2)])
  show "reg_ok st'" unfolding st'_def by (rule fdreg.inv_add [OF assms(1)])
  show "def_reg_find_ns ns st' = def_reg_find_ns ns st"
    using assms int_string_neq_Nil [of fd]
    by (simp add: find_scb_None) (simp add: def_reg_find_ns_def st'_def def_reg_add_scb_def find_add_top_node)
qed

theorem def_reg_scb_roundtrip_witness:
  "def_reg_find_scb 5 (snd (def_reg_add_scb True True 5 77
      (def_reg_init \<lparr>topht = (\<lambda>_. []), def_reg_init_done = False\<rparr>))) = Some 77"
proof -
  let ?st = "def_reg_init \<lparr>topht = (\<lambda>_. []), def_reg_init_done = False\<rparr>"
  have ok: "reg_ok ?st" by (simp add: reg_ok_init)
  have "def_reg_find_scb 5 ?st = None" using ok by (simp add: find_scb_None find_init)
  from def_reg_scb_roundtrip [OF ok this, where scb = 77 and fd' = 5] show ?thesis by simp
qed

text \<open>
  an entry with an empty key is accepted any number of times, because the search
  returns without a result for it, and can be found or deleted by no later call.
\<close>
theorem def_reg_empty_key:
  "fst (def_reg_add_ns True [] ns st) = NO_ERR \<and> def_reg_find_ns [] st' = None \<and> def_reg_del_ns [] st' = st'"
  by (simp add: def_reg_add_ns_def add_top_node_def def_reg_find_ns_def find_top_node_def
      find_top_node_h_def def_reg_del_ns_def del_top_node_def)

end
