(* ===== verification/Xml_Util.thy ===== *)
theory Xml_Util
  imports Yuma_Prelude
begin

text \<open>
  The string comparisons of \<^verbatim>\<open>netconf/src/ncx/xml_util.c\<close>.  A NUL-terminated string is the list of its
  characters before the NUL, so the end of the list is where the code reads the NUL.  The other
  theories use equality of strings for \<^verbatim>\<open>!xml_strcmp(a, b)\<close>; \<open>xml_strcmp_eq\<close> justifies it.
\<close>

section \<open>Definitions\<close>

abbreviation xchar :: "char \<Rightarrow> nat" where
  "xchar c \<equiv> of_char c"

fun xml_strcmp :: "string \<Rightarrow> string \<Rightarrow> int" where
  "xml_strcmp [] [] = 0"
| "xml_strcmp [] (b # bs) = -1"
| "xml_strcmp (a # as) [] = 1"
| "xml_strcmp (a # as) (b # bs) =
     (if xchar a < xchar b then -1 else if xchar a > xchar b then 1 else xml_strcmp as bs)"

fun xml_strncmp :: "string \<Rightarrow> string \<Rightarrow> nat \<Rightarrow> int" where
  "xml_strncmp s1 s2 0 = 0"
| "xml_strncmp [] [] (Suc n) = 0"
| "xml_strncmp [] (b # bs) (Suc n) = -1"
| "xml_strncmp (a # as) [] (Suc n) = 1"
| "xml_strncmp (a # as) (b # bs) (Suc n) =
     (if xchar a < xchar b then -1 else if xchar a > xchar b then 1 else xml_strncmp as bs n)"

text \<open>\<^verbatim>\<open>tolower\<close> in the C locale.\<close>

definition tolower :: "char \<Rightarrow> char" where
  "tolower c = (if 65 \<le> xchar c \<and> xchar c \<le> 90 then char_of (xchar c + 32) else c)"

fun xml_stricmp :: "string \<Rightarrow> string \<Rightarrow> int" where
  "xml_stricmp [] [] = 0"
| "xml_stricmp [] (b # bs) = -1"
| "xml_stricmp (a # as) [] = 1"
| "xml_stricmp (a # as) (b # bs) =
     (if xchar (tolower a) < xchar (tolower b) then -1
      else if xchar (tolower a) > xchar (tolower b) then 1
      else xml_stricmp as bs)"

fun xml_strnicmp :: "string \<Rightarrow> string \<Rightarrow> nat \<Rightarrow> int" where
  "xml_strnicmp s1 s2 0 = 0"
| "xml_strnicmp [] [] (Suc n) = 0"
| "xml_strnicmp [] (b # bs) (Suc n) = -1"
| "xml_strnicmp (a # as) [] (Suc n) = 1"
| "xml_strnicmp (a # as) (b # bs) (Suc n) =
     (if xchar (tolower a) < xchar (tolower b) then -1
      else if xchar (tolower a) > xchar (tolower b) then 1
      else xml_strnicmp as bs n)"

section \<open>Comparison of strings is a linear order\<close>

lemma xml_strcmp_range: "xml_strcmp s t \<in> {-1, 0, 1}"
  by (induction s t rule: xml_strcmp.induct) auto

lemma xchar_eq: "xchar a = xchar b \<longleftrightarrow> a = b"
  by simp

lemma xml_strcmp_eq: "xml_strcmp s t = 0 \<longleftrightarrow> s = t"
proof (induction s t rule: xml_strcmp.induct)
  case (4 a as b bs)
  show ?case
  proof (cases "xchar a < xchar b \<or> xchar b < xchar a")
    case True
    then have "a \<noteq> b" by auto
    with True show ?thesis by simp
  next
    case False
    then have "xchar a = xchar b" by linarith
    then have "a = b" unfolding xchar_eq .
    with 4 show ?thesis by simp
  qed
qed simp_all

lemma xml_strcmp_swap: "xml_strcmp t s = - xml_strcmp s t"
  by (induction s t rule: xml_strcmp.induct) auto

lemma xml_strcmp_Cons_le:
  "xml_strcmp (a # as) (b # bs) \<le> 0 \<longleftrightarrow>
     xchar a < xchar b \<or> (xchar a = xchar b \<and> xml_strcmp as bs \<le> 0)"
  by (simp del: of_char_eq_iff)

lemma xml_strcmp_trans: "xml_strcmp s t \<le> 0 \<Longrightarrow> xml_strcmp t u \<le> 0 \<Longrightarrow> xml_strcmp s u \<le> 0"
proof (induction s t arbitrary: u rule: xml_strcmp.induct)
  case (4 a as b bs)
  show ?case
  proof (cases u)
    case (Cons c cs)
    have IH: "xchar a = xchar b \<Longrightarrow> xml_strcmp as bs \<le> 0 \<Longrightarrow> xml_strcmp bs cs \<le> 0 \<Longrightarrow> xml_strcmp as cs \<le> 0"
      by (rule "4.IH") simp_all
    from "4.prems" IH show ?thesis
      unfolding Cons xml_strcmp_Cons_le by (elim disjE conjE) (simp_all del: of_char_eq_iff)
  qed (use "4.prems" in simp)
next
  case (2 b bs)
  then show ?case by (cases u) simp_all
qed simp_all

lemma xml_strncmp_take: "xml_strncmp s t n = xml_strcmp (take n s) (take n t)"
  by (induction s t n rule: xml_strncmp.induct) auto

lemma xml_stricmp_map: "xml_stricmp s t = xml_strcmp (map tolower s) (map tolower t)"
  by (induction s t rule: xml_stricmp.induct) auto

lemma xml_strnicmp_take: "xml_strnicmp s t n = xml_stricmp (take n s) (take n t)"
  by (induction s t n rule: xml_strnicmp.induct) auto

section \<open>Properties\<close>

text \<open>
  \<^verbatim>\<open>xml_strcmp\<close> decides a linear order: it is zero exactly on equal strings, changes sign
  when its arguments are exchanged and is transitive; the bounded and the case-insensitive comparisons
  are the same order on prefixes and on lower-case strings.
\<close>
theorem xml_strcmp_linorder:
  "(xml_strcmp s t = 0) = (s = t) \<and> xml_strcmp t s = - xml_strcmp s t \<and>
   \<not> (xml_strcmp s t \<le> 0 \<and> xml_strcmp t u \<le> 0 \<and> xml_strcmp s u > 0) \<and>
   xml_strncmp s t n = xml_strcmp (take n s) (take n t) \<and>
   xml_strnicmp s t n = xml_strcmp (map tolower (take n s)) (map tolower (take n t))"
  using xml_strcmp_trans [of s t u]
  by (auto simp: xml_strcmp_eq xml_strcmp_swap [of t s] xml_strncmp_take xml_strnicmp_take xml_stricmp_map)

end
