(* ===== verification/Xmlns.thy ===== *)
theory Xmlns
  imports Def_Reg Xml_Util
begin

text \<open>
  The namespace registry of \<^verbatim>\<open>netconf/src/ncx/xmlns.c\<close>: an array of records indexed by namespace ID minus
  one, the next ID to allocate, the cached IDs of the well-known namespaces, and the definition
  registry that finds a record by its URI.  The address of a record, which the definition registry
  stores, is the array index the record is stored at.
\<close>

section \<open>State\<close>

record xmlns_t =
  ns_id :: u32
  ns_pfix :: string
  ns_name :: string
  ns_module :: string
  ns_mod :: "nat option"

text \<open>The cached IDs are those of the twelve static variables \<^verbatim>\<open>xmlns_invid\<close>, \<^verbatim>\<open>xmlns_ncid\<close>, ...\<close>

datatype cached_ns = Inv | Nc | Ns | Xs | Ncx | Xsi | Xml | Ncn | Yang | Yin | Wildcard | Wda

record xmlns_db =
  xmlns :: "nat \<Rightarrow> xmlns_t option"
  cached :: "cached_ns \<Rightarrow> u32"
  xmlns_next_id :: u32
  xmlns_init_done :: bool
  defs :: def_reg

definition XMLNS_MAX_NS :: u32 where "XMLNS_MAX_NS = 4096"
definition XMLNS_NULL_NS_ID :: u32 where "XMLNS_NULL_NS_ID = 0"

definition valid_id :: "xmlns_db \<Rightarrow> u32 \<Rightarrow> bool" where
  "valid_id db i \<longleftrightarrow> i \<noteq> 0 \<and> i \<le> XMLNS_MAX_NS \<and>
     (case xmlns db (unat (i - 1)) of Some rec \<Rightarrow> ns_id rec = i | None \<Rightarrow> False)"

section \<open>Initialisation\<close>

definition init_xmlns_static_vars :: "xmlns_db \<Rightarrow> xmlns_db" where
  "init_xmlns_static_vars db = db\<lparr>xmlns := (\<lambda>i. if i < unat XMLNS_MAX_NS then None else xmlns db i),
     cached := (\<lambda>_. 0), xmlns_next_id := 1, xmlns_init_done := False\<rparr>"

definition xmlns_init :: "xmlns_db \<Rightarrow> xmlns_db" where
  "xmlns_init db =
     (if \<not> xmlns_init_done db then (init_xmlns_static_vars db)\<lparr>xmlns_init_done := True\<rparr> else db)"

definition xmlns_cleanup :: "xmlns_db \<Rightarrow> xmlns_db" where
  "xmlns_cleanup db =
     (if xmlns_init_done db
      then init_xmlns_static_vars
             (db\<lparr>xmlns := (\<lambda>i. if i < unat (xmlns_next_id db - 1) then None else xmlns db i)\<rparr>)
      else db)"

section \<open>Lookup\<close>

definition xmlns_find_ns_by_name :: "xmlns_db \<Rightarrow> string \<Rightarrow> u32" where
  "xmlns_find_ns_by_name db name =
     (case def_reg_find_ns name (defs db) of
        Some a \<Rightarrow> (case xmlns db a of Some ns \<Rightarrow> ns_id ns | None \<Rightarrow> XMLNS_NULL_NS_ID)
      | None \<Rightarrow> XMLNS_NULL_NS_ID)"

text \<open>The loops over the array read the records at the indexes below \<open>xmlns_next_id - 1\<close>.\<close>

definition xmlns_entries :: "xmlns_db \<Rightarrow> xmlns_t list" where
  "xmlns_entries db = List.map_filter (xmlns db) [0..<unat (xmlns_next_id db - 1)]"

definition first_id :: "xmlns_t option \<Rightarrow> u32" where
  "first_id r = (case r of Some rec \<Rightarrow> ns_id rec | None \<Rightarrow> XMLNS_NULL_NS_ID)"

definition xmlns_find_ns_by_module :: "xmlns_db \<Rightarrow> string \<Rightarrow> u32" where
  "xmlns_find_ns_by_module db modname =
     first_id (List.find (\<lambda>rec. ns_module rec = modname) (xmlns_entries db))"

definition xmlns_find_ns_by_prefix :: "xmlns_db \<Rightarrow> string \<Rightarrow> u32" where
  "xmlns_find_ns_by_prefix db pfix =
     first_id (List.find (\<lambda>rec. ns_pfix rec \<noteq> [] \<and> ns_pfix rec = pfix) (xmlns_entries db))"

definition xmlns_find_ns_by_name_str :: "xmlns_db \<Rightarrow> string \<Rightarrow> nat \<Rightarrow> u32" where
  "xmlns_find_ns_by_name_str db name namelen =
     (if namelen = 0 then XMLNS_NULL_NS_ID
      else first_id (List.find (\<lambda>ns. xml_strncmp (ns_name ns) name namelen = 0) (xmlns_entries db)))"

definition xmlns_get_ns_prefix :: "xmlns_db \<Rightarrow> u32 \<Rightarrow> string" where
  "xmlns_get_ns_prefix db i =
     (if \<not> valid_id db i then ''--'' else ns_pfix (the (xmlns db (unat (i - 1)))))"

definition xmlns_get_ns_name :: "xmlns_db \<Rightarrow> u32 \<Rightarrow> string option" where
  "xmlns_get_ns_name db i =
     (if \<not> valid_id db i then None else map_option ns_name (xmlns db (unat (i - 1))))"

text \<open>The two readers that initialise the module when it is not yet: they return the new state too.\<close>

definition xmlns_get_module :: "xmlns_db \<Rightarrow> u32 \<Rightarrow> string option \<times> xmlns_db" where
  "xmlns_get_module db i =
     (if \<not> xmlns_init_done db then (None, xmlns_init db)
      else if \<not> valid_id db i then (None, db)
      else (map_option ns_module (xmlns db (unat (i - 1))), db))"

definition xmlns_get_modptr :: "xmlns_db \<Rightarrow> u32 \<Rightarrow> nat option \<times> xmlns_db" where
  "xmlns_get_modptr db i =
     (if \<not> xmlns_init_done db then (None, xmlns_init db)
      else if \<not> valid_id db i then (None, db)
      else (Option.bind (xmlns db (unat (i - 1))) ns_mod, db))"

definition xmlns_set_modptrs :: "string \<Rightarrow> nat option \<Rightarrow> xmlns_db \<Rightarrow> xmlns_db" where
  "xmlns_set_modptrs modname modptr db =
     (if \<not> xmlns_init_done db then xmlns_init db
      else db\<lparr>xmlns := (\<lambda>i. if i < unat (xmlns_next_id db - 1)
            then map_option (\<lambda>rec. if ns_module rec = modname then rec\<lparr>ns_mod := modptr\<rparr> else rec) (xmlns db i)
            else xmlns db i)\<rparr>)"

definition xmlns_ids_equal :: "u32 \<Rightarrow> u32 \<Rightarrow> bool" where
  "xmlns_ids_equal ns1 ns2 = (if ns1 \<noteq> 0 \<and> ns2 \<noteq> 0 then ns1 = ns2 else True)"

section \<open>Registration\<close>

definition cached_of_urn :: "string \<Rightarrow> cached_ns option" where
  "cached_of_urn ns =
     (if ns = ''urn:ietf:params:xml:ns:netconf:base:1.0'' then Some Nc
      else if ns = ''http://netconfcentral.org/ns/yuma-ncx'' then Some Ncx
      else if ns = ''http://www.w3.org/2000/xmlns/'' then Some Ns
      else if ns = ''http://www.w3.org/2001/XMLSchema'' then Some Xs
      else if ns = ''INVALID'' then Some Inv
      else if ns = ''http://www.w3.org/2001/XMLSchema-instance'' then Some Xsi
      else if ns = ''http://www.w3.org/XML/1998/namespace'' then Some Xml
      else if ns = ''urn:ietf:params:xml:ns:netconf:notification:1.0'' then Some Ncn
      else if ns = ''urn:ietf:params:xml:ns:yang:1'' then Some Yang
      else if ns = ''urn:ietf:params:xml:ns:yang:yin:1'' then Some Yin
      else if ns = [] then Some Wildcard
      else if ns = ''urn:ietf:params:xml:ns:netconf:default:1.0'' then Some Wda
      else None)"

text \<open>
  \<open>mem\<close>: the record and its three strings are allocated; \<open>mem2\<close>: the node of the definition registry is.
  The second component is \<open>*ns_id\<close> when it is set.
\<close>

definition xmlns_register_ns ::
    "bool \<Rightarrow> bool \<Rightarrow> string \<Rightarrow> string option \<Rightarrow> string \<Rightarrow> nat option \<Rightarrow> xmlns_db \<Rightarrow>
     status_t \<times> u32 option \<times> xmlns_db" where
  "xmlns_register_ns mem mem2 ns pfix modname modptr db =
     (let next = xmlns_next_id db;
          pfix = (case pfix of Some p \<Rightarrow> p | None \<Rightarrow> CHR ''n'' # int_string (sint next))
      in if modname = [] \<or> pfix = [] then (ERR_NCX_WRONG_LEN, None, db)
         else if next = 0 \<or> next > XMLNS_MAX_NS then (ERR_TOO_MANY_ENTRIES, None, db)
         else if xmlns_find_ns_by_name db ns \<noteq> 0 then (ERR_DUP_NS, None, db)
         else if \<not> mem then (ERR_INTERNAL_MEM, None, db)
         else (let rec = \<lparr>ns_id = next, ns_pfix = pfix, ns_name = ns, ns_module = modname, ns_mod = modptr\<rparr>;
                   (res, defs') = def_reg_add_ns mem2 ns (unat (next - 1)) (defs db)
               in if res \<noteq> NO_ERR then (res, None, db\<lparr>defs := defs'\<rparr>)
                  else (NO_ERR, Some next,
                        db\<lparr>defs := defs',
                           xmlns := (xmlns db)(unat (next - 1) := Some rec),
                           cached := (case cached_of_urn ns of
                                        Some c \<Rightarrow> (cached db)(c := next) | None \<Rightarrow> cached db),
                           xmlns_next_id := next + 1\<rparr>)))"

section \<open>The invariant\<close>

text \<open>
  IDs are dense: the record at index \<open>i\<close> has the ID \<open>i + 1\<close>, and exactly the indexes below
  \<open>xmlns_next_id - 1\<close> are in use.  The definition registry finds exactly the records with a non-empty
  URI.
\<close>

definition xmlns_ok :: "xmlns_db \<Rightarrow> bool" where
  "xmlns_ok db \<longleftrightarrow>
     xmlns_init_done db \<and> xmlns_next_id db \<noteq> 0 \<and> xmlns_next_id db \<le> XMLNS_MAX_NS + 1 \<and>
     (\<forall>i. case xmlns db i of
            None \<Rightarrow> unat (xmlns_next_id db) \<le> Suc i
          | Some r \<Rightarrow> Suc i < unat (xmlns_next_id db) \<and> unat (ns_id r) = Suc i) \<and>
     reg_ok (defs db) \<and>
     (\<forall>name a. name \<noteq> [] \<longrightarrow>
        (def_reg_find_ns name (defs db) = Some a) = (\<exists>r. xmlns db a = Some r \<and> ns_name r = name))"

lemma unat_pred: "(n :: u32) \<noteq> 0 \<Longrightarrow> unat (n - 1) = unat n - 1"
  by (simp add: unat_minus_one)

lemma unat_next: "(n :: u32) \<noteq> 0 \<Longrightarrow> n \<le> XMLNS_MAX_NS \<Longrightarrow> unat (n + 1) = Suc (unat n)"
  by (simp add: XMLNS_MAX_NS_def word_le_nat_alt unat_word_ariths)

lemma find_ns_Nil: "def_reg_find_ns [] st = None"
  by (simp add: def_reg_find_ns_def find_top_node_Nil)

lemma xmlns_ok_slot:
  "xmlns_ok db \<Longrightarrow> xmlns db i = Some r \<Longrightarrow> Suc i < unat (xmlns_next_id db) \<and> unat (ns_id r) = Suc i"
  unfolding xmlns_ok_def by (metis (mono_tags, lifting) option.simps(5))

lemma xmlns_ok_free: "xmlns_ok db \<Longrightarrow> xmlns db i = None \<longleftrightarrow> unat (xmlns_next_id db) \<le> Suc i"
proof -
  assume "xmlns_ok db"
  then have "case xmlns db i of None \<Rightarrow> unat (xmlns_next_id db) \<le> Suc i
      | Some r \<Rightarrow> Suc i < unat (xmlns_next_id db) \<and> unat (ns_id r) = Suc i"
    by (simp add: xmlns_ok_def)
  then show ?thesis by (cases "xmlns db i") simp_all
qed

lemma xmlns_ok_find:
  "xmlns_ok db \<Longrightarrow> def_reg_find_ns name (defs db) = Some a \<longleftrightarrow>
     name \<noteq> [] \<and> (\<exists>r. xmlns db a = Some r \<and> ns_name r = name)"
  by (cases "name = []") (simp_all add: find_ns_Nil xmlns_ok_def)

lemma valid_id_iff:
  "xmlns_ok db \<Longrightarrow> valid_id db i \<longleftrightarrow> i \<noteq> 0 \<and> unat i < unat (xmlns_next_id db)"
proof -
  assume ok: "xmlns_ok db"
  have le: "unat (xmlns_next_id db) \<le> 4097"
    using ok by (simp add: xmlns_ok_def XMLNS_MAX_NS_def word_le_nat_alt)
  show ?thesis
  proof (cases "i = 0")
    case False
    then have p: "Suc (unat (i - 1)) = unat i" by (simp add: unat_pred unat_gt_0)
    show ?thesis
    proof (cases "xmlns db (unat (i - 1))")
      case None
      then show ?thesis using xmlns_ok_free [OF ok, of "unat (i - 1)"] p by (simp add: valid_id_def)
    next
      case (Some r)
      then show ?thesis using xmlns_ok_slot [OF ok Some] p le False
        by (simp add: valid_id_def XMLNS_MAX_NS_def word_le_nat_alt word_unat_eq_iff)
    qed
  qed (simp add: valid_id_def)
qed

lemma valid_id_record:
  assumes "xmlns_ok db" "valid_id db i"
  obtains r where "xmlns db (unat (i - 1)) = Some r" "ns_id r = i"
  using assms(2) by (auto simp: valid_id_def split: option.splits)

lemma find_by_name_iff:
  assumes ok: "xmlns_ok db" and "i \<noteq> 0"
  shows "xmlns_find_ns_by_name db name = i \<longleftrightarrow> valid_id db i \<and> name \<noteq> [] \<and> xmlns_get_ns_name db i = Some name"
proof
  assume "xmlns_find_ns_by_name db name = i"
  then obtain a r where a: "def_reg_find_ns name (defs db) = Some a" "xmlns db a = Some r" "ns_id r = i"
    using assms(2) by (auto simp: xmlns_find_ns_by_name_def XMLNS_NULL_NS_ID_def split: option.splits)
  with xmlns_ok_slot [OF ok a(2)] have "unat i = Suc a" "Suc a < unat (xmlns_next_id db)" by simp_all
  moreover from this have "unat (i - 1) = a" using assms(2) by (simp add: unat_pred)
  ultimately show "valid_id db i \<and> name \<noteq> [] \<and> xmlns_get_ns_name db i = Some name"
    using a assms(2) by (auto simp: valid_id_iff [OF ok] xmlns_get_ns_name_def xmlns_ok_find [OF ok])
next
  assume v: "valid_id db i \<and> name \<noteq> [] \<and> xmlns_get_ns_name db i = Some name"
  then obtain r where r: "xmlns db (unat (i - 1)) = Some r" "ns_id r = i"
    using valid_id_record [OF ok] by blast
  with v have "ns_name r = name" by (auto simp: xmlns_get_ns_name_def)
  with r v have "def_reg_find_ns name (defs db) = Some (unat (i - 1))" by (simp add: xmlns_ok_find [OF ok])
  with r show "xmlns_find_ns_by_name db name = i" by (simp add: xmlns_find_ns_by_name_def)
qed

lemma find_by_name_0:
  assumes ok: "xmlns_ok db"
  shows "xmlns_find_ns_by_name db name = 0 \<longleftrightarrow> def_reg_find_ns name (defs db) = None"
proof
  assume z: "xmlns_find_ns_by_name db name = 0"
  show "def_reg_find_ns name (defs db) = None"
  proof (rule ccontr)
    assume "def_reg_find_ns name (defs db) \<noteq> None"
    then obtain a where a: "def_reg_find_ns name (defs db) = Some a" by blast
    then obtain r where r: "xmlns db a = Some r" using xmlns_ok_find [OF ok] by blast
    with z a have "ns_id r = 0" by (simp add: xmlns_find_ns_by_name_def)
    with xmlns_ok_slot [OF ok r] show False by simp
  qed
qed (simp add: xmlns_find_ns_by_name_def XMLNS_NULL_NS_ID_def)

section \<open>Registration keeps the invariant\<close>

lemma register_ok_cases:
  assumes "xmlns_register_ns mem mem2 ns pfix modname modptr db = (NO_ERR, i, db')"
  obtains p where "mem" "xmlns_next_id db \<noteq> 0" "xmlns_next_id db \<le> XMLNS_MAX_NS" "xmlns_find_ns_by_name db ns = 0"
    "i = Some (xmlns_next_id db)" "p = (case pfix of Some p \<Rightarrow> p | None \<Rightarrow> CHR ''n'' # int_string (sint (xmlns_next_id db)))"
    "fst (def_reg_add_ns mem2 ns (unat (xmlns_next_id db - 1)) (defs db)) = NO_ERR"
    "db' = db\<lparr>defs := snd (def_reg_add_ns mem2 ns (unat (xmlns_next_id db - 1)) (defs db)),
       xmlns := (xmlns db)(unat (xmlns_next_id db - 1) := Some \<lparr>ns_id = xmlns_next_id db, ns_pfix = p,
          ns_name = ns, ns_module = modname, ns_mod = modptr\<rparr>),
       cached := (case cached_of_urn ns of
                    Some c \<Rightarrow> (cached db)(c := xmlns_next_id db) | None \<Rightarrow> cached db),
       xmlns_next_id := xmlns_next_id db + 1\<rparr>"
  using assms unfolding xmlns_register_ns_def Let_def
  by (auto split: if_splits prod.splits)

lemma register_ok_fields:
  assumes "xmlns_register_ns mem mem2 ns pfix modname modptr db = (NO_ERR, i, db')"
  shows "xmlns_next_id db \<noteq> 0" "xmlns_next_id db \<le> XMLNS_MAX_NS" "i = Some (xmlns_next_id db)"
    "xmlns_next_id db' = xmlns_next_id db + 1"
    "fst (def_reg_add_ns mem2 ns (unat (xmlns_next_id db - 1)) (defs db)) = NO_ERR"
    "defs db' = snd (def_reg_add_ns mem2 ns (unat (xmlns_next_id db - 1)) (defs db))"
    "\<exists>p. xmlns db' = (xmlns db)(unat (xmlns_next_id db - 1) := Some \<lparr>ns_id = xmlns_next_id db, ns_pfix = p,
       ns_name = ns, ns_module = modname, ns_mod = modptr\<rparr>)"
proof -
  show "xmlns_next_id db \<noteq> 0" "xmlns_next_id db \<le> XMLNS_MAX_NS" "i = Some (xmlns_next_id db)"
    "fst (def_reg_add_ns mem2 ns (unat (xmlns_next_id db - 1)) (defs db)) = NO_ERR"
    by (rule register_ok_cases [OF assms], assumption)+
  let ?n = "xmlns_next_id db"
  from assms obtain p where db': "db' = db\<lparr>defs := snd (def_reg_add_ns mem2 ns (unat (?n - 1)) (defs db)),
       xmlns := (xmlns db)(unat (?n - 1) := Some \<lparr>ns_id = ?n, ns_pfix = p,
          ns_name = ns, ns_module = modname, ns_mod = modptr\<rparr>),
       cached := (case cached_of_urn ns of
                    Some c \<Rightarrow> (cached db)(c := ?n) | None \<Rightarrow> cached db),
       xmlns_next_id := ?n + 1\<rparr>"
    by (rule register_ok_cases) blast
  show "xmlns_next_id db' = ?n + 1" "defs db' = snd (def_reg_add_ns mem2 ns (unat (?n - 1)) (defs db))"
    by (simp_all add: db')
  have "xmlns db' = (xmlns db)(unat (?n - 1) := Some \<lparr>ns_id = ?n, ns_pfix = p,
      ns_name = ns, ns_module = modname, ns_mod = modptr\<rparr>)"
    by (simp add: db')
  then show "\<exists>p. xmlns db' = (xmlns db)(unat (?n - 1) := Some \<lparr>ns_id = ?n, ns_pfix = p,
      ns_name = ns, ns_module = modname, ns_mod = modptr\<rparr>)" by blast
qed

lemma register_error:
  assumes "xmlns_register_ns mem mem2 ns pfix modname modptr db = (res, i, db')" "res \<noteq> NO_ERR"
  shows "i = None \<and> db' = db"
proof -
  have "fst (def_reg_add_ns mem2 ns a st) \<noteq> NO_ERR \<Longrightarrow> snd (def_reg_add_ns mem2 ns a st) = st" for a st
    by (cases "find_top_node DEF_NT_NSNODE ns st"; cases mem2) (simp_all add: def_reg_add_ns_def add_top_node_eq)
  then show ?thesis
    using assms unfolding xmlns_register_ns_def Let_def
    by (auto split: if_splits prod.splits) (metis fst_conv snd_conv xmlns_db.surjective xmlns_db.update_convs(5))+
qed

lemma reg_ok_add_ns: "reg_ok st \<Longrightarrow> reg_ok (snd (def_reg_add_ns mem2 ns a st))"
  by (simp add: def_reg_add_ns_def reg_ok_add node_typed_new)

lemma find_ns_add_ns:
  assumes "reg_ok st" "fst (def_reg_add_ns mem2 ns a st) = NO_ERR"
  shows "def_reg_find_ns name (snd (def_reg_add_ns mem2 ns a st)) =
    (if name = ns \<and> name \<noteq> [] then Some a else def_reg_find_ns name st)"
proof (cases "ns = []")
  case True
  then show ?thesis
    by (cases "name = []") (auto simp: find_ns_Nil def_reg_find_ns_def def_reg_add_ns_def add_top_node_eq
        find_top_node_Nil find_top_node_bucket find_append split: option.splits)
next
  case False
  have mem2: "mem2" and new: "def_reg_find_ns ns st = None"
    using assms by (auto simp: def_reg_add_ns_def add_top_node_eq find_ns_None split: if_splits)
  show ?thesis
    using nsreg.find_add [OF assms(1) False new, of name a] mem2 False by (simp add: find_ns_Nil)
qed

lemma xmlns_ok_register:
  assumes ok: "xmlns_ok db" and reg: "xmlns_register_ns mem mem2 ns pfix modname modptr db = (res, i, db')"
  shows "xmlns_ok db'"
proof (cases "res = NO_ERR")
  case False
  with register_error [OF reg] ok show ?thesis by simp
next
  case True
  let ?n = "xmlns_next_id db"
  from reg [unfolded True] obtain p where n: "?n \<noteq> 0" "?n \<le> XMLNS_MAX_NS" and new: "xmlns_find_ns_by_name db ns = 0"
    and add: "fst (def_reg_add_ns mem2 ns (unat (?n - 1)) (defs db)) = NO_ERR"
    and db': "db' = db\<lparr>defs := snd (def_reg_add_ns mem2 ns (unat (?n - 1)) (defs db)),
       xmlns := (xmlns db)(unat (?n - 1) := Some \<lparr>ns_id = ?n, ns_pfix = p,
          ns_name = ns, ns_module = modname, ns_mod = modptr\<rparr>),
       cached := (case cached_of_urn ns of
                    Some c \<Rightarrow> (cached db)(c := ?n) | None \<Rightarrow> cached db),
       xmlns_next_id := ?n + 1\<rparr>"
    by (rule register_ok_cases) blast
  have u: "unat (?n + 1) = Suc (unat ?n)" "Suc (unat (?n - 1)) = unat ?n"
    using unat_next [OF n] n(1) by (simp_all add: unat_pred unat_gt_0)
  have rok: "reg_ok (defs db)" using ok by (simp add: xmlns_ok_def)
  have free: "xmlns db (unat (?n - 1)) = None" using xmlns_ok_free [OF ok] u(2) by simp
  have others: "\<And>a r. xmlns db a = Some r \<Longrightarrow> ns \<noteq> [] \<Longrightarrow> ns_name r \<noteq> ns"
    using new xmlns_ok_find [OF ok, of ns] by (auto simp: find_by_name_0 [OF ok])
  show ?thesis
    unfolding xmlns_ok_def
  proof (intro conjI allI impI)
    show "xmlns_init_done db'" using ok by (simp add: db' xmlns_ok_def)
    show "xmlns_next_id db' \<noteq> 0" using u(1) by (auto simp: db' word_unat_eq_iff)
    show "xmlns_next_id db' \<le> XMLNS_MAX_NS + 1"
      using n(2) u(1) by (simp add: db' XMLNS_MAX_NS_def word_le_nat_alt)
    show "reg_ok (defs db')" using reg_ok_add_ns [OF rok] by (simp add: db')
  next
    fix j
    show "case xmlns db' j of None \<Rightarrow> unat (xmlns_next_id db') \<le> Suc j
        | Some r \<Rightarrow> Suc j < unat (xmlns_next_id db') \<and> unat (ns_id r) = Suc j"
    proof (cases "j = unat (?n - 1)")
      case True
      then show ?thesis using u by (simp add: db')
    next
      case False
      then show ?thesis using u xmlns_ok_free [OF ok, of j] xmlns_ok_slot [OF ok, of j]
        by (auto simp: db' not_le split: option.splits)
    qed
  next
    fix name a assume ne: "name \<noteq> ([] :: string)"
    show "(def_reg_find_ns name (defs db') = Some a) = (\<exists>r. xmlns db' a = Some r \<and> ns_name r = name)"
      using find_ns_add_ns [OF rok add, of name] ne xmlns_ok_find [OF ok, of name a] free others
      by (cases "name = ns") (auto simp: db')
  qed
qed

lemma xmlns_set_modptrs_slot:
  assumes "xmlns_init_done db"
  shows "xmlns (xmlns_set_modptrs m p db) i = None \<longleftrightarrow> xmlns db i = None"
    and "map_option ns_id (xmlns (xmlns_set_modptrs m p db) i) = map_option ns_id (xmlns db i)"
    and "map_option ns_name (xmlns (xmlns_set_modptrs m p db) i) = map_option ns_name (xmlns db i)"
  using assms by (auto simp: xmlns_set_modptrs_def option.map_comp comp_def intro!: option.map_cong)

lemma xmlns_ok_alt:
  "xmlns_ok db \<longleftrightarrow>
     xmlns_init_done db \<and> xmlns_next_id db \<noteq> 0 \<and> xmlns_next_id db \<le> XMLNS_MAX_NS + 1 \<and>
     (\<forall>i. case map_option ns_id (xmlns db i) of
            None \<Rightarrow> unat (xmlns_next_id db) \<le> Suc i
          | Some n \<Rightarrow> Suc i < unat (xmlns_next_id db) \<and> unat n = Suc i) \<and>
     reg_ok (defs db) \<and>
     (\<forall>name a. name \<noteq> [] \<longrightarrow>
        (def_reg_find_ns name (defs db) = Some a) = (map_option ns_name (xmlns db a) = Some name))"
  by (simp add: xmlns_ok_def split: option.split)

lemma xmlns_ok_set_modptrs: "xmlns_ok db \<Longrightarrow> xmlns_ok (xmlns_set_modptrs m p db)"
proof -
  assume ok: "xmlns_ok db"
  then have init: "xmlns_init_done db" by (simp add: xmlns_ok_def)
  have rest: "xmlns_init_done (xmlns_set_modptrs m p db) = xmlns_init_done db"
    "xmlns_next_id (xmlns_set_modptrs m p db) = xmlns_next_id db"
    "defs (xmlns_set_modptrs m p db) = defs db"
    using init by (simp_all add: xmlns_set_modptrs_def)
  show ?thesis using ok unfolding xmlns_ok_alt xmlns_set_modptrs_slot [OF init] rest .
qed

lemma xmlns_ok_init:
  assumes "\<not> xmlns_init_done db" "reg_ok (defs db)" "\<And>name. def_reg_find_ns name (defs db) = None"
    "\<And>i. i \<ge> 4096 \<Longrightarrow> xmlns db i = None"
  shows "xmlns_ok (xmlns_init db)"
  using assms by (simp add: xmlns_ok_def xmlns_init_def init_xmlns_static_vars_def XMLNS_MAX_NS_def word_le_nat_alt)

section \<open>The contract of a namespace registry\<close>

text \<open>
  What the parsers and the value layer rely on: a name resolves to an ID, an ID to its name, and
  registering keeps what was there.
\<close>

locale ns_registry =
  fixes by_name :: "'s \<Rightarrow> string \<Rightarrow> u32"
    and name_of :: "'s \<Rightarrow> u32 \<Rightarrow> string option"
    and register :: "string \<Rightarrow> 's \<Rightarrow> 's"
    and inv :: "'s \<Rightarrow> bool"
  assumes by_name_iff: "inv s \<Longrightarrow> i \<noteq> 0 \<Longrightarrow> by_name s n = i \<longleftrightarrow> n \<noteq> [] \<and> name_of s i = Some n"
    and register_keeps: "inv s \<Longrightarrow> name_of s i = Some n' \<Longrightarrow> name_of (register n s) i = Some n'"
    and register_inv: "inv s \<Longrightarrow> inv (register n s)"
begin

lemma ids_unique:
  "inv s \<Longrightarrow> i \<noteq> 0 \<Longrightarrow> j \<noteq> 0 \<Longrightarrow> n \<noteq> [] \<Longrightarrow> name_of s i = Some n \<Longrightarrow> name_of s j = Some n \<Longrightarrow> i = j"
  using by_name_iff by metis

lemma by_name_stable:
  "inv s \<Longrightarrow> by_name s n \<noteq> 0 \<Longrightarrow> by_name (register n' s) n = by_name s n"
  using by_name_iff register_keeps register_inv by metis

lemma by_name_stable_fold:
  "inv s \<Longrightarrow> by_name s n \<noteq> 0 \<Longrightarrow> by_name (fold register ns s) n = by_name s n \<and> inv (fold register ns s)"
  by (induction ns arbitrary: s) (simp_all add: by_name_stable register_inv)

end

lemma get_ns_name_valid: "xmlns_get_ns_name db i \<noteq> None \<Longrightarrow> valid_id db i"
  by (auto simp: xmlns_get_ns_name_def split: if_splits)

lemma register_keeps_valid:
  assumes ok: "xmlns_ok db" and v: "valid_id db j"
    and reg: "xmlns_register_ns mem mem2 ns pfix modname modptr db = (res, i, db')"
  shows "valid_id db' j" "xmlns db' (unat (j - 1)) = xmlns db (unat (j - 1))"
proof -
  from v have j: "j \<noteq> 0" "unat j < unat (xmlns_next_id db)" by (simp_all add: valid_id_iff [OF ok])
  have "valid_id db' j \<and> xmlns db' (unat (j - 1)) = xmlns db (unat (j - 1))"
  proof (cases "res = NO_ERR")
    case False
    with register_error [OF reg] v show ?thesis by simp
  next
    case True
    note f = register_ok_fields [OF reg [unfolded True]]
    note n = f(1,2) and nx = f(4)
    from f(7) obtain p where xm: "xmlns db' = (xmlns db)(unat (xmlns_next_id db - 1) :=
        Some \<lparr>ns_id = xmlns_next_id db, ns_pfix = p, ns_name = ns, ns_module = modname, ns_mod = modptr\<rparr>)" ..
    have "0 < unat j" "0 < unat (xmlns_next_id db)" using j n by (simp_all add: unat_gt_0)
    then have "unat (j - 1) \<noteq> unat (xmlns_next_id db - 1)" using j n unat_pred by simp
    moreover have "valid_id db' j"
      using j unat_next [OF n] by (simp add: valid_id_iff [OF xmlns_ok_register [OF ok reg]] nx)
    ultimately show ?thesis by (simp add: xm)
  qed
  then show "valid_id db' j" "xmlns db' (unat (j - 1)) = xmlns db (unat (j - 1))" by blast+
qed

definition register_module :: "string \<Rightarrow> xmlns_db \<Rightarrow> xmlns_db" where
  "register_module ns db = snd (snd (xmlns_register_ns True True ns None ns None db))"

interpretation nsdb: ns_registry xmlns_find_ns_by_name xmlns_get_ns_name register_module xmlns_ok
proof
  fix db :: xmlns_db and n n' :: string and i :: u32
  assume ok: "xmlns_ok db"
  obtain res j db' where reg: "xmlns_register_ns True True n None n None db = (res, j, db')"
    by (cases "xmlns_register_ns True True n None n None db") auto
  then have db': "register_module n db = db'" by (simp add: register_module_def)
  show "xmlns_ok (register_module n db)" using xmlns_ok_register [OF ok reg] by (simp add: db')
  show "(xmlns_find_ns_by_name db n = i) = (n \<noteq> [] \<and> xmlns_get_ns_name db i = Some n)" if "i \<noteq> 0"
    using find_by_name_iff [OF ok that] get_ns_name_valid [of db i] by auto
  assume nm: "xmlns_get_ns_name db i = Some n'"
  then have v: "valid_id db i" by (intro get_ns_name_valid) simp
  then show "xmlns_get_ns_name (register_module n db) i = Some n'"
    using register_keeps_valid [OF ok v reg] nm by (simp add: xmlns_get_ns_name_def db')
qed

section \<open>Properties\<close>

text \<open>
  a successful registration returns an ID that was not valid before and now carries
  the given URI and module; every earlier ID keeps its record, the invariant holds again, and the URI
  resolves to the new ID (except the empty URI of the wildcard namespace).
\<close>
theorem xmlns_register_fresh:
  assumes "xmlns_ok db" and "xmlns_register_ns mem mem2 ns pfix modname modptr db = (NO_ERR, Some i, db')"
  shows "\<not> valid_id db i \<and> xmlns_get_ns_name db' i = Some ns \<and> xmlns_get_module db' i = (Some modname, db') \<and>
    (valid_id db j \<longrightarrow> valid_id db' j \<and> xmlns_get_ns_name db' j = xmlns_get_ns_name db j) \<and>
    xmlns_find_ns_by_name db' ns = (if ns = [] then 0 else i) \<and> xmlns_ok db'"
proof -
  note ok' = xmlns_ok_register [OF assms]
  note f = register_ok_fields [OF assms(2)]
  note n = f(1,2) and nx = f(4)
  from f(3) have i: "i = xmlns_next_id db" by simp
  from f(7) obtain p where
    xm: "xmlns db' (unat (i - 1)) = Some \<lparr>ns_id = i, ns_pfix = p, ns_name = ns, ns_module = modname, ns_mod = modptr\<rparr>"
    unfolding i by auto
  have new: "\<not> valid_id db i" by (simp add: valid_id_iff [OF assms(1)] i)
  have v: "valid_id db' i" using n unat_next [OF n] by (simp add: valid_id_iff [OF ok'] i nx)
  have name: "xmlns_get_ns_name db' i = Some ns" using v xm by (simp add: xmlns_get_ns_name_def)
  have module: "xmlns_get_module db' i = (Some modname, db')"
    using v xm ok' by (simp add: xmlns_get_module_def xmlns_ok_def)
  have "xmlns_find_ns_by_name db' ns = (if ns = [] then 0 else i)"
  proof (cases "ns = []")
    case False
    then show ?thesis using find_by_name_iff [OF ok', of i ns] name v n i by simp
  qed (simp add: xmlns_find_ns_by_name_def find_ns_Nil XMLNS_NULL_NS_ID_def)
  then show ?thesis
    using new name module ok' register_keeps_valid [OF assms(1) _ assms(2), of j]
    by (auto simp: xmlns_get_ns_name_def)
qed

definition empty_db :: xmlns_db where
  "empty_db = xmlns_init \<lparr>xmlns = (\<lambda>_. None), cached = (\<lambda>_. 0), xmlns_next_id = 0, xmlns_init_done = False,
     defs = def_reg_init \<lparr>topht = (\<lambda>_. []), def_reg_init_done = False\<rparr>\<rparr>"

lemma empty_db_ok: "xmlns_ok empty_db"
proof -
  have ok: "reg_ok (def_reg_init \<lparr>topht = (\<lambda>_. []), def_reg_init_done = False\<rparr>)" by (simp add: reg_ok_init)
  show ?thesis unfolding empty_db_def
    by (rule xmlns_ok_init) (use ok in \<open>simp_all add: find_ns_None find_init\<close>)
qed

lemma empty_db_fields: "xmlns_next_id empty_db = 1" "xmlns empty_db i = None"
  by (simp_all add: empty_db_def xmlns_init_def init_xmlns_static_vars_def)

lemma empty_db_simps:
  "xmlns_next_id empty_db = 1" "xmlns_find_ns_by_name empty_db n = 0" "xmlns empty_db i = None"
  "def_reg_find_ns n (defs empty_db) = None" "reg_ok (defs empty_db)"
proof -
  show "reg_ok (defs empty_db)" using empty_db_ok by (simp add: xmlns_ok_def)
  show "def_reg_find_ns n (defs empty_db) = None"
  proof (rule ccontr)
    assume "def_reg_find_ns n (defs empty_db) \<noteq> None"
    then obtain a where "def_reg_find_ns n (defs empty_db) = Some a" by blast
    then show False by (simp add: xmlns_ok_find [OF empty_db_ok] empty_db_fields)
  qed
  then show "xmlns_find_ns_by_name empty_db n = 0" by (simp add: find_by_name_0 [OF empty_db_ok])
qed (rule empty_db_fields)+

lemma register_empty_db:
  assumes "ns \<noteq> []" "modname \<noteq> []" "p \<noteq> []"
  shows "\<exists>db'. xmlns_register_ns True True ns (Some p) modname None empty_db = (NO_ERR, Some 1, db')
      \<and> xmlns_entries db' = [\<lparr>ns_id = 1, ns_pfix = p, ns_name = ns, ns_module = modname, ns_mod = None\<rparr>]"
proof -
  have a: "fst (def_reg_add_ns True ns 0 (defs empty_db)) = NO_ERR"
    by (rule nsreg.add_ok) (simp_all add: empty_db_simps assms)
  then show ?thesis
    using assms
    by (cases "def_reg_add_ns True ns 0 (defs empty_db)")
      (auto simp: xmlns_register_ns_def empty_db_simps XMLNS_MAX_NS_def xmlns_entries_def List.map_filter_def)
qed

theorem xmlns_register_fresh_witness:
  "\<exists>db'. xmlns_register_ns True True ''urn:x'' (Some ''x'') ''mod-x'' None empty_db = (NO_ERR, Some 1, db')
     \<and> xmlns_find_ns_by_name db' ''urn:x'' = 1 \<and> xmlns_get_module db' 1 = (Some ''mod-x'', db')"
proof -
  obtain db' where r: "xmlns_register_ns True True ''urn:x'' (Some ''x'') ''mod-x'' None empty_db = (NO_ERR, Some 1, db')"
    using register_empty_db [of "''urn:x''" "''mod-x''" "''x''"] by auto
  from xmlns_register_fresh [OF empty_db_ok r] r show ?thesis by simp
qed

text \<open>
  an ID that a URI resolves to never changes, whatever namespaces are registered later,
  and two IDs never share a (non-empty) URI.
\<close>
theorem xmlns_ids_stable:
  assumes "xmlns_ok db" and "xmlns_find_ns_by_name db n \<noteq> 0"
  shows "xmlns_find_ns_by_name (fold register_module ns db) n = xmlns_find_ns_by_name db n"
  using nsdb.by_name_stable_fold [OF assms] by (rule conjunct1)

theorem xmlns_ids_stable_witness:
  "\<exists>db'. xmlns_find_ns_by_name (fold register_module [''urn:y'', ''urn:z''] db') ''urn:x'' = 1"
proof -
  obtain db' where r: "xmlns_register_ns True True ''urn:x'' (Some ''x'') ''mod-x'' None empty_db = (NO_ERR, Some 1, db')"
    using register_empty_db [of "''urn:x''" "''mod-x''" "''x''"] by auto
  have ok: "xmlns_ok db'" by (rule xmlns_ok_register [OF empty_db_ok r])
  have f: "xmlns_find_ns_by_name db' ''urn:x'' = 1"
    using nsdb.by_name_iff [OF ok, of 1 "''urn:x''"] register_ok_fields(7) [OF r]
    by (auto simp: empty_db_simps xmlns_get_ns_name_def valid_id_def XMLNS_MAX_NS_def)
  then have "xmlns_find_ns_by_name db' ''urn:x'' \<noteq> 0" by simp
  from xmlns_ids_stable [OF ok this, of "[''urn:y'', ''urn:z'']"] f show ?thesis by auto
qed

text \<open>
  \<^verbatim>\<open>xmlns_find_ns_by_name_str\<close>, with which \<^verbatim>\<open>cap.c\<close> looks up the URI before the
  question mark of a module capability, compares only the first \<open>namelen\<close> characters.  It takes a
  registered URI that merely starts with the wanted one for it, although the wanted one is not registered.
\<close>
theorem xmlns_find_by_prefix_of_name:
  "\<exists>db'. xmlns_register_ns True True ''urn:ab'' (Some ''p'') ''m'' None empty_db = (NO_ERR, Some 1, db') \<and>
     xmlns_find_ns_by_name_str db' ''urn:a?module=m'' 5 = 1 \<and> xmlns_find_ns_by_name db' ''urn:a'' = 0"
proof -
  obtain db' where r: "xmlns_register_ns True True ''urn:ab'' (Some ''p'') ''m'' None empty_db = (NO_ERR, Some 1, db')"
    and e: "xmlns_entries db' = [\<lparr>ns_id = 1, ns_pfix = ''p'', ns_name = ''urn:ab'', ns_module = ''m'', ns_mod = None\<rparr>]"
    using register_empty_db [of "''urn:ab''" "''m''" "''p''"] by auto
  have "xmlns_find_ns_by_name_str db' ''urn:a?module=m'' 5 = 1"
    by (simp add: xmlns_find_ns_by_name_str_def e first_id_def eval_nat_numeral)
  moreover have "xmlns_find_ns_by_name db' ''urn:a'' = 0"
    using find_ns_add_ns [OF empty_db_simps(5) register_ok_fields(5) [OF r], of "''urn:a''"]
    by (simp add: find_by_name_0 [OF xmlns_ok_register [OF empty_db_ok r]] register_ok_fields(6) [OF r]
        empty_db_simps)
  ultimately show ?thesis using r by blast
qed

end
