(* ===== verification/Val_Tree.thy ===== *)
theory Val_Tree
  imports Obj_Tree Xmlns
begin

text \<open>
  The data tree (\<^verbatim>\<open>val_value_t\<close>, \<^verbatim>\<open>netconf/src/ncx/val.c\<close>) as far as partial locks and access control read it:
  the fields of a node, its queue of children, the walks over the children that skip deleted nodes, and
  the test for configuration data.  Lemmas: the loops made of the first/next functions visit exactly the
  matching children, in order.

  A pointer to a node is the path of child positions from the root of its tree.  The functions that read
  \<^verbatim>\<open>val->parent\<close> take the ancestors as a list, nearest first.
\<close>

section \<open>Partial lock control blocks\<close>

text \<open>
  The control block of a partial lock (\<^verbatim>\<open>plock_cb_t\<close>) is declared here because a node points to the locks
  held against it.  \<open>plock_addr\<close> is the address of the block, which the code compares; the other fields
  of a block never change once a node points to it, so a node holds the block itself.
\<close>

type_synonym val_ptr = "nat list"

datatype xpath_restype_t = XP_RT_NONE | XP_RT_NODESET | XP_RT_NUMBER | XP_RT_STRING | XP_RT_BOOLEAN

record xpath_result_t =
  restype :: xpath_restype_t
  isval :: bool
  nodeQ :: "val_ptr list"

record xpath_pcb_t =
  exprstr :: string
  val_docroot :: "val_ptr option"

record plock_cb_t =
  plock_addr :: nat
  plock_id :: u32
  plock_sesid :: u32
  plock_xpathpcbQ :: "xpath_pcb_t list"
  plock_resultQ :: "xpath_result_t list"
  plock_final_result :: xpath_result_t
  plock_time :: string

section \<open>Nodes\<close>

definition VAL_MAX_PLOCKS :: nat where "VAL_MAX_PLOCKS = 4"

abbreviation VAL_FL_DELETED :: nat where "VAL_FL_DELETED \<equiv> 9"

text \<open>\<open>val_str\<close> is the string of a leaf of a string or enumeration type, \<open>val_uint\<close> the number of an unsigned one.\<close>

record val_data =
  val_obj :: obj_template
  val_name :: string
  val_nsid :: u32
  val_btyp :: ncx_btype_t
  val_flags :: u32
  val_res :: status_t
  val_plock :: "plock_cb_t option list"
  val_xpathpcb :: "xpath_pcb_t option"
  val_str :: string
  val_uint :: u32

datatype val_value = Val (val_data: val_data) (val_childQ: "val_value list")

abbreviation "vobj v \<equiv> val_obj (val_data v)"
abbreviation "vname v \<equiv> val_name (val_data v)"
abbreviation "vbtyp v \<equiv> val_btyp (val_data v)"
abbreviation "vplock v \<equiv> val_plock (val_data v)"

definition VAL_IS_DELETED :: "val_value \<Rightarrow> bool" where
  "VAL_IS_DELETED v \<longleftrightarrow> bit (val_flags (val_data v)) VAL_FL_DELETED"

text \<open>The module name of a node depends on the namespace registry.\<close>

definition val_get_mod_name :: "xmlns_db \<Rightarrow> val_value \<Rightarrow> string option" where
  "val_get_mod_name ns v =
     (if val_nsid (val_data v) \<noteq> 0 then fst (xmlns_get_module ns (val_nsid (val_data v)))
      else obj_get_mod_name (vobj v))"

definition val_get_nsid :: "val_value \<Rightarrow> u32" where
  "val_get_nsid v = (if val_nsid (val_data v) \<noteq> 0 then val_nsid (val_data v) else obj_get_nsid (vobj v))"

section \<open>Walking the children\<close>

text \<open>
  \<open>next_index P xs i\<close> is the position of the first entry that satisfies \<open>P\<close>, from position \<open>i\<close> on: the
  loop over \<^verbatim>\<open>dlq_nextEntry\<close> with its \<^verbatim>\<open>continue\<close> statements.
\<close>

definition next_index :: "('a \<Rightarrow> bool) \<Rightarrow> 'a list \<Rightarrow> nat \<Rightarrow> nat option" where
  "next_index P xs i = List.find (\<lambda>j. P (xs ! j)) [i..<length xs]"

definition val_get_first_child :: "val_value \<Rightarrow> nat option" where
  "val_get_first_child parent =
     (if \<not> typ_has_children (vbtyp parent) then None
      else next_index (\<lambda>v. \<not> VAL_IS_DELETED v) (val_childQ parent) 0)"

definition val_get_next_child :: "val_value \<Rightarrow> nat \<Rightarrow> nat option" where
  "val_get_next_child parent curchild =
     next_index (\<lambda>v. \<not> VAL_IS_DELETED v) (val_childQ parent) (Suc curchild)"

text \<open>
  The match of \<^verbatim>\<open>val_find_child\<close>.  When a module name is wanted and the node has none, \<^verbatim>\<open>xml_strcmp\<close> gets a
  null pointer and returns 0, which counts as a match.
\<close>

definition child_match :: "xmlns_db \<Rightarrow> string option \<Rightarrow> string \<Rightarrow> val_value \<Rightarrow> bool" where
  "child_match ns modname childname v \<longleftrightarrow>
     \<not> VAL_IS_DELETED v \<and>
     \<not> (case modname of
           None \<Rightarrow> False
         | Some m \<Rightarrow> (case val_get_mod_name ns v of Some m' \<Rightarrow> m \<noteq> m' | None \<Rightarrow> False)) \<and>
     vname v = childname"

definition val_find_child :: "xmlns_db \<Rightarrow> val_value \<Rightarrow> string option \<Rightarrow> string \<Rightarrow> nat option" where
  "val_find_child ns parent modname childname =
     (if \<not> typ_has_children (vbtyp parent) then None
      else next_index (child_match ns modname childname) (val_childQ parent) 0)"

definition val_find_next_child :: "xmlns_db \<Rightarrow> val_value \<Rightarrow> string option \<Rightarrow> string \<Rightarrow> nat \<Rightarrow> nat option" where
  "val_find_next_child ns parent modname childname curchild =
     (if \<not> typ_has_children (vbtyp parent) then None
      else next_index (child_match ns modname childname) (val_childQ parent) (Suc curchild))"

text \<open>The nodes a loop \<^verbatim>\<open>for (v = first; v != NULL; v = next(v))\<close> visits, from position \<open>i\<close> on.\<close>

function visit :: "('a \<Rightarrow> bool) \<Rightarrow> 'a list \<Rightarrow> nat \<Rightarrow> 'a list" where
  "visit P xs i = (case next_index P xs i of None \<Rightarrow> [] | Some j \<Rightarrow> xs ! j # visit P xs (Suc j))"
  by pat_completeness auto

lemma next_index_Some: "next_index P xs i = Some j \<Longrightarrow> i \<le> j \<and> j < length xs \<and> P (xs ! j)"
  by (auto simp: next_index_def find_Some_iff)

termination visit
  by (relation "measure (\<lambda>(P, xs, i). length xs - i)") (auto dest!: next_index_Some)

declare visit.simps [simp del]

lemma find_next_child_gt:
  "val_find_next_child ns parent m n i = Some j \<Longrightarrow> i < j \<and> j < length (val_childQ parent)"
  by (auto simp: val_find_next_child_def dest!: next_index_Some split: if_splits)

lemma next_index_Cons_Suc: "next_index P (x # xs) (Suc i) = map_option Suc (next_index P xs i)"
proof -
  have "[Suc i..<Suc (length xs)] = map Suc [i..<length xs]" by (simp add: map_Suc_upt)
  moreover have "List.find (\<lambda>j. P ((x # xs) ! j)) (map Suc js) = map_option Suc (List.find (\<lambda>j. P (xs ! j)) js)" for js
    by (induction js) auto
  ultimately show ?thesis by (simp add: next_index_def)
qed

lemma next_index_Cons_0: "next_index P (x # xs) 0 = (if P x then Some 0 else next_index P (x # xs) (Suc 0))"
  by (simp add: next_index_def upt_conv_Cons del: upt_Suc)

lemma visit_Cons_Suc: "visit P (x # xs) (Suc i) = visit P xs i"
  by (induction P xs i rule: visit.induct)
    (subst (1 2) visit.simps, simp add: next_index_Cons_Suc split: option.splits)

lemma visit_filter: "visit P xs 0 = filter P xs"
proof (induction xs)
  case Nil
  show ?case by (subst visit.simps) (simp add: next_index_def)
next
  case (Cons x xs)
  have "\<not> P x \<Longrightarrow> visit P (x # xs) 0 = visit P (x # xs) (Suc 0)"
    by (subst (1 2) visit.simps) (simp add: next_index_Cons_0)
  moreover have "P x \<Longrightarrow> visit P (x # xs) 0 = x # visit P (x # xs) (Suc 0)"
    by (subst visit.simps) (simp add: next_index_Cons_0)
  ultimately show ?case using Cons by (simp add: visit_Cons_Suc)
qed

definition val_children :: "val_value \<Rightarrow> val_value list" where
  "val_children v = (if typ_has_children (vbtyp v) then filter (\<lambda>c. \<not> VAL_IS_DELETED c) (val_childQ v) else [])"

definition val_matching :: "xmlns_db \<Rightarrow> val_value \<Rightarrow> string option \<Rightarrow> string \<Rightarrow> val_value list" where
  "val_matching ns v m n =
     (if typ_has_children (vbtyp v) then filter (child_match ns m n) (val_childQ v) else [])"

section \<open>Paths\<close>

fun val_at :: "val_value \<Rightarrow> val_ptr \<Rightarrow> val_value option" where
  "val_at v [] = Some v"
| "val_at v (i # p) = (if i < length (val_childQ v) then val_at (val_childQ v ! i) p else None)"

text \<open>The proper ancestors of the node at a path, nearest first, given those of the root.\<close>

fun val_ancestors :: "val_value list \<Rightarrow> val_value \<Rightarrow> val_ptr \<Rightarrow> val_value list" where
  "val_ancestors anc v [] = anc"
| "val_ancestors anc v (i # p) =
     (if i < length (val_childQ v) then val_ancestors (v # anc) (val_childQ v ! i) p else v # anc)"

fun val_update :: "(val_value \<Rightarrow> val_value) \<Rightarrow> val_value \<Rightarrow> val_ptr \<Rightarrow> val_value" where
  "val_update f v [] = f v"
| "val_update f (Val d cs) (i # p) =
     (if i < length cs then Val d (cs[i := val_update f (cs ! i) p]) else Val d cs)"

section \<open>Configuration data\<close>

text \<open>
  The argument is the node followed by its ancestors; the empty list is the null pointer.  Only the
  objects of the nodes are read.
\<close>

fun val_is_config_data :: "val_value list \<Rightarrow> bool" where
  "val_is_config_data [] = False"
| "val_is_config_data (v # anc) =
     (if obj_is_root (vobj v) then True
      else if obj_is_data_db (vobj v) \<and> obj_get_config_flag (vobj v) then True
      else if od_gen (obj_data (vobj v)) \<and> anc \<noteq> [] then val_is_config_data anc
      else False)"

lemma val_is_config_data_objs:
  "map vobj vs = map vobj ws \<Longrightarrow> val_is_config_data vs = val_is_config_data ws"
proof (induction vs arbitrary: ws)
  case (Cons v vs)
  then obtain w ws' where ws: "ws = w # ws'" "vobj v = vobj w" "map vobj vs = map vobj ws'" by auto
  then have "vs = [] \<longleftrightarrow> ws' = []" by auto
  with Cons.IH [OF ws(3)] ws show ?case by simp
qed simp

declare val_is_config_data.simps(2) [simp del]

text \<open>
  a loop over the children of a node with \<^verbatim>\<open>val_get_first_child\<close> and \<^verbatim>\<open>val_get_next_child\<close> ends and
  visits exactly the children that are not deleted, in order; the loops with \<^verbatim>\<open>val_find_child\<close> and
  \<^verbatim>\<open>val_find_next_child\<close> visit exactly the matching ones.
\<close>
theorem val_child_loop:
  "val_children v = (case val_get_first_child v of None \<Rightarrow> []
     | Some i \<Rightarrow> val_childQ v ! i # visit (\<lambda>c. \<not> VAL_IS_DELETED c) (val_childQ v) (Suc i)) \<and>
   val_matching ns v m n = (case val_find_child ns v m n of None \<Rightarrow> []
     | Some i \<Rightarrow> val_childQ v ! i # visit (child_match ns m n) (val_childQ v) (Suc i)) \<and>
   set (val_matching ns v m n) \<subseteq> set (val_children v)"
proof -
  have *: "filter P xs = (case next_index P xs 0 of None \<Rightarrow> [] | Some i \<Rightarrow> xs ! i # visit P xs (Suc i))"
    for P and xs :: "val_value list"
    unfolding visit_filter [symmetric] by (subst visit.simps) simp
  have "set (val_matching ns v m n) \<subseteq> set (val_children v)"
    by (auto simp: val_children_def val_matching_def child_match_def)
  then show ?thesis
    unfolding val_get_first_child_def val_find_child_def
    by (simp add: val_children_def val_matching_def *)
qed

section \<open>A small configuration for the witnesses\<close>

definition sample_obj :: "obj_type_t \<Rightarrow> u32 \<Rightarrow> string \<Rightarrow> obj_template option \<Rightarrow> obj_template" where
  "sample_obj ty fl n p = Obj \<lparr>objtype = ty, obj_flags = fl, od_name = n, od_mod = None, od_tkerr_mod = None,
     od_nsid = 1, od_gen = False\<rparr> p None"

definition sample_node :: "obj_template \<Rightarrow> ncx_btype_t \<Rightarrow> string \<Rightarrow> plock_cb_t option list \<Rightarrow> val_value list \<Rightarrow> val_value" where
  "sample_node obj ty n ps cs = Val \<lparr>val_obj = obj, val_name = n, val_nsid = 1, val_btyp = ty, val_flags = 0,
     val_res = NO_ERR, val_plock = ps, val_xpathpcb = None, val_str = [], val_uint = 0\<rparr> cs"

definition "obj_config = sample_obj OBJ_TYP_CONTAINER 0x400 ''config'' None"
definition "obj_system = sample_obj OBJ_TYP_CONTAINER 0 ''system'' (Some obj_config)"
definition "obj_host = sample_obj OBJ_TYP_LEAF 0 ''host'' (Some obj_system)"

text \<open>The root \<open>config\<close> with a container \<open>system\<close>, whose slots are \<open>ps\<close>, and its leaf \<open>host\<close>, with the slots \<open>qs\<close>.\<close>

definition sample_host :: "plock_cb_t option list \<Rightarrow> val_value" where
  "sample_host qs = sample_node obj_host NCX_BT_STRING ''host'' qs []"

definition sample_system :: "plock_cb_t option list \<Rightarrow> plock_cb_t option list \<Rightarrow> val_value" where
  "sample_system ps qs = sample_node obj_system NCX_BT_CONTAINER ''system'' ps [sample_host qs]"

definition sample_config :: "plock_cb_t option list \<Rightarrow> plock_cb_t option list \<Rightarrow> val_value" where
  "sample_config ps qs = sample_node obj_config NCX_BT_CONTAINER ''config'' [None, None, None, None] [sample_system ps qs]"

lemmas sample_defs = sample_obj_def sample_node_def obj_config_def obj_system_def obj_host_def
  sample_host_def sample_system_def sample_config_def

lemma sample_config_data:
  "val_is_config_data (sample_config ps qs # anc)"
  "val_is_config_data (sample_system ps qs # anc)"
  "val_is_config_data (sample_host qs # anc)"
  by (simp_all add: sample_defs val_is_config_data.simps obj_is_root_def obj_is_abstract_def
      obj_get_config_flag_def)

lemma sample_simps:
  "\<not> VAL_IS_DELETED (sample_config ps qs)" "\<not> VAL_IS_DELETED (sample_system ps qs)" "\<not> VAL_IS_DELETED (sample_host qs)"
  "val_childQ (sample_config ps qs) = [sample_system ps qs]" "val_childQ (sample_system ps qs) = [sample_host qs]"
  "val_childQ (sample_host qs) = []" "vplock (sample_config ps qs) = [None, None, None, None]"
  "vplock (sample_system ps qs) = ps" "vplock (sample_host qs) = qs"
  "vbtyp (sample_config ps qs) = NCX_BT_CONTAINER" "vbtyp (sample_system ps qs) = NCX_BT_CONTAINER"
  "vbtyp (sample_host qs) = NCX_BT_STRING"
  "vobj (sample_config ps qs) = obj_config" "vobj (sample_system ps qs) = obj_system" "vobj (sample_host qs) = obj_host"
  by (simp_all add: sample_defs VAL_IS_DELETED_def)

lemma sample_root: "obj_is_root obj_config" "\<not> obj_is_root obj_system" "\<not> obj_is_root obj_host"
  by (simp_all add: obj_is_root_def sample_obj_def obj_config_def obj_system_def obj_host_def)

end
