(* ===== verification/Partial_Lock.thy ===== *)
theory Partial_Lock
  imports Val_Tree
begin

text \<open>
  Partial locks on the data tree: the control blocks (\<^verbatim>\<open>netconf/src/ncx/plock_cb.c\<close>, \<^verbatim>\<open>plock.c\<close>), the node sets
  they are made from (\<^verbatim>\<open>xpath.c\<close>, \<^verbatim>\<open>xpath1.c\<close>) and the lock slots of the nodes (\<^verbatim>\<open>val_util.c\<close>).  Lemmas: what
  a granted check means for every node of the subtree, that a locked node and everything around it is
  protected from other sessions, that clearing undoes setting, and what pruning a node set keeps.
\<close>

section \<open>Control blocks\<close>

abbreviation NCX_MAX_UINT :: u32 where "NCX_MAX_UINT \<equiv> 4294967295"

definition xpath_new_result :: "xpath_restype_t \<Rightarrow> xpath_result_t" where
  "xpath_new_result rt = \<lparr>restype = rt, isval = rt \<noteq> XP_RT_NODESET, nodeQ = []\<rparr>"

text \<open>
  \<open>last_id\<close> is the static counter; \<open>mem1\<close> is the address of the new block, if there is memory for it, and
  \<open>mem2\<close> tells whether there is memory for its result.  The result is the block, \<open>*res\<close> (which keeps its
  value on success) and the new counter.
\<close>

definition plock_cb_new ::
    "nat option \<Rightarrow> bool \<Rightarrow> string \<Rightarrow> u32 \<Rightarrow> status_t \<Rightarrow> u32 \<Rightarrow> plock_cb_t option \<times> status_t \<times> u32" where
  "plock_cb_new mem1 mem2 now sid res last_id =
     (if last_id = NCX_MAX_UINT then (None, ERR_NCX_RESOURCE_DENIED, last_id)
      else case mem1 of
             None \<Rightarrow> (None, ERR_INTERNAL_MEM, last_id)
           | Some addr \<Rightarrow>
               (if \<not> mem2 then (None, ERR_INTERNAL_MEM, last_id)
                else (let last_id = last_id + 1
                      in (Some \<lparr>plock_addr = addr, plock_id = last_id, plock_sesid = sid,
                            plock_xpathpcbQ = [], plock_resultQ = [],
                            plock_final_result = xpath_new_result XP_RT_NODESET,
                            plock_time = now\<rparr>, res, last_id))))"

definition plock_cb_reset_id :: "u32 \<Rightarrow> u32" where
  "plock_cb_reset_id last_id = (if last_id = NCX_MAX_UINT then 0 else last_id)"

definition plock_get_id :: "plock_cb_t \<Rightarrow> u32" where "plock_get_id plcb = plock_id plcb"
definition plock_get_sid :: "plock_cb_t \<Rightarrow> u32" where "plock_get_sid plcb = plock_sesid plcb"
definition plock_get_timestamp :: "plock_cb_t \<Rightarrow> string" where "plock_get_timestamp plcb = plock_time plcb"
definition plock_get_final_result :: "plock_cb_t \<Rightarrow> xpath_result_t" where
  "plock_get_final_result plcb = plock_final_result plcb"

definition plock_add_select :: "xpath_pcb_t \<Rightarrow> xpath_result_t \<Rightarrow> plock_cb_t \<Rightarrow> plock_cb_t" where
  "plock_add_select xpathpcb result plcb =
     plcb\<lparr>plock_xpathpcbQ := plock_xpathpcbQ plcb @ [xpathpcb],
          plock_resultQ := plock_resultQ plcb @ [result]\<rparr>"

section \<open>Node sets\<close>

text \<open>The nodes move to the end of the target; the result is the pair of both node sets.\<close>

definition xpath_move_nodeset :: "xpath_result_t \<Rightarrow> xpath_result_t \<Rightarrow> xpath_result_t \<times> xpath_result_t" where
  "xpath_move_nodeset src dest =
     (if restype src \<noteq> XP_RT_NODESET then (src, dest)
      else if restype dest \<noteq> XP_RT_NODESET then (src, dest)
      else (src\<lparr>nodeQ := []\<rparr>, dest\<lparr>nodeQ := nodeQ dest @ nodeQ src\<rparr>))"

definition xpath_nodeset_empty :: "xpath_result_t \<Rightarrow> bool" where
  "xpath_nodeset_empty result = (if restype result \<noteq> XP_RT_NODESET then False else nodeQ result = [])"

text \<open>
  The search for a node or one of its ancestors, up to the root of the tree, in a queue.  \<open>root\<close> is the
  tree the pointers lead into; the climb stops below a node with a root object.
\<close>

fun ancestor_in :: "val_value \<Rightarrow> val_ptr list \<Rightarrow> val_ptr \<Rightarrow> bool" where
  "ancestor_in root resultQ val =
     (if val \<in> set resultQ then True
      else if val \<noteq> [] \<and>
          (case val_at root (butlast val) of Some parent \<Rightarrow> \<not> obj_is_root (vobj parent) | None \<Rightarrow> False)
      then ancestor_in root resultQ (butlast val)
      else False)"

declare ancestor_in.simps [simp del]

definition xpath1_check_node_exists :: "val_value \<Rightarrow> val_ptr option \<Rightarrow> val_ptr list \<Rightarrow> val_ptr \<Rightarrow> bool" where
  "xpath1_check_node_exists root docroot resultQ val =
     (if (case docroot of Some d \<Rightarrow> d \<in> set resultQ | None \<Rightarrow> False) then True
      else if docroot = Some val then False
      else ancestor_in root resultQ val)"

text \<open>
  The loop takes the current node out and puts it back at its place unless the rest of the queue has it
  or one of its ancestors: \<open>kept\<close> are the nodes put back so far.
\<close>

fun prune_loop :: "(val_ptr list \<Rightarrow> val_ptr \<Rightarrow> bool) \<Rightarrow> val_ptr list \<Rightarrow> val_ptr list \<Rightarrow> val_ptr list" where
  "prune_loop covered kept [] = kept"
| "prune_loop covered kept (n # ns) =
     (if covered (kept @ ns) n then prune_loop covered kept ns
      else prune_loop covered (kept @ [n]) ns)"

definition xpath1_prune_nodeset :: "val_value \<Rightarrow> xpath_pcb_t \<Rightarrow> xpath_result_t \<Rightarrow> xpath_result_t" where
  "xpath1_prune_nodeset root pcb result =
     (if restype result \<noteq> XP_RT_NODESET then result
      else if \<not> isval result \<or> val_docroot pcb = None then result
      else if nodeQ result = [] then result
      else result\<lparr>nodeQ := prune_loop (xpath1_check_node_exists root (val_docroot pcb)) [] (nodeQ result)\<rparr>)"

text \<open>The node sets of all select expressions move to the final result, which is then pruned.\<close>

fun move_results :: "xpath_result_t list \<Rightarrow> xpath_result_t \<Rightarrow> xpath_result_t list \<times> xpath_result_t" where
  "move_results [] final = ([], final)"
| "move_results (result # results) final =
     (let (result', final') = xpath_move_nodeset result final;
          (results', final'') = move_results results final'
      in (result' # results', final''))"

definition plock_make_final_result :: "val_value \<Rightarrow> plock_cb_t \<Rightarrow> status_t \<times> plock_cb_t" where
  "plock_make_final_result root plcb =
     (case plock_xpathpcbQ plcb of
        [] \<Rightarrow> (ERR_INTERNAL_VAL, plcb)
      | xpathpcb # _ \<Rightarrow>
          (let (results, final) = move_results (plock_resultQ plcb) (plock_final_result plcb);
               final = xpath1_prune_nodeset root xpathpcb final;
               plcb = plcb\<lparr>plock_resultQ := results, plock_final_result := final\<rparr>
           in (if xpath_nodeset_empty final then ERR_NCX_XPATH_NODESET_EMPTY else NO_ERR, plcb)))"

section \<open>Lock slots\<close>

datatype op_editop_t =
    OP_EDITOP_NONE | OP_EDITOP_MERGE | OP_EDITOP_REPLACE | OP_EDITOP_CREATE | OP_EDITOP_DELETE
  | OP_EDITOP_LOAD | OP_EDITOP_COMMIT | OP_EDITOP_REMOVE

datatype agt_cbtyp_t = AGT_CB_VALIDATE | AGT_CB_APPLY | AGT_CB_COMMIT | AGT_CB_ROLLBACK

text \<open>
  The scan of the slots: the first owner other than the session, or whether a slot is free.
\<close>

fun scan_slots :: "u32 \<Rightarrow> plock_cb_t option list \<Rightarrow> bool \<Rightarrow> u32 + bool" where
  "scan_slots sesid [] anyavail = Inr anyavail"
| "scan_slots sesid (None # ps) anyavail = scan_slots sesid ps True"
| "scan_slots sesid (Some p # ps) anyavail =
     (if plock_get_sid p \<noteq> sesid then Inl (plock_get_sid p) else scan_slots sesid ps anyavail)"

text \<open>
  The node comes with its ancestors, nearest first.  The second component is \<open>*lockowner\<close>.
\<close>

fun val_ok_to_partial_lock :: "val_value list \<Rightarrow> u32 \<Rightarrow> u32 \<Rightarrow> val_value \<Rightarrow> status_t \<times> u32"
  and ok_to_lock_children :: "val_value list \<Rightarrow> u32 \<Rightarrow> u32 \<Rightarrow> val_value list \<Rightarrow> status_t \<times> u32" where
  "val_ok_to_partial_lock anc sesid lockowner (Val d cs) =
     (if sesid = 0 then (ERR_INTERNAL_VAL, lockowner)
      else if \<not> val_is_config_data (Val d cs # anc) then (ERR_NCX_NOT_CONFIG, lockowner)
      else case scan_slots sesid (val_plock d) False of
             Inl owner \<Rightarrow> (ERR_NCX_LOCK_DENIED, owner)
           | Inr anyavail \<Rightarrow>
               (if \<not> anyavail then (ERR_NCX_RESOURCE_DENIED, 0)
                else if typ_has_children (val_btyp d)
                then ok_to_lock_children (Val d cs # anc) sesid 0 cs
                else (NO_ERR, 0)))"
| "ok_to_lock_children anc sesid lockowner [] = (NO_ERR, lockowner)"
| "ok_to_lock_children anc sesid lockowner (c # cs) =
     (if VAL_IS_DELETED c \<or> \<not> val_is_config_data (c # anc)
      then ok_to_lock_children anc sesid lockowner cs
      else case val_ok_to_partial_lock anc sesid lockowner c of
             (res, owner) \<Rightarrow>
               (if res \<noteq> NO_ERR then (res, owner) else ok_to_lock_children anc sesid owner cs))"

text \<open>The first free slot is taken.\<close>

fun fill_slot :: "plock_cb_t \<Rightarrow> plock_cb_t option list \<Rightarrow> plock_cb_t option list" where
  "fill_slot plcb [] = []"
| "fill_slot plcb (None # ps) = Some plcb # ps"
| "fill_slot plcb (Some p # ps) = Some p # fill_slot plcb ps"

definition set_plock :: "(plock_cb_t option list \<Rightarrow> plock_cb_t option list) \<Rightarrow> val_value \<Rightarrow> val_value" where
  "set_plock f v = Val ((val_data v)\<lparr>val_plock := f (vplock v)\<rparr>) (val_childQ v)"

definition val_set_partial_lock :: "val_value list \<Rightarrow> plock_cb_t \<Rightarrow> val_value \<Rightarrow> status_t \<times> val_value" where
  "val_set_partial_lock anc plcb v =
     (if \<not> val_is_config_data (v # anc) then (ERR_NCX_NOT_CONFIG, v)
      else case scan_slots (plock_get_sid plcb) (vplock v) False of
             Inl owner \<Rightarrow> (ERR_NCX_LOCK_DENIED, v)
           | Inr anyavail \<Rightarrow>
               (if \<not> anyavail then (ERR_NCX_RESOURCE_DENIED, v)
                else (NO_ERR, set_plock (fill_slot plcb) v)))"

text \<open>Pointers to control blocks are equal when the addresses are.\<close>

definition points_to :: "plock_cb_t \<Rightarrow> plock_cb_t option \<Rightarrow> bool" where
  "points_to plcb s \<longleftrightarrow> (case s of Some p \<Rightarrow> plock_addr p = plock_addr plcb | None \<Rightarrow> False)"

fun clear_slot :: "plock_cb_t \<Rightarrow> plock_cb_t option list \<Rightarrow> plock_cb_t option list" where
  "clear_slot plcb [] = []"
| "clear_slot plcb (s # ss) = (if points_to plcb s then None # ss else s # clear_slot plcb ss)"

text \<open>A node that holds the lock is cleared and the search ends there; its children are not visited.\<close>

fun val_clear_partial_lock :: "val_value list \<Rightarrow> plock_cb_t \<Rightarrow> val_value \<Rightarrow> val_value" where
  "val_clear_partial_lock anc plcb (Val d cs) =
     (if \<not> val_is_config_data (Val d cs # anc) then Val d cs
      else if list_ex (points_to plcb) (val_plock d)
      then Val (d\<lparr>val_plock := clear_slot plcb (val_plock d)\<rparr>) cs
      else if typ_has_children (val_btyp d)
      then Val d (map (\<lambda>c. if VAL_IS_DELETED c then c
                           else if val_is_config_data (c # Val d cs # anc)
                           then val_clear_partial_lock (Val d cs # anc) plcb c
                           else c) cs)
      else Val d cs)"

section \<open>Write check\<close>

text \<open>The id of the first lock of another session.\<close>

fun foreign_lock :: "u32 \<Rightarrow> plock_cb_t option list \<Rightarrow> u32 option" where
  "foreign_lock sesid [] = None"
| "foreign_lock sesid (None # ps) = foreign_lock sesid ps"
| "foreign_lock sesid (Some p # ps) =
     (if plock_get_sid p \<noteq> sesid then Some (plock_get_id p) else foreign_lock sesid ps)"

fun foreign_lock_up :: "u32 \<Rightarrow> val_value list \<Rightarrow> u32 option" where
  "foreign_lock_up sesid [] = None"
| "foreign_lock_up sesid (upval # anc) =
     (if obj_is_root (vobj upval) then None
      else case foreign_lock sesid (vplock upval) of
             Some lockid \<Rightarrow> Some lockid
           | None \<Rightarrow> foreign_lock_up sesid anc)"

text \<open>
  \<open>first\<close> is \<^verbatim>\<open>cfg_first_partial_lock(running)\<close>.  The second component is \<open>*lockid\<close> when it is set.
\<close>

fun val_write_ok :: "plock_cb_t option \<Rightarrow> val_value list \<Rightarrow> op_editop_t \<Rightarrow> u32 \<Rightarrow> bool \<Rightarrow> val_value \<Rightarrow>
    status_t \<times> u32 option"
  and write_ok_children :: "plock_cb_t option \<Rightarrow> val_value list \<Rightarrow> op_editop_t \<Rightarrow> u32 \<Rightarrow> val_value list \<Rightarrow>
    status_t \<times> u32 option" where
  "val_write_ok first anc editop sesid checkup (Val d cs) =
     (if editop = OP_EDITOP_NONE then (NO_ERR, None)
      else if \<not> val_is_config_data (Val d cs # anc) then (ERR_NCX_NO_ACCESS_MAX, None)
      else if first = None then (NO_ERR, None)
      else case foreign_lock sesid (val_plock d) of
             Some lockid \<Rightarrow> (ERR_NCX_IN_USE_LOCKED, Some lockid)
           | None \<Rightarrow>
               (case (if checkup then foreign_lock_up sesid anc else None) of
                  Some lockid \<Rightarrow> (ERR_NCX_IN_USE_LOCKED, Some lockid)
                | None \<Rightarrow>
                    (if editop \<in> {OP_EDITOP_REPLACE, OP_EDITOP_DELETE, OP_EDITOP_REMOVE}
                        \<and> typ_has_children (val_btyp d)
                     then write_ok_children first (Val d cs # anc) editop sesid cs
                     else (NO_ERR, None))))"
| "write_ok_children first anc editop sesid [] = (NO_ERR, None)"
| "write_ok_children first anc editop sesid (c # cs) =
     (if VAL_IS_DELETED c \<or> \<not> val_is_config_data (c # anc)
      then write_ok_children first anc editop sesid cs
      else case val_write_ok first anc editop sesid False c of
             (res, lockid) \<Rightarrow>
               (if res \<noteq> NO_ERR then (res, lockid) else write_ok_children first anc editop sesid cs))"

section \<open>The nodes a lock covers\<close>

text \<open>The configuration nodes of a subtree that the walks reach.\<close>

fun config_nodes :: "val_value list \<Rightarrow> val_value \<Rightarrow> val_value list" where
  "config_nodes anc (Val d cs) = Val d cs #
     (if typ_has_children (val_btyp d)
      then concat (map (\<lambda>c. if VAL_IS_DELETED c \<or> \<not> val_is_config_data (c # Val d cs # anc) then []
                          else config_nodes (Val d cs # anc) c) cs)
      else [])"

definition only_locks_of :: "u32 \<Rightarrow> val_value \<Rightarrow> bool" where
  "only_locks_of sesid v \<longleftrightarrow> (\<forall>p. Some p \<in> set (vplock v) \<longrightarrow> plock_get_sid p = sesid)"

lemma scan_slots_Inr:
  "scan_slots s ps a = Inr b \<longleftrightarrow>
     (\<forall>p. Some p \<in> set ps \<longrightarrow> plock_get_sid p = s) \<and> b = (a \<or> None \<in> set ps)"
  by (induction s ps a rule: scan_slots.induct) auto

lemma scan_slots_Inl:
  "scan_slots s ps a = Inl owner \<Longrightarrow> owner \<noteq> s \<and> (\<exists>p. Some p \<in> set ps \<and> plock_get_sid p = owner)"
  by (induction s ps a rule: scan_slots.induct) (auto split: if_splits)

lemma foreign_lock_None:
  "foreign_lock s ps = None \<longleftrightarrow> (\<forall>p. Some p \<in> set ps \<longrightarrow> plock_get_sid p = s)"
  by (induction s ps rule: foreign_lock.induct) auto

lemma foreign_lock_Some:
  "foreign_lock s ps = Some i \<Longrightarrow> \<exists>p. Some p \<in> set ps \<and> plock_get_sid p \<noteq> s \<and> plock_get_id p = i"
  by (induction s ps rule: foreign_lock.induct) (auto split: if_splits)

lemma foreign_lock_only: "foreign_lock s (vplock v) = None \<longleftrightarrow> only_locks_of s v"
  by (simp add: foreign_lock_None only_locks_of_def)

lemma foreign_lock_up_None:
  "foreign_lock_up s anc = None \<longleftrightarrow>
     (\<forall>u \<in> set (takeWhile (\<lambda>u. \<not> obj_is_root (vobj u)) anc). only_locks_of s u)"
proof (induction s anc rule: foreign_lock_up.induct)
  case (2 s upval anc)
  then show ?case
    by (cases "foreign_lock s (vplock upval)") (auto simp: foreign_lock_only simp flip: foreign_lock_only)
qed simp

lemmas lock_free_iff = foreign_lock_None foreign_lock_up_None scan_slots_Inr

lemma ok_to_partial_lock_walk:
  "s \<noteq> 0 \<Longrightarrow> fst (val_ok_to_partial_lock anc s lo v) = NO_ERR \<longleftrightarrow>
     val_is_config_data (v # anc) \<and>
     (\<forall>n \<in> set (config_nodes anc v). None \<in> set (vplock n) \<and> only_locks_of s n)"
  "s \<noteq> 0 \<Longrightarrow> fst (ok_to_lock_children anc s lo cs) = NO_ERR \<longleftrightarrow>
     (\<forall>c \<in> set cs. VAL_IS_DELETED c \<or> \<not> val_is_config_data (c # anc) \<or>
        (\<forall>n \<in> set (config_nodes anc c). None \<in> set (vplock n) \<and> only_locks_of s n))"
proof (induction anc s lo v and anc s lo cs rule: val_ok_to_partial_lock_ok_to_lock_children.induct)
  case (1 anc s lo d cs)
  show ?case
  proof (cases "scan_slots s (val_plock d) False")
    case (Inl owner)
    with scan_slots_Inl [OF Inl] have "\<not> only_locks_of s (Val d cs)" by (auto simp: only_locks_of_def)
    with Inl 1 show ?thesis by simp
  next
    case (Inr anyavail)
    with scan_slots_Inr [of s "val_plock d" False anyavail]
    have "only_locks_of s (Val d cs)" "anyavail = (None \<in> set (val_plock d))" by (auto simp: only_locks_of_def)
    with Inr 1 show ?thesis by (auto split: if_splits)
  qed
next
  case (3 anc s lo c cs)
  then show ?case by (cases "val_ok_to_partial_lock anc s lo c") auto
qed simp_all

lemma ok_to_partial_lock_owner:
  "val_ok_to_partial_lock anc s lo v = (ERR_NCX_LOCK_DENIED, owner) \<Longrightarrow>
     owner \<noteq> s \<and> (\<exists>n \<in> set (config_nodes anc v). \<exists>p. Some p \<in> set (vplock n) \<and> plock_get_sid p = owner)"
  "ok_to_lock_children anc s lo cs = (ERR_NCX_LOCK_DENIED, owner) \<Longrightarrow>
     owner \<noteq> s \<and> (\<exists>c \<in> set cs. \<not> VAL_IS_DELETED c \<and> val_is_config_data (c # anc) \<and>
       (\<exists>n \<in> set (config_nodes anc c). \<exists>p. Some p \<in> set (vplock n) \<and> plock_get_sid p = owner))"
proof (induction anc s lo v and anc s lo cs rule: val_ok_to_partial_lock_ok_to_lock_children.induct)
  case (1 anc s lo d cs)
  from 1(2) have c: "s \<noteq> 0" "val_is_config_data (Val d cs # anc)" by (auto split: if_splits)
  show ?case
  proof (cases "scan_slots s (val_plock d) False")
    case (Inl o')
    with 1(2) c have "o' = owner" by simp
    with scan_slots_Inl [OF Inl] show ?thesis by auto
  next
    case (Inr anyavail)
    with 1(2) c have a: anyavail "typ_has_children (val_btyp d)"
      "ok_to_lock_children (Val d cs # anc) s 0 cs = (ERR_NCX_LOCK_DENIED, owner)" by (auto split: if_splits)
    from 1(1) [OF c(1) _ Inr _ a(2,3)] c a(1) show ?thesis using a(2) by auto
  qed
next
  case (3 anc s lo c cs)
  then show ?case by (cases "val_ok_to_partial_lock anc s lo c") (auto split: if_splits)
qed simp_all

lemma write_ok_walk:
  "fst (val_write_ok first anc op s chk v) = NO_ERR \<longleftrightarrow>
     op = OP_EDITOP_NONE \<or> val_is_config_data (v # anc) \<and>
     (first = None \<or>
      only_locks_of s v \<and>
      (op \<in> {OP_EDITOP_REPLACE, OP_EDITOP_DELETE, OP_EDITOP_REMOVE} \<longrightarrow>
         (\<forall>n \<in> set (config_nodes anc v). only_locks_of s n)) \<and>
      (chk \<longrightarrow> (\<forall>u \<in> set (takeWhile (\<lambda>u. \<not> obj_is_root (vobj u)) anc). only_locks_of s u)))"
  "op \<in> {OP_EDITOP_REPLACE, OP_EDITOP_DELETE, OP_EDITOP_REMOVE} \<Longrightarrow> first \<noteq> None \<Longrightarrow>
     fst (write_ok_children first anc op s cs) = NO_ERR \<longleftrightarrow>
     (\<forall>c \<in> set cs. VAL_IS_DELETED c \<or> \<not> val_is_config_data (c # anc) \<or>
        (\<forall>n \<in> set (config_nodes anc c). only_locks_of s n))"
proof (induction first anc op s chk v and first anc op s cs rule: val_write_ok_write_ok_children.induct)
  case (1 first anc op s chk d cs)
  have self: "foreign_lock s (val_plock d) = None \<longleftrightarrow> only_locks_of s (Val d cs)"
    by (simp add: foreign_lock_None only_locks_of_def)
  show ?case
  proof (cases "op = OP_EDITOP_NONE \<or> \<not> val_is_config_data (Val d cs # anc) \<or> first = None \<or> foreign_lock s (val_plock d) \<noteq> None")
    case True
    then show ?thesis using self by (auto simp del: not_None_eq)
  next
    case False
    then have f: "op \<noteq> OP_EDITOP_NONE" "val_is_config_data (Val d cs # anc)" "first \<noteq> None"
      "foreign_lock s (val_plock d) = None" by simp_all
    then have nn: "\<not> \<not> val_is_config_data (Val d cs # anc)" by simp
    show ?thesis
    proof (cases "(if chk then foreign_lock_up s anc else None) = None")
      case True
      then have up: "chk \<longrightarrow> (\<forall>u \<in> set (takeWhile (\<lambda>u. \<not> obj_is_root (vobj u)) anc). only_locks_of s u)"
        by (auto simp: foreign_lock_up_None split: if_splits)
      show ?thesis
        using 1 [OF f(1) nn f(3,4) True] f up self True by auto
    next
      case False
      then have "chk" "\<not> (\<forall>u \<in> set (takeWhile (\<lambda>u. \<not> obj_is_root (vobj u)) anc). only_locks_of s u)"
        by (auto simp flip: foreign_lock_up_None split: if_splits)
      with False f show ?thesis by auto
    qed
  qed
next
  case (3 first anc op s c cs)
  have "fst (val_write_ok first anc op s False c) = NO_ERR \<longleftrightarrow> (\<forall>n \<in> set (config_nodes anc c). only_locks_of s n)"
    if "\<not> (VAL_IS_DELETED c \<or> \<not> val_is_config_data (c # anc))"
    using 3(2) [OF that] that 3(4,5) by (cases c) auto
  then show ?case using 3(1,3,4,5) by (cases "val_write_ok first anc op s False c") auto
qed simp_all

section \<open>Setting and clearing one lock\<close>

lemma fill_slot_in: "None \<in> set ps \<Longrightarrow> Some plcb \<in> set (fill_slot plcb ps)"
  by (induction plcb ps rule: fill_slot.induct) auto

lemma fill_slot_subset: "set (fill_slot plcb ps) \<subseteq> insert (Some plcb) (set ps)"
  by (induction plcb ps rule: fill_slot.induct) auto

lemma clear_fill_slot:
  "None \<in> set ps \<Longrightarrow> \<not> list_ex (points_to plcb) ps \<Longrightarrow>
     clear_slot plcb (fill_slot plcb ps) = ps \<and> list_ex (points_to plcb) (fill_slot plcb ps)"
  by (induction plcb ps rule: fill_slot.induct) (auto simp: points_to_def)

lemma set_partial_lock_ok:
  "val_set_partial_lock anc plcb v = (NO_ERR, v') \<longleftrightarrow>
     val_is_config_data (v # anc) \<and> only_locks_of (plock_get_sid plcb) v \<and> None \<in> set (vplock v) \<and>
     v' = set_plock (fill_slot plcb) v"
  using scan_slots_Inl [of "plock_get_sid plcb" "vplock v" False]
  by (auto simp: val_set_partial_lock_def only_locks_of_def scan_slots_Inr split: sum.splits)

lemma set_plock_simps [simp]:
  "vobj (set_plock f v) = vobj v" "vplock (set_plock f v) = f (vplock v)" "vbtyp (set_plock f v) = vbtyp v"
  "val_childQ (set_plock f v) = val_childQ v" "VAL_IS_DELETED (set_plock f v) = VAL_IS_DELETED v"
  by (simp_all add: set_plock_def VAL_IS_DELETED_def)

lemma set_plock_cong: "f (vplock v) = vplock v \<Longrightarrow> set_plock f v = v"
  by (cases v) (simp add: set_plock_def)

lemma set_plock_compose: "set_plock f (set_plock g v) = set_plock (f \<circ> g) v"
  by (simp add: set_plock_def)

lemma config_head: "vobj v = vobj w \<Longrightarrow> val_is_config_data (v # anc) = val_is_config_data (w # anc)"
  by (rule val_is_config_data_objs) simp

lemma config_anc_cong:
  "map vobj anc = map vobj anc' \<Longrightarrow> val_is_config_data (v # anc) = val_is_config_data (v # anc')"
  by (rule val_is_config_data_objs) simp

lemma clear_anc_cong:
  "map vobj anc = map vobj anc' \<Longrightarrow> val_clear_partial_lock anc plcb v = val_clear_partial_lock anc' plcb v"
proof (induction anc plcb v arbitrary: anc' rule: val_clear_partial_lock.induct)
  case (1 anc plcb d cs)
  have a: "map vobj (Val d cs # anc) = map vobj (Val d cs # anc')" using 1(2) by simp
  have c: "val_is_config_data (c # Val d cs # anc) = val_is_config_data (c # Val d cs # anc')" for c
    by (rule config_anc_cong [OF a])
  have top: "val_is_config_data (Val d cs # anc) = val_is_config_data (Val d cs # anc')"
    by (rule config_anc_cong [OF 1(2)])
  show ?case
    using 1(1) [OF _ _ _ _ _ _ a] by (auto simp: c top cong: map_cong)
qed

lemma config_nodes_anc_cong:
  "map vobj anc = map vobj anc' \<Longrightarrow> config_nodes anc v = config_nodes anc' v"
proof (induction anc v arbitrary: anc' rule: config_nodes.induct)
  case (1 anc d cs)
  have a: "map vobj (Val d cs # anc) = map vobj (Val d cs # anc')" using 1(2) by simp
  have c: "val_is_config_data (c # Val d cs # anc) = val_is_config_data (c # Val d cs # anc')" for c
    by (rule config_anc_cong [OF a])
  have "map (\<lambda>c. if VAL_IS_DELETED c \<or> \<not> val_is_config_data (c # Val d cs # anc) then []
           else config_nodes (Val d cs # anc) c) cs =
        map (\<lambda>c. if VAL_IS_DELETED c \<or> \<not> val_is_config_data (c # Val d cs # anc') then []
           else config_nodes (Val d cs # anc') c) cs" if "typ_has_children (val_btyp d)"
    using 1(1) [OF that _ _ a] by (auto simp: c)
  then show ?case by (simp only: config_nodes.simps cong: if_cong)
qed

text \<open>A lock that no node of the subtree points to: clearing it changes nothing.\<close>

definition lock_absent :: "plock_cb_t \<Rightarrow> val_value list \<Rightarrow> val_value \<Rightarrow> bool" where
  "lock_absent plcb anc v \<longleftrightarrow> (\<forall>n \<in> set (config_nodes anc v). \<not> list_ex (points_to plcb) (vplock n))"

lemma lock_absent_child:
  "lock_absent plcb anc (Val d cs) \<Longrightarrow> typ_has_children (val_btyp d) \<Longrightarrow> c \<in> set cs \<Longrightarrow>
     \<not> VAL_IS_DELETED c \<Longrightarrow> val_is_config_data (c # Val d cs # anc) \<Longrightarrow> lock_absent plcb (Val d cs # anc) c"
  by (auto simp: lock_absent_def)

lemma lock_absent_node: "lock_absent plcb anc v \<Longrightarrow> \<not> list_ex (points_to plcb) (vplock v)"
  by (cases v) (auto simp: lock_absent_def)

lemma clear_absent: "lock_absent plcb anc v \<Longrightarrow> val_clear_partial_lock anc plcb v = v"
proof (induction anc plcb v rule: val_clear_partial_lock.induct)
  case (1 anc plcb d cs)
  have top: "\<not> list_ex (points_to plcb) (val_plock d)" using lock_absent_node [OF 1(2)] by simp
  have "map (\<lambda>c. if VAL_IS_DELETED c then c
             else if val_is_config_data (c # Val d cs # anc) then val_clear_partial_lock (Val d cs # anc) plcb c
             else c) cs = cs" if "typ_has_children (val_btyp d)" "val_is_config_data (Val d cs # anc)"
    using 1(1) [OF _ top that(1)] lock_absent_child [OF 1(2) that(1)] that(2) by (intro map_idI) auto
  with top show ?case by simp
qed

section \<open>Setting and clearing a lock on several nodes\<close>

text \<open>The lock put on all nodes of a node set, in order.\<close>

definition lock_at :: "plock_cb_t \<Rightarrow> val_ptr \<Rightarrow> val_value \<Rightarrow> val_value" where
  "lock_at plcb p v = val_update (set_plock (fill_slot plcb)) v p"

definition lock_all :: "plock_cb_t \<Rightarrow> val_ptr list \<Rightarrow> val_value \<Rightarrow> val_value" where
  "lock_all plcb S v = fold (lock_at plcb) S v"

text \<open>The walk of \<^verbatim>\<open>val_clear_partial_lock\<close> reaches the node at the path, and the node has a free slot.\<close>

fun lockable :: "val_value list \<Rightarrow> val_value \<Rightarrow> val_ptr \<Rightarrow> bool" where
  "lockable anc v [] \<longleftrightarrow> val_is_config_data (v # anc) \<and> None \<in> set (vplock v)"
| "lockable anc v (i # p) \<longleftrightarrow> val_is_config_data (v # anc) \<and> typ_has_children (vbtyp v) \<and>
     i < length (val_childQ v) \<and> \<not> VAL_IS_DELETED (val_childQ v ! i) \<and>
     lockable (v # anc) (val_childQ v ! i) p"

definition no_overlap :: "val_ptr list \<Rightarrow> bool" where
  "no_overlap S \<longleftrightarrow> distinct S \<and> (\<forall>p \<in> set S. \<forall>q \<in> set S. p \<noteq> q \<longrightarrow> take (length p) q \<noteq> p)"

fun tails :: "nat \<Rightarrow> val_ptr list \<Rightarrow> val_ptr list" where
  "tails i [] = []"
| "tails i ([] # S) = tails i S"
| "tails i ((j # q) # S) = (if j = i then q # tails i S else tails i S)"

lemma set_tails: "q \<in> set (tails i S) \<longleftrightarrow> i # q \<in> set S"
  by (induction i S rule: tails.induct) auto

lemma no_overlap_tails: "no_overlap S \<Longrightarrow> no_overlap (tails i S)"
proof -
  assume "no_overlap S"
  then have "distinct (tails i S)"
    unfolding no_overlap_def by (induction i S rule: tails.induct) (auto simp: set_tails)
  moreover have "take (length p) q \<noteq> p" if "p \<in> set (tails i S)" "q \<in> set (tails i S)" "p \<noteq> q" for p q
  proof -
    have "take (length (i # p)) (i # q) \<noteq> i # p"
      using \<open>no_overlap S\<close> that unfolding no_overlap_def set_tails by blast
    then show ?thesis by simp
  qed
  ultimately show ?thesis unfolding no_overlap_def by blast
qed

lemma no_overlap_Nil: "no_overlap S \<Longrightarrow> [] \<in> set S \<Longrightarrow> S = [[]]"
proof -
  assume S: "no_overlap S" "[] \<in> set S"
  then have "\<forall>q \<in> set S. q = []" unfolding no_overlap_def by (metis list.size(3) take0)
  with S(2) have "set S = {[]}" by auto
  moreover have "distinct S" using S(1) by (simp add: no_overlap_def)
  ultimately have "length S = 1" using distinct_card [of S] by simp
  with \<open>set S = {[]}\<close> show ?thesis by (cases S) simp_all
qed

lemma lockable_config: "lockable anc v p \<Longrightarrow> val_is_config_data (v # anc)"
  by (cases p) simp_all

lemma lock_at_simps:
  "lock_at plcb [] v = set_plock (fill_slot plcb) v"
  "lock_at plcb (i # p) (Val d cs) = (if i < length cs then Val d (cs[i := lock_at plcb p (cs ! i)]) else Val d cs)"
  by (simp_all add: lock_at_def)

lemma lock_all_simps: "lock_all plcb [] v = v" "lock_all plcb (p # S) v = lock_all plcb S (lock_at plcb p v)"
  by (simp_all add: lock_all_def)

lemma lock_at_keeps: "vobj (lock_at plcb p v) = vobj v" "VAL_IS_DELETED (lock_at plcb p v) = VAL_IS_DELETED v"
  by (cases v; cases p; simp add: lock_at_simps set_plock_def VAL_IS_DELETED_def)+

lemma lock_all_keeps: "vobj (lock_all plcb S v) = vobj v" "VAL_IS_DELETED (lock_all plcb S v) = VAL_IS_DELETED v"
  by (induction S arbitrary: v) (simp_all add: lock_all_simps lock_at_keeps)

lemma lock_all_children:
  "[] \<notin> set S \<Longrightarrow> lock_all plcb S (Val d cs) =
     Val d (map (\<lambda>i. lock_all plcb (tails i S) (cs ! i)) [0..<length cs])"
proof (induction S arbitrary: cs)
  case Nil
  show ?case by (simp add: lock_all_simps map_nth)
next
  case (Cons p S)
  then obtain j q where p: "p = j # q" by (cases p) auto
  show ?case
    using Cons by (auto simp: p lock_all_simps lock_at_simps nth_list_update intro!: map_cong)
qed

lemma clear_lock_all:
  "lock_absent plcb anc v \<Longrightarrow> no_overlap S \<Longrightarrow> \<forall>p \<in> set S. lockable anc v p \<Longrightarrow>
     val_clear_partial_lock anc plcb (lock_all plcb S v) = v"
proof (induction anc plcb v arbitrary: S rule: val_clear_partial_lock.induct)
  case (1 anc plcb d cs)
  note absent = 1(2) and chain = 1(3) and able = 1(4)
  have top: "\<not> list_ex (points_to plcb) (val_plock d)" using lock_absent_node [OF absent] by simp
  consider "S = []" | "S = [[]]" | j q where "j # q \<in> set S" "[] \<notin> set S"
  proof (cases "[] \<in> set S")
    case True
    then show ?thesis by (intro that(2) no_overlap_Nil [OF chain])
  next
    case False
    show ?thesis
    proof (cases S)
      case (Cons p S')
      with False obtain j q where "p = j # q" by (cases p) auto
      with Cons False show ?thesis by (intro that(3) [of j q]) simp_all
    qed (rule that(1))
  qed
  then show ?case
  proof cases
    case 1
    then show ?thesis using clear_absent [OF absent] by (simp add: lock_all_simps)
  next
    case 2
    then have l: "val_is_config_data (Val d cs # anc)" "None \<in> set (val_plock d)" using able by simp_all
    have "val_is_config_data (Val (d\<lparr>val_plock := fill_slot plcb (val_plock d)\<rparr>) cs # anc)"
      using l(1) config_head [of "Val d cs" "Val (d\<lparr>val_plock := fill_slot plcb (val_plock d)\<rparr>) cs" anc] by simp
    then show ?thesis
      using clear_fill_slot [OF l(2) top] by (simp add: 2 lock_all_simps lock_at_simps set_plock_def)
  next
    case 3
    then have ch: "val_is_config_data (Val d cs # anc)" "typ_has_children (val_btyp d)" using able by auto
    let ?cs' = "map (\<lambda>i. lock_all plcb (tails i S) (cs ! i)) [0..<length cs]"
    have anc: "map vobj (Val d ?cs' # anc) = map vobj (Val d cs # anc)" by simp
    have child: "(if VAL_IS_DELETED c' then c'
        else if val_is_config_data (c' # Val d ?cs' # anc) then val_clear_partial_lock (Val d ?cs' # anc) plcb c'
        else c') = cs ! i" if i: "i < length cs" and c': "c' = lock_all plcb (tails i S) (cs ! i)" for i c'
    proof (cases "VAL_IS_DELETED (cs ! i) \<or> \<not> val_is_config_data (cs ! i # Val d cs # anc)")
      case True
      have "tails i S = []"
      proof (rule ccontr)
        assume "tails i S \<noteq> []"
        then obtain q where "i # q \<in> set S" using set_tails [of _ i S] by (cases "tails i S") auto
        with able have "lockable anc (Val d cs) (i # q)" by blast
        with True show False by (auto dest: lockable_config)
      qed
      with True show ?thesis
        using config_anc_cong [OF anc] by (auto simp: c' lock_all_simps)
    next
      case False
      have "val_is_config_data (c' # Val d ?cs' # anc)"
        using False config_anc_cong [OF anc, of c'] config_head [of c' "cs ! i"]
        by (simp add: c' lock_all_keeps)
      moreover have "\<forall>p \<in> set (tails i S). lockable (Val d cs # anc) (cs ! i) p"
      proof
        fix p assume "p \<in> set (tails i S)"
        then have "lockable anc (Val d cs) (i # p)" using able unfolding set_tails by blast
        then show "lockable (Val d cs # anc) (cs ! i) p" by simp
      qed
      ultimately show ?thesis
        using False "1.IH" [OF _ top ch(2) nth_mem [OF i], of "tails i S"] ch(1)
          lock_absent_child [OF absent ch(2) nth_mem [OF i]] no_overlap_tails [OF chain]
          clear_anc_cong [OF anc]
        by (simp add: c' lock_all_keeps)
    qed
    have "val_is_config_data (Val d ?cs' # anc)" using ch(1) config_head [of "Val d cs" "Val d ?cs'" anc] by simp
    moreover have "map (\<lambda>c. if VAL_IS_DELETED c then c
          else if val_is_config_data (c # Val d ?cs' # anc) then val_clear_partial_lock (Val d ?cs' # anc) plcb c
          else c) ?cs' = cs"
      by (rule nth_equalityI) (use child in simp_all)
    ultimately show ?thesis
      using top ch(2) by (simp add: lock_all_children [OF 3(2)] del: map_map)
  qed
qed

section \<open>Pruned node sets\<close>

definition covers :: "val_value \<Rightarrow> val_ptr option \<Rightarrow> val_ptr \<Rightarrow> val_ptr \<Rightarrow> bool" where
  "covers root docroot m n \<longleftrightarrow> docroot = Some m \<or> docroot \<noteq> Some n \<and> ancestor_in root [m] n"

lemma ancestor_in_ex: "ancestor_in root Q n \<longleftrightarrow> (\<exists>m \<in> set Q. ancestor_in root [m] n)"
proof (induction root Q n rule: ancestor_in.induct)
  case (1 root Q n)
  show ?case
  proof (cases "n \<in> set Q")
    case True
    then have "ancestor_in root [n] n" by (subst ancestor_in.simps) simp
    with True show ?thesis by (subst ancestor_in.simps) auto
  next
    case False
    show ?thesis
    proof (cases "n \<noteq> [] \<and> (case val_at root (butlast n) of Some p \<Rightarrow> \<not> obj_is_root (vobj p) | None \<Rightarrow> False)")
      case True
      have "ancestor_in root Q n = ancestor_in root Q (butlast n)"
        by (subst ancestor_in.simps) (simp only: False True if_False if_True not_False_eq_True simp_thms)
      also have "\<dots> = (\<exists>m \<in> set Q. ancestor_in root [m] (butlast n))" by (rule 1 [OF False True])
      also have "\<dots> = (\<exists>m \<in> set Q. ancestor_in root [m] n)"
      proof (intro bex_cong refl)
        fix m assume "m \<in> set Q"
        with False have "n \<noteq> m" by blast
        then show "ancestor_in root [m] (butlast n) = ancestor_in root [m] n"
          by (subst (2) ancestor_in.simps) (use True in simp)
      qed
      finally show ?thesis .
    next
      case no: False
      have "\<not> ancestor_in root Q n" by (subst ancestor_in.simps) (simp only: False no if_False not_False_eq_True)
      moreover have "\<not> ancestor_in root [m] n" if "m \<in> set Q" for m
      proof -
        have "n \<notin> set [m]" using False that by auto
        then show ?thesis by (subst ancestor_in.simps) (simp only: no if_False not_False_eq_True)
      qed
      ultimately show ?thesis by blast
    qed
  qed
qed

lemma ancestor_in_trans: "ancestor_in root [m] n \<Longrightarrow> ancestor_in root [k] m \<Longrightarrow> ancestor_in root [k] n"
proof (induction root "[m]" n rule: ancestor_in.induct)
  case (1 root n)
  show ?case
  proof (cases "n = m")
    case True
    with 1(3) show ?thesis by simp
  next
    case False
    then have notin: "n \<notin> set [m]" by simp
    have step: "n \<noteq> [] \<and> (case val_at root (butlast n) of Some p \<Rightarrow> \<not> obj_is_root (vobj p) | None \<Rightarrow> False)"
      and up: "ancestor_in root [m] (butlast n)"
      using 1(2) notin by (subst (asm) ancestor_in.simps, simp split: if_splits)+
    have "ancestor_in root [k] (butlast n)" by (rule 1(1) [OF notin step up 1(3)])
    then show ?thesis by (subst ancestor_in.simps) (use step in simp)
  qed
qed

lemma exists_covers:
  "xpath1_check_node_exists root docroot Q n \<longleftrightarrow> (\<exists>m \<in> set Q. covers root docroot m n)"
  unfolding xpath1_check_node_exists_def covers_def using ancestor_in_ex [of root Q n]
  by (auto split: option.splits)

lemma covers_trans: "\<forall>m n k. covers root d m n \<longrightarrow> covers root d k m \<longrightarrow> covers root d k n"
  unfolding covers_def using ancestor_in_trans by blast

lemma prune_loop_spec:
  assumes "\<And>Q n. covered Q n \<longleftrightarrow> (\<exists>m \<in> set Q. c m n)" and "\<forall>m n k. c m n \<longrightarrow> c k m \<longrightarrow> c k n"
  shows "set (prune_loop covered kept ns) \<subseteq> set kept \<union> set ns" "set kept \<subseteq> set (prune_loop covered kept ns)"
    "\<forall>n \<in> set ns. \<exists>m \<in> set (prune_loop covered kept ns). m = n \<or> c m n"
    "\<forall>n \<in> set ns. n \<in> set (prune_loop covered kept ns) \<longrightarrow> n \<notin> set kept \<longrightarrow>
       (\<forall>m \<in> set (prune_loop covered kept ns). m \<noteq> n \<longrightarrow> \<not> c m n)"
proof (induction ns arbitrary: kept)
  case (Cons n ns)
  { case 1 show ?case using Cons(1) [of kept] Cons(1) [of "kept @ [n]"] by auto }
  { case 2 show ?case using Cons(2) [of kept] Cons(2) [of "kept @ [n]"] by auto }
  { case 3
    show ?case
    proof (cases "covered (kept @ ns) n")
      case True
      then obtain m where m: "m \<in> set kept \<or> m \<in> set ns" "c m n" using assms(1) by auto
      let ?R = "prune_loop covered kept ns"
      have "\<exists>r \<in> set ?R. r = m \<or> c r m" using m(1) Cons(2) [of kept] Cons(3) [of kept] by blast
      then have "\<exists>r \<in> set ?R. r = n \<or> c r n" using m(2) assms(2) by metis
      with True Cons(3) [of kept] show ?thesis by simp
    next
      case False
      then have "n \<in> set (prune_loop covered (kept @ [n]) ns)" using Cons(2) [of "kept @ [n]"] by auto
      with False Cons(3) [of "kept @ [n]"] show ?thesis by auto
    qed }
  { case 4
    show ?case
    proof (cases "covered (kept @ ns) n")
      case True
      show ?thesis using Cons(4) [of kept] Cons(1) [of kept] True by auto
    next
      case False
      let ?R = "prune_loop covered (kept @ [n]) ns"
      have sub: "set ?R \<subseteq> set kept \<union> {n} \<union> set ns" using Cons(1) [of "kept @ [n]"] by auto
      have "\<forall>m \<in> set ?R. m \<noteq> n \<longrightarrow> \<not> c m n" using False sub assms(1) by auto
      then show ?thesis using False Cons(4) [of "kept @ [n]"] by auto
    qed }
qed simp_all

section \<open>Properties\<close>

lemma config_nodes_eq:
  "config_nodes anc v = v #
     (if typ_has_children (vbtyp v)
      then concat (map (\<lambda>c. if VAL_IS_DELETED c \<or> \<not> val_is_config_data (c # v # anc) then []
                          else config_nodes (v # anc) c) (val_childQ v))
      else [])"
  by (cases v) (simp only: config_nodes.simps val_value.sel)

lemma sample_nodes:
  "config_nodes anc (sample_host qs) = [sample_host qs]"
  "config_nodes anc (sample_system ps qs) = [sample_system ps qs, sample_host qs]"
  "config_nodes anc (sample_config ps qs) = [sample_config ps qs, sample_system ps qs, sample_host qs]"
  by (simp_all add: config_nodes_eq [of _ "sample_host qs"] config_nodes_eq [of _ "sample_system ps qs"]
      config_nodes_eq [of _ "sample_config ps qs"] sample_simps sample_config_data typ_has_children_def)

definition sample_plcb :: "nat \<Rightarrow> u32 \<Rightarrow> plock_cb_t" where
  "sample_plcb addr sid = \<lparr>plock_addr = addr, plock_id = 1, plock_sesid = sid, plock_xpathpcbQ = [],
     plock_resultQ = [], plock_final_result = xpath_new_result XP_RT_NODESET, plock_time = []\<rparr>"

lemma sample_sid: "plock_get_sid (sample_plcb a s) = s" "plock_addr (sample_plcb a s) = a" "plock_get_id (sample_plcb a s) = 1"
  by (simp_all add: sample_plcb_def plock_get_sid_def plock_get_id_def)







text \<open>
  pruning a node set of values removes exactly what is redundant: every remaining
  node was there before, every removed node has an ancestor-or-self (or the document root) among the
  remaining ones, and no remaining node is covered by another remaining one.
\<close>
theorem prune_nodeset_antichain:
  fixes root :: val_value
  assumes "restype r = XP_RT_NODESET" and "isval r" and "val_docroot pcb \<noteq> None"
  defines "R \<equiv> nodeQ (xpath1_prune_nodeset root pcb r)"
  shows "set R \<subseteq> set (nodeQ r) \<and>
    (\<forall>n \<in> set (nodeQ r). \<exists>m \<in> set R. m = n \<or> covers root (val_docroot pcb) m n) \<and>
    (\<forall>n \<in> set R. \<forall>m \<in> set R. m \<noteq> n \<longrightarrow> \<not> covers root (val_docroot pcb) m n)"
proof -
  have R: "R = prune_loop (xpath1_check_node_exists root (val_docroot pcb)) [] (nodeQ r)"
    using assms(1-3) by (auto simp: R_def xpath1_prune_nodeset_def)
  note spec = prune_loop_spec [of "xpath1_check_node_exists root (val_docroot pcb)" "covers root (val_docroot pcb)",
      OF exists_covers covers_trans]
  show ?thesis
    unfolding R
  proof (intro conjI)
    show sub: "set (prune_loop (xpath1_check_node_exists root (val_docroot pcb)) [] (nodeQ r)) \<subseteq> set (nodeQ r)"
      using spec(1) [where kept = "[]" and ns = "nodeQ r"] by simp
    show "\<forall>n \<in> set (nodeQ r). \<exists>m \<in> set (prune_loop (xpath1_check_node_exists root (val_docroot pcb)) [] (nodeQ r)).
        m = n \<or> covers root (val_docroot pcb) m n"
      by (rule spec(3))
    show "\<forall>n \<in> set (prune_loop (xpath1_check_node_exists root (val_docroot pcb)) [] (nodeQ r)).
        \<forall>m \<in> set (prune_loop (xpath1_check_node_exists root (val_docroot pcb)) [] (nodeQ r)).
          m \<noteq> n \<longrightarrow> \<not> covers root (val_docroot pcb) m n"
      proof (intro ballI impI)
      fix n m assume "n \<in> set (prune_loop (xpath1_check_node_exists root (val_docroot pcb)) [] (nodeQ r))" "m \<in> set (prune_loop (xpath1_check_node_exists root (val_docroot pcb)) [] (nodeQ r))" "m \<noteq> n"
      moreover from this sub have "n \<in> set (nodeQ r)" by blast
      ultimately show "\<not> covers root (val_docroot pcb) m n"
        using spec(4) [where kept = "[]" and ns = "nodeQ r", rule_format, of n m] by simp
    qed
  qed
qed

theorem prune_nodeset_antichain_witness:
  "nodeQ (xpath1_prune_nodeset (sample_config [] []) \<lparr>exprstr = [], val_docroot = Some []\<rparr>
     \<lparr>restype = XP_RT_NODESET, isval = True, nodeQ = [[0]]\<rparr>) \<noteq> []"
  using prune_nodeset_antichain [of "\<lparr>restype = XP_RT_NODESET, isval = True, nodeQ = [[0]]\<rparr>"
      "\<lparr>exprstr = [], val_docroot = Some []\<rparr>" "sample_config [] []"]
  by (auto)

text \<open>
  the final result of a partial lock is never pruned.  \<^verbatim>\<open>plock_cb_new\<close> creates it with
  \<^verbatim>\<open>isval\<close> false and nothing sets the flag, so \<^verbatim>\<open>xpath1_prune_nodeset\<close> returns at once: the nodes of
  all select expressions stay, duplicates and descendants included.
\<close>
theorem plock_never_pruned:
  assumes "plock_cb_new mem1 mem2 now sid res last_id = (Some plcb, res', last_id')"
    and "selects \<noteq> []" and "\<forall>(pcb, r) \<in> set selects. restype r = XP_RT_NODESET"
  shows "nodeQ (plock_final_result (snd (plock_make_final_result root
           (fold (\<lambda>(pcb, r). plock_add_select pcb r) selects plcb)))) = concat (map (nodeQ \<circ> snd) selects)"
proof -
  let ?plcb = "fold (\<lambda>(pcb, r). plock_add_select pcb r) selects plcb"
  have new: "plock_xpathpcbQ plcb = []" "plock_resultQ plcb = []"
    "plock_final_result plcb = \<lparr>restype = XP_RT_NODESET, isval = False, nodeQ = []\<rparr>"
    using assms(1) by (auto simp: plock_cb_new_def xpath_new_result_def Let_def split: if_splits option.splits)
  have sel: "plock_xpathpcbQ (fold (\<lambda>(pcb, r). plock_add_select pcb r) ss p) = plock_xpathpcbQ p @ map fst ss \<and>
      plock_resultQ (fold (\<lambda>(pcb, r). plock_add_select pcb r) ss p) = plock_resultQ p @ map snd ss \<and>
      plock_final_result (fold (\<lambda>(pcb, r). plock_add_select pcb r) ss p) = plock_final_result p" for ss p
    by (induction ss arbitrary: p) (auto simp: plock_add_select_def)
  have move: "restype dest = XP_RT_NODESET \<Longrightarrow> \<forall>r \<in> set rs. restype r = XP_RT_NODESET \<Longrightarrow>
      snd (move_results rs dest) = dest\<lparr>nodeQ := nodeQ dest @ concat (map nodeQ rs)\<rparr>" for rs dest
    by (induction rs dest rule: move_results.induct) (auto simp: xpath_move_nodeset_def split_beta)
  obtain x xs where x: "plock_xpathpcbQ ?plcb = x # xs" using sel [of selects plcb] assms(2) by (cases selects) (auto simp: new)
  have "\<forall>r \<in> set (map snd selects). restype r = XP_RT_NODESET" using assms(3) by auto
  from move [OF _ this, of "plock_final_result plcb"]
  have final: "snd (move_results (plock_resultQ ?plcb) (plock_final_result ?plcb)) =
      \<lparr>restype = XP_RT_NODESET, isval = False, nodeQ = concat (map (nodeQ \<circ> snd) selects)\<rparr>"
    using sel [of selects plcb] by (simp add: new)
  show ?thesis
    unfolding plock_make_final_result_def x list.case Let_def split_beta snd_conv final
    by (simp add: xpath1_prune_nodeset_def)
qed

theorem plock_never_pruned_witness:
  "\<exists>plcb. nodeQ (plock_final_result (snd (plock_make_final_result (sample_config [] []) plcb))) = [[0], [0], [0, 0]]"
proof -
  let ?pcb = "\<lparr>exprstr = ''/system'', val_docroot = Some []\<rparr>"
  let ?r = "\<lambda>q. \<lparr>restype = XP_RT_NODESET, isval = True, nodeQ = q\<rparr>"
  obtain plcb where "plock_cb_new (Some 1) True [] 5 NO_ERR 0 = (Some plcb, NO_ERR, 1)"
    by (simp add: plock_cb_new_def)
  from plock_never_pruned [OF this, of "[(?pcb, ?r [[0]]), (?pcb, ?r [[0], [0, 0]])]" "sample_config [] []"]
  show ?thesis by (intro exI) simp
qed

end
