(* ===== verification/Agt_Acm.thy ===== *)
theory Agt_Acm
  imports Partial_Lock
begin

text \<open>
  The NETCONF access control model of the server (\<^verbatim>\<open>netconf/src/agt/agt_acm.c\<close>): who may invoke an operation,
  receive a notification, read or write a data node, according to the mode, the rules under
  \<^verbatim>\<open>/nacm\<close> and the defaults, with the caches of the sessions and the counters of denied requests.

  A data node that is checked comes with its ancestors, nearest first; nodes of the running
  configuration are given by their positions.  The XPath evaluator and \<^verbatim>\<open>agt_apply_this_node\<close> are
  parameters.  The leafs that the code asserts to exist (keys, and \<^verbatim>\<open>access-operations\<close> with its default)
  count as empty strings when they are absent.  The module rule cache is not part of the model:
  \<^verbatim>\<open>check_module_rules\<close> returns before it uses it.  Logging is not modelled.
\<close>

section \<open>State\<close>

datatype agt_acmode_t = AGT_ACMOD_NONE | AGT_ACMOD_ENFORCING | AGT_ACMOD_PERMISSIVE | AGT_ACMOD_DISABLED | AGT_ACMOD_OFF

record agt_acm_usergroups_t =
  username :: string
  groupQ :: "string list"

text \<open>
  \<open>docname\<close> is the name of the document root of the expression; \<open>datarule\<close> are the positions of the rule
  list below \<^verbatim>\<open>/nacm\<close> and of the rule in it.
\<close>

record agt_acm_datarule_t =
  dr_docname :: string
  dr_result :: xpath_result_t
  datarule :: "nat \<times> nat"

text \<open>\<open>nacmroot\<close> is the position of \<^verbatim>\<open>/nacm\<close> below the root of the running configuration.\<close>

record agt_acm_cache_t =
  usergroups :: "agt_acm_usergroups_t option"
  nacmroot :: "nat option"
  groupcnt :: u32
  acm_flags :: u32
  cache_mode :: agt_acmode_t
  dataruleQ :: "nat \<Rightarrow> agt_acm_datarule_t list"

abbreviation FL_ACM_DEFREAD_SET :: nat where "FL_ACM_DEFREAD_SET \<equiv> 0"
abbreviation FL_ACM_DEFREAD_OK :: nat where "FL_ACM_DEFREAD_OK \<equiv> 1"
abbreviation FL_ACM_DEFWRITE_SET :: nat where "FL_ACM_DEFWRITE_SET \<equiv> 2"
abbreviation FL_ACM_DEFWRITE_OK :: nat where "FL_ACM_DEFWRITE_OK \<equiv> 3"
abbreviation FL_ACM_DEFEXEC_SET :: nat where "FL_ACM_DEFEXEC_SET \<equiv> 4"
abbreviation FL_ACM_DEFEXEC_OK :: nat where "FL_ACM_DEFEXEC_OK \<equiv> 5"
abbreviation FL_ACM_DATARULES_SET :: nat where "FL_ACM_DATARULES_SET \<equiv> 7"
abbreviation FL_ACM_CACHE_VALID :: nat where "FL_ACM_CACHE_VALID \<equiv> 8"

text \<open>The static variables, and the access control part of a session and of a message header.\<close>

record acm_state =
  agt_acm_init_done :: bool
  superuser :: "string option"
  acmode :: agt_acmode_t
  denied_operations_count :: u32
  denied_data_writes_count :: u32
  notif_cache :: "agt_acm_cache_t option"

record acm_session =
  scb_username :: string
  acm_cache :: "agt_acm_cache_t option"

section \<open>Users and modes\<close>

definition is_superuser :: "acm_state \<Rightarrow> string \<Rightarrow> bool" where
  "is_superuser st user =
     (case superuser st of
        None \<Rightarrow> False
      | Some super \<Rightarrow> (if super = [] then False else if user = [] then False else super = user))"

definition check_mode :: "acm_state \<Rightarrow> string \<Rightarrow> obj_template \<Rightarrow> bool" where
  "check_mode st access obj =
     (let isread = access \<notin> {''create'', ''update'', ''delete'', ''exec''}
      in case acmode st of
           AGT_ACMOD_ENFORCING \<Rightarrow> False
         | AGT_ACMOD_PERMISSIVE \<Rightarrow> isread \<and> \<not> obj_is_very_secure obj
         | AGT_ACMOD_DISABLED \<Rightarrow>
             (if isread then \<not> obj_is_very_secure obj
              else \<not> (obj_is_secure obj \<or> obj_is_very_secure obj))
         | AGT_ACMOD_OFF \<Rightarrow> True
         | AGT_ACMOD_NONE \<Rightarrow> False)"

definition find_group_ptr :: "agt_acm_usergroups_t \<Rightarrow> string \<Rightarrow> bool" where
  "find_group_ptr ug name \<longleftrightarrow> name \<in> set (groupQ ug)"

definition add_group_ptr :: "agt_acm_usergroups_t \<Rightarrow> string \<Rightarrow> agt_acm_usergroups_t" where
  "add_group_ptr ug name = (if find_group_ptr ug name then ug else ug\<lparr>groupQ := groupQ ug @ [name]\<rparr>)"

section \<open>Children of the access control configuration\<close>

abbreviation AGT_ACM_MODULE :: string where "AGT_ACM_MODULE \<equiv> ''ietf-netconf-acm''"

text \<open>
  The positions that a loop \<^verbatim>\<open>for (v = val_find_child(p, m, n1); v; v = val_find_next_child(p, m, n2, v))\<close>
  visits; the two names are usually the same.
\<close>

function next_iter :: "xmlns_db \<Rightarrow> val_value \<Rightarrow> string \<Rightarrow> nat \<Rightarrow> nat list" where
  "next_iter ns parent name i =
     (case val_find_next_child ns parent (Some AGT_ACM_MODULE) name i of
        None \<Rightarrow> []
      | Some j \<Rightarrow> j # next_iter ns parent name j)"
  by pat_completeness auto

termination next_iter
  by (relation "measure (\<lambda>(ns, parent, name, i). length (val_childQ parent) - i)") (auto dest!: find_next_child_gt)

declare next_iter.simps [simp del]

definition child_iter :: "xmlns_db \<Rightarrow> val_value \<Rightarrow> string \<Rightarrow> string \<Rightarrow> nat list" where
  "child_iter ns parent name1 name2 =
     (case val_find_child ns parent (Some AGT_ACM_MODULE) name1 of
        None \<Rightarrow> []
      | Some i \<Rightarrow> i # next_iter ns parent name2 i)"

abbreviation child_at :: "val_value \<Rightarrow> nat \<Rightarrow> val_value" where
  "child_at v i \<equiv> val_childQ v ! i"

definition acm_child :: "xmlns_db \<Rightarrow> val_value \<Rightarrow> string \<Rightarrow> val_value option" where
  "acm_child ns v name = map_option (child_at v) (val_find_child ns v (Some AGT_ACM_MODULE) name)"

abbreviation VAL_STR :: "val_value \<Rightarrow> string" where
  "VAL_STR v \<equiv> val_str (val_data v)"

definition leaf_str :: "val_value option \<Rightarrow> string" where
  "leaf_str v = (case v of None \<Rightarrow> [] | Some v \<Rightarrow> VAL_STR v)"

text \<open>The groups of a user.  \<open>mem\<close>: there is memory for the entry; the group count is its own counter.\<close>

fun collect_groups :: "xmlns_db \<Rightarrow> string \<Rightarrow> val_value list \<Rightarrow> agt_acm_usergroups_t \<times> u32 \<Rightarrow> agt_acm_usergroups_t \<times> u32" where
  "collect_groups ns user [] (ug, n) = (ug, n)"
| "collect_groups ns user (groupval # gs) (ug, n) =
     (if list_ex (\<lambda>i. user = VAL_STR (child_at groupval i)) (child_iter ns groupval ''user-name'' ''user-name'')
      then collect_groups ns user gs (add_group_ptr ug (leaf_str (acm_child ns groupval ''name'')), n + 1)
      else collect_groups ns user gs (ug, n))"

definition get_usergroups_entry ::
    "bool \<Rightarrow> xmlns_db \<Rightarrow> val_value \<Rightarrow> string \<Rightarrow> (agt_acm_usergroups_t \<times> u32) option" where
  "get_usergroups_entry mem ns nacm user =
     (if \<not> mem then None
      else Some (let ug = \<lparr>username = user, groupQ = []\<rparr>
                 in case acm_child ns nacm ''groups'' of
                      None \<Rightarrow> (ug, 0)
                    | Some groupsval \<Rightarrow> collect_groups ns user (val_children groupsval) (ug, 0)))"

definition new_acm_cache :: "acm_state \<Rightarrow> agt_acm_cache_t" where
  "new_acm_cache st = \<lparr>usergroups = None, nacmroot = None, groupcnt = 0,
     acm_flags = set_bit FL_ACM_CACHE_VALID 0, cache_mode = acmode st, dataruleQ = (\<lambda>_. [])\<rparr>"

section \<open>Rules\<close>

definition group_match :: "agt_acm_usergroups_t \<Rightarrow> val_value \<Rightarrow> bool" where
  "group_match ug g \<longleftrightarrow> VAL_STR g = ''*'' \<or> find_group_ptr ug (VAL_STR g)"

text \<open>The groups of a rule list that the loops visit: after the first, the next child called \<^verbatim>\<open>name\<close>.\<close>

definition rule_groups :: "xmlns_db \<Rightarrow> val_value \<Rightarrow> val_value list" where
  "rule_groups ns rule_list = map (child_at rule_list) (child_iter ns rule_list ''group'' ''name'')"

fun strstr :: "string \<Rightarrow> string \<Rightarrow> bool" where
  "strstr [] p = (p = [])"
| "strstr (c # cs) p = (take (length p) (c # cs) = p \<or> strstr cs p)"

text \<open>The result is whether access is granted, and \<^verbatim>\<open>*done\<close>.\<close>

definition check_access_bit ::
    "xmlns_db \<Rightarrow> val_value \<Rightarrow> val_value \<Rightarrow> string \<Rightarrow> agt_acm_usergroups_t \<Rightarrow> bool \<times> bool" where
  "check_access_bit ns rule_list rule access ug =
     (if list_ex (group_match ug) (rule_groups ns rule_list)
      then (let rights = leaf_str (acm_child ns rule ''access-operations'')
            in (if rights = ''*'' then True else strstr rights access, True))
      else (False, False))"

definition check_rule_group :: "xmlns_db \<Rightarrow> val_value \<Rightarrow> agt_acm_usergroups_t \<Rightarrow> bool" where
  "check_rule_group ns rule_list ug \<longleftrightarrow> list_ex (group_match ug) (rule_groups ns rule_list)"

text \<open>All rules with their rule lists, in the order of the nested loops.\<close>

definition all_rules :: "xmlns_db \<Rightarrow> val_value \<Rightarrow> (nat \<times> nat) list" where
  "all_rules ns nacm =
     concat (map (\<lambda>l. map (Pair l) (child_iter ns (child_at nacm l) ''rule'' ''rule''))
                 (child_iter ns nacm ''rule-list'' ''rule-list''))"

definition rule_at :: "val_value \<Rightarrow> nat \<times> nat \<Rightarrow> val_value" where
  "rule_at nacm r = child_at (child_at nacm (fst r)) (snd r)"

text \<open>\<^verbatim>\<open>xml_strcmp\<close> is zero for a null pointer.\<close>

definition differs :: "string option \<Rightarrow> string \<Rightarrow> bool" where
  "differs s t = (case s of None \<Rightarrow> False | Some s \<Rightarrow> s \<noteq> t)"

definition wrong_module :: "xmlns_db \<Rightarrow> val_value \<Rightarrow> obj_template \<Rightarrow> bool" where
  "wrong_module ns rule obj =
     (case acm_child ns rule ''module-name'' of
        None \<Rightarrow> False
      | Some modname \<Rightarrow>
          VAL_STR modname \<noteq> ''*'' \<and> differs (obj_get_mod_name obj) (VAL_STR modname) \<and>
          (differs (obj_get_mod_name obj) ''yuma-netconf'' \<and> VAL_STR modname \<noteq> ''ietf-netconf''))"

text \<open>The condition of the rule loops: the name leaf is there, the module is right and the name is the object's.\<close>

definition rule_applies :: "xmlns_db \<Rightarrow> string \<Rightarrow> obj_template \<Rightarrow> val_value \<Rightarrow> bool" where
  "rule_applies ns key obj rule =
     (case acm_child ns rule key of
        None \<Rightarrow> False
      | Some nameval \<Rightarrow> \<not> wrong_module ns rule obj \<and> obj_get_name obj = VAL_STR nameval)"

fun rule_loop ::
    "xmlns_db \<Rightarrow> string \<Rightarrow> string \<Rightarrow> val_value \<Rightarrow> obj_template \<Rightarrow> agt_acm_usergroups_t \<Rightarrow> (nat \<times> nat) list \<Rightarrow> bool \<times> bool" where
  "rule_loop ns key access nacm obj ug [] = (False, False)"
| "rule_loop ns key access nacm obj ug (r # rs) =
     (if rule_applies ns key obj (rule_at nacm r)
      then (case check_access_bit ns (child_at nacm (fst r)) (rule_at nacm r) access ug of
              (granted, done2) \<Rightarrow> (if done2 then (granted, True) else rule_loop ns key access nacm obj ug rs))
      else rule_loop ns key access nacm obj ug rs)"

definition check_rpc_rules :: "xmlns_db \<Rightarrow> val_value \<Rightarrow> obj_template \<Rightarrow> agt_acm_usergroups_t \<Rightarrow> bool \<times> bool" where
  "check_rpc_rules ns nacm rpcobj ug = rule_loop ns ''rpc-name'' ''exec'' nacm rpcobj ug (all_rules ns nacm)"

definition check_notif_rules :: "xmlns_db \<Rightarrow> val_value \<Rightarrow> obj_template \<Rightarrow> agt_acm_usergroups_t \<Rightarrow> bool \<times> bool" where
  "check_notif_rules ns nacm notifobj ug =
     rule_loop ns ''notification-name'' ''read'' nacm notifobj ug (all_rules ns nacm)"

text \<open>The function returns at once; the rest of it is not ready.\<close>

definition check_module_rules :: "bool \<times> bool" where
  "check_module_rules = (False, False)"

section \<open>Defaults\<close>

text \<open>
  A default response: the cached bit when it is set, otherwise the leaf, whose value is cached.  \<open>dflt\<close> is the
  response without the leaf.
\<close>

definition default_leaf ::
    "xmlns_db \<Rightarrow> val_value \<Rightarrow> string \<Rightarrow> nat \<Rightarrow> nat \<Rightarrow> bool \<Rightarrow> agt_acm_cache_t \<Rightarrow> bool \<times> agt_acm_cache_t" where
  "default_leaf ns nacm leaf setb okb dflt cache =
     (if bit (acm_flags cache) setb then (bit (acm_flags cache) okb, cache)
      else (let retval = (case acm_child ns nacm leaf of None \<Rightarrow> dflt | Some noRule \<Rightarrow> VAL_STR noRule = ''permit'');
                fl = set_bit setb (acm_flags cache)
            in (retval, cache\<lparr>acm_flags := (if retval then set_bit okb fl else fl)\<rparr>)))"

definition get_default_rpc_response ::
    "xmlns_db \<Rightarrow> agt_acm_cache_t \<Rightarrow> val_value \<Rightarrow> obj_template \<Rightarrow> bool \<times> agt_acm_cache_t" where
  "get_default_rpc_response ns cache nacm rpcobj =
     (if obj_is_secure rpcobj \<or> obj_is_very_secure rpcobj then (False, cache)
      else default_leaf ns nacm ''exec-default'' FL_ACM_DEFEXEC_SET FL_ACM_DEFEXEC_OK True cache)"

definition get_default_notif_response ::
    "xmlns_db \<Rightarrow> agt_acm_cache_t \<Rightarrow> val_value \<Rightarrow> obj_template \<Rightarrow> bool \<times> agt_acm_cache_t" where
  "get_default_notif_response ns cache nacm notifobj =
     (if obj_is_secure notifobj \<or> obj_is_very_secure notifobj then (False, cache)
      else default_leaf ns nacm ''read-default'' FL_ACM_DEFREAD_SET FL_ACM_DEFREAD_OK True cache)"

text \<open>The object or one above it, below the root, is tagged as secure.\<close>

fun secure_up :: "bool \<Rightarrow> obj_template \<Rightarrow> bool" where
  "secure_up iswrite (Obj d p t) =
     (if (if iswrite then obj_is_secure (Obj d p t) \<or> obj_is_very_secure (Obj d p t)
          else obj_is_very_secure (Obj d p t)) then True
      else if obj_is_root (Obj d p t) then False
      else case p of
             None \<Rightarrow> False
           | Some q \<Rightarrow> (if obj_is_root q then False else secure_up iswrite q))"

definition get_default_data_response ::
    "xmlns_db \<Rightarrow> agt_acm_cache_t \<Rightarrow> val_value \<Rightarrow> obj_template \<Rightarrow> bool \<Rightarrow> bool \<times> agt_acm_cache_t" where
  "get_default_data_response ns cache nacm obj iswrite =
     (if iswrite \<and> obj_is_root obj then (True, cache)
      else if secure_up iswrite obj then (False, cache)
      else if iswrite
      then default_leaf ns nacm ''write-default'' FL_ACM_DEFWRITE_SET FL_ACM_DEFWRITE_OK False cache
      else default_leaf ns nacm ''read-default'' FL_ACM_DEFREAD_SET FL_ACM_DEFREAD_OK True cache)"

section \<open>Data rules\<close>

abbreviation DATA_RULE_QUEUE_READ :: nat where "DATA_RULE_QUEUE_READ \<equiv> 0"
abbreviation DATA_RULE_QUEUE_UPDATE :: nat where "DATA_RULE_QUEUE_UPDATE \<equiv> 1"
abbreviation DATA_RULE_QUEUE_NUM :: nat where "DATA_RULE_QUEUE_NUM \<equiv> 4"

definition get_rule_queue_access_str :: "nat \<Rightarrow> string" where
  "get_rule_queue_access_str i = [''read'', ''update'', ''create'', ''delete''] ! i"

definition get_rule_queue_access_id :: "string \<Rightarrow> nat" where
  "get_rule_queue_access_id access =
     (if access = ''read'' then 0 else if access = ''update'' then 1 else if access = ''create'' then 2 else 3)"

text \<open>The queues and \<open>res\<close> while the rules are cached.\<close>

type_synonym rule_cache = "(nat \<Rightarrow> agt_acm_datarule_t list) \<times> status_t"

text \<open>
  One rule: the loop over the queues, which an error ends.  \<open>eval\<close> is \<^verbatim>\<open>xpath1_eval_expr\<close> on the running
  configuration with its \<^verbatim>\<open>configonly\<close> flag.
\<close>

fun cache_rule ::
    "bool \<Rightarrow> (bool \<Rightarrow> xpath_pcb_t \<Rightarrow> xpath_result_t option \<times> status_t) \<Rightarrow> string \<Rightarrow> nat \<times> nat \<Rightarrow> xpath_pcb_t \<Rightarrow> string \<Rightarrow>
     nat list \<Rightarrow> rule_cache \<Rightarrow> rule_cache" where
  "cache_rule mem eval docname r pcb ops [] (q, res) = (q, res)"
| "cache_rule mem eval docname r pcb ops (i # is) (q, res) =
     (if ops \<noteq> ''*'' \<and> \<not> strstr (get_rule_queue_access_str i) ops
      then cache_rule mem eval docname r pcb ops is (q, res)
      else if \<not> mem then (q, ERR_INTERNAL_MEM)
      else case eval (i \<noteq> DATA_RULE_QUEUE_READ) pcb of
             (None, res) \<Rightarrow> (q, ERR_INTERNAL_MEM)
           | (Some result, res) \<Rightarrow>
               (if res = NO_ERR
                then cache_rule mem eval docname r pcb ops is
                       (q(i := q i @ [\<lparr>dr_docname = docname, dr_result = result, datarule = r\<rparr>]), res)
                else (q, res)))"

text \<open>The rules in order; an error in one of them does not stop the loop over the rules.\<close>

fun cache_rules ::
    "bool \<Rightarrow> xmlns_db \<Rightarrow> (bool \<Rightarrow> xpath_pcb_t \<Rightarrow> xpath_result_t option \<times> status_t) \<Rightarrow> string \<Rightarrow> val_value \<Rightarrow>
     (nat \<times> nat) list \<Rightarrow> rule_cache \<Rightarrow> rule_cache" where
  "cache_rules mem ns eval docname nacm [] qr = qr"
| "cache_rules mem ns eval docname nacm (r # rs) qr =
     cache_rules mem ns eval docname nacm rs
       (case Option.bind (acm_child ns (rule_at nacm r) ''path'') (\<lambda>path. val_xpathpcb (val_data path)) of
          None \<Rightarrow> qr
        | Some pcb \<Rightarrow>
            (case acm_child ns (rule_at nacm r) ''access-operations'' of
               None \<Rightarrow> qr
             | Some ops \<Rightarrow> cache_rule mem eval docname r pcb (VAL_STR ops) [0..<DATA_RULE_QUEUE_NUM] qr))"

text \<open>\<open>tree\<close> is the root of the running configuration, the parent of \<^verbatim>\<open>/nacm\<close>.\<close>

definition cache_data_rules ::
    "bool \<Rightarrow> xmlns_db \<Rightarrow> (bool \<Rightarrow> xpath_pcb_t \<Rightarrow> xpath_result_t option \<times> status_t) \<Rightarrow> val_value \<Rightarrow> val_value \<Rightarrow>
     agt_acm_cache_t \<Rightarrow> status_t \<times> agt_acm_cache_t" where
  "cache_data_rules mem ns eval tree nacm cache =
     (let cache = (if bit (acm_flags cache) FL_ACM_DATARULES_SET then cache\<lparr>dataruleQ := (\<lambda>_. [])\<rparr> else cache)
      in if \<not> obj_is_root (vobj tree) then (ERR_INTERNAL_VAL, cache)
         else case cache_rules mem ns eval (vname tree) nacm (all_rules ns nacm) (dataruleQ cache, NO_ERR) of
                (q, res) \<Rightarrow>
                  (if res = NO_ERR
                   then (res, cache\<lparr>dataruleQ := q, acm_flags := set_bit FL_ACM_DATARULES_SET (acm_flags cache)\<rparr>)
                   else (res, cache\<lparr>dataruleQ := (\<lambda>_. [])\<rparr>)))"

text \<open>
  The nodes of a result are compared by namespace and name; a namespace of 0 is not compared.  The node that
  is looked for is never the document root itself, whose object is the root object.
\<close>

definition same_name :: "u32 \<Rightarrow> string \<Rightarrow> val_value \<Rightarrow> bool" where
  "same_name nsid name v \<longleftrightarrow> (nsid = 0 \<or> nsid = val_get_nsid v) \<and> name = vname v"

definition find_resnode_slow :: "val_value \<Rightarrow> val_ptr list \<Rightarrow> u32 \<Rightarrow> string \<Rightarrow> bool" where
  "find_resnode_slow tree resultQ nsid name \<longleftrightarrow>
     list_ex (\<lambda>p. case val_at tree p of Some v \<Rightarrow> same_name nsid name v | None \<Rightarrow> False) resultQ"

fun climb_slow :: "val_value \<Rightarrow> val_ptr list \<Rightarrow> val_value list \<Rightarrow> bool" where
  "climb_slow tree resultQ [] = False"
| "climb_slow tree resultQ (v # anc) =
     (if find_resnode_slow tree resultQ (val_get_nsid v) (vname v) then True
      else if anc \<noteq> [] \<and> \<not> obj_is_root (vobj (hd anc)) then climb_slow tree resultQ anc
      else False)"

definition xpath1_check_node_exists_slow :: "val_value \<Rightarrow> string \<Rightarrow> val_ptr list \<Rightarrow> val_value list \<Rightarrow> bool" where
  "xpath1_check_node_exists_slow tree docname resultQ node =
     (if find_resnode_slow tree resultQ 0 docname then True else climb_slow tree resultQ node)"

definition xpath1_check_node_child_exists_slow :: "val_value \<Rightarrow> val_ptr list \<Rightarrow> val_value \<Rightarrow> bool" where
  "xpath1_check_node_child_exists_slow tree resultQ v \<longleftrightarrow>
     list_ex (\<lambda>p. case val_at tree p of
                    None \<Rightarrow> False
                  | Some n \<Rightarrow> list_ex (same_name (val_get_nsid v) (vname v))
                      (takeWhile (\<lambda>u. \<not> obj_is_root (vobj u)) (n # val_ancestors [] tree p))) resultQ"

text \<open>\<open>node\<close> is the node with its ancestors.\<close>

definition data_rule_matches :: "xmlns_db \<Rightarrow> val_value \<Rightarrow> val_value \<Rightarrow> nat \<Rightarrow> val_value list \<Rightarrow> agt_acm_usergroups_t \<Rightarrow>
    agt_acm_datarule_t \<Rightarrow> bool" where
  "data_rule_matches ns tree nacm access_id node ug dr \<longleftrightarrow>
     check_rule_group ns (child_at nacm (fst (datarule dr))) ug \<and>
     (access_id = DATA_RULE_QUEUE_READ \<and> xpath1_check_node_child_exists_slow tree (nodeQ (dr_result dr)) (hd node) \<or>
      access_id = DATA_RULE_QUEUE_UPDATE \<and> \<not> obj_is_leaf (vobj (hd node)) \<or>
      xpath1_check_node_exists_slow tree (dr_docname dr) (nodeQ (dr_result dr)) node)"

definition check_data_rules ::
    "bool \<Rightarrow> xmlns_db \<Rightarrow> (bool \<Rightarrow> xpath_pcb_t \<Rightarrow> xpath_result_t option \<times> status_t) \<Rightarrow> val_value \<Rightarrow> val_value \<Rightarrow>
     agt_acm_cache_t \<Rightarrow> val_value list \<Rightarrow> string \<Rightarrow> agt_acm_usergroups_t \<Rightarrow> bool \<times> bool \<times> agt_acm_cache_t" where
  "check_data_rules mem ns eval tree nacm cache node access ug =
     (case cache_data_rules mem ns eval tree nacm cache of
        (res, cache) \<Rightarrow>
          (if res \<noteq> NO_ERR then (False, False, cache)
           else (let access_id = get_rule_queue_access_id access
                 in case List.find (data_rule_matches ns tree nacm access_id node ug) (dataruleQ cache access_id) of
                      None \<Rightarrow> (False, False, cache)
                    | Some dr \<Rightarrow>
                        (leaf_str (acm_child ns (rule_at nacm (datarule dr)) ''action'') \<noteq> ''deny'', True, cache))))"

section \<open>The decisions\<close>

text \<open>
  What the decisions read besides their arguments: whether memory is available, the namespace registry, the
  XPath evaluator, \<^verbatim>\<open>agt_apply_this_node\<close> and the root of the running configuration.  A cached position of
  \<^verbatim>\<open>/nacm\<close> stands for a pointer; it is only meaningful while the configuration has the node there.
\<close>

record acm_env =
  acm_mem :: bool
  acm_ns :: xmlns_db
  acm_eval :: "bool \<Rightarrow> xpath_pcb_t \<Rightarrow> xpath_result_t option \<times> status_t"
  acm_apply :: "op_editop_t \<Rightarrow> val_value list option \<Rightarrow> val_value list option \<Rightarrow> bool"
  acm_running :: "val_value option"

definition get_nacm_root :: "acm_env \<Rightarrow> nat option" where
  "get_nacm_root env =
     (case acm_running env of
        None \<Rightarrow> None
      | Some tree \<Rightarrow> val_find_child (acm_ns env) tree (Some AGT_ACM_MODULE) ''nacm'')"

abbreviation run_root :: "acm_env \<Rightarrow> val_value" where
  "run_root env \<equiv> the (acm_running env)"

abbreviation nacm_at :: "acm_env \<Rightarrow> nat \<Rightarrow> val_value" where
  "nacm_at env i \<equiv> child_at (run_root env) i"

text \<open>The two steps in which a decision fills the cache.\<close>

definition cache_nacmroot :: "acm_env \<Rightarrow> agt_acm_cache_t \<Rightarrow> (nat \<times> agt_acm_cache_t) option" where
  "cache_nacmroot env cache =
     (case nacmroot cache of
        Some i \<Rightarrow> Some (i, cache)
      | None \<Rightarrow> (case get_nacm_root env of None \<Rightarrow> None | Some i \<Rightarrow> Some (i, cache\<lparr>nacmroot := Some i\<rparr>)))"

definition cache_usergroups ::
    "acm_env \<Rightarrow> val_value \<Rightarrow> string \<Rightarrow> agt_acm_cache_t \<Rightarrow> (agt_acm_usergroups_t \<times> agt_acm_cache_t) option" where
  "cache_usergroups env nacm user cache =
     (case usergroups cache of
        Some ug \<Rightarrow> Some (ug, cache)
      | None \<Rightarrow>
          (case get_usergroups_entry (acm_mem env) (acm_ns env) nacm user of
             None \<Rightarrow> None
           | Some (ug, n) \<Rightarrow> Some (ug, cache\<lparr>usergroups := Some ug, groupcnt := n\<rparr>)))"

definition xmlns_nc_id :: "xmlns_db \<Rightarrow> u32" where
  "xmlns_nc_id ns = cached ns Nc"

text \<open>The rules for an operation, the module rules, then the default.\<close>

definition rpc_decision ::
    "acm_env \<Rightarrow> val_value \<Rightarrow> agt_acm_usergroups_t \<Rightarrow> obj_template \<Rightarrow> agt_acm_cache_t \<Rightarrow> bool \<times> agt_acm_cache_t" where
  "rpc_decision env nacm ug rpcobj cache =
     (if groupcnt cache = 0 then get_default_rpc_response (acm_ns env) cache nacm rpcobj
      else case check_rpc_rules (acm_ns env) nacm rpcobj ug of
             (retval, True) \<Rightarrow> (retval, cache)
           | (_, False) \<Rightarrow>
               (case check_module_rules of
                  (retval, True) \<Rightarrow> (retval, cache)
                | (_, False) \<Rightarrow> get_default_rpc_response (acm_ns env) cache nacm rpcobj))"

text \<open>The session's cache is the one the message header points to.\<close>

definition agt_acm_rpc_allowed ::
    "acm_env \<Rightarrow> string \<Rightarrow> obj_template \<Rightarrow> acm_state \<Rightarrow> agt_acm_cache_t \<Rightarrow> bool \<times> acm_state \<times> agt_acm_cache_t" where
  "agt_acm_rpc_allowed env user rpcobj st cache =
     (if acmode st = AGT_ACMOD_DISABLED then (True, st, cache)
      else if is_superuser st user then (True, st, cache)
      else if obj_get_nsid rpcobj = xmlns_nc_id (acm_ns env) \<and> obj_get_name rpcobj = ''close-session''
      then (True, st, cache)
      else if check_mode st ''exec'' rpcobj then (True, st, cache)
      else case cache_nacmroot env cache of
             None \<Rightarrow> (False, st, cache)
           | Some (i, cache) \<Rightarrow>
               (case cache_usergroups env (nacm_at env i) user cache of
                  None \<Rightarrow> (False, st, cache)
                | Some (ug, cache) \<Rightarrow>
                    (case rpc_decision env (nacm_at env i) ug rpcobj cache of
                       (retval, cache) \<Rightarrow>
                         (retval,
                          if \<not> retval then st\<lparr>denied_operations_count := denied_operations_count st + 1\<rparr> else st,
                          cache))))"

definition notif_decision ::
    "acm_env \<Rightarrow> val_value \<Rightarrow> agt_acm_usergroups_t \<Rightarrow> obj_template \<Rightarrow> agt_acm_cache_t \<Rightarrow> bool \<times> agt_acm_cache_t" where
  "notif_decision env nacm ug notifobj cache =
     (if groupcnt cache = 0 then get_default_notif_response (acm_ns env) cache nacm notifobj
      else case check_notif_rules (acm_ns env) nacm notifobj ug of
             (retval, True) \<Rightarrow> (retval, cache)
           | (_, False) \<Rightarrow>
               (case check_module_rules of
                  (retval, True) \<Rightarrow> (retval, cache)
                | (_, False) \<Rightarrow> get_default_notif_response (acm_ns env) cache nacm notifobj))"

text \<open>
  \<open>replay\<close>: the object is the replay-complete or notification-complete event (\<^verbatim>\<open>agt_not_is_replay_event\<close>).  The
  cache for notifications is shared by all users, so the groups of another user are replaced.
\<close>

definition notif_usergroups ::
    "acm_env \<Rightarrow> val_value \<Rightarrow> string \<Rightarrow> agt_acm_cache_t \<Rightarrow> (agt_acm_usergroups_t \<times> agt_acm_cache_t) option" where
  "notif_usergroups env nacm user cache =
     (case usergroups cache of
        Some ug \<Rightarrow>
          (if username ug = user then Some (ug, cache)
           else cache_usergroups env nacm user (cache\<lparr>usergroups := None\<rparr>))
      | None \<Rightarrow> cache_usergroups env nacm user cache)"

definition agt_acm_notif_allowed ::
    "acm_env \<Rightarrow> bool \<Rightarrow> string \<Rightarrow> obj_template \<Rightarrow> acm_state \<Rightarrow> bool \<times> acm_state" where
  "agt_acm_notif_allowed env replay user notifobj st =
     (if acmode st = AGT_ACMOD_DISABLED then (True, st)
      else if is_superuser st user then (True, st)
      else if replay then (True, st)
      else if check_mode st ''read'' notifobj then (True, st)
      else if notif_cache st = None \<and> \<not> acm_mem env then (False, st)
      else (let cache = (case notif_cache st of None \<Rightarrow> new_acm_cache st | Some cache \<Rightarrow> cache)
            in case cache_nacmroot env cache of
                 None \<Rightarrow> (False, st\<lparr>notif_cache := Some cache\<rparr>)
               | Some (i, cache) \<Rightarrow>
                   (case notif_usergroups env (nacm_at env i) user cache of
                      None \<Rightarrow> (False, st\<lparr>notif_cache := Some cache\<rparr>)
                    | Some (ug, cache) \<Rightarrow>
                        (case notif_decision env (nacm_at env i) ug notifobj cache of
                           (retval, cache) \<Rightarrow> (retval, st\<lparr>notif_cache := Some cache\<rparr>)))))"

section \<open>Data nodes\<close>

text \<open>The access a write asks for, and whether the object's write blocking refuses it.\<close>

definition write_access :: "op_editop_t \<Rightarrow> string" where
  "write_access editop =
     (if editop = OP_EDITOP_CREATE then ''create''
      else if editop \<in> {OP_EDITOP_DELETE, OP_EDITOP_REMOVE} then ''delete'' else ''update'')"

definition write_blocked ::
    "acm_env \<Rightarrow> obj_template \<Rightarrow> op_editop_t \<Rightarrow> val_value list option \<Rightarrow> val_value list option \<Rightarrow> bool" where
  "write_blocked env obj editop newval curval =
     (if editop = OP_EDITOP_CREATE then obj_is_block_user_create obj
      else if editop \<in> {OP_EDITOP_DELETE, OP_EDITOP_REMOVE} then obj_is_block_user_delete obj
      else obj_is_block_user_update obj \<and> acm_apply env editop newval curval)"

definition data_decision ::
    "acm_env \<Rightarrow> val_value \<Rightarrow> agt_acm_usergroups_t \<Rightarrow> val_value list \<Rightarrow> string \<Rightarrow> bool \<Rightarrow> agt_acm_cache_t \<Rightarrow>
     bool \<times> agt_acm_cache_t" where
  "data_decision env nacm ug node access iswrite cache =
     (if groupcnt cache = 0 then get_default_data_response (acm_ns env) cache nacm (vobj (hd node)) iswrite
      else case check_data_rules (acm_mem env) (acm_ns env) (acm_eval env) (run_root env) nacm cache node access ug of
             (retval, True, cache) \<Rightarrow> (retval, cache)
           | (_, False, cache) \<Rightarrow>
               (case check_module_rules of
                  (retval, True) \<Rightarrow> (retval, cache)
                | (_, False) \<Rightarrow> get_default_data_response (acm_ns env) cache nacm (vobj (hd node)) iswrite))"

definition valnode_access_allowed ::
    "acm_env \<Rightarrow> acm_state \<Rightarrow> string \<Rightarrow> val_value list \<Rightarrow> val_value list option \<Rightarrow> val_value list option \<Rightarrow>
     op_editop_t \<Rightarrow> agt_acm_cache_t \<Rightarrow> bool \<times> agt_acm_cache_t" where
  "valnode_access_allowed env st user node newval curval editop cache =
     (let obj = vobj (hd node);
          iswrite = (newval \<noteq> None \<or> curval \<noteq> None);
          access = (if iswrite then write_access editop else ''read'')
      in if obj_is_root obj then (True, cache)
         else if is_superuser st user then (True, cache)
         else if iswrite \<and> write_blocked env obj editop newval curval then (False, cache)
         else if cache_mode cache = AGT_ACMOD_DISABLED then (True, cache)
         else if check_mode st access obj then (True, cache)
         else case cache_nacmroot env cache of
                None \<Rightarrow> (False, cache)
              | Some (i, cache) \<Rightarrow>
                  (case cache_usergroups env (nacm_at env i) user cache of
                     None \<Rightarrow> (False, cache)
                   | Some (ug, cache) \<Rightarrow> data_decision env (nacm_at env i) ug node access iswrite cache))"

text \<open>Without a cache in the message header the write is a rollback.  One of the two nodes is there.\<close>

definition agt_acm_val_write_allowed ::
    "acm_env \<Rightarrow> string \<Rightarrow> val_value list option \<Rightarrow> val_value list option \<Rightarrow> op_editop_t \<Rightarrow> acm_state \<Rightarrow>
     agt_acm_cache_t option \<Rightarrow> bool \<times> acm_state \<times> agt_acm_cache_t option" where
  "agt_acm_val_write_allowed env user newval curval editop st msgcache =
     (if editop = OP_EDITOP_LOAD then (True, st, msgcache)
      else if editop = OP_EDITOP_NONE then (True, st, msgcache)
      else case msgcache of
             None \<Rightarrow> (True, st, None)
           | Some cache \<Rightarrow>
               (let val = (case newval of Some v \<Rightarrow> v | None \<Rightarrow> the curval);
                    (retval, cache) = valnode_access_allowed env st user val newval curval editop cache
                in (retval,
                    if \<not> retval then st\<lparr>denied_data_writes_count := denied_data_writes_count st + 1\<rparr> else st,
                    Some cache)))"

definition agt_acm_val_read_allowed ::
    "acm_env \<Rightarrow> acm_state \<Rightarrow> string \<Rightarrow> val_value list \<Rightarrow> agt_acm_cache_t \<Rightarrow> bool \<times> agt_acm_cache_t" where
  "agt_acm_val_read_allowed env st user node cache =
     valnode_access_allowed env st user node None None OP_EDITOP_NONE cache"

section \<open>Session caches\<close>

definition agt_acm_session_cache_valid :: "acm_session \<Rightarrow> bool" where
  "agt_acm_session_cache_valid scb =
     (case acm_cache scb of None \<Rightarrow> False | Some cache \<Rightarrow> bit (acm_flags cache) FL_ACM_CACHE_VALID)"

text \<open>The header gets the session's cache, a new one when that is not valid.\<close>

definition agt_acm_init_msg_cache :: "bool \<Rightarrow> acm_state \<Rightarrow> acm_session \<Rightarrow> status_t \<times> acm_session" where
  "agt_acm_init_msg_cache mem st scb =
     (let scb = (if agt_acm_session_cache_valid scb then scb
                 else scb\<lparr>acm_cache := (if mem then Some (new_acm_cache st) else None)\<rparr>)
      in (if acm_cache scb = None then ERR_INTERNAL_MEM else NO_ERR, scb))"

definition agt_acm_clear_session_cache :: "acm_session \<Rightarrow> acm_session" where
  "agt_acm_clear_session_cache scb = scb\<lparr>acm_cache := None\<rparr>"

definition agt_acm_invalidate_session_cache :: "acm_session \<Rightarrow> acm_session" where
  "agt_acm_invalidate_session_cache scb =
     scb\<lparr>acm_cache := map_option (\<lambda>c. c\<lparr>acm_flags := unset_bit FL_ACM_CACHE_VALID (acm_flags c)\<rparr>) (acm_cache scb)\<rparr>"

definition agt_acm_session_is_superuser :: "acm_state \<Rightarrow> acm_session \<Rightarrow> bool" where
  "agt_acm_session_is_superuser st scb = is_superuser st (scb_username scb)"

text \<open>The table of sessions has empty places.\<close>

definition agt_ses_invalidate_session_acm_caches :: "acm_session option list \<Rightarrow> acm_session option list" where
  "agt_ses_invalidate_session_acm_caches sessions = map (map_option agt_acm_invalidate_session_cache) sessions"

section \<open>Callbacks and counters\<close>

definition nacm_callback ::
    "agt_cbtyp_t \<Rightarrow> op_editop_t \<Rightarrow> acm_state \<Rightarrow> acm_session option list \<Rightarrow>
     status_t \<times> acm_state \<times> acm_session option list" where
  "nacm_callback cbtyp editop st sessions =
     (let (res, clear_cache) =
        (case cbtyp of
           AGT_CB_VALIDATE \<Rightarrow> (NO_ERR, False)
         | AGT_CB_APPLY \<Rightarrow> (NO_ERR, False)
         | AGT_CB_COMMIT \<Rightarrow>
             (if editop = OP_EDITOP_LOAD then (NO_ERR, False)
              else if editop \<in> {OP_EDITOP_MERGE, OP_EDITOP_REPLACE, OP_EDITOP_CREATE, OP_EDITOP_DELETE, OP_EDITOP_REMOVE}
              then (NO_ERR, True)
              else (ERR_INTERNAL_VAL, False))
         | AGT_CB_ROLLBACK \<Rightarrow> (NO_ERR, True))
      in if clear_cache
         then (res, st\<lparr>notif_cache := None\<rparr>, agt_ses_invalidate_session_acm_caches sessions)
         else (res, st, sessions))"

text \<open>\<open>newval\<close> is the value of the new node, if there is one.\<close>

definition nacm_enable_nacm_callback ::
    "agt_cbtyp_t \<Rightarrow> op_editop_t \<Rightarrow> bool option \<Rightarrow> acm_state \<Rightarrow> status_t \<times> acm_state" where
  "nacm_enable_nacm_callback cbtyp editop newval st =
     (case cbtyp of
        AGT_CB_COMMIT \<Rightarrow>
          (if editop \<in> {OP_EDITOP_LOAD, OP_EDITOP_MERGE, OP_EDITOP_REPLACE, OP_EDITOP_CREATE}
           then (NO_ERR, st\<lparr>acmode := (if newval = Some True then AGT_ACMOD_ENFORCING else AGT_ACMOD_DISABLED)\<rparr>)
           else if editop \<in> {OP_EDITOP_DELETE, OP_EDITOP_REMOVE} then (NO_ERR, st\<lparr>acmode := AGT_ACMOD_DISABLED\<rparr>)
           else (ERR_INTERNAL_VAL, st))
      | _ \<Rightarrow> (NO_ERR, st))"

datatype getcb_mode_t = GETCB_NONE | GETCB_GET_VALUE

definition get_denied_operations :: "acm_state \<Rightarrow> getcb_mode_t \<Rightarrow> val_value \<Rightarrow> status_t \<times> val_value" where
  "get_denied_operations st cbmode dstval =
     (if cbmode \<noteq> GETCB_GET_VALUE then (ERR_NCX_OPERATION_NOT_SUPPORTED, dstval)
      else (NO_ERR, Val ((val_data dstval)\<lparr>val_uint := denied_operations_count st\<rparr>) (val_childQ dstval)))"

definition get_deniedDataWrites :: "acm_state \<Rightarrow> getcb_mode_t \<Rightarrow> val_value \<Rightarrow> status_t \<times> val_value" where
  "get_deniedDataWrites st cbmode dstval =
     (if cbmode \<noteq> GETCB_GET_VALUE then (ERR_NCX_OPERATION_NOT_SUPPORTED, dstval)
      else (NO_ERR, Val ((val_data dstval)\<lparr>val_uint := denied_data_writes_count st\<rparr>) (val_childQ dstval)))"

section \<open>Initialisation\<close>

text \<open>\<open>load\<close>, \<open>reg1\<close>, \<open>reg2\<close>: the results of loading the module and of the two callback registrations.\<close>

definition agt_acm_init :: "status_t \<Rightarrow> status_t \<Rightarrow> status_t \<Rightarrow> acm_state \<Rightarrow> status_t \<times> acm_state" where
  "agt_acm_init load reg1 reg2 st =
     (if agt_acm_init_done st then (ERR_INTERNAL_INIT_SEQ, st)
      else if load \<noteq> NO_ERR then (load, st\<lparr>notif_cache := None\<rparr>)
      else (let st = \<lparr>agt_acm_init_done = True, superuser = None, acmode = AGT_ACMOD_ENFORCING,
                     denied_operations_count = 0, denied_data_writes_count = 0, notif_cache = None\<rparr>
            in if reg1 \<noteq> NO_ERR then (reg1, st)
               else if reg2 \<noteq> NO_ERR then (reg2, st)
               else (NO_ERR, st)))"

text \<open>
  \<open>super\<close> and \<open>mode\<close> come from the profile; \<open>topnode\<close> is the result of adding \<^verbatim>\<open>/nacm\<close> (whether there is a node,
  whether it is new, the status), \<open>defaults\<close>, \<open>leaf1\<close> and \<open>leaf2\<close> those of adding its default leafs and the two
  counters.
\<close>

definition agt_acm_init2 ::
    "bool \<Rightarrow> string option \<Rightarrow> agt_acmode_t \<Rightarrow> bool \<times> bool \<times> status_t \<Rightarrow> status_t \<Rightarrow> status_t \<Rightarrow> status_t \<Rightarrow>
     acm_state \<Rightarrow> status_t \<times> acm_state" where
  "agt_acm_init2 mem super mode topnode defaults leaf1 leaf2 st =
     (if \<not> agt_acm_init_done st then (ERR_INTERNAL_INIT_SEQ, st)
      else (let st = st\<lparr>superuser := super\<rparr>;
                st = (if mode \<noteq> AGT_ACMOD_NONE then st\<lparr>acmode := mode\<rparr> else st);
                (node, added, res) = topnode
            in if res \<noteq> NO_ERR \<or> \<not> node then (res, st)
               else if added \<and> defaults \<noteq> NO_ERR then (defaults, st)
               else (let res = (if leaf1 = NO_ERR then leaf2 else leaf1)
                     in if mem then (res, st\<lparr>notif_cache := Some (new_acm_cache st)\<rparr>)
                        else (ERR_INTERNAL_MEM, st\<lparr>notif_cache := None\<rparr>))))"

text \<open>The freed cache for notifications stays in its variable until the next initialisation.\<close>

definition agt_acm_cleanup :: "acm_state \<Rightarrow> acm_state" where
  "agt_acm_cleanup st = (if \<not> agt_acm_init_done st then st else st\<lparr>agt_acm_init_done := False\<rparr>)"

end
