(* ===== verification/Agt_Acm_Props.thy ===== *)
theory Agt_Acm_Props
  imports Agt_Acm
begin

text \<open>
  What the access control decides.  The reference decisions read only the configuration; the decisions of
  \<^verbatim>\<open>agt_acm.c\<close>, which fill and reuse caches, are shown to give the same answers as long as the caches are
  coherent with the configuration, and to keep them coherent.
\<close>

section \<open>Reference decisions\<close>

definition default_value :: "xmlns_db \<Rightarrow> val_value \<Rightarrow> string \<Rightarrow> bool \<Rightarrow> bool" where
  "default_value ns nacm leaf dflt =
     (case acm_child ns nacm leaf of None \<Rightarrow> dflt | Some noRule \<Rightarrow> VAL_STR noRule = ''permit'')"

definition groups_of :: "acm_env \<Rightarrow> val_value \<Rightarrow> string \<Rightarrow> agt_acm_usergroups_t \<times> u32" where
  "groups_of env nacm user = the (get_usergroups_entry True (acm_ns env) nacm user)"

text \<open>The first rule for the object whose rule list is for a group of the user decides.\<close>

definition first_rule :: "acm_env \<Rightarrow> string \<Rightarrow> val_value \<Rightarrow> obj_template \<Rightarrow> agt_acm_usergroups_t \<Rightarrow> (nat \<times> nat) option" where
  "first_rule env key nacm obj ug =
     List.find (\<lambda>r. rule_applies (acm_ns env) key obj (rule_at nacm r) \<and>
                   check_rule_group (acm_ns env) (child_at nacm (fst r)) ug) (all_rules (acm_ns env) nacm)"

definition rule_grants :: "acm_env \<Rightarrow> val_value \<Rightarrow> string \<Rightarrow> nat \<times> nat \<Rightarrow> bool" where
  "rule_grants env nacm access r =
     (let rights = leaf_str (acm_child (acm_ns env) (rule_at nacm r) ''access-operations'')
      in rights = ''*'' \<or> strstr rights access)"

definition object_verdict ::
    "acm_env \<Rightarrow> string \<Rightarrow> string \<Rightarrow> string \<Rightarrow> string \<Rightarrow> obj_template \<Rightarrow> bool" where
  "object_verdict env key access leaf user obj =
     (case get_nacm_root env of
        None \<Rightarrow> False
      | Some i \<Rightarrow>
          (let nacm = nacm_at env i;
               (ug, n) = groups_of env nacm user
           in case (if n = 0 then None else first_rule env key nacm obj ug) of
                Some r \<Rightarrow> rule_grants env nacm access r
              | None \<Rightarrow> \<not> obj_is_secure obj \<and> \<not> obj_is_very_secure obj \<and>
                        default_value (acm_ns env) nacm leaf True))"

definition rpc_exempt :: "acm_env \<Rightarrow> acm_state \<Rightarrow> string \<Rightarrow> obj_template \<Rightarrow> bool" where
  "rpc_exempt env st user obj \<longleftrightarrow>
     acmode st = AGT_ACMOD_DISABLED \<or> is_superuser st user \<or>
     obj_get_nsid obj = xmlns_nc_id (acm_ns env) \<and> obj_get_name obj = ''close-session'' \<or>
     check_mode st ''exec'' obj"

definition notif_exempt :: "bool \<Rightarrow> acm_state \<Rightarrow> string \<Rightarrow> obj_template \<Rightarrow> bool" where
  "notif_exempt replay st user obj \<longleftrightarrow>
     acmode st = AGT_ACMOD_DISABLED \<or> is_superuser st user \<or> replay \<or> check_mode st ''read'' obj"

text \<open>The data rules by queue, read from scratch; \<open>None\<close> when a rule cannot be evaluated.\<close>

definition data_rules :: "acm_env \<Rightarrow> val_value \<Rightarrow> (nat \<Rightarrow> agt_acm_datarule_t list) option" where
  "data_rules env nacm =
     (if \<not> obj_is_root (vobj (run_root env)) then None
      else case cache_rules True (acm_ns env) (acm_eval env) (vname (run_root env)) nacm (all_rules (acm_ns env) nacm)
                  ((\<lambda>_. []), NO_ERR) of
             (q, res) \<Rightarrow> (if res = NO_ERR then Some q else None))"

definition first_data_rule ::
    "acm_env \<Rightarrow> val_value \<Rightarrow> string \<Rightarrow> val_value list \<Rightarrow> agt_acm_usergroups_t \<Rightarrow> agt_acm_datarule_t option" where
  "first_data_rule env nacm access node ug =
     (case data_rules env nacm of
        None \<Rightarrow> None
      | Some q \<Rightarrow>
          (let access_id = get_rule_queue_access_id access
           in List.find (data_rule_matches (acm_ns env) (run_root env) nacm access_id node ug) (q access_id)))"

definition data_default :: "acm_env \<Rightarrow> val_value \<Rightarrow> obj_template \<Rightarrow> bool \<Rightarrow> bool" where
  "data_default env nacm obj iswrite =
     (if iswrite \<and> obj_is_root obj then True
      else if secure_up iswrite obj then False
      else if iswrite then default_value (acm_ns env) nacm ''write-default'' False
      else default_value (acm_ns env) nacm ''read-default'' True)"

definition data_verdict :: "acm_env \<Rightarrow> string \<Rightarrow> string \<Rightarrow> bool \<Rightarrow> val_value list \<Rightarrow> bool" where
  "data_verdict env access user iswrite node =
     (case get_nacm_root env of
        None \<Rightarrow> False
      | Some i \<Rightarrow>
          (let nacm = nacm_at env i;
               (ug, n) = groups_of env nacm user
           in case (if n = 0 then None else first_data_rule env nacm access node ug) of
                Some dr \<Rightarrow> leaf_str (acm_child (acm_ns env) (rule_at nacm (datarule dr)) ''action'') \<noteq> ''deny''
              | None \<Rightarrow> data_default env nacm (vobj (hd node)) iswrite))"

section \<open>Coherent caches\<close>

definition default_coherent :: "xmlns_db \<Rightarrow> val_value \<Rightarrow> u32 \<Rightarrow> string \<Rightarrow> nat \<Rightarrow> nat \<Rightarrow> bool \<Rightarrow> bool" where
  "default_coherent ns nacm fl leaf setb okb dflt \<longleftrightarrow>
     bit fl okb = (bit fl setb \<and> default_value ns nacm leaf dflt)"

text \<open>The three default leafs, with their two bits and the value that counts without them.\<close>

definition default_leafs :: "(string \<times> nat \<times> nat \<times> bool) set" where
  "default_leafs = {(''read-default'', FL_ACM_DEFREAD_SET, FL_ACM_DEFREAD_OK, True),
     (''write-default'', FL_ACM_DEFWRITE_SET, FL_ACM_DEFWRITE_OK, False),
     (''exec-default'', FL_ACM_DEFEXEC_SET, FL_ACM_DEFEXEC_OK, True)}"

definition root_coherent :: "acm_env \<Rightarrow> agt_acm_cache_t \<Rightarrow> bool" where
  "root_coherent env c \<longleftrightarrow> nacmroot c = None \<or> nacmroot c = get_nacm_root env"

definition groups_coherent :: "acm_env \<Rightarrow> agt_acm_cache_t \<Rightarrow> bool" where
  "groups_coherent env c \<longleftrightarrow>
     (case usergroups c of None \<Rightarrow> True
      | Some ug \<Rightarrow> (case get_nacm_root env of None \<Rightarrow> False
                  | Some i \<Rightarrow> groups_of env (nacm_at env i) (username ug) = (ug, groupcnt c)))"

definition defaults_coherent :: "acm_env \<Rightarrow> agt_acm_cache_t \<Rightarrow> bool" where
  "defaults_coherent env c \<longleftrightarrow>
     (case get_nacm_root env of None \<Rightarrow> True
      | Some i \<Rightarrow> \<forall>(leaf, setb, okb, dflt) \<in> default_leafs.
          default_coherent (acm_ns env) (nacm_at env i) (acm_flags c) leaf setb okb dflt)"

definition rules_coherent :: "agt_acm_cache_t \<Rightarrow> bool" where
  "rules_coherent c \<longleftrightarrow> bit (acm_flags c) FL_ACM_DATARULES_SET \<or> dataruleQ c = (\<lambda>_. [])"

definition acm_coherent :: "acm_env \<Rightarrow> agt_acm_cache_t \<Rightarrow> bool" where
  "acm_coherent env c \<longleftrightarrow> root_coherent env c \<and> groups_coherent env c \<and> defaults_coherent env c \<and> rules_coherent c"

lemmas coherent_parts = root_coherent_def groups_coherent_def defaults_coherent_def rules_coherent_def

lemma default_leafs_bits:
  "(leaf, setb, okb, dflt) \<in> default_leafs \<Longrightarrow> setb < 7 \<and> okb < 7 \<and> setb \<noteq> okb"
  "(leaf, setb, okb, dflt) \<in> default_leafs \<Longrightarrow> (leaf', setb', okb', dflt') \<in> default_leafs \<Longrightarrow>
   (leaf', setb', okb', dflt') \<noteq> (leaf, setb, okb, dflt) \<Longrightarrow>
   setb' \<noteq> setb \<and> setb' \<noteq> okb \<and> okb' \<noteq> setb \<and> okb' \<noteq> okb"
  by (auto simp: default_leafs_def)

definition owned_by :: "string \<Rightarrow> agt_acm_cache_t \<Rightarrow> bool" where
  "owned_by user c \<longleftrightarrow> (case usergroups c of None \<Rightarrow> True | Some ug \<Rightarrow> username ug = user)"

text \<open>What an operation on a cache never changes.\<close>

definition same_status :: "agt_acm_cache_t \<Rightarrow> agt_acm_cache_t \<Rightarrow> bool" where
  "same_status c c' \<longleftrightarrow> cache_mode c' = cache_mode c \<and>
     bit (acm_flags c') FL_ACM_CACHE_VALID = bit (acm_flags c) FL_ACM_CACHE_VALID"

lemma same_status_refl [simp]: "same_status c c" by (simp add: same_status_def)
lemma same_status_trans: "same_status a b \<Longrightarrow> same_status b c \<Longrightarrow> same_status a c"
  by (simp add: same_status_def)

lemma possible_flag [simp]: "n < 32 \<Longrightarrow> possible_bit TYPE(32 word) n" by (simp add: possible_bit_word)

lemma new_cache_coherent: "acm_coherent env (new_acm_cache st)" "owned_by user (new_acm_cache st)"
  by (auto simp: acm_coherent_def coherent_parts new_acm_cache_def owned_by_def default_coherent_def bit_set_bit_iff
      default_leafs_def split: option.split)

section \<open>The steps\<close>

lemma username_collect: "username (fst (collect_groups ns user gs (ug, n))) = username ug"
  by (induction ns user gs "(ug, n)" arbitrary: ug n rule: collect_groups.induct)
    (auto simp: add_group_ptr_def)

lemma usergroups_entry: "get_usergroups_entry True (acm_ns env) nacm user = Some (groups_of env nacm user)"
  by (simp add: groups_of_def get_usergroups_entry_def)

lemma username_groups: "groups_of env nacm user = (ug, n) \<Longrightarrow> username ug = user"
  using username_collect [of "acm_ns env" user _ "\<lparr>username = user, groupQ = []\<rparr>" 0]
  by (auto simp: groups_of_def get_usergroups_entry_def Let_def split: option.splits) (metis fst_conv agt_acm_usergroups_t.select_convs(1))

lemma cache_nacmroot_coherent:
  assumes "acm_coherent env c"
  shows "cache_nacmroot env c = (case get_nacm_root env of None \<Rightarrow> None | Some i \<Rightarrow> Some (i, c\<lparr>nacmroot := Some i\<rparr>))"
proof -
  have "nacmroot c = Some i \<Longrightarrow> c\<lparr>nacmroot := Some i\<rparr> = c" for i by (cases c) simp
  then show ?thesis using assms
    by (auto simp: cache_nacmroot_def acm_coherent_def root_coherent_def split: option.splits)
qed

lemma nacmroot_coherent:
  "acm_coherent env c \<Longrightarrow> get_nacm_root env = Some i \<Longrightarrow> acm_coherent env (c\<lparr>nacmroot := Some i\<rparr>)"
  by (auto simp: acm_coherent_def coherent_parts split: option.splits)

lemma cache_usergroups_coherent:
  assumes "acm_coherent env c" "owned_by user c" "get_nacm_root env = Some i" "acm_mem env"
    and "groups_of env (nacm_at env i) user = (ug, n)"
  obtains c' where "cache_usergroups env (nacm_at env i) user c = Some (ug, c')" "groupcnt c' = n"
    "acm_coherent env c'" "owned_by user c'" "same_status c c'"
proof (cases "usergroups c")
  case None
  let ?c = "c\<lparr>usergroups := Some ug, groupcnt := n\<rparr>"
  have "cache_usergroups env (nacm_at env i) user c = Some (ug, ?c)"
    using None assms by (simp add: cache_usergroups_def usergroups_entry)
  moreover have "acm_coherent env ?c" "owned_by user ?c"
    using assms username_groups [OF assms(5)] by (simp_all add: acm_coherent_def coherent_parts owned_by_def)
  ultimately show thesis by (intro that [of ?c]) (simp_all add: same_status_def)
next
  case (Some ug')
  then show thesis using assms
    by (intro that [of c]) (simp_all add: cache_usergroups_def acm_coherent_def groups_coherent_def owned_by_def)
qed

lemma default_leaf_coherent:
  assumes "default_coherent ns nacm (acm_flags c) leaf setb okb dflt" "setb < 32" "okb < 32" "setb \<noteq> okb"
  shows "fst (default_leaf ns nacm leaf setb okb dflt c) = default_value ns nacm leaf dflt"
    and "default_coherent ns nacm (acm_flags (snd (default_leaf ns nacm leaf setb okb dflt c))) leaf setb okb dflt"
  using assms by (auto simp: default_leaf_def default_coherent_def default_value_def Let_def bit_set_bit_iff split: option.splits)

lemma default_leaf_other:
  assumes "m \<noteq> setb" "m \<noteq> okb"
  shows "bit (acm_flags (snd (default_leaf ns nacm leaf setb okb dflt c))) m = bit (acm_flags c) m"
  using assms by (auto simp: default_leaf_def Let_def bit_set_bit_iff)

lemma default_leaf_fields:
  "nacmroot (snd (default_leaf ns nacm leaf setb okb dflt c)) = nacmroot c"
  "usergroups (snd (default_leaf ns nacm leaf setb okb dflt c)) = usergroups c"
  "groupcnt (snd (default_leaf ns nacm leaf setb okb dflt c)) = groupcnt c"
  "cache_mode (snd (default_leaf ns nacm leaf setb okb dflt c)) = cache_mode c"
  "dataruleQ (snd (default_leaf ns nacm leaf setb okb dflt c)) = dataruleQ c"
  by (simp_all add: default_leaf_def Let_def)

lemmas default_leaf_facts = default_leaf_coherent default_leaf_other default_leaf_fields

text \<open>A default response keeps a cache coherent, whichever leaf it reads.\<close>

lemma default_leaf_step:
  assumes "acm_coherent env c" "owned_by user c" "get_nacm_root env = Some i"
    and leafs: "(leaf, setb, okb, dflt) \<in> default_leafs"
  obtains c' where "default_leaf (acm_ns env) (nacm_at env i) leaf setb okb dflt c = (default_value (acm_ns env) (nacm_at env i) leaf dflt, c')"
    "acm_coherent env c'" "owned_by user c'" "same_status c c'"
proof -
  let ?r = "default_leaf (acm_ns env) (nacm_at env i) leaf setb okb dflt c"
  have d: "default_coherent (acm_ns env) (nacm_at env i) (acm_flags c) l s k b" if "(l, s, k, b) \<in> default_leafs" for l s k b
    using assms(1,3) that by (auto simp: acm_coherent_def defaults_coherent_def)
  have bits: "setb < 7" "okb < 7" "setb \<noteq> okb" using default_leafs_bits(1) [OF leafs] by auto
  have co: "fst ?r = default_value (acm_ns env) (nacm_at env i) leaf dflt"
    "default_coherent (acm_ns env) (nacm_at env i) (acm_flags (snd ?r)) leaf setb okb dflt"
    using default_leaf_coherent [OF d [OF leafs]] bits by auto
  have "default_coherent (acm_ns env) (nacm_at env i) (acm_flags (snd ?r)) l s k b" if "(l, s, k, b) \<in> default_leafs" for l s k b
  proof (cases "(l, s, k, b) = (leaf, setb, okb, dflt)")
    case True
    with co(2) show ?thesis by simp
  next
    case False
    from default_leafs_bits(2) [OF leafs that False] d [OF that] show ?thesis
      by (simp add: default_coherent_def default_leaf_other)
  qed
  then have "defaults_coherent env (snd ?r)" using assms(3) by (auto simp: defaults_coherent_def)
  moreover have "rules_coherent (snd ?r)"
    using assms(1) bits by (simp add: acm_coherent_def rules_coherent_def default_leaf_fields default_leaf_other)
  moreover have "root_coherent env (snd ?r)" "groups_coherent env (snd ?r)"
    using assms(1)
    by (simp_all add: acm_coherent_def root_coherent_def groups_coherent_def default_leaf_fields split: option.splits)
  moreover have "owned_by user (snd ?r)" "same_status c (snd ?r)"
    using assms(2) bits by (simp_all add: owned_by_def same_status_def default_leaf_fields default_leaf_other)
  ultimately show thesis using co(1) by (intro that [of "snd ?r"]) (simp_all add: prod_eq_iff acm_coherent_def)
qed

section \<open>Rules\<close>

lemma check_access_bit_group:
  "check_access_bit ns rule_list rule access ug =
     (if check_rule_group ns rule_list ug
      then (let rights = leaf_str (acm_child ns rule ''access-operations'') in rights = ''*'' \<or> strstr rights access, True)
      else (False, False))"
  by (simp add: check_access_bit_def check_rule_group_def Let_def)

lemma rule_loop_find:
  "rule_loop (acm_ns env) key access nacm obj ug rs =
     (case List.find (\<lambda>r. rule_applies (acm_ns env) key obj (rule_at nacm r) \<and>
                         check_rule_group (acm_ns env) (child_at nacm (fst r)) ug) rs of
        None \<Rightarrow> (False, False)
      | Some r \<Rightarrow> (rule_grants env nacm access r, True))"
  by (induction rs) (simp_all add: check_access_bit_group rule_grants_def Let_def)

lemma check_rules_first:
  "check_rpc_rules (acm_ns env) nacm obj ug =
     (case first_rule env ''rpc-name'' nacm obj ug of None \<Rightarrow> (False, False) | Some r \<Rightarrow> (rule_grants env nacm ''exec'' r, True))"
  "check_notif_rules (acm_ns env) nacm obj ug =
     (case first_rule env ''notification-name'' nacm obj ug of
        None \<Rightarrow> (False, False) | Some r \<Rightarrow> (rule_grants env nacm ''read'' r, True))"
  by (simp_all add: check_rpc_rules_def check_notif_rules_def rule_loop_find first_rule_def)

text \<open>The decision of an object's rules and default, with its verdict: for operations and for notifications.\<close>

definition rules_verdict :: "acm_env \<Rightarrow> string \<Rightarrow> string \<Rightarrow> string \<Rightarrow> val_value \<Rightarrow> agt_acm_usergroups_t \<Rightarrow> u32 \<Rightarrow> obj_template \<Rightarrow> bool" where
  "rules_verdict env key access leaf nacm ug n obj =
     (case (if n = 0 then None else first_rule env key nacm obj ug) of
        Some r \<Rightarrow> rule_grants env nacm access r
      | None \<Rightarrow> \<not> obj_is_secure obj \<and> \<not> obj_is_very_secure obj \<and> default_value (acm_ns env) nacm leaf True)"

lemma object_verdict_rules:
  "get_nacm_root env = Some i \<Longrightarrow> groups_of env (nacm_at env i) user = (ug, n) \<Longrightarrow>
   object_verdict env key access leaf user obj = rules_verdict env key access leaf (nacm_at env i) ug n obj"
  by (simp add: object_verdict_def rules_verdict_def Let_def)

lemma secured_default_step:
  assumes "acm_coherent env c" "owned_by user c" "get_nacm_root env = Some i" "(leaf, setb, okb, True) \<in> default_leafs"
  obtains c' where
    "(if obj_is_secure obj \<or> obj_is_very_secure obj then (False, c)
      else default_leaf (acm_ns env) (nacm_at env i) leaf setb okb True c) =
     (\<not> obj_is_secure obj \<and> \<not> obj_is_very_secure obj \<and> default_value (acm_ns env) (nacm_at env i) leaf True, c')"
    "acm_coherent env c'" "owned_by user c'" "same_status c c'"
proof (cases "obj_is_secure obj \<or> obj_is_very_secure obj")
  case True
  with assms show thesis by (intro that [of c]) auto
next
  case False
  obtain c' where "default_leaf (acm_ns env) (nacm_at env i) leaf setb okb True c =
      (default_value (acm_ns env) (nacm_at env i) leaf True, c')" "acm_coherent env c'" "owned_by user c'" "same_status c c'"
    by (rule default_leaf_step [OF assms])
  with False show thesis by (intro that [of c']) auto
qed

text \<open>
  Operations and notifications share this contract: the first rule for a group of the user, or else a default that
  is refused for secured objects.
\<close>

locale object_access =
  fixes decision :: "acm_env \<Rightarrow> val_value \<Rightarrow> agt_acm_usergroups_t \<Rightarrow> obj_template \<Rightarrow> agt_acm_cache_t \<Rightarrow> bool \<times> agt_acm_cache_t"
    and key access leaf :: string and setb okb :: nat
  assumes leaf: "(leaf, setb, okb, True) \<in> default_leafs"
    and decision: "decision env nacm ug obj c =
      (case (if groupcnt c = 0 then None else first_rule env key nacm obj ug) of
         Some r \<Rightarrow> (rule_grants env nacm access r, c)
       | None \<Rightarrow> (if obj_is_secure obj \<or> obj_is_very_secure obj then (False, c)
                 else default_leaf (acm_ns env) nacm leaf setb okb True c))"
begin

lemma decision_step:
  assumes "acm_coherent env c" "owned_by user c" "get_nacm_root env = Some i"
  obtains c' where
    "decision env (nacm_at env i) ug obj c = (rules_verdict env key access leaf (nacm_at env i) ug (groupcnt c) obj, c')"
    "acm_coherent env c'" "owned_by user c'" "same_status c c'"
proof -
  obtain c' where c': "(if obj_is_secure obj \<or> obj_is_very_secure obj then (False, c)
       else default_leaf (acm_ns env) (nacm_at env i) leaf setb okb True c) =
     (\<not> obj_is_secure obj \<and> \<not> obj_is_very_secure obj \<and> default_value (acm_ns env) (nacm_at env i) leaf True, c')"
    "acm_coherent env c'" "owned_by user c'" "same_status c c'"
    by (rule secured_default_step [OF assms leaf])
  show thesis
  proof (cases "if groupcnt c = 0 then None else first_rule env key (nacm_at env i) obj ug")
    case None
    have "decision env (nacm_at env i) ug obj c =
        (rules_verdict env key access leaf (nacm_at env i) ug (groupcnt c) obj, c')"
      unfolding decision rules_verdict_def None option.case c'(1) by (rule refl)
    with c' show thesis by (intro that [of c'])
  next
    case (Some r)
    have "decision env (nacm_at env i) ug obj c =
        (rules_verdict env key access leaf (nacm_at env i) ug (groupcnt c) obj, c)"
      unfolding decision rules_verdict_def Some option.case by (rule refl)
    with assms show thesis by (intro that [of c]) simp_all
  qed
qed

text \<open>From the cached groups on.\<close>

lemma decided:
  assumes co: "acm_coherent env c" and own: "owned_by user c" and i: "get_nacm_root env = Some i" and mem: "acm_mem env"
  obtains ug c1 c2 where "cache_usergroups env (nacm_at env i) user c = Some (ug, c1)"
    "decision env (nacm_at env i) ug obj c1 = (object_verdict env key access leaf user obj, c2)"
    "acm_coherent env c2" "owned_by user c2" "same_status c c2"
proof -
  obtain ug n where g: "groups_of env (nacm_at env i) user = (ug, n)" by fastforce
  obtain c1 where c1: "cache_usergroups env (nacm_at env i) user c = Some (ug, c1)" "groupcnt c1 = n"
      "acm_coherent env c1" "owned_by user c1" "same_status c c1"
    by (rule cache_usergroups_coherent [OF co own i mem g])
  obtain c2 where c2: "decision env (nacm_at env i) ug obj c1 =
      (rules_verdict env key access leaf (nacm_at env i) ug (groupcnt c1) obj, c2)"
      "acm_coherent env c2" "owned_by user c2" "same_status c1 c2"
    by (rule decision_step [OF c1(3,4) i])
  have "same_status c c2" by (rule same_status_trans [OF c1(5) c2(4)])
  with c1 c2 show thesis by (intro that [of ug c1 c2]) (simp_all add: object_verdict_rules [OF i g])
qed

end

interpretation rpc: object_access rpc_decision "''rpc-name''" "''exec''" "''exec-default''" FL_ACM_DEFEXEC_SET FL_ACM_DEFEXEC_OK
  by unfold_locales
    (auto simp: default_leafs_def rpc_decision_def check_rules_first check_module_rules_def get_default_rpc_response_def
      split: option.split)

interpretation notif: object_access notif_decision "''notification-name''" "''read''" "''read-default''"
    FL_ACM_DEFREAD_SET FL_ACM_DEFREAD_OK
  by unfold_locales
    (auto simp: default_leafs_def notif_decision_def check_rules_first check_module_rules_def get_default_notif_response_def
      split: option.split)

section \<open>Data nodes\<close>

lemma cache_data_rules_coherent:
  assumes co: "acm_coherent env c" and own: "owned_by user c"
  obtains res c' where
    "cache_data_rules True (acm_ns env) (acm_eval env) (run_root env) nacm c = (res, c')"
    "res = NO_ERR \<longleftrightarrow> data_rules env nacm \<noteq> None" "\<forall>q. data_rules env nacm = Some q \<longrightarrow> dataruleQ c' = q"
    "acm_coherent env c'" "owned_by user c'" "same_status c c'"
proof -
  let ?c = "c\<lparr>dataruleQ := (\<lambda>_. [])\<rparr>"
  let ?b = "if bit (acm_flags c) FL_ACM_DATARULES_SET then ?c else c"
  have b: "?b = ?c" using co by (cases c) (auto simp: acm_coherent_def rules_coherent_def)
  have c: "acm_coherent env ?c" "owned_by user ?c" "same_status c ?c"
    using co own by (auto simp: acm_coherent_def coherent_parts owned_by_def same_status_def split: option.splits)
  obtain q res where qr: "cache_rules True (acm_ns env) (acm_eval env) (vname (run_root env)) nacm
      (all_rules (acm_ns env) nacm) ((\<lambda>_. []), NO_ERR) = (q, res)" by fastforce
  let ?s = "c\<lparr>dataruleQ := q, acm_flags := set_bit FL_ACM_DATARULES_SET (acm_flags c)\<rparr>"
  have s: "acm_coherent env ?s" "owned_by user ?s" "same_status c ?s"
    using co own default_leafs_bits(1)
    by (auto simp: acm_coherent_def coherent_parts owned_by_def same_status_def bit_set_bit_iff default_coherent_def
        split: option.splits prod.splits)
  have e: "cache_data_rules True (acm_ns env) (acm_eval env) (run_root env) nacm c =
      (if \<not> obj_is_root (vobj (run_root env)) then (ERR_INTERNAL_VAL, ?c)
       else if res = NO_ERR then (res, ?s) else (res, ?c))"
    unfolding cache_data_rules_def Let_def b using qr by simp
  show thesis
  proof (cases "obj_is_root (vobj (run_root env)) \<and> res = NO_ERR")
    case True
    with e qr s show thesis by (intro that [of NO_ERR ?s]) (auto simp: data_rules_def)
  next
    case False
    with e qr c show thesis
      by (intro that [of "if obj_is_root (vobj (run_root env)) then res else ERR_INTERNAL_VAL" ?c]) (auto simp: data_rules_def)
  qed
qed

lemma check_data_rules_first:
  assumes co: "acm_coherent env c" and own: "owned_by user c"
  obtains c' where
    "check_data_rules True (acm_ns env) (acm_eval env) (run_root env) nacm c node access ug =
       (case first_data_rule env nacm access node ug of
          None \<Rightarrow> (False, False, c')
        | Some dr \<Rightarrow> (leaf_str (acm_child (acm_ns env) (rule_at nacm (datarule dr)) ''action'') \<noteq> ''deny'', True, c'))"
    "acm_coherent env c'" "owned_by user c'" "same_status c c'"
proof -
  obtain res c' where c: "cache_data_rules True (acm_ns env) (acm_eval env) (run_root env) nacm c = (res, c')"
      "res = NO_ERR \<longleftrightarrow> data_rules env nacm \<noteq> None" "\<forall>q. data_rules env nacm = Some q \<longrightarrow> dataruleQ c' = q"
      "acm_coherent env c'" "owned_by user c'" "same_status c c'"
    by (rule cache_data_rules_coherent [OF co own])
  show thesis
  proof (cases "data_rules env nacm")
    case None
    with c show thesis by (intro that [of c']) (auto simp: check_data_rules_def first_data_rule_def)
  next
    case (Some q)
    with c show thesis
      by (intro that [of c']) (simp_all add: check_data_rules_def first_data_rule_def Let_def split: option.split)
  qed
qed

lemma data_default_step:
  assumes "acm_coherent env c" "owned_by user c" "get_nacm_root env = Some i"
  obtains c' where "get_default_data_response (acm_ns env) c (nacm_at env i) obj iswrite = (data_default env (nacm_at env i) obj iswrite, c')"
    "acm_coherent env c'" "owned_by user c'" "same_status c c'"
proof (cases "iswrite \<and> obj_is_root obj \<or> secure_up iswrite obj")
  case True
  with assms show thesis by (intro that [of c]) (auto simp: get_default_data_response_def data_default_def)
next
  case False
  have l: "(''write-default'', FL_ACM_DEFWRITE_SET, FL_ACM_DEFWRITE_OK, False) \<in> default_leafs"
      "(''read-default'', FL_ACM_DEFREAD_SET, FL_ACM_DEFREAD_OK, True) \<in> default_leafs"
    by (simp_all add: default_leafs_def)
  show thesis
  proof (cases iswrite)
    case True
    obtain c' where "default_leaf (acm_ns env) (nacm_at env i) ''write-default'' FL_ACM_DEFWRITE_SET FL_ACM_DEFWRITE_OK False c =
        (default_value (acm_ns env) (nacm_at env i) ''write-default'' False, c')"
        "acm_coherent env c'" "owned_by user c'" "same_status c c'"
      by (rule default_leaf_step [OF assms l(1)])
    with True False show thesis by (intro that [of c']) (auto simp: get_default_data_response_def data_default_def)
  next
    case 2: False
    obtain c' where "default_leaf (acm_ns env) (nacm_at env i) ''read-default'' FL_ACM_DEFREAD_SET FL_ACM_DEFREAD_OK True c =
        (default_value (acm_ns env) (nacm_at env i) ''read-default'' True, c')"
        "acm_coherent env c'" "owned_by user c'" "same_status c c'"
      by (rule default_leaf_step [OF assms l(2)])
    with 2 False show thesis by (intro that [of c']) (auto simp: get_default_data_response_def data_default_def)
  qed
qed

lemma data_decided:
  assumes co: "acm_coherent env c" and own: "owned_by user c" and i: "get_nacm_root env = Some i" and mem: "acm_mem env"
  obtains ug c1 c2 where "cache_usergroups env (nacm_at env i) user c = Some (ug, c1)"
    "data_decision env (nacm_at env i) ug node access iswrite c1 = (data_verdict env access user iswrite node, c2)"
    "acm_coherent env c2" "owned_by user c2" "same_status c c2"
proof -
  obtain ug n where g: "groups_of env (nacm_at env i) user = (ug, n)" by fastforce
  obtain c1 where c1: "cache_usergroups env (nacm_at env i) user c = Some (ug, c1)" "groupcnt c1 = n"
      "acm_coherent env c1" "owned_by user c1" "same_status c c1"
    by (rule cache_usergroups_coherent [OF co own i mem g])
  show thesis
  proof (cases "n = 0")
    case True
    obtain c2 where "get_default_data_response (acm_ns env) c1 (nacm_at env i) (vobj (hd node)) iswrite =
        (data_default env (nacm_at env i) (vobj (hd node)) iswrite, c2)"
        "acm_coherent env c2" "owned_by user c2" "same_status c1 c2"
      by (rule data_default_step [OF c1(3,4) i])
    with True c1 i g show thesis
      by (intro that [of ug c1 c2]) (auto simp: data_decision_def data_verdict_def intro: same_status_trans)
  next
    case False
    obtain c2 where c2: "check_data_rules True (acm_ns env) (acm_eval env) (run_root env) (nacm_at env i) c1 node access ug =
         (case first_data_rule env (nacm_at env i) access node ug of
            None \<Rightarrow> (False, False, c2)
          | Some dr \<Rightarrow> (leaf_str (acm_child (acm_ns env) (rule_at (nacm_at env i) (datarule dr)) ''action'') \<noteq> ''deny'', True, c2))"
        "acm_coherent env c2" "owned_by user c2" "same_status c1 c2"
      by (rule check_data_rules_first [OF c1(3,4)])
    show thesis
    proof (cases "first_data_rule env (nacm_at env i) access node ug")
      case None
      obtain c3 where "get_default_data_response (acm_ns env) c2 (nacm_at env i) (vobj (hd node)) iswrite =
          (data_default env (nacm_at env i) (vobj (hd node)) iswrite, c3)"
          "acm_coherent env c3" "owned_by user c3" "same_status c2 c3"
        by (rule data_default_step [OF c2(2,3) i])
      with None False c1 c2 i g mem show thesis
        by (intro that [of ug c1 c3])
          (auto simp: data_decision_def data_verdict_def check_module_rules_def Let_def intro: same_status_trans)
    next
      case (Some dr)
      with False c1 c2 i g mem show thesis
        by (intro that [of ug c1 c2]) (auto simp: data_decision_def data_verdict_def Let_def intro: same_status_trans)
    qed
  qed
qed

section \<open>Decisions with coherent caches\<close>

definition rpc_allowed_ref :: "acm_env \<Rightarrow> acm_state \<Rightarrow> string \<Rightarrow> obj_template \<Rightarrow> bool" where
  "rpc_allowed_ref env st user obj \<longleftrightarrow>
     rpc_exempt env st user obj \<or> object_verdict env ''rpc-name'' ''exec'' ''exec-default'' user obj"

definition notif_allowed_ref :: "acm_env \<Rightarrow> bool \<Rightarrow> acm_state \<Rightarrow> string \<Rightarrow> obj_template \<Rightarrow> bool" where
  "notif_allowed_ref env replay st user obj \<longleftrightarrow>
     notif_exempt replay st user obj \<or> object_verdict env ''notification-name'' ''read'' ''read-default'' user obj"

text \<open>\<open>mode\<close> is the mode when the cache was made.\<close>

definition data_allowed_ref ::
    "acm_env \<Rightarrow> acm_state \<Rightarrow> agt_acmode_t \<Rightarrow> string \<Rightarrow> val_value list \<Rightarrow> val_value list option \<Rightarrow> val_value list option \<Rightarrow>
     op_editop_t \<Rightarrow> bool" where
  "data_allowed_ref env st mode user node newval curval editop =
     (let obj = vobj (hd node);
          iswrite = (newval \<noteq> None \<or> curval \<noteq> None);
          access = (if iswrite then write_access editop else ''read'')
      in obj_is_root obj \<or> is_superuser st user \<or>
         \<not> (iswrite \<and> write_blocked env obj editop newval curval) \<and>
         (mode = AGT_ACMOD_DISABLED \<or> check_mode st access obj \<or> data_verdict env access user iswrite node))"

lemma rpc_allowed_exact:
  assumes mem: "acm_mem env" and co: "acm_coherent env c" and own: "owned_by user c"
  obtains c' where
    "agt_acm_rpc_allowed env user obj st c =
       (rpc_allowed_ref env st user obj,
        if rpc_allowed_ref env st user obj \<or> get_nacm_root env = None then st
        else st\<lparr>denied_operations_count := denied_operations_count st + 1\<rparr>, c')"
    "acm_coherent env c'" "owned_by user c'" "same_status c c'"
proof (cases "rpc_exempt env st user obj")
  case True
  with co own show thesis by (intro that [of c]) (auto simp: agt_acm_rpc_allowed_def rpc_exempt_def rpc_allowed_ref_def)
next
  case False
  show thesis
  proof (cases "get_nacm_root env")
    case None
    with False co own show thesis
      by (intro that [of c])
        (auto simp: agt_acm_rpc_allowed_def rpc_exempt_def rpc_allowed_ref_def object_verdict_def cache_nacmroot_coherent)
  next
    case (Some i)
    let ?c = "c\<lparr>nacmroot := Some i\<rparr>"
    have "owned_by user ?c" "same_status c ?c" using own by (simp_all add: owned_by_def same_status_def)
    note c = nacmroot_coherent [OF co Some] this
    obtain ug c1 c2 where d: "cache_usergroups env (nacm_at env i) user ?c = Some (ug, c1)"
        "rpc_decision env (nacm_at env i) ug obj c1 = (object_verdict env ''rpc-name'' ''exec'' ''exec-default'' user obj, c2)"
        "acm_coherent env c2" "owned_by user c2" "same_status ?c c2"
      by (rule rpc.decided [OF c(1,2) Some mem])
    with False Some co show thesis
      by (intro that [of c2])
        (auto simp: agt_acm_rpc_allowed_def rpc_exempt_def rpc_allowed_ref_def cache_nacmroot_coherent
          intro: same_status_trans [OF c(3)])
  qed
qed

lemma valnode_exact:
  assumes mem: "acm_mem env" and co: "acm_coherent env c" and own: "owned_by user c"
  obtains c' where
    "valnode_access_allowed env st user node newval curval editop c =
       (data_allowed_ref env st (cache_mode c) user node newval curval editop, c')"
    "acm_coherent env c'" "owned_by user c'" "same_status c c'"
proof -
  define iswrite where "iswrite = (newval \<noteq> None \<or> curval \<noteq> None)"
  define access where "access = (if iswrite then write_access editop else ''read'')"
  define early where "early \<longleftrightarrow> obj_is_root (vobj (hd node)) \<or> is_superuser st user \<or>
    iswrite \<and> write_blocked env (vobj (hd node)) editop newval curval \<or> cache_mode c = AGT_ACMOD_DISABLED \<or>
    check_mode st access (vobj (hd node))"
  have 1: "valnode_access_allowed env st user node newval curval editop c =
     (if obj_is_root (vobj (hd node)) then (True, c)
      else if is_superuser st user then (True, c)
      else if iswrite \<and> write_blocked env (vobj (hd node)) editop newval curval then (False, c)
      else if cache_mode c = AGT_ACMOD_DISABLED then (True, c)
      else if check_mode st access (vobj (hd node)) then (True, c)
      else case cache_nacmroot env c of
             None \<Rightarrow> (False, c)
           | Some (i, c) \<Rightarrow>
               (case cache_usergroups env (nacm_at env i) user c of
                  None \<Rightarrow> (False, c)
                | Some (ug, c) \<Rightarrow> data_decision env (nacm_at env i) ug node access iswrite c))"
    by (simp only: valnode_access_allowed_def Let_def iswrite_def access_def)
  have 2: "data_allowed_ref env st (cache_mode c) user node newval curval editop \<longleftrightarrow>
     obj_is_root (vobj (hd node)) \<or> is_superuser st user \<or>
     \<not> (iswrite \<and> write_blocked env (vobj (hd node)) editop newval curval) \<and>
     (cache_mode c = AGT_ACMOD_DISABLED \<or> check_mode st access (vobj (hd node)) \<or> data_verdict env access user iswrite node)"
    by (simp only: data_allowed_ref_def Let_def iswrite_def access_def)
  show thesis
  proof (cases early)
    case True
    with co own show thesis by (intro that [of c]) (auto simp: 1 2 early_def)
  next
    case False
    show thesis
    proof (cases "get_nacm_root env")
      case None
      with False co own show thesis
        by (intro that [of c]) (auto simp: 1 2 early_def data_verdict_def cache_nacmroot_coherent)
    next
      case (Some i)
      let ?c = "c\<lparr>nacmroot := Some i\<rparr>"
      have "owned_by user ?c" "same_status c ?c" using own by (simp_all add: owned_by_def same_status_def)
      note c = nacmroot_coherent [OF co Some] this
      obtain ug c1 c2 where d: "cache_usergroups env (nacm_at env i) user ?c = Some (ug, c1)"
          "data_decision env (nacm_at env i) ug node access iswrite c1 = (data_verdict env access user iswrite node, c2)"
          "acm_coherent env c2" "owned_by user c2" "same_status ?c c2"
        by (rule data_decided [OF c(1,2) Some mem])
      with False Some co show thesis
        by (intro that [of c2])
          (auto simp: 1 2 early_def cache_nacmroot_coherent intro: same_status_trans [OF c(3)])
    qed
  qed
qed

lemma notif_allowed_exact:
  assumes mem: "acm_mem env" and co: "\<forall>c. notif_cache st = Some c \<longrightarrow> acm_coherent env c"
  obtains nc where "agt_acm_notif_allowed env replay user obj st = (notif_allowed_ref env replay st user obj, st\<lparr>notif_cache := nc\<rparr>)"
    "\<forall>c. nc = Some c \<longrightarrow> acm_coherent env c"
proof (cases "notif_exempt replay st user obj")
  case True
  with co show thesis
    by (intro that [of "notif_cache st"]) (auto simp: agt_acm_notif_allowed_def notif_exempt_def notif_allowed_ref_def)
next
  case False
  define c where "c = (case notif_cache st of None \<Rightarrow> new_acm_cache st | Some c \<Rightarrow> c)"
  have c: "acm_coherent env c" using co new_cache_coherent by (auto simp: c_def split: option.split)
  have e: "agt_acm_notif_allowed env replay user obj st =
      (case cache_nacmroot env c of
         None \<Rightarrow> (False, st\<lparr>notif_cache := Some c\<rparr>)
       | Some (i, c) \<Rightarrow>
           (case notif_usergroups env (nacm_at env i) user c of
              None \<Rightarrow> (False, st\<lparr>notif_cache := Some c\<rparr>)
            | Some (ug, c) \<Rightarrow>
                (case notif_decision env (nacm_at env i) ug obj c of (retval, c) \<Rightarrow> (retval, st\<lparr>notif_cache := Some c\<rparr>))))"
    using False mem unfolding agt_acm_notif_allowed_def Let_def c_def [symmetric] by (auto simp: notif_exempt_def)
  show thesis
  proof (cases "get_nacm_root env")
    case None
    with False c e show thesis
      by (intro that [of "Some c"]) (auto simp: notif_allowed_ref_def object_verdict_def cache_nacmroot_coherent)
  next
    case (Some i)
    let ?c = "c\<lparr>nacmroot := Some i\<rparr>"
    let ?d = "if owned_by user ?c then ?c else ?c\<lparr>usergroups := None\<rparr>"
    have c': "acm_coherent env ?c" by (rule nacmroot_coherent [OF c Some])
    then have d: "acm_coherent env ?d" "owned_by user ?d"
      by (auto simp: acm_coherent_def coherent_parts owned_by_def split: option.splits)
    have u: "notif_usergroups env (nacm_at env i) user ?c = cache_usergroups env (nacm_at env i) user ?d"
      by (auto simp: notif_usergroups_def owned_by_def cache_usergroups_def split: option.splits)
    obtain ug c1 c2 where "cache_usergroups env (nacm_at env i) user ?d = Some (ug, c1)"
        "notif_decision env (nacm_at env i) ug obj c1 =
           (object_verdict env ''notification-name'' ''read'' ''read-default'' user obj, c2)"
        "acm_coherent env c2"
      by (rule notif.decided [OF d Some mem])
    with False Some c e u show thesis
      by (intro that [of "Some c2"]) (auto simp: notif_allowed_ref_def cache_nacmroot_coherent)
  qed
qed

section \<open>The server's access control as a state machine\<close>

text \<open>
  The steps that touch a cache: an edit of \<^verbatim>\<open>/nacm\<close> that is committed or rolled back, with its callback; an edit of
  \<^verbatim>\<open>enable-nacm\<close>; any other change, which leaves \<^verbatim>\<open>/nacm\<close> as it is; a session that starts or ends; and the checks of a
  request, each with the cache of its session.
\<close>

definition same_nacm :: "acm_env \<Rightarrow> acm_env \<Rightarrow> bool" where
  "same_nacm env env' \<longleftrightarrow> get_nacm_root env' = get_nacm_root env \<and> acm_ns env' = acm_ns env \<and>
     (case get_nacm_root env of None \<Rightarrow> True | Some i \<Rightarrow> nacm_at env' i = nacm_at env i)"

type_synonym acm_world = "acm_env \<times> acm_state \<times> acm_session option list"

inductive acm_step :: "acm_world \<Rightarrow> acm_world \<Rightarrow> bool" where
  edit_nacm: "cbtyp = AGT_CB_ROLLBACK \<or> cbtyp = AGT_CB_COMMIT \<and> editop \<noteq> OP_EDITOP_LOAD \<Longrightarrow> acm_mem env' \<Longrightarrow>
    nacm_callback cbtyp editop st ss = (NO_ERR, st', ss') \<Longrightarrow> acm_step (env, st, ss) (env', st', ss')"
| edit_mode: "nacm_enable_nacm_callback cbtyp editop newval st = (res, st') \<Longrightarrow> acm_step (env, st, ss) (env, st', ss)"
| edit_other: "acm_mem env' \<Longrightarrow> same_nacm env env' \<Longrightarrow> acm_step (env, st, ss) (env', st, ss)"
| login: "acm_step (env, st, ss) (env, st, ss[i := Some \<lparr>scb_username = user, acm_cache = None\<rparr>])"
| logout: "acm_step (env, st, ss) (env, st, ss[i := None])"
| check_rpc: "i < length ss \<Longrightarrow> ss ! i = Some scb \<Longrightarrow> agt_acm_init_msg_cache (acm_mem env) st scb = (NO_ERR, scb') \<Longrightarrow>
    acm_cache scb' = Some c \<Longrightarrow> agt_acm_rpc_allowed env (scb_username scb') obj st c = (ok, st', c') \<Longrightarrow>
    acm_step (env, st, ss) (env, st', ss[i := Some (scb'\<lparr>acm_cache := Some c'\<rparr>)])"
| check_read: "i < length ss \<Longrightarrow> ss ! i = Some scb \<Longrightarrow> agt_acm_init_msg_cache (acm_mem env) st scb = (NO_ERR, scb') \<Longrightarrow>
    acm_cache scb' = Some c \<Longrightarrow> agt_acm_val_read_allowed env st (scb_username scb') node c = (ok, c') \<Longrightarrow>
    acm_step (env, st, ss) (env, st, ss[i := Some (scb'\<lparr>acm_cache := Some c'\<rparr>)])"
| check_write: "i < length ss \<Longrightarrow> ss ! i = Some scb \<Longrightarrow> agt_acm_init_msg_cache (acm_mem env) st scb = (NO_ERR, scb') \<Longrightarrow>
    agt_acm_val_write_allowed env (scb_username scb') newval curval editop st (acm_cache scb') = (ok, st', c') \<Longrightarrow>
    acm_step (env, st, ss) (env, st', ss[i := Some (scb'\<lparr>acm_cache := c'\<rparr>)])"
| check_notif: "agt_acm_notif_allowed env replay user obj st = (ok, st') \<Longrightarrow> acm_step (env, st, ss) (env, st', ss)"

inductive acm_reachable :: "acm_world \<Rightarrow> bool" where
  start: "acm_mem env \<Longrightarrow> notif_cache st = None \<Longrightarrow> acm_reachable (env, st, replicate n None)"
| step: "acm_reachable w \<Longrightarrow> acm_step w w' \<Longrightarrow> acm_reachable w'"

definition session_coherent :: "acm_env \<Rightarrow> acm_session \<Rightarrow> bool" where
  "session_coherent env scb \<longleftrightarrow> (agt_acm_session_cache_valid scb \<longrightarrow>
     (\<forall>c. acm_cache scb = Some c \<longrightarrow> acm_coherent env c \<and> owned_by (scb_username scb) c))"

definition acm_inv :: "acm_world \<Rightarrow> bool" where
  "acm_inv w = (case w of (env, st, ss) \<Rightarrow>
     acm_mem env \<and> (\<forall>c. notif_cache st = Some c \<longrightarrow> acm_coherent env c) \<and> (\<forall>scb. Some scb \<in> set ss \<longrightarrow> session_coherent env scb))"

lemma coherent_same_nacm:
  assumes "same_nacm env env'" "acm_coherent env c"
  shows "acm_coherent env' c"
proof -
  have "get_nacm_root env = Some i \<Longrightarrow> groups_of env' (nacm_at env' i) user = groups_of env (nacm_at env i) user" for i user
    using assms(1) by (simp add: same_nacm_def groups_of_def)
  then show ?thesis using assms
    by (auto simp: acm_coherent_def coherent_parts same_nacm_def split: option.splits prod.splits)
qed

lemma init_msg_cache_coherent:
  assumes "session_coherent env scb"
  obtains scb' c where "agt_acm_init_msg_cache True st scb = (NO_ERR, scb')" "acm_cache scb' = Some c"
    "scb_username scb' = scb_username scb" "acm_coherent env c" "owned_by (scb_username scb) c"
    "agt_acm_session_cache_valid scb \<longrightarrow> scb' = scb" "\<not> agt_acm_session_cache_valid scb \<longrightarrow> c = new_acm_cache st"
proof (cases "agt_acm_session_cache_valid scb")
  case True
  then obtain c where "acm_cache scb = Some c" by (auto simp: agt_acm_session_cache_valid_def split: option.splits)
  with True assms show thesis by (intro that [of scb c]) (auto simp: agt_acm_init_msg_cache_def session_coherent_def)
next
  case False
  with new_cache_coherent show thesis
    by (intro that [of "scb\<lparr>acm_cache := Some (new_acm_cache st)\<rparr>" "new_acm_cache st"]) (auto simp: agt_acm_init_msg_cache_def)
qed

lemma invalidate_not_valid: "\<not> agt_acm_session_cache_valid (agt_acm_invalidate_session_cache scb)"
  by (auto simp: agt_acm_session_cache_valid_def agt_acm_invalidate_session_cache_def bit_unset_bit_iff split: option.split)

lemma invalidated: "Some scb \<in> set (agt_ses_invalidate_session_acm_caches ss) \<Longrightarrow> \<not> agt_acm_session_cache_valid scb"
  by (auto simp: agt_ses_invalidate_session_acm_caches_def eq_commute [of "Some scb"] invalidate_not_valid)

lemma acm_inv_update:
  "acm_inv (env, st, ss) \<Longrightarrow> notif_cache st' = notif_cache st \<Longrightarrow> (\<And>scb. x = Some scb \<Longrightarrow> session_coherent env scb) \<Longrightarrow>
   acm_inv (env, st', ss[i := x])"
  by (auto simp: acm_inv_def dest: set_update_subset_insert [THEN subsetD])

lemma write_allowed_exact:
  assumes "acm_mem env" "acm_coherent env c" "owned_by user c"
  obtains c' where
    "agt_acm_val_write_allowed env user newval curval editop st (Some c) =
       (let node = (case newval of Some v \<Rightarrow> v | None \<Rightarrow> the curval);
            ok = (editop \<in> {OP_EDITOP_LOAD, OP_EDITOP_NONE} \<or>
                  data_allowed_ref env st (cache_mode c) user node newval curval editop)
        in (ok, if ok then st else st\<lparr>denied_data_writes_count := denied_data_writes_count st + 1\<rparr>, Some c'))"
    "acm_coherent env c'" "owned_by user c'" "same_status c c'"
proof (cases "editop \<in> {OP_EDITOP_LOAD, OP_EDITOP_NONE}")
  case True
  with assms show thesis by (intro that [of c]) (auto simp: agt_acm_val_write_allowed_def)
next
  case False
  obtain c' where "valnode_access_allowed env st user (case newval of Some v \<Rightarrow> v | None \<Rightarrow> the curval) newval curval editop c =
       (data_allowed_ref env st (cache_mode c) user (case newval of Some v \<Rightarrow> v | None \<Rightarrow> the curval) newval curval editop, c')"
      "acm_coherent env c'" "owned_by user c'" "same_status c c'"
    by (rule valnode_exact [OF assms])
  with False show thesis by (intro that [of c']) (auto simp: agt_acm_val_write_allowed_def Let_def)
qed

lemma init_session:
  assumes inv: "acm_inv (env, st, ss)" and i: "i < length ss" "ss ! i = Some scb"
    and init: "agt_acm_init_msg_cache (acm_mem env) st scb = (NO_ERR, scb')"
  obtains c where "acm_mem env" "acm_cache scb' = Some c" "acm_coherent env c" "owned_by (scb_username scb') c"
proof -
  from i have "Some scb \<in> set ss" by (metis nth_mem)
  with inv have m: "acm_mem env" and s: "session_coherent env scb" by (auto simp: acm_inv_def)
  obtain d c where "agt_acm_init_msg_cache True st scb = (NO_ERR, d)" "acm_cache d = Some c"
      "scb_username d = scb_username scb" "acm_coherent env c" "owned_by (scb_username scb) c"
    by (rule init_msg_cache_coherent [OF s])
  with init m show thesis by (intro that [of c]) auto
qed

lemma acm_inv_step: "acm_step w w' \<Longrightarrow> acm_inv w \<Longrightarrow> acm_inv w'"
proof (induction rule: acm_step.induct)
  case (edit_nacm cbtyp editop env' st ss st' ss' env)
  then have "st' = st\<lparr>notif_cache := None\<rparr>" "ss' = agt_ses_invalidate_session_acm_caches ss"
    by (auto simp: nacm_callback_def split: if_splits)
  with edit_nacm show ?case
    by (auto simp: acm_inv_def session_coherent_def dest: invalidated)
next
  case (edit_mode cbtyp editop newval st res st' env ss)
  then have "notif_cache st' = notif_cache st"
    by (auto simp: nacm_enable_nacm_callback_def split: agt_cbtyp_t.splits if_splits)
  with edit_mode show ?case by (auto simp: acm_inv_def)
next
  case (edit_other env' env st ss)
  then show ?case using coherent_same_nacm by (auto simp: acm_inv_def session_coherent_def)
next
  case (login env st ss i user)
  then show ?case by (rule acm_inv_update) (auto simp: session_coherent_def)
next
  case (logout env st ss i)
  then show ?case by (rule acm_inv_update) auto
next
  case (check_rpc i ss scb env st scb' c obj ok st' c')
  obtain d where m: "acm_mem env" and d: "acm_cache scb' = Some d" "acm_coherent env d" "owned_by (scb_username scb') d"
    by (rule init_session [OF check_rpc(6,1-3)])
  obtain d' where d': "agt_acm_rpc_allowed env (scb_username scb') obj st d =
       (rpc_allowed_ref env st (scb_username scb') obj,
        if rpc_allowed_ref env st (scb_username scb') obj \<or> get_nacm_root env = None then st
        else st\<lparr>denied_operations_count := denied_operations_count st + 1\<rparr>, d')"
      "acm_coherent env d'" "owned_by (scb_username scb') d'"
    by (rule rpc_allowed_exact [OF m d(2,3)])
  with check_rpc d have "notif_cache st' = notif_cache st" "c' = d'" by (auto split: if_splits)
  with d' check_rpc(6) show ?case by (intro acm_inv_update) (auto simp: session_coherent_def)
next
  case (check_read i ss scb env st scb' c node ok c')
  obtain d where m: "acm_mem env" and d: "acm_cache scb' = Some d" "acm_coherent env d" "owned_by (scb_username scb') d"
    by (rule init_session [OF check_read(6,1-3)])
  obtain d' where d': "valnode_access_allowed env st (scb_username scb') node None None OP_EDITOP_NONE d =
       (data_allowed_ref env st (cache_mode d) (scb_username scb') node None None OP_EDITOP_NONE, d')"
      "acm_coherent env d'" "owned_by (scb_username scb') d'"
    by (rule valnode_exact [OF m d(2,3)])
  with check_read d have "c' = d'" by (simp add: agt_acm_val_read_allowed_def)
  with d' check_read(6) show ?case by (intro acm_inv_update) (auto simp: session_coherent_def)
next
  case (check_write i ss scb env st scb' newval curval editop ok st' c')
  obtain d where m: "acm_mem env" and d: "acm_cache scb' = Some d" "acm_coherent env d" "owned_by (scb_username scb') d"
    by (rule init_session [OF check_write(5,1-3)])
  obtain d' where d': "agt_acm_val_write_allowed env (scb_username scb') newval curval editop st (Some d) =
       (let node = (case newval of Some v \<Rightarrow> v | None \<Rightarrow> the curval);
            ok = (editop \<in> {OP_EDITOP_LOAD, OP_EDITOP_NONE} \<or>
                  data_allowed_ref env st (cache_mode d) (scb_username scb') node newval curval editop)
        in (ok, if ok then st else st\<lparr>denied_data_writes_count := denied_data_writes_count st + 1\<rparr>, Some d'))"
      "acm_coherent env d'" "owned_by (scb_username scb') d'"
    by (rule write_allowed_exact [OF m d(2,3)])
  with check_write d have "notif_cache st' = notif_cache st" "c' = Some d'" by (auto simp: Let_def split: if_splits)
  with d' check_write(5) show ?case by (intro acm_inv_update) (auto simp: session_coherent_def)
next
  case (check_notif env replay user obj st ok st' ss)
  from check_notif(2) have m: "acm_mem env" "\<forall>c. notif_cache st = Some c \<longrightarrow> acm_coherent env c" by (auto simp: acm_inv_def)
  obtain nc where "agt_acm_notif_allowed env replay user obj st =
      (notif_allowed_ref env replay st user obj, st\<lparr>notif_cache := nc\<rparr>)" "\<forall>c. nc = Some c \<longrightarrow> acm_coherent env c"
    by (rule notif_allowed_exact [OF m])
  with check_notif show ?case by (auto simp: acm_inv_def)
qed

lemma acm_reachable_inv: "acm_reachable w \<Longrightarrow> acm_inv w"
proof (induction rule: acm_reachable.induct)
  case (start env st n)
  then show ?case by (auto simp: acm_inv_def)
qed (rule acm_inv_step)

section \<open>A small access control configuration for the witnesses\<close>

definition "acm_module = Module ''ietf-netconf-acm'' True [] 2 None"
definition "sys_module = Module ''system'' True [] 3 None"

definition acm_obj :: "obj_type_t \<Rightarrow> u32 \<Rightarrow> string \<Rightarrow> ncx_module \<Rightarrow> obj_template option \<Rightarrow> obj_template" where
  "acm_obj ty fl n m p = Obj \<lparr>objtype = ty, obj_flags = fl, od_name = n, od_mod = Some m, od_tkerr_mod = None,
     od_nsid = mod_nsid m, od_gen = False\<rparr> p None"

definition acm_node :: "ncx_btype_t \<Rightarrow> string \<Rightarrow> string \<Rightarrow> val_value list \<Rightarrow> val_value" where
  "acm_node ty n str cs = Val \<lparr>val_obj = acm_obj OBJ_TYP_LEAF 0 n acm_module None, val_name = n, val_nsid = 0,
     val_btyp = ty, val_flags = 0, val_res = NO_ERR, val_plock = [], val_xpathpcb = None, val_str = str, val_uint = 0\<rparr> cs"

abbreviation "acm_leaf n str \<equiv> acm_node NCX_BT_STRING n str []"
abbreviation "acm_cont n cs \<equiv> acm_node NCX_BT_CONTAINER n [] cs"

text \<open>Two groups with a user each; a rule list for both groups whose rule denies the operation \<open>reboot\<close>.\<close>

definition sample_rule :: val_value where
  "sample_rule = acm_cont ''rule'' [acm_leaf ''name'' ''r1'', acm_leaf ''module-name'' ''*'', acm_leaf ''rpc-name'' ''reboot'',
     acm_leaf ''access-operations'' ''*'', acm_leaf ''action'' ''deny'']"

definition sample_rule_list :: val_value where
  "sample_rule_list = acm_cont ''rule-list'' [acm_leaf ''name'' ''l1'', acm_leaf ''group'' ''ops'', acm_leaf ''group'' ''guests'', sample_rule]"

definition sample_nacm :: val_value where
  "sample_nacm = acm_cont ''nacm'' [acm_leaf ''exec-default'' ''permit'',
     acm_cont ''groups'' [acm_cont ''group'' [acm_leaf ''name'' ''ops'', acm_leaf ''user-name'' ''olga''],
                          acm_cont ''group'' [acm_leaf ''name'' ''guests'', acm_leaf ''user-name'' ''gary'']],
     sample_rule_list]"

definition sample_running :: val_value where
  "sample_running = Val ((val_data (acm_cont ''config'' []))\<lparr>val_obj := obj_config\<rparr>) [sample_nacm]"

definition sample_env :: acm_env where
  "sample_env = \<lparr>acm_mem = True, acm_ns = empty_db\<lparr>cached := (\<lambda>_. 1)\<rparr>,
     acm_eval = (\<lambda>_ _. (None, ERR_INTERNAL_MEM)), acm_apply = (\<lambda>_ _ _. True), acm_running = Some sample_running\<rparr>"

definition sample_st :: acm_state where
  "sample_st = \<lparr>agt_acm_init_done = True, superuser = Some ''root'', acmode = AGT_ACMOD_ENFORCING,
     denied_operations_count = 0, denied_data_writes_count = 0, notif_cache = None\<rparr>"

definition "obj_reboot = acm_obj OBJ_TYP_RPC 0 ''reboot'' sys_module None"
definition "obj_status = acm_obj OBJ_TYP_RPC 0 ''status'' sys_module None"

lemmas sample_acm = sample_rule_def sample_rule_list_def sample_nacm_def sample_running_def sample_env_def acm_node_def
  acm_obj_def acm_module_def

lemma sample_root_nacm: "get_nacm_root sample_env = Some 0" by code_simp

lemma sample_nacm_at: "nacm_at sample_env 0 = sample_nacm" by (simp add: sample_env_def sample_running_def)

lemma sample_first_rule:
  "groups_of sample_env sample_nacm ''gary'' = (\<lparr>username = ''gary'', groupQ = [''guests'']\<rparr>, 1)"
  "groups_of sample_env sample_nacm ''olga'' = (\<lparr>username = ''olga'', groupQ = [''ops'']\<rparr>, 1)"
  "all_rules (acm_ns sample_env) sample_nacm = [(2, 3)]"
  by code_simp+

lemma sample_users:
  "\<not> rpc_exempt sample_env sample_st ''gary'' obj_reboot" "\<not> rpc_exempt sample_env sample_st ''olga'' obj_reboot"
  by code_simp+

lemma sample_reachable: "acm_reachable (sample_env, sample_st, [Some \<lparr>scb_username = ''gary'', acm_cache = None\<rparr>])"
proof -
  have "acm_reachable (sample_env, sample_st, replicate 1 None)"
    by (rule acm_reachable.start) (simp_all add: sample_env_def sample_st_def)
  from acm_reachable.step [OF this acm_step.login [of _ _ _ 0 "''gary''"]] show ?thesis by simp
qed

definition sample_blocked :: val_value where
  "sample_blocked = Val ((val_data (acm_leaf ''uptime'' []))\<lparr>val_obj := acm_obj OBJ_TYP_LEAF 0x10000000 ''uptime'' sys_module None\<rparr>) []"

section \<open>Properties\<close>

text \<open>
  C36: in every state that the server reaches by sessions starting and ending, requests being
  checked and configuration changes with their callbacks, each check that uses cached groups, defaults and rules
  decides as a check of the current \<^verbatim>\<open>/nacm\<close> configuration without any cache would: for operations, for reading and
  writing data (with the mode of the time when the session's cache was made) and for notifications.
\<close>
theorem acm_decisions_current:
  assumes "acm_reachable (env, st, ss)" and "Some scb \<in> set ss"
  shows "\<exists>scb' c. agt_acm_init_msg_cache (acm_mem env) st scb = (NO_ERR, scb') \<and> acm_cache scb' = Some c \<and>
    fst (agt_acm_rpc_allowed env (scb_username scb) obj st c) = rpc_allowed_ref env st (scb_username scb) obj \<and>
    fst (valnode_access_allowed env st (scb_username scb) node newval curval editop c) =
      data_allowed_ref env st (cache_mode c) (scb_username scb) node newval curval editop \<and>
    fst (agt_acm_notif_allowed env replay user event st) = notif_allowed_ref env replay st user event"
proof -
  have m: "acm_mem env" "\<forall>c. notif_cache st = Some c \<longrightarrow> acm_coherent env c" and s: "session_coherent env scb"
    using acm_reachable_inv [OF assms(1)] assms(2) by (auto simp: acm_inv_def)
  obtain scb' c where c: "agt_acm_init_msg_cache True st scb = (NO_ERR, scb')" "acm_cache scb' = Some c"
      "acm_coherent env c" "owned_by (scb_username scb) c"
    by (rule init_msg_cache_coherent [OF s])
  have "fst (agt_acm_rpc_allowed env (scb_username scb) obj st c) = rpc_allowed_ref env st (scb_username scb) obj"
    by (rule rpc_allowed_exact [OF m(1) c(3,4), where st = st and obj = obj]) simp
  moreover have "fst (valnode_access_allowed env st (scb_username scb) node newval curval editop c) =
      data_allowed_ref env st (cache_mode c) (scb_username scb) node newval curval editop"
    by (rule valnode_exact [OF m(1) c(3,4), where st = st and node = node and newval = newval and curval = curval and editop = editop]) simp
  moreover have "fst (agt_acm_notif_allowed env replay user event st) = notif_allowed_ref env replay st user event"
    by (rule notif_allowed_exact [OF m, where replay = replay and user = user and obj = event]) simp
  ultimately show ?thesis using c m by auto
qed

theorem acm_decisions_current_witness:
  "\<exists>scb' c. agt_acm_init_msg_cache True sample_st \<lparr>scb_username = ''gary'', acm_cache = None\<rparr> = (NO_ERR, scb') \<and>
     acm_cache scb' = Some c \<and>
     fst (agt_acm_rpc_allowed sample_env ''gary'' obj_status sample_st c)"
proof -
  have "rpc_allowed_ref sample_env sample_st ''gary'' obj_status" by code_simp
  moreover have "acm_mem sample_env" by (simp add: sample_env_def)
  ultimately show ?thesis
    using acm_decisions_current [OF sample_reachable, where scb = "\<lparr>scb_username = ''gary'', acm_cache = None\<rparr>" and obj = obj_status]
    by fastforce
qed





text \<open>
  the loops over the groups of a rule list go on with the next child called \<^verbatim>\<open>name\<close> instead of
  \<^verbatim>\<open>group\<close>; where no such child follows the first group, as in every rule list whose key comes first, the rules of the
  list count only for members of its first group.
\<close>
theorem acm_first_group_only:
  assumes "val_find_child ns rule_list (Some ''ietf-netconf-acm'') ''group'' = Some k"
    and "val_find_next_child ns rule_list (Some ''ietf-netconf-acm'') ''name'' k = None"
  shows "check_rule_group ns rule_list ug = group_match ug (val_childQ rule_list ! k) \<and>
    snd (check_access_bit ns rule_list rule access ug) = group_match ug (val_childQ rule_list ! k)"
proof -
  have "rule_groups ns rule_list = [val_childQ rule_list ! k]"
    unfolding rule_groups_def child_iter_def assms(1) by (subst option.case, subst next_iter.simps) (simp add: assms(2))
  then show ?thesis by (simp add: check_rule_group_def check_access_bit_def Let_def)
qed

theorem acm_first_group_only_witness:
  "check_rule_group (acm_ns sample_env) sample_rule_list (fst (groups_of sample_env sample_nacm ''olga'')) \<and>
   \<not> check_rule_group (acm_ns sample_env) sample_rule_list (fst (groups_of sample_env sample_nacm ''gary'')) \<and>
   VAL_STR (val_childQ sample_rule_list ! 2) = ''guests''"
proof -
  have f: "val_find_child (acm_ns sample_env) sample_rule_list (Some ''ietf-netconf-acm'') ''group'' = Some 1"
    "val_find_next_child (acm_ns sample_env) sample_rule_list (Some ''ietf-netconf-acm'') ''name'' 1 = None"
    by code_simp+
  have "group_match \<lparr>username = ''olga'', groupQ = [''ops'']\<rparr> (val_childQ sample_rule_list ! 1)"
    "\<not> group_match \<lparr>username = ''gary'', groupQ = [''guests'']\<rparr> (val_childQ sample_rule_list ! 1)"
    "VAL_STR (val_childQ sample_rule_list ! 2) = ''guests''"
    by code_simp+
  then show ?thesis using acm_first_group_only [OF f] by (simp add: sample_first_rule)
qed

text \<open>
  a rule for an operation grants it whenever its \<^verbatim>\<open>access-operations\<close> cover execution; its
  \<^verbatim>\<open>action\<close>, which may well be \<^verbatim>\<open>deny\<close>, is not read.
\<close>
theorem acm_rpc_action_ignored:
  assumes "acm_mem env" and "acm_coherent env c" and "owned_by user c" and "get_nacm_root env = Some i"
    and "groups_of env (nacm_at env i) user = (ug, n)" and "n \<noteq> 0"
    and "first_rule env ''rpc-name'' (nacm_at env i) obj ug = Some r"
    and "leaf_str (acm_child (acm_ns env) (rule_at (nacm_at env i) r) ''access-operations'') = ''*''"
  shows "\<exists>c'. agt_acm_rpc_allowed env user obj st c = (True, st, c')"
proof -
  have "object_verdict env ''rpc-name'' ''exec'' ''exec-default'' user obj"
    using assms by (simp add: object_verdict_rules rules_verdict_def rule_grants_def)
  then have "rpc_allowed_ref env st user obj" by (simp add: rpc_allowed_ref_def)
  then show ?thesis by (rule_tac rpc_allowed_exact [OF assms(1-3), where st = st and obj = obj]) auto
qed

theorem acm_rpc_action_ignored_witness:
  "leaf_str (acm_child (acm_ns sample_env) sample_rule ''action'') = ''deny'' \<and>
   (\<exists>c'. agt_acm_rpc_allowed sample_env ''olga'' obj_reboot sample_st (new_acm_cache sample_st) = (True, sample_st, c'))"
proof -
  have r: "first_rule sample_env ''rpc-name'' sample_nacm obj_reboot \<lparr>username = ''olga'', groupQ = [''ops'']\<rparr> = Some (2, 3)"
    "leaf_str (acm_child (acm_ns sample_env) (rule_at sample_nacm (2, 3)) ''access-operations'') = ''*''" "(1 :: u32) \<noteq> 0"
    "leaf_str (acm_child (acm_ns sample_env) sample_rule ''action'') = ''deny''"
    by code_simp+
  have m: "acm_mem sample_env" by (simp add: sample_env_def)
  show ?thesis
    using acm_rpc_action_ignored [where env = sample_env and i = 0, unfolded sample_nacm_at,
        OF m new_cache_coherent sample_root_nacm sample_first_rule(2) r(3,1,2)] r(4)
    by blast
qed

lemma strstr_length: "strstr s p \<Longrightarrow> length p \<le> length s"
  by (induction s p rule: strstr.induct) (auto simp: min_def split: if_splits dest!: arg_cong [where f = length])

text \<open>
  the test whether a data rule covers an access looks for the rule's list of operations
  in the name of the access, with the arguments the wrong way round; a rule with several operations is in no queue,
  so it never applies, whether it permits or denies.
\<close>
theorem acm_several_operations_unmatched:
  assumes "6 < length ops"
  shows "cache_rule mem eval docname r pcb ops [0..<DATA_RULE_QUEUE_NUM] qr = qr"
proof -
  have "cache_rule mem eval docname r pcb ops is qr = qr" if "set is \<subseteq> {0..<4}" for "is"
    using that
  proof (induction "is")
    case Nil
    then show ?case by (cases qr) simp
  next
    case (Cons i "is")
    then have "length (get_rule_queue_access_str i) \<le> 6"
      by (auto simp: get_rule_queue_access_str_def less_Suc_eq numeral_eq_Suc)
    with assms have "\<not> strstr (get_rule_queue_access_str i) ops" using strstr_length by fastforce
    with Cons assms show ?case by (cases qr) auto
  qed
  then show ?thesis by simp
qed

theorem acm_several_operations_unmatched_witness:
  "cache_rule True (\<lambda>_ _. (None, ERR_INTERNAL_MEM)) ''config'' (0, 0) \<lparr>exprstr = ''/system'', val_docroot = None\<rparr> ''create update delete''
     [0..<4] ((\<lambda>_. []), NO_ERR) = ((\<lambda>_. []), NO_ERR)"
  by (rule acm_several_operations_unmatched) simp

end
