(* ===== verification/Val_Clone.thy ===== *)
theory Val_Clone
  imports Val_Tree
begin

text \<open>
  Cloning a data tree (\<^verbatim>\<open>clone_test\<close> of \<^verbatim>\<open>netconf/src/ncx/val.c\<close> and its two callers that fill the candidate
  configuration).  Meta data, edit variables and list indexes are not part of the node model.  Lemmas:
  what a clone contains; in particular it takes over the partial lock slots of every node.
\<close>

section \<open>Definitions\<close>

text \<open>The base types whose value the switch copies; for the others it reports an internal error.\<close>

definition cloned_btype :: "ncx_btype_t \<Rightarrow> bool" where
  "cloned_btype btyp \<longleftrightarrow> btyp \<notin> {NCX_BT_NONE, NCX_BT_UNION}"

text \<open>
  \<open>configonly\<close> tells whether the test function is \<^verbatim>\<open>val_is_config_data\<close> or there is none; the node comes
  with its ancestors, nearest first.  The result is the copy, or none, and \<^verbatim>\<open>*res\<close>.  Allocations
  succeed here; the callers have a parameter for the failure.
\<close>

fun clone_test :: "bool \<Rightarrow> val_value list \<Rightarrow> val_value \<Rightarrow> val_value option \<times> status_t"
  and clone_children :: "bool \<Rightarrow> val_value list \<Rightarrow> val_value list \<Rightarrow> val_value list option \<times> status_t" where
  "clone_test configonly anc (Val d cs) =
     (if configonly \<and> \<not> val_is_config_data (Val d cs # anc) then (None, ERR_NCX_SKIPPED)
      else if val_res d \<noteq> NO_ERR then (None, val_res d)
      else if \<not> cloned_btype (val_btyp d) then (None, ERR_INTERNAL_VAL)
      else if typ_has_children (val_btyp d)
      then (case clone_children configonly (Val d cs # anc) cs of
              (Some cs', res) \<Rightarrow> (Some (Val d cs'), res)
            | (None, res) \<Rightarrow> (None, res))
      else (Some (Val d []), NO_ERR))"
| "clone_children configonly anc [] = (Some [], NO_ERR)"
| "clone_children configonly anc (c # cs) =
     (if val_res (val_data c) \<noteq> NO_ERR then clone_children configonly anc cs
      else case clone_test configonly anc c of
             (None, res) \<Rightarrow>
               (if res = ERR_NCX_SKIPPED then clone_children configonly anc cs else (None, res))
           | (Some c', res) \<Rightarrow>
               (case clone_children configonly anc cs of
                  (Some cs', res') \<Rightarrow> (Some (c' # cs'), res')
                | (None, res') \<Rightarrow> (None, res')))"

text \<open>\<open>mem\<close>: no allocation of the clone fails.  A failure anywhere makes the whole clone fail.\<close>

definition val_clone_config_data :: "bool \<Rightarrow> val_value list \<Rightarrow> val_value \<Rightarrow> val_value option \<times> status_t" where
  "val_clone_config_data mem anc v =
     (case clone_test True anc v of
        (Some copy, res) \<Rightarrow> (if mem then (Some copy, res) else (None, ERR_INTERNAL_MEM))
      | (None, res) \<Rightarrow> (None, res))"

definition val_clone2 :: "bool \<Rightarrow> val_value list \<Rightarrow> val_value \<Rightarrow> val_value option" where
  "val_clone2 mem anc v = (if mem then fst (clone_test False anc v) else None)"

section \<open>What a clone contains\<close>

text \<open>The part of a tree that a clone takes over: valid nodes that pass the test.\<close>

fun clone_part :: "bool \<Rightarrow> val_value list \<Rightarrow> val_value \<Rightarrow> val_value" where
  "clone_part configonly anc (Val d cs) =
     Val d (if typ_has_children (val_btyp d)
            then map (clone_part configonly (Val d cs # anc))
                   (filter (\<lambda>c. val_res (val_data c) = NO_ERR \<and> (configonly \<longrightarrow> val_is_config_data (c # Val d cs # anc))) cs)
            else [])"

lemma clone_children_not_skipped: "clone_children configonly anc cs = (None, res) \<Longrightarrow> res \<noteq> ERR_NCX_SKIPPED"
  by (induction cs) (auto split: if_splits prod.splits option.splits)

lemma clone_test_skipped:
  "clone_test configonly anc v = (None, ERR_NCX_SKIPPED) \<Longrightarrow> val_res (val_data v) = NO_ERR \<Longrightarrow>
     configonly \<and> \<not> val_is_config_data (v # anc)"
  by (cases v) (auto split: if_splits prod.splits option.splits dest: clone_children_not_skipped)

lemma clone_test_passed:
  "clone_test configonly anc v = (Some w, res) \<Longrightarrow> configonly \<longrightarrow> val_is_config_data (v # anc)"
  by (cases v) (auto split: if_splits)

lemma clone_test_spec:
  "clone_test configonly anc v = (Some w, res) \<Longrightarrow> res = NO_ERR \<and> w = clone_part configonly anc v"
  "clone_children configonly anc cs = (Some ws, res) \<Longrightarrow> res = NO_ERR \<and>
     ws = map (clone_part configonly anc)
       (filter (\<lambda>c. val_res (val_data c) = NO_ERR \<and> (configonly \<longrightarrow> val_is_config_data (c # anc))) cs)"
proof (induction configonly anc v and configonly anc cs arbitrary: w res and ws res
    rule: clone_test_clone_children.induct)
  case (1 configonly anc d cs)
  then show ?case by (auto split: if_splits prod.splits option.splits)
next
  case (3 configonly anc c cs)
  show ?case
  proof (cases "val_res (val_data c) = NO_ERR")
    case True
    obtain w' r where ct: "clone_test configonly anc c = (w', r)" by (cases "clone_test configonly anc c")
    show ?thesis
    proof (cases w')
      case None
      then show ?thesis
        using 3 True ct clone_test_skipped [of configonly anc c] by (auto split: if_splits)
    next
      case (Some c')
      then show ?thesis
        using 3 True ct clone_test_passed [of configonly anc c c' r]
        by (auto split: if_splits prod.splits option.splits)
    qed
  next
    case False
    then have "clone_children configonly anc cs = (Some ws, res)" using "3.prems" by simp
    from "3.IH"(1) [OF False this] False show ?thesis by simp
  qed
qed simp_all

lemma clone_part_data [simp]: "val_data (clone_part t anc v) = val_data v"
  by (cases v) simp

lemma clone_part_anc_cong: "map vobj anc = map vobj anc' \<Longrightarrow> clone_part t anc v = clone_part t anc' v"
proof (induction t anc v arbitrary: anc' rule: clone_part.induct)
  case (1 t anc d cs)
  have a: "map vobj (Val d cs # anc) = map vobj (Val d cs # anc')" using 1(2) by simp
  have c: "val_is_config_data (c # Val d cs # anc) = val_is_config_data (c # Val d cs # anc')" for c
    by (rule val_is_config_data_objs) (simp add: 1(2))
  show ?case using 1(1) [OF _ _ a] by (auto simp: c intro!: map_cong)
qed

lemma clone_part_idem: "clone_part t anc (clone_part t anc v) = clone_part t anc v"
proof (induction t anc v rule: clone_part.induct)
  case (1 t anc d cs)
  show ?case
  proof (cases "typ_has_children (val_btyp d)")
    case True
    define good where "good c \<longleftrightarrow> val_res (val_data c) = NO_ERR \<and> (t \<longrightarrow> val_is_config_data (c # Val d cs # anc))" for c
    let ?f = "clone_part t (Val d cs # anc)"
    let ?g = "clone_part t (Val d (map ?f (filter good cs)) # anc)"
    have cong: "?g = ?f" by (intro ext clone_part_anc_cong) simp
    have conf: "val_is_config_data (c # Val d xs # anc) = val_is_config_data (c' # Val d cs # anc)"
      if "val_data c = val_data c'" for c c' xs
      by (rule val_is_config_data_objs) (simp add: that)
    have conf': "val_is_config_data (clone_part b l c # Val d xs # anc) = val_is_config_data (c # Val d cs # anc)"
      for b l c xs by (rule conf) simp
    have filt: "filter (\<lambda>c. val_res (val_data c) = NO_ERR \<and> (t \<longrightarrow> val_is_config_data (c # Val d (map ?f (filter good cs)) # anc)))
        (map ?f (filter good cs)) = map ?f (filter good cs)"
      by (rule filter_True) (auto simp: good_def conf')
    have "map ?f (map ?f (filter good cs)) = map ?f (filter good cs)"
      using 1 [OF True] by (auto simp: good_def)
    then show ?thesis
      using True by (simp only: clone_part.simps if_True filt cong flip: good_def)
  qed simp
qed

lemma clone_config_data_spec:
  "val_clone_config_data mem anc v = (Some w, res) \<Longrightarrow> res = NO_ERR \<and> w = clone_part True anc v"
  using clone_test_spec(1) [of True anc v w res]
  by (auto simp: val_clone_config_data_def split: prod.splits option.splits if_splits)

lemma clone_test_error:
  "clone_test configonly anc v \<noteq> (None, NO_ERR)"
  "clone_children configonly anc cs \<noteq> (None, NO_ERR)"
  by (induction configonly anc v and configonly anc cs rule: clone_test_clone_children.induct)
    (auto split: prod.splits option.splits if_splits)

section \<open>Properties\<close>

text \<open>
  a successful clone of a configuration is exactly its valid configuration part, a tree on
  which cloning has nothing left to remove; every node keeps its data, and with it the pointers to the
  partial locks held against the original.
\<close>
theorem clone_config_data:
  assumes "val_clone_config_data mem anc v = (Some w, res)"
  shows "res = NO_ERR \<and> w = clone_part True anc v \<and> clone_part True anc w = w \<and> vplock w = vplock v"
  using clone_config_data_spec [OF assms] by (simp add: clone_part_idem)

theorem clone_config_data_witness:
  "val_clone_config_data True [] (sample_config [None] [None]) = (Some (sample_config [None] [None]), NO_ERR) \<and>
   clone_part True [] (sample_config [None] [None]) = sample_config [None] [None]"
proof -
  have "clone_test True [] (sample_config [None] [None]) = (Some (sample_config [None] [None]), NO_ERR)"
    using sample_config_data
    by (simp add: sample_config_def sample_system_def sample_host_def sample_node_def typ_has_children_def
        cloned_btype_def)
  then have c: "val_clone_config_data True [] (sample_config [None] [None]) = (Some (sample_config [None] [None]), NO_ERR)"
    by (simp add: val_clone_config_data_def)
  from clone_config_data [OF c] c show ?thesis by simp
qed

end
