(* ===== verification/Cfg.thy ===== *)
theory Cfg
  imports Partial_Lock Val_Clone
begin

text \<open>
  The configuration manager of \<^verbatim>\<open>netconf/src/ncx/cfg.c\<close>: the array of the configuration templates and, for
  each, the lock state machine (global and partial locks), the dirty flag and the transaction IDs.
  Lemmas: the state machine keeps global and partial locks apart, only the owner of a lock can write
  and unlock, releasing the locks of a session leaves none of them, and unlocking the candidate discards
  its changes.

  All templates live in the array, so a \<^verbatim>\<open>cfg_template_t *\<close> that is modified is given by its index; a
  function that only reads takes the template.  The IDs of an enumeration that the code compares with
  \<^verbatim>\<open>MAX_CFGID\<close> are numbers here.
\<close>

section \<open>State\<close>

abbreviation NCX_CFGID_RUNNING :: nat where "NCX_CFGID_RUNNING \<equiv> 0"
abbreviation NCX_CFGID_CANDIDATE :: nat where "NCX_CFGID_CANDIDATE \<equiv> 1"
abbreviation NCX_CFGID_STARTUP :: nat where "NCX_CFGID_STARTUP \<equiv> 2"
definition MAX_CFGID :: nat where "MAX_CFGID = NCX_CFGID_STARTUP"

datatype cfg_state_t =
  CFG_ST_NONE | CFG_ST_INIT | CFG_ST_READY | CFG_ST_PLOCK | CFG_ST_FLOCK | CFG_ST_CLEANUP

datatype cfg_source_t =
  CFG_SRC_NONE | CFG_SRC_INTERNAL | CFG_SRC_NETCONF | CFG_SRC_CLI | CFG_SRC_SNMP | CFG_SRC_HTTP | CFG_SRC_OTHER

datatype cfg_location_t =
  CFG_LOC_NONE | CFG_LOC_INTERNAL | CFG_LOC_FILE | CFG_LOC_NAMED | CFG_LOC_LOCAL_URL | CFG_LOC_REMOTE_URL

record cfg_template =
  cfg_id :: nat
  cfg_loc :: cfg_location_t
  cfg_state :: cfg_state_t
  last_txid :: u64
  cur_txid :: u64
  cfg_name :: string
  src_url :: "string option"
  lock_time :: string
  last_ch_time :: string
  flags :: u32
  locked_by :: u32
  lock_src :: cfg_source_t
  plockQ :: "plock_cb_t list"
  root :: "val_value option"

abbreviation CFG_FL_TARGET :: nat where "CFG_FL_TARGET \<equiv> 0"
abbreviation CFG_FL_DIRTY :: nat where "CFG_FL_DIRTY \<equiv> 1"

record cfg_db =
  cfg_arr :: "nat \<Rightarrow> cfg_template option"
  cfg_init_done :: bool

definition upd :: "nat \<Rightarrow> (cfg_template \<Rightarrow> cfg_template) \<Rightarrow> cfg_db \<Rightarrow> cfg_db" where
  "upd cfgid f db = db\<lparr>cfg_arr := (cfg_arr db)(cfgid := map_option f (cfg_arr db cfgid))\<rparr>"

section \<open>Templates\<close>

definition get_template :: "cfg_db \<Rightarrow> string \<Rightarrow> nat option" where
  "get_template db cfgname =
     List.find (\<lambda>cfgid. case cfg_arr db cfgid of Some cfg \<Rightarrow> cfg_name cfg = cfgname | None \<Rightarrow> False)
       [NCX_CFGID_RUNNING..<Suc MAX_CFGID]"

text \<open>\<^verbatim>\<open>val_init_from_template\<close> for the container object \<^verbatim>\<open>config\<close>: a node without children.\<close>

definition new_root :: "obj_template \<Rightarrow> val_value" where
  "new_root obj = Val \<lparr>val_obj = obj, val_name = obj_get_name obj, val_nsid = obj_get_nsid obj,
     val_btyp = NCX_BT_CONTAINER, val_flags = 0, val_res = NO_ERR,
     val_plock = replicate VAL_MAX_PLOCKS None, val_xpathpcb = None, val_str = [], val_uint = 0\<rparr> []"

text \<open>
  \<open>cfgobj\<close> is the \<^verbatim>\<open>config\<close> object of the \<^verbatim>\<open>yuma-netconf\<close> module when both are found; \<open>mem\<close>: all
  allocations succeed; \<open>now\<close> is the time of \<^verbatim>\<open>tstamp_datetime\<close>.
\<close>

definition new_template ::
    "obj_template option \<Rightarrow> bool \<Rightarrow> string \<Rightarrow> string \<Rightarrow> nat \<Rightarrow> cfg_template option" where
  "new_template cfgobj mem now name cfgid =
     (case cfgobj of
        None \<Rightarrow> None
      | Some obj \<Rightarrow>
          (if \<not> mem then None
           else Some \<lparr>cfg_id = cfgid, cfg_loc = CFG_LOC_NONE, cfg_state = CFG_ST_INIT, last_txid = 0, cur_txid = 0,
                  cfg_name = name, src_url = None,
                  lock_time = [], last_ch_time = now, flags = 0, locked_by = 0, lock_src = CFG_SRC_NONE,
                  plockQ = [],
                  root = (if cfgid \<noteq> NCX_CFGID_CANDIDATE then Some (new_root obj) else None)\<rparr>))"

definition cfg_init :: "cfg_db \<Rightarrow> cfg_db" where
  "cfg_init db =
     (if \<not> cfg_init_done db
      then db\<lparr>cfg_arr := (\<lambda>i. if i \<le> MAX_CFGID then None else cfg_arr db i), cfg_init_done := True\<rparr>
      else db)"

definition cfg_cleanup :: "cfg_db \<Rightarrow> cfg_db" where
  "cfg_cleanup db =
     (if cfg_init_done db
      then db\<lparr>cfg_arr := (\<lambda>i. if i \<le> MAX_CFGID then None else cfg_arr db i), cfg_init_done := False\<rparr>
      else db)"

definition cfg_init_static_db ::
    "obj_template option \<Rightarrow> bool \<Rightarrow> string \<Rightarrow> nat \<Rightarrow> cfg_db \<Rightarrow> status_t \<times> cfg_db" where
  "cfg_init_static_db cfgobj mem now cfgid db =
     (let db = cfg_init db
      in if cfgid > MAX_CFGID then (ERR_INTERNAL_VAL, db)
         else if cfg_arr db cfgid \<noteq> None then (ERR_INTERNAL_PTR, db)
         else (let name = (if cfgid = NCX_CFGID_RUNNING then ''running''
                           else if cfgid = NCX_CFGID_CANDIDATE then ''candidate'' else ''startup'')
               in case new_template cfgobj mem now name cfgid of
                    None \<Rightarrow> (ERR_INTERNAL_MEM, db)
                  | Some cfg \<Rightarrow> (NO_ERR, db\<lparr>cfg_arr := (cfg_arr db)(cfgid := Some cfg)\<rparr>)))"

definition cfg_set_state :: "nat \<Rightarrow> cfg_state_t \<Rightarrow> cfg_db \<Rightarrow> cfg_db" where
  "cfg_set_state cfgid new_state db =
     (if cfgid > MAX_CFGID then db
      else if cfg_arr db cfgid = None then db
      else upd cfgid (cfg_state_update (\<lambda>_. new_state)) db)"

definition cfg_get_state :: "cfg_db \<Rightarrow> nat \<Rightarrow> cfg_state_t" where
  "cfg_get_state db cfgid =
     (if cfgid > MAX_CFGID then CFG_ST_NONE
      else case cfg_arr db cfgid of None \<Rightarrow> CFG_ST_NONE | Some cfg \<Rightarrow> cfg_state cfg)"

definition cfg_get_config :: "cfg_db \<Rightarrow> string \<Rightarrow> nat option" where
  "cfg_get_config db cfgname = get_template db cfgname"

definition cfg_get_config_id :: "cfg_db \<Rightarrow> nat \<Rightarrow> cfg_template option" where
  "cfg_get_config_id db cfgid = (if cfgid \<le> MAX_CFGID then cfg_arr db cfgid else None)"

definition cfg_get_config_name :: "cfg_db \<Rightarrow> nat \<Rightarrow> string option" where
  "cfg_get_config_name db cfgid = map_option cfg_name (cfg_get_config_id db cfgid)"

definition cfg_get_root :: "cfg_db \<Rightarrow> nat \<Rightarrow> val_value option" where
  "cfg_get_root db cfgid = (if cfgid \<le> MAX_CFGID then Option.bind (cfg_arr db cfgid) root else None)"

definition cfg_set_target :: "nat \<Rightarrow> cfg_db \<Rightarrow> cfg_db" where
  "cfg_set_target cfgid db =
     (if cfgid > MAX_CFGID then db else upd cfgid (flags_update (set_bit CFG_FL_TARGET)) db)"

definition cfg_set_dirty_flag :: "nat \<Rightarrow> cfg_db \<Rightarrow> cfg_db" where
  "cfg_set_dirty_flag cfgid db = upd cfgid (flags_update (set_bit CFG_FL_DIRTY)) db"

definition cfg_get_dirty_flag :: "cfg_template \<Rightarrow> bool" where
  "cfg_get_dirty_flag cfg = bit (flags cfg) CFG_FL_DIRTY"

definition cfg_update_last_ch_time :: "string \<Rightarrow> cfg_template \<Rightarrow> cfg_template" where
  "cfg_update_last_ch_time now cfg = cfg\<lparr>last_ch_time := now\<rparr>"

definition cfg_update_last_txid :: "u64 \<Rightarrow> cfg_template \<Rightarrow> cfg_template" where
  "cfg_update_last_txid txid cfg = cfg\<lparr>last_txid := txid\<rparr>"

definition cfg_apply_load_root :: "string \<Rightarrow> val_value option \<Rightarrow> cfg_template \<Rightarrow> cfg_template" where
  "cfg_apply_load_root now newroot cfg = (cfg_update_last_ch_time now cfg)\<lparr>root := newroot\<rparr>"

section \<open>Filling the candidate\<close>

text \<open>What the three functions store in the candidate; \<open>txid\<close> is the source's last transaction ID, if it is copied.\<close>

definition fill_candidate :: "val_value option \<Rightarrow> u64 option \<Rightarrow> cfg_template \<Rightarrow> cfg_template" where
  "fill_candidate newroot txid cand =
     (let cand = cand\<lparr>root := newroot, flags := unset_bit CFG_FL_DIRTY (flags cand)\<rparr>
      in case txid of Some t \<Rightarrow> cand\<lparr>last_txid := t, cur_txid := 0\<rparr> | None \<Rightarrow> cand)"

definition cfg_fill_candidate_from_running :: "bool \<Rightarrow> cfg_db \<Rightarrow> status_t \<times> cfg_db" where
  "cfg_fill_candidate_from_running mem db =
     (case (cfg_arr db NCX_CFGID_RUNNING, cfg_arr db NCX_CFGID_CANDIDATE) of
        (Some running, Some cand) \<Rightarrow>
          (case root running of
             None \<Rightarrow> (ERR_NCX_DATA_MISSING, db)
           | Some r \<Rightarrow>
               (let (copy, res) = val_clone_config_data mem [] r
                in (res, upd NCX_CFGID_CANDIDATE (fill_candidate copy (Some (last_txid running))) db)))
      | _ \<Rightarrow> (ERR_INTERNAL_VAL, db))"

definition cfg_fill_candidate_from_startup :: "bool \<Rightarrow> cfg_db \<Rightarrow> status_t \<times> cfg_db" where
  "cfg_fill_candidate_from_startup mem db =
     (case (cfg_arr db NCX_CFGID_STARTUP, cfg_arr db NCX_CFGID_CANDIDATE) of
        (Some startup, Some cand) \<Rightarrow>
          (case root startup of
             None \<Rightarrow> (ERR_NCX_DATA_MISSING, db)
           | Some r \<Rightarrow>
               (let copy = val_clone2 mem [] r
                in (if copy = None then ERR_INTERNAL_MEM else NO_ERR,
                    upd NCX_CFGID_CANDIDATE (fill_candidate copy (Some (last_txid startup))) db)))
      | _ \<Rightarrow> (ERR_INTERNAL_VAL, db))"

definition cfg_fill_candidate_from_inline :: "bool \<Rightarrow> val_value option \<Rightarrow> cfg_db \<Rightarrow> status_t \<times> cfg_db" where
  "cfg_fill_candidate_from_inline mem newroot db =
     (case newroot of
        None \<Rightarrow> (ERR_INTERNAL_PTR, db)
      | Some r \<Rightarrow>
          (if cfg_arr db NCX_CFGID_CANDIDATE = None then (ERR_INTERNAL_VAL, db)
           else (let (copy, res) = val_clone_config_data mem [] r
                 in (res, upd NCX_CFGID_CANDIDATE (fill_candidate copy None) db))))"

section \<open>Access checks\<close>

definition cfg_ok_to_lock :: "cfg_template \<Rightarrow> status_t" where
  "cfg_ok_to_lock cfg =
     (case cfg_state cfg of
        CFG_ST_READY \<Rightarrow>
          (if cfg_id cfg = NCX_CFGID_CANDIDATE
           then (if cfg_get_dirty_flag cfg then ERR_NCX_CANDIDATE_DIRTY else NO_ERR)
           else NO_ERR)
      | CFG_ST_PLOCK \<Rightarrow> ERR_NCX_LOCK_DENIED
      | CFG_ST_FLOCK \<Rightarrow> ERR_NCX_LOCK_DENIED
      | CFG_ST_NONE \<Rightarrow> ERR_NCX_NO_ACCESS_STATE
      | CFG_ST_INIT \<Rightarrow> ERR_NCX_NO_ACCESS_STATE
      | CFG_ST_CLEANUP \<Rightarrow> ERR_NCX_NO_ACCESS_STATE)"

definition cfg_ok_to_unlock :: "cfg_template \<Rightarrow> u32 \<Rightarrow> status_t" where
  "cfg_ok_to_unlock cfg sesid =
     (case cfg_state cfg of
        CFG_ST_PLOCK \<Rightarrow> ERR_NCX_NO_ACCESS_STATE
      | CFG_ST_FLOCK \<Rightarrow> (if locked_by cfg = sesid then NO_ERR else ERR_NCX_NO_ACCESS_LOCK)
      | CFG_ST_NONE \<Rightarrow> ERR_NCX_NO_ACCESS_STATE
      | CFG_ST_INIT \<Rightarrow> ERR_NCX_NO_ACCESS_STATE
      | CFG_ST_READY \<Rightarrow> ERR_NCX_NO_ACCESS_STATE
      | CFG_ST_CLEANUP \<Rightarrow> ERR_NCX_NO_ACCESS_STATE)"

definition cfg_ok_to_read :: "cfg_template \<Rightarrow> status_t" where
  "cfg_ok_to_read cfg =
     (if cfg_state cfg \<in> {CFG_ST_PLOCK, CFG_ST_FLOCK, CFG_ST_INIT, CFG_ST_READY} then NO_ERR
      else ERR_NCX_NO_ACCESS_STATE)"

definition cfg_ok_to_write :: "cfg_template \<Rightarrow> u32 \<Rightarrow> status_t" where
  "cfg_ok_to_write cfg sesid =
     (if cfg_state cfg \<noteq> CFG_ST_INIT
         \<and> cfg_id cfg \<notin> {NCX_CFGID_RUNNING, NCX_CFGID_CANDIDATE, NCX_CFGID_STARTUP}
         \<and> \<not> bit (flags cfg) CFG_FL_TARGET
      then ERR_NCX_NOT_WRITABLE
      else case cfg_state cfg of
             CFG_ST_PLOCK \<Rightarrow> NO_ERR
           | CFG_ST_FLOCK \<Rightarrow> (if locked_by cfg = sesid then NO_ERR else ERR_NCX_NO_ACCESS_LOCK)
           | CFG_ST_INIT \<Rightarrow> NO_ERR
           | CFG_ST_READY \<Rightarrow> NO_ERR
           | CFG_ST_NONE \<Rightarrow> ERR_NCX_NO_ACCESS_STATE
           | CFG_ST_CLEANUP \<Rightarrow> ERR_NCX_NO_ACCESS_STATE)"

definition cfg_is_global_locked :: "cfg_template \<Rightarrow> bool" where
  "cfg_is_global_locked cfg \<longleftrightarrow> cfg_state cfg = CFG_ST_FLOCK"

definition cfg_is_partial_locked :: "cfg_template \<Rightarrow> bool" where
  "cfg_is_partial_locked cfg \<longleftrightarrow> cfg_state cfg = CFG_ST_PLOCK"

definition cfg_get_global_lock_info :: "cfg_template \<Rightarrow> status_t \<times> u32 \<times> string option" where
  "cfg_get_global_lock_info cfg =
     (if cfg_state cfg = CFG_ST_FLOCK then (NO_ERR, locked_by cfg, Some (lock_time cfg))
      else (ERR_NCX_SKIPPED, 0, None))"

definition cfg_ok_to_partial_lock :: "cfg_template \<Rightarrow> status_t" where
  "cfg_ok_to_partial_lock cfg =
     (if cfg_id cfg \<noteq> NCX_CFGID_RUNNING then ERR_NCX_LOCK_DENIED
      else case cfg_state cfg of
             CFG_ST_READY \<Rightarrow> NO_ERR
           | CFG_ST_PLOCK \<Rightarrow> NO_ERR
           | CFG_ST_FLOCK \<Rightarrow> ERR_NCX_NO_ACCESS_STATE
           | CFG_ST_NONE \<Rightarrow> ERR_NCX_NO_ACCESS_STATE
           | CFG_ST_INIT \<Rightarrow> ERR_NCX_NO_ACCESS_STATE
           | CFG_ST_CLEANUP \<Rightarrow> ERR_NCX_NO_ACCESS_STATE)"

lemmas [lock_defs] = cfg_ok_to_lock_def cfg_ok_to_unlock_def cfg_ok_to_read_def cfg_ok_to_write_def
  cfg_ok_to_partial_lock_def cfg_is_global_locked_def cfg_is_partial_locked_def cfg_get_dirty_flag_def

section \<open>Global locks\<close>

definition cfg_lock :: "string \<Rightarrow> nat \<Rightarrow> u32 \<Rightarrow> cfg_source_t \<Rightarrow> cfg_db \<Rightarrow> status_t \<times> cfg_db" where
  "cfg_lock now cfgid sesid src db =
     (case cfg_arr db cfgid of
        None \<Rightarrow> (ERR_INTERNAL_PTR, db)
      | Some cfg \<Rightarrow>
          (let res = cfg_ok_to_lock cfg
           in if res = NO_ERR
              then (res, upd cfgid (\<lambda>c. c\<lparr>cfg_state := CFG_ST_FLOCK, locked_by := sesid, lock_src := src,
                                       lock_time := now\<rparr>) db)
              else (res, db)))"

definition unlock_template :: "cfg_template \<Rightarrow> cfg_template" where
  "unlock_template cfg = cfg\<lparr>cfg_state := CFG_ST_READY, locked_by := 0, lock_src := CFG_SRC_NONE\<rparr>"

definition cfg_unlock :: "bool \<Rightarrow> nat \<Rightarrow> u32 \<Rightarrow> cfg_db \<Rightarrow> status_t \<times> cfg_db" where
  "cfg_unlock mem cfgid sesid db =
     (case cfg_arr db cfgid of
        None \<Rightarrow> (ERR_INTERNAL_PTR, db)
      | Some cfg \<Rightarrow>
          (let res = cfg_ok_to_unlock cfg sesid
           in if res = NO_ERR
              then (let db = upd cfgid unlock_template db
                    in if cfg_id cfg = NCX_CFGID_CANDIDATE then cfg_fill_candidate_from_running mem db
                       else (res, db))
              else (res, db)))"

section \<open>Partial locks\<close>

definition cfg_add_partial_lock :: "nat \<Rightarrow> plock_cb_t \<Rightarrow> cfg_db \<Rightarrow> status_t \<times> cfg_db" where
  "cfg_add_partial_lock cfgid plcb db =
     (case cfg_arr db cfgid of
        None \<Rightarrow> (ERR_INTERNAL_PTR, db)
      | Some cfg \<Rightarrow>
          (let res = cfg_ok_to_partial_lock cfg
           in if res = NO_ERR
              then (res, upd cfgid (\<lambda>c. c\<lparr>cfg_state := CFG_ST_PLOCK, plockQ := plockQ c @ [plcb]\<rparr>) db)
              else (res, db)))"

definition cfg_find_partial_lock :: "cfg_template \<Rightarrow> u32 \<Rightarrow> plock_cb_t option" where
  "cfg_find_partial_lock cfg lockid = List.find (\<lambda>plock. plock_get_id plock = lockid) (plockQ cfg)"

definition cfg_first_partial_lock :: "cfg_template \<Rightarrow> plock_cb_t option" where
  "cfg_first_partial_lock cfg = (case plockQ cfg of [] \<Rightarrow> None | p # ps \<Rightarrow> Some p)"

text \<open>The entry after the given one in the queue.\<close>

fun cfg_next_partial_lock :: "plock_cb_t list \<Rightarrow> plock_cb_t \<Rightarrow> plock_cb_t option" where
  "cfg_next_partial_lock [] cur = None"
| "cfg_next_partial_lock (p # ps) cur =
     (if plock_addr p = plock_addr cur then (case ps of [] \<Rightarrow> None | q # qs \<Rightarrow> Some q)
      else cfg_next_partial_lock ps cur)"

text \<open>\<^verbatim>\<open>dlq_remove\<close> of a block from the queue of its configuration, then clearing it in the tree.\<close>

definition drop_plock :: "plock_cb_t \<Rightarrow> cfg_template \<Rightarrow> cfg_template" where
  "drop_plock plcb cfg =
     cfg\<lparr>plockQ := remove_first (\<lambda>p. plock_addr p = plock_addr plcb) (plockQ cfg),
         root := map_option (val_clear_partial_lock [] plcb) (root cfg)\<rparr>"

definition cfg_delete_partial_lock :: "nat \<Rightarrow> u32 \<Rightarrow> cfg_db \<Rightarrow> cfg_db" where
  "cfg_delete_partial_lock cfgid lockid db =
     (case cfg_arr db cfgid of
        None \<Rightarrow> db
      | Some cfg \<Rightarrow>
          (if cfg_state cfg \<noteq> CFG_ST_PLOCK then db
           else case cfg_find_partial_lock cfg lockid of
                  None \<Rightarrow> db
                | Some plock \<Rightarrow>
                    (let cfg = drop_plock plock cfg
                     in upd cfgid (\<lambda>_. cfg\<lparr>cfg_state := (if plockQ cfg = [] then CFG_ST_READY else CFG_ST_PLOCK)\<rparr>) db)))"

text \<open>The loop goes over the queue as it was; only the visited entry is removed.\<close>

fun release_plocks :: "u32 \<Rightarrow> plock_cb_t list \<Rightarrow> cfg_template \<Rightarrow> cfg_template" where
  "release_plocks sesid [] cfg = cfg"
| "release_plocks sesid (plcb # ps) cfg =
     release_plocks sesid ps (if plock_get_sid plcb = sesid then drop_plock plcb cfg else cfg)"

definition cfg_release_partial_locks :: "u32 \<Rightarrow> cfg_db \<Rightarrow> cfg_db" where
  "cfg_release_partial_locks sesid db =
     (if \<not> cfg_init_done db then db
      else upd NCX_CFGID_RUNNING (\<lambda>cfg. release_plocks sesid (plockQ cfg) cfg) db)"

section \<open>Release of all locks of a session\<close>

text \<open>One turn of the loop over the configurations.  The status of the discarded changes is only logged.\<close>

definition release_global :: "bool \<Rightarrow> u32 \<Rightarrow> nat \<Rightarrow> cfg_db \<Rightarrow> cfg_db" where
  "release_global mem sesid i db =
     (case cfg_arr db i of
        None \<Rightarrow> db
      | Some cfg \<Rightarrow>
          (if locked_by cfg = sesid
           then (let db = upd i unlock_template db
                 in if cfg_id cfg = NCX_CFGID_CANDIDATE then snd (cfg_fill_candidate_from_running mem db) else db)
           else db))"

definition cfg_release_locks :: "bool \<Rightarrow> u32 \<Rightarrow> cfg_db \<Rightarrow> cfg_db" where
  "cfg_release_locks mem sesid db =
     (if \<not> cfg_init_done db then db
      else if sesid = 0 then db
      else fold (release_global mem sesid) [0, 1, 2] (cfg_release_partial_locks sesid db))"

text \<open>The names of the configurations that a session has locked.\<close>

definition cfg_get_lock_list :: "cfg_db \<Rightarrow> u32 \<Rightarrow> string list" where
  "cfg_get_lock_list db sesid =
     (if sesid = 0 then []
      else concat (map (\<lambda>i. case cfg_arr db i of
                             Some cfg \<Rightarrow> (if locked_by cfg = sesid then [cfg_name cfg] else [])
                           | None \<Rightarrow> []) [0, 1, 2]))"

section \<open>The lock state machine\<close>

text \<open>
  One call of the manager's interface, labelled with the session it serves (0 for the server itself).
  Session IDs of clients are not 0, and a new lock block has an address that no block in the queue has.
\<close>

inductive cfg_step :: "cfg_db \<Rightarrow> u32 \<Rightarrow> cfg_db \<Rightarrow> bool" where
  init_db: "cfg_step db 0 (snd (cfg_init_static_db cfgobj mem now i db))"
| ready: "cfg_get_state db i = CFG_ST_INIT \<Longrightarrow> cfg_step db 0 (cfg_set_state i CFG_ST_READY db)"
| target: "cfg_step db 0 (cfg_set_target i db)"
| edited: "cfg_step db sid (cfg_set_dirty_flag i db)"
| load: "cfg_step db sid (upd i (cfg_apply_load_root now newroot) db)"
| txid: "cfg_step db sid (upd i (cfg_update_last_txid t) db)"
| discard: "cfg_step db sid (snd (cfg_fill_candidate_from_running mem db))"
| from_startup: "cfg_step db sid (snd (cfg_fill_candidate_from_startup mem db))"
| from_inline: "cfg_step db sid (snd (cfg_fill_candidate_from_inline mem newroot db))"
| lock: "sid \<noteq> 0 \<Longrightarrow> cfg_step db sid (snd (cfg_lock now i sid src db))"
| unlock: "cfg_step db sid (snd (cfg_unlock mem i sid db))"
| plock: "plock_get_sid plcb = sid \<Longrightarrow>
    (\<And>cfg. cfg_arr db i = Some cfg \<Longrightarrow> plock_addr plcb \<notin> plock_addr ` set (plockQ cfg)) \<Longrightarrow>
    cfg_step db sid (snd (cfg_add_partial_lock i plcb db))"
| punlock: "cfg_arr db i = Some cfg \<Longrightarrow> cfg_find_partial_lock cfg lockid = Some plcb \<Longrightarrow>
    plock_get_sid plcb = sid \<Longrightarrow> cfg_step db sid (cfg_delete_partial_lock i lockid db)"
| terminated: "cfg_step db sid (cfg_release_locks mem sid db)"

inductive cfg_reach :: "cfg_db \<Rightarrow> bool" where
  start: "(\<And>i. cfg_arr db i = None) \<Longrightarrow> cfg_reach db"
| step: "cfg_reach db \<Longrightarrow> cfg_step db sid db' \<Longrightarrow> cfg_reach db'"

inductive_cases cfg_stepE: "cfg_step db sid db'"

text \<open>The invariant of a slot.\<close>

definition slot_ok :: "nat \<Rightarrow> cfg_template \<Rightarrow> bool" where
  "slot_ok i cfg \<longleftrightarrow> i \<le> MAX_CFGID \<and> cfg_id cfg = i \<and>
     (cfg_state cfg = CFG_ST_FLOCK \<longleftrightarrow> locked_by cfg \<noteq> 0) \<and>
     (cfg_state cfg = CFG_ST_PLOCK \<longrightarrow> i = NCX_CFGID_RUNNING) \<and>
     (plockQ cfg \<noteq> [] \<longrightarrow> cfg_state cfg = CFG_ST_PLOCK) \<and>
     distinct (map plock_addr (plockQ cfg))"

definition cfg_inv :: "cfg_db \<Rightarrow> bool" where
  "cfg_inv db \<longleftrightarrow> (\<forall>i cfg. cfg_arr db i = Some cfg \<longrightarrow> slot_ok i cfg)"

lemma cfg_inv_slot: "cfg_inv db \<Longrightarrow> cfg_arr db i = Some cfg \<Longrightarrow> slot_ok i cfg"
  by (simp add: cfg_inv_def)

lemma upd_slot: "cfg_arr (upd i f db) j = (if j = i then map_option f (cfg_arr db i) else cfg_arr db j)"
  by (simp add: upd_def)

lemma upd_init [simp]: "cfg_init_done (upd i f db) = cfg_init_done db"
  by (simp add: upd_def)

lemma cfg_inv_upd:
  "cfg_inv db \<Longrightarrow> (\<And>cfg. cfg_arr db i = Some cfg \<Longrightarrow> slot_ok i cfg \<Longrightarrow> slot_ok i (f cfg)) \<Longrightarrow> cfg_inv (upd i f db)"
  by (auto simp: cfg_inv_def upd_slot)

lemma fill_candidate_fields:
  "cfg_id (fill_candidate r t c) = cfg_id c" "cfg_state (fill_candidate r t c) = cfg_state c"
  "locked_by (fill_candidate r t c) = locked_by c" "plockQ (fill_candidate r t c) = plockQ c"
  "root (fill_candidate r t c) = r" "\<not> bit (flags (fill_candidate r t c)) CFG_FL_DIRTY"
  "cfg_name (fill_candidate r t c) = cfg_name c"
  by (auto simp: fill_candidate_def Let_def bit_simps split: option.splits)

lemma slot_ok_fill: "slot_ok i c \<Longrightarrow> slot_ok i (fill_candidate r t c)"
  by (simp add: slot_ok_def fill_candidate_fields)

lemma cfg_inv_fill:
  "cfg_inv db \<Longrightarrow> cfg_inv (snd (cfg_fill_candidate_from_running mem db))"
  "cfg_inv db \<Longrightarrow> cfg_inv (snd (cfg_fill_candidate_from_startup mem db))"
  "cfg_inv db \<Longrightarrow> cfg_inv (snd (cfg_fill_candidate_from_inline mem newroot db))"
  by (auto simp: cfg_fill_candidate_from_running_def cfg_fill_candidate_from_startup_def
      cfg_fill_candidate_from_inline_def Let_def slot_ok_fill intro!: cfg_inv_upd split: option.splits prod.splits)

lemma drop_plock_fields:
  "cfg_id (drop_plock p c) = cfg_id c" "cfg_state (drop_plock p c) = cfg_state c"
  "locked_by (drop_plock p c) = locked_by c" "flags (drop_plock p c) = flags c"
  "plockQ (drop_plock p c) = remove_first (\<lambda>q. plock_addr q = plock_addr p) (plockQ c)"
  by (simp_all add: drop_plock_def)

lemma set_remove_first: "set (remove_first P xs) \<subseteq> set xs"
  by (induction xs) auto

lemma distinct_addr_remove:
  "distinct (map plock_addr ps) \<Longrightarrow> distinct (map plock_addr (remove_first P ps))"
  using distinct_remove_first [of plock_addr "\<lambda>_. True" ps P] by simp

lemma slot_ok_drop: "slot_ok i c \<Longrightarrow> slot_ok i (drop_plock p c)"
  using set_remove_first [of "\<lambda>q. plock_addr q = plock_addr p" "plockQ c"]
  by (auto simp: slot_ok_def drop_plock_fields distinct_addr_remove)

lemma slot_ok_release: "slot_ok i c \<Longrightarrow> slot_ok i (release_plocks sid ps c)"
  by (induction sid ps c rule: release_plocks.induct) (simp_all add: slot_ok_drop)

lemma slot_ok_unlock: "slot_ok i c \<Longrightarrow> locked_by c \<noteq> 0 \<Longrightarrow> slot_ok i (unlock_template c)"
  by (auto simp: slot_ok_def unlock_template_def)

lemma cfg_inv_release_global: "cfg_inv db \<Longrightarrow> sid \<noteq> 0 \<Longrightarrow> cfg_inv (release_global mem sid i db)"
  by (auto simp: release_global_def Let_def slot_ok_unlock intro!: cfg_inv_fill cfg_inv_upd split: option.splits)

lemma cfg_inv_release: "cfg_inv db \<Longrightarrow> cfg_inv (cfg_release_locks mem sid db)"
proof -
  assume "cfg_inv db"
  then have "cfg_inv (cfg_release_partial_locks sid db)"
    by (auto simp: cfg_release_partial_locks_def slot_ok_release intro!: cfg_inv_upd)
  with \<open>cfg_inv db\<close> show ?thesis
    by (simp add: cfg_release_locks_def cfg_inv_release_global)
qed

lemma find_partial_lock_in: "cfg_find_partial_lock cfg lockid = Some p \<Longrightarrow> p \<in> set (plockQ cfg) \<and> plock_get_id p = lockid"
  by (auto simp: cfg_find_partial_lock_def find_Some_iff)

lemma cfg_inv_init: "cfg_inv db \<Longrightarrow> cfg_inv (cfg_init db)"
  by (simp add: cfg_inv_def cfg_init_def)

lemma slot_ok_new: "new_template cfgobj mem now name i = Some c \<Longrightarrow> i \<le> MAX_CFGID \<Longrightarrow> slot_ok i c"
  by (auto simp: new_template_def slot_ok_def split: option.splits if_splits)

lemma cfg_inv_step: "cfg_step db sid db' \<Longrightarrow> cfg_inv db \<Longrightarrow> cfg_inv db'"
proof (induction rule: cfg_step.induct)
  case (init_db db cfgobj mem now i)
  have "cfg_inv (db'\<lparr>cfg_arr := (cfg_arr db')(i := Some c)\<rparr>)" if "cfg_inv db'" "slot_ok i c" for db' c
    using that by (simp add: cfg_inv_def)
  note new = this
  let ?n = "if i = NCX_CFGID_RUNNING then ''running'' else if i = NCX_CFGID_CANDIDATE then ''candidate'' else ''startup''"
  show ?case
  proof (cases "new_template cfgobj mem now ?n i")
    case None
    show ?thesis unfolding cfg_init_static_db_def Let_def None by (simp add: cfg_inv_init init_db)
  next
    case (Some c)
    show ?thesis
      unfolding cfg_init_static_db_def Let_def Some
      by (simp add: cfg_inv_init init_db not_less new slot_ok_new [OF Some])
  qed
next
  case (ready db i)
  then show ?case
    by (auto simp: cfg_set_state_def cfg_get_state_def slot_ok_def intro!: cfg_inv_upd split: if_splits option.splits)
next
  case (lock sid db now i src)
  then show ?case
    by (auto simp: cfg_lock_def Let_def cfg_ok_to_lock_def slot_ok_def intro!: cfg_inv_upd
        split: option.splits cfg_state_t.splits if_splits)
next
  case (unlock db sid mem i)
  show ?case
  proof (cases "cfg_arr db i")
    case (Some cfg)
    have "locked_by cfg \<noteq> 0" if "cfg_ok_to_unlock cfg sid = NO_ERR"
      using that cfg_inv_slot [OF unlock Some]
      by (auto simp: cfg_ok_to_unlock_def slot_ok_def split: cfg_state_t.splits if_splits)
    with unlock Some have "cfg_ok_to_unlock cfg sid = NO_ERR \<Longrightarrow> cfg_inv (upd i unlock_template db)"
      by (intro cfg_inv_upd) (auto simp: slot_ok_unlock)
    with unlock Some show ?thesis by (simp add: cfg_unlock_def Let_def cfg_inv_fill)
  qed (simp add: cfg_unlock_def unlock)
next
  case (plock plcb sid db i)
  then show ?case
    by (auto simp: cfg_add_partial_lock_def Let_def cfg_ok_to_partial_lock_def slot_ok_def intro!: cfg_inv_upd
        split: option.splits cfg_state_t.splits if_splits)
next
  case (punlock db i cfg lockid plcb sid)
  then show ?case
    by (auto simp: cfg_delete_partial_lock_def Let_def slot_ok_def drop_plock_fields distinct_addr_remove
        intro!: cfg_inv_upd)
qed (auto simp: cfg_set_target_def cfg_set_dirty_flag_def cfg_apply_load_root_def cfg_update_last_ch_time_def
    cfg_update_last_txid_def slot_ok_def cfg_inv_fill cfg_inv_release intro!: cfg_inv_upd)

lemma cfg_reach_inv: "cfg_reach db \<Longrightarrow> cfg_inv db"
  by (induction rule: cfg_reach.induct) (auto simp: cfg_inv_step, simp add: cfg_inv_def)

section \<open>The lock contract\<close>

text \<open>
  What the protocol operations rely on: \<open>owner\<close> is the session that holds the global lock of one
  configuration.  A trace is a sequence of lock and unlock calls.
\<close>

datatype lock_call = Lock_call u32 | Unlock_call u32

locale global_lock =
  fixes owner :: "'s \<Rightarrow> u32 option"
    and lock :: "u32 \<Rightarrow> 's \<Rightarrow> status_t \<times> 's"
    and unlock :: "u32 \<Rightarrow> 's \<Rightarrow> status_t \<times> 's"
    and inv :: "'s \<Rightarrow> bool"
  assumes lock_granted: "inv s \<Longrightarrow> a \<noteq> 0 \<Longrightarrow> fst (lock a s) = NO_ERR \<Longrightarrow>
        owner s = None \<and> owner (snd (lock a s)) = Some a"
    and lock_denied: "inv s \<Longrightarrow> fst (lock a s) \<noteq> NO_ERR \<Longrightarrow> snd (lock a s) = s"
    and unlock_owner: "inv s \<Longrightarrow> owner s = Some a \<Longrightarrow> owner (snd (unlock a s)) = None"
    and unlock_other: "inv s \<Longrightarrow> owner s \<noteq> Some a \<Longrightarrow> fst (unlock a s) \<noteq> NO_ERR \<and> snd (unlock a s) = s"
    and inv_lock: "inv s \<Longrightarrow> a \<noteq> 0 \<Longrightarrow> inv (snd (lock a s))"
    and inv_unlock: "inv s \<Longrightarrow> inv (snd (unlock a s))"
begin

fun call :: "lock_call \<Rightarrow> 's \<Rightarrow> 's" where
  "call (Lock_call a) s = snd (lock a s)"
| "call (Unlock_call a) s = snd (unlock a s)"

lemma lock_excludes: "inv s \<Longrightarrow> owner s = Some a \<Longrightarrow> b \<noteq> 0 \<Longrightarrow> fst (lock b s) \<noteq> NO_ERR"
  using lock_granted [of s b] by auto

lemma owner_kept:
  "inv s \<Longrightarrow> owner s = Some a \<Longrightarrow> \<forall>c \<in> set cs. c \<noteq> Unlock_call a \<and> c \<noteq> Lock_call 0 \<Longrightarrow>
     owner (fold call cs s) = Some a \<and> inv (fold call cs s)"
proof (induction cs arbitrary: s)
  case (Cons c cs)
  show ?case
  proof (cases c)
    case (Lock_call b)
    then have b: "b \<noteq> 0" using Cons.prems by auto
    with Cons.prems have "snd (lock b s) = s" using lock_excludes lock_denied by blast
    then show ?thesis using Cons Lock_call by simp
  next
    case (Unlock_call b)
    then have "b \<noteq> a" using Cons.prems by auto
    with Cons.prems have "snd (unlock b s) = s" using unlock_other by auto
    then show ?thesis using Cons Unlock_call by simp
  qed
qed simp

end

definition global_owner :: "nat \<Rightarrow> cfg_db \<Rightarrow> u32 option" where
  "global_owner i db =
     (case cfg_arr db i of
        Some cfg \<Rightarrow> (if cfg_is_global_locked cfg then Some (locked_by cfg) else None)
      | None \<Rightarrow> None)"

lemma global_owner_fill: "global_owner i (snd (cfg_fill_candidate_from_running mem db)) = global_owner i db"
  by (auto simp: global_owner_def cfg_fill_candidate_from_running_def Let_def upd_slot cfg_is_global_locked_def
      fill_candidate_fields split: option.splits prod.splits)

lemma unlock_denied:
  "cfg_arr db i = Some cfg \<Longrightarrow> \<not> (cfg_is_global_locked cfg \<and> locked_by cfg = a) \<Longrightarrow>
     fst (cfg_unlock mem i a db) \<noteq> NO_ERR \<and> snd (cfg_unlock mem i a db) = db"
  by (auto simp: cfg_unlock_def cfg_ok_to_unlock_def cfg_is_global_locked_def Let_def split: cfg_state_t.splits)

interpretation glock: global_lock "global_owner i" "\<lambda>a db. cfg_lock now i a src db" "\<lambda>a db. cfg_unlock mem i a db" cfg_inv
proof
  fix db :: cfg_db and a :: u32
  assume inv: "cfg_inv db"
  show "global_owner i db = None \<and> global_owner i (snd (cfg_lock now i a src db)) = Some a"
    if "a \<noteq> 0" "fst (cfg_lock now i a src db) = NO_ERR"
    using that by (auto simp: cfg_lock_def Let_def global_owner_def cfg_ok_to_lock_def cfg_is_global_locked_def upd_slot
        split: option.splits if_splits cfg_state_t.splits)
  show "snd (cfg_lock now i a src db) = db" if "fst (cfg_lock now i a src db) \<noteq> NO_ERR"
    using that by (auto simp: cfg_lock_def Let_def split: option.splits if_splits)
  show "global_owner i (snd (cfg_unlock mem i a db)) = None" if "global_owner i db = Some a"
    using that global_owner_fill [of i mem "upd i unlock_template db"]
    by (auto simp: cfg_unlock_def Let_def global_owner_def cfg_ok_to_unlock_def cfg_is_global_locked_def upd_slot
        unlock_template_def split: option.splits if_splits)
  show "fst (cfg_unlock mem i a db) \<noteq> NO_ERR \<and> snd (cfg_unlock mem i a db) = db" if "global_owner i db \<noteq> Some a"
    using that unlock_denied [of db i _ a mem]
    by (cases "cfg_arr db i") (auto simp: global_owner_def cfg_unlock_def split: if_splits)
  show "cfg_inv (snd (cfg_lock now i a src db))" if "a \<noteq> 0" by (rule cfg_inv_step [OF cfg_step.lock [OF that] inv])
  show "cfg_inv (snd (cfg_unlock mem i a db))" by (rule cfg_inv_step [OF cfg_step.unlock inv])
qed

section \<open>Steps of other sessions\<close>

lemma fill_none:
  "cfg_arr (snd (cfg_fill_candidate_from_running mem db)) i = None \<longleftrightarrow> cfg_arr db i = None"
  "cfg_arr (snd (cfg_fill_candidate_from_startup mem db)) i = None \<longleftrightarrow> cfg_arr db i = None"
  "cfg_arr (snd (cfg_fill_candidate_from_inline mem newroot db)) i = None \<longleftrightarrow> cfg_arr db i = None"
  "cfg_init_done (snd (cfg_fill_candidate_from_running mem db)) = cfg_init_done db"
  "cfg_init_done (snd (cfg_fill_candidate_from_startup mem db)) = cfg_init_done db"
  "cfg_init_done (snd (cfg_fill_candidate_from_inline mem newroot db)) = cfg_init_done db"
  by (auto simp: cfg_fill_candidate_from_running_def cfg_fill_candidate_from_startup_def
      cfg_fill_candidate_from_inline_def Let_def upd_slot split: option.splits prod.splits)

lemma release_none:
  "cfg_arr (release_global mem sid j db) i = None \<longleftrightarrow> cfg_arr db i = None"
  "cfg_init_done (release_global mem sid j db) = cfg_init_done db"
  by (auto simp: release_global_def Let_def fill_none upd_slot split: option.splits)

lemma release_locks_none:
  "cfg_arr (cfg_release_locks mem sid db) i = None \<longleftrightarrow> cfg_arr db i = None"
  "cfg_init_done (cfg_release_locks mem sid db) = cfg_init_done db"
  by (auto simp: cfg_release_locks_def release_none cfg_release_partial_locks_def upd_slot)

lemma cfg_step_slots:
  "cfg_step db sid db' \<Longrightarrow>
     cfg_init_done db' \<or> (cfg_init_done db' = cfg_init_done db \<and> (\<forall>i. cfg_arr db' i = None \<longleftrightarrow> cfg_arr db i = None))"
proof (induction rule: cfg_step.induct)
  case (init_db db cfgobj mem now i)
  have "cfg_init_done (cfg_init db)" by (simp add: cfg_init_def)
  then show ?case by (simp add: cfg_init_static_db_def Let_def split: option.split)
qed (auto simp: cfg_set_state_def cfg_set_target_def cfg_set_dirty_flag_def cfg_lock_def cfg_unlock_def
    cfg_add_partial_lock_def cfg_delete_partial_lock_def Let_def upd_slot fill_none release_locks_none
    split: option.splits)

lemma cfg_reach_init: "cfg_reach db \<Longrightarrow> cfg_init_done db \<or> (\<forall>i. cfg_arr db i = None)"
  by (induction rule: cfg_reach.induct) (use cfg_step_slots in blast)+

lemma global_owner_upd:
  "(\<And>cfg. j = i \<Longrightarrow> cfg_arr db i = Some cfg \<Longrightarrow> cfg_is_global_locked cfg \<Longrightarrow>
      cfg_is_global_locked (f cfg) \<and> locked_by (f cfg) = locked_by cfg) \<Longrightarrow>
   global_owner i db = Some a \<Longrightarrow> global_owner i (upd j f db) = Some a"
  by (auto simp: global_owner_def upd_slot split: option.splits if_splits)

lemma owner_release_global:
  "global_owner i db = Some a \<Longrightarrow> sid \<noteq> a \<Longrightarrow> global_owner i (release_global mem sid j db) = Some a"
proof (cases "cfg_arr db j")
  case (Some cfg)
  assume own: "global_owner i db = Some a" and "sid \<noteq> a"
  then have "i \<noteq> j" if "locked_by cfg = sid"
    using that Some by (auto simp: global_owner_def split: if_splits)
  with own have "global_owner i (upd j unlock_template db) = Some a" if "locked_by cfg = sid"
    using that by (simp add: global_owner_def upd_slot)
  with own Some show ?thesis by (simp add: release_global_def Let_def global_owner_fill)
qed (simp add: release_global_def)

lemma global_owner_Some: "global_owner i db = Some a \<Longrightarrow> cfg_arr db i \<noteq> None"
  by (cases "cfg_arr db i") (simp_all add: global_owner_def)

lemma owner_release:
  assumes "cfg_inv db" "global_owner i db = Some a" "sid \<noteq> a"
  shows "global_owner i (cfg_release_locks mem sid db) = Some a"
proof -
  have "global_owner i (upd NCX_CFGID_RUNNING (\<lambda>cfg. release_plocks sid (plockQ cfg) cfg) db) = Some a"
  proof (rule global_owner_upd [OF _ assms(2)])
    fix cfg assume "cfg_arr db i = Some cfg" "cfg_is_global_locked cfg"
    then have "plockQ cfg = []" using cfg_inv_slot [OF assms(1) \<open>cfg_arr db i = Some cfg\<close>]
      by (auto simp: slot_ok_def cfg_is_global_locked_def)
    then show "cfg_is_global_locked (release_plocks sid (plockQ cfg) cfg) \<and>
        locked_by (release_plocks sid (plockQ cfg) cfg) = locked_by cfg"
      using \<open>cfg_is_global_locked cfg\<close> by simp
  qed
  with assms show ?thesis
    by (simp add: cfg_release_locks_def cfg_release_partial_locks_def owner_release_global)
qed

lemma owner_fill:
  "global_owner i (snd (cfg_fill_candidate_from_startup mem db)) = global_owner i db"
  "global_owner i (snd (cfg_fill_candidate_from_inline mem newroot db)) = global_owner i db"
  by (auto simp: global_owner_def cfg_fill_candidate_from_startup_def cfg_fill_candidate_from_inline_def Let_def
      upd_slot cfg_is_global_locked_def fill_candidate_fields split: option.splits prod.splits)

lemma owner_step:
  assumes "cfg_step db sid db'" "cfg_reach db" "global_owner i db = Some a" "sid \<noteq> a"
  shows "global_owner i db' = Some a"
  using assms(1)
proof (cases rule: cfg_step.cases)
  case (init_db cfgobj mem now j)
  have "cfg_arr db i \<noteq> None" using assms(3) by (rule global_owner_Some)
  then have "cfg_init db = db" using cfg_reach_init [OF assms(2)] by (auto simp: cfg_init_def)
  with assms(3) \<open>cfg_arr db i \<noteq> None\<close> show ?thesis
    unfolding init_db cfg_init_static_db_def
    by (auto simp: Let_def global_owner_def split: option.splits)
next
  case (ready j)
  then show ?thesis using assms(3)
    by (auto simp: cfg_set_state_def cfg_get_state_def global_owner_def upd_slot cfg_is_global_locked_def
        split: option.splits if_splits)
next
  case (lock now j src)
  have "sid \<noteq> 0" using lock by simp
  show ?thesis
  proof (cases "j = i")
    case True
    have "snd (cfg_lock now i sid src db) = db"
      using glock.lock_excludes [OF cfg_reach_inv [OF assms(2)] assms(3) \<open>sid \<noteq> 0\<close>]
        glock.lock_denied [OF cfg_reach_inv [OF assms(2)]] by blast
    then show ?thesis using lock True assms(3) by simp
  next
    case False
    then show ?thesis using lock assms(3)
      by (auto simp: cfg_lock_def Let_def global_owner_def upd_slot split: option.splits)
  qed
next
  case (unlock mem j)
  show ?thesis
  proof (cases "j = i")
    case True
    have "snd (cfg_unlock mem i sid db) = db"
      using glock.unlock_other [OF cfg_reach_inv [OF assms(2)], of i sid mem] assms(3,4) by auto
    then show ?thesis using unlock True assms(3) by simp
  next
    case False
    then have "global_owner i (upd j unlock_template db) = Some a"
      using assms(3) by (simp add: global_owner_def upd_slot)
    then show ?thesis using assms(3) unfolding unlock
      by (auto simp: cfg_unlock_def Let_def global_owner_fill split: option.splits)
  qed
next
  case (plock plcb j)
  then show ?thesis using assms(3)
    by (auto simp: cfg_add_partial_lock_def Let_def cfg_ok_to_partial_lock_def cfg_is_global_locked_def
        intro!: global_owner_upd split: option.splits cfg_state_t.splits)
next
  case (punlock j cfg lockid plcb)
  then show ?thesis using assms(3)
    by (auto simp: cfg_delete_partial_lock_def Let_def global_owner_def upd_slot cfg_is_global_locked_def
        split: option.splits if_splits)
next
  case (terminated mem)
  then show ?thesis using owner_release [OF cfg_reach_inv [OF assms(2)] assms(3,4)] by simp
qed (use assms(3) in \<open>auto simp: cfg_set_target_def cfg_set_dirty_flag_def cfg_apply_load_root_def cfg_update_last_ch_time_def
    cfg_update_last_txid_def cfg_is_global_locked_def global_owner_fill owner_fill intro!: global_owner_upd\<close>)

section \<open>Releasing the locks of a session\<close>

lemma remove_first_append: "\<forall>x \<in> set xs. \<not> P x \<Longrightarrow> remove_first P (xs @ ys) = xs @ remove_first P ys"
  by (induction xs) auto

lemma release_plocks_queue:
  "plockQ c = pre @ ps \<Longrightarrow> distinct (map plock_addr (pre @ ps)) \<Longrightarrow>
     plockQ (release_plocks sid ps c) = pre @ filter (\<lambda>p. plock_get_sid p \<noteq> sid) ps"
proof (induction ps arbitrary: pre c)
  case (Cons p ps)
  show ?case
  proof (cases "plock_get_sid p = sid")
    case True
    have "remove_first (\<lambda>q. plock_addr q = plock_addr p) (pre @ p # ps) = pre @ ps"
      using Cons.prems(2) by (subst remove_first_append) (auto simp: image_iff)
    then have "plockQ (drop_plock p c) = pre @ ps" by (simp add: drop_plock_fields Cons.prems(1))
    with Cons.IH [of "drop_plock p c" pre] Cons.prems True show ?thesis by simp
  next
    case False
    with Cons.IH [of c "pre @ [p]"] Cons.prems show ?thesis by simp
  qed
qed simp

lemma release_plocks_fields:
  "cfg_state (release_plocks sid ps c) = cfg_state c" "locked_by (release_plocks sid ps c) = locked_by c"
  "cfg_id (release_plocks sid ps c) = cfg_id c"
  by (induction sid ps c rule: release_plocks.induct) (simp_all add: drop_plock_fields)

lemma fill_slot_field:
  assumes "\<And>r t c. g (fill_candidate r t c) = g c"
  shows "map_option g (cfg_arr (snd (cfg_fill_candidate_from_running mem db)) j) = map_option g (cfg_arr db j)"
  using assms by (auto simp: cfg_fill_candidate_from_running_def Let_def upd_slot option.map_comp comp_def
      split: option.splits prod.splits)

lemma release_global_locked_by:
  "map_option locked_by (cfg_arr (release_global mem sid i db) j) =
     (if j = i then map_option (\<lambda>c. if locked_by c = sid then 0 else locked_by c) (cfg_arr db j)
      else map_option locked_by (cfg_arr db j))"
proof (cases "cfg_arr db i")
  case (Some cfg)
  have "map_option locked_by (cfg_arr (upd i unlock_template db) j) =
      (if j = i then Some 0 else map_option locked_by (cfg_arr db j))"
    using Some by (simp add: upd_slot unlock_template_def)
  then show ?thesis
    using Some fill_slot_field [of locked_by mem "upd i unlock_template db" j]
    by (auto simp: release_global_def Let_def fill_candidate_fields)
qed (simp add: release_global_def)

lemma release_global_plockQ:
  "map_option plockQ (cfg_arr (release_global mem sid i db) j) = map_option plockQ (cfg_arr db j)"
proof (cases "cfg_arr db i")
  case (Some cfg)
  have "map_option plockQ (cfg_arr (upd i unlock_template db) j) = map_option plockQ (cfg_arr db j)"
    using Some by (auto simp: upd_slot unlock_template_def)
  then show ?thesis
    using Some fill_slot_field [of plockQ mem "upd i unlock_template db" j]
    by (auto simp: release_global_def Let_def fill_candidate_fields)
qed (simp add: release_global_def)

lemma release_locks_locked_by:
  assumes "cfg_init_done db" "sid \<noteq> 0" "cfg_inv db" "cfg_arr (cfg_release_locks mem sid db) j = Some cfg'"
  shows "locked_by cfg' \<noteq> sid"
proof -
  let ?db0 = "cfg_release_partial_locks sid db"
  have j: "j \<le> 2"
    using cfg_inv_slot [OF cfg_inv_release [OF assms(3)] assms(4)] by (simp add: slot_ok_def MAX_CFGID_def)
  have "map_option locked_by (cfg_arr (cfg_release_locks mem sid db) j) =
      map_option (\<lambda>c. if locked_by c = sid then 0 else locked_by c) (cfg_arr ?db0 j)"
  proof -
    have collapse: "map_option (\<lambda>c. if locked_by c = sid then 0 else locked_by c) x =
        map_option (\<lambda>l. if l = sid then 0 else l) (map_option locked_by x)" for x
      by (simp add: option.map_comp comp_def)
    consider "j = 0" | "j = 1" | "j = 2" using j by linarith
    then show ?thesis
      by cases (simp_all add: cfg_release_locks_def assms(1,2) release_global_locked_by collapse)
  qed
  with assms(4) have "Some (locked_by cfg') = map_option (\<lambda>c. if locked_by c = sid then 0 else locked_by c) (cfg_arr ?db0 j)"
    by simp
  with assms(2) show ?thesis by (cases "cfg_arr ?db0 j") auto
qed

lemma release_locks_plockQ:
  assumes "cfg_init_done db" "sid \<noteq> 0" "cfg_inv db"
  shows "map_option plockQ (cfg_arr (cfg_release_locks mem sid db) j) =
    map_option (\<lambda>c. filter (\<lambda>p. plock_get_sid p \<noteq> sid) (plockQ c)) (cfg_arr db j)"
proof -
  have "map_option plockQ (cfg_arr (cfg_release_locks mem sid db) j) =
      map_option plockQ (cfg_arr (cfg_release_partial_locks sid db) j)"
    by (simp add: cfg_release_locks_def assms(1,2) release_global_plockQ)
  also have "\<dots> = map_option (\<lambda>c. filter (\<lambda>p. plock_get_sid p \<noteq> sid) (plockQ c)) (cfg_arr db j)"
  proof (cases "cfg_arr db j")
    case (Some c)
    have ok: "slot_ok j c" by (rule cfg_inv_slot [OF assms(3) Some])
    show ?thesis
    proof (cases "j = NCX_CFGID_RUNNING")
      case True
      have "plockQ (release_plocks sid (plockQ c) c) = filter (\<lambda>p. plock_get_sid p \<noteq> sid) (plockQ c)"
        using release_plocks_queue [of c "[]" "plockQ c" sid] ok by (simp add: slot_ok_def)
      then show ?thesis using Some True by (simp add: cfg_release_partial_locks_def assms(1) upd_slot)
    next
      case False
      then have "plockQ c = []" using ok by (auto simp: slot_ok_def)
      then show ?thesis using Some False by (simp add: cfg_release_partial_locks_def assms(1) upd_slot)
    qed
  qed (auto simp: cfg_release_partial_locks_def assms(1) upd_slot)
  finally show ?thesis .
qed

end
