(* ===== verification/Cfg_Props.thy ===== *)
theory Cfg_Props
  imports Cfg
begin

text \<open>
  The properties of the configuration manager (theory \<open>Cfg\<close>), over every state that its interface can
  reach, and the booted server on which their witnesses are evaluated.
\<close>

section \<open>A booted server\<close>

definition no_cfg :: cfg_db where
  "no_cfg = \<lparr>cfg_arr = (\<lambda>_. None), cfg_init_done = False\<rparr>"

definition boot_templates :: cfg_db where
  "boot_templates =
     snd (cfg_init_static_db (Some obj_config) True [] NCX_CFGID_CANDIDATE
       (snd (cfg_init_static_db (Some obj_config) True [] NCX_CFGID_RUNNING no_cfg)))"

text \<open>Both configurations are ready, the running one has the given root, the candidate is filled from it.\<close>

definition boot :: "val_value \<Rightarrow> cfg_db" where
  "boot r =
     snd (cfg_fill_candidate_from_running True
       (cfg_set_state NCX_CFGID_CANDIDATE CFG_ST_READY
         (cfg_set_state NCX_CFGID_RUNNING CFG_ST_READY
           (upd NCX_CFGID_RUNNING (cfg_apply_load_root [] (Some r)) boot_templates))))"

lemma boot_templates_slots:
  "cfg_arr boot_templates 0 = new_template (Some obj_config) True [] ''running'' 0"
  "cfg_arr boot_templates 1 = new_template (Some obj_config) True [] ''candidate'' 1"
  "cfg_init_done boot_templates"
  by (simp_all add: boot_templates_def cfg_init_static_db_def no_cfg_def cfg_init_def MAX_CFGID_def Let_def
      new_template_def)

lemmas boot_templates_simps = boot_templates_slots boot_templates_slots(2) [unfolded One_nat_def]

definition boot_slot :: "nat \<Rightarrow> string \<Rightarrow> val_value option \<Rightarrow> cfg_template" where
  "boot_slot i name r = \<lparr>cfg_id = i, cfg_loc = CFG_LOC_NONE, cfg_state = CFG_ST_READY, last_txid = 0, cur_txid = 0,
     cfg_name = name, src_url = None,
     lock_time = [], last_ch_time = [], flags = 0, locked_by = 0, lock_src = CFG_SRC_NONE, plockQ = [], root = r\<rparr>"

lemma boot_slots:
  assumes "val_clone_config_data True [] r = (Some w, res)"
  shows "cfg_arr (boot r) 0 = Some (boot_slot 0 ''running'' (Some r))"
    "cfg_arr (boot r) 1 = Some (boot_slot 1 ''candidate'' (Some w))"
    "cfg_init_done (boot r)"
  using assms
  by (simp_all add: boot_def cfg_fill_candidate_from_running_def cfg_set_state_def upd_slot boot_templates_simps
      new_template_def MAX_CFGID_def cfg_apply_load_root_def cfg_update_last_ch_time_def boot_slot_def
      fill_candidate_def fill_none)

lemma boot_reach: "cfg_reach (boot r)"
proof -
  have "cfg_reach no_cfg" by (rule cfg_reach.start) (simp add: no_cfg_def)
  then have "cfg_reach boot_templates"
    unfolding boot_templates_def by (intro cfg_reach.step [OF _ cfg_step.init_db])
  then have "cfg_reach (upd NCX_CFGID_RUNNING (cfg_apply_load_root [] (Some r)) boot_templates)"
    by (rule cfg_reach.step [OF _ cfg_step.load [of _ 0]])
  then have 1: "cfg_reach (cfg_set_state NCX_CFGID_RUNNING CFG_ST_READY
      (upd NCX_CFGID_RUNNING (cfg_apply_load_root [] (Some r)) boot_templates))"
    by (rule cfg_reach.step [OF _ cfg_step.ready])
      (simp add: cfg_get_state_def upd_slot boot_templates_simps new_template_def cfg_apply_load_root_def
        cfg_update_last_ch_time_def)
  then have "cfg_reach (cfg_set_state NCX_CFGID_CANDIDATE CFG_ST_READY (cfg_set_state NCX_CFGID_RUNNING CFG_ST_READY
      (upd NCX_CFGID_RUNNING (cfg_apply_load_root [] (Some r)) boot_templates)))"
    by (rule cfg_reach.step [OF _ cfg_step.ready])
      (simp add: cfg_get_state_def cfg_set_state_def upd_slot boot_templates_simps new_template_def MAX_CFGID_def)
  then show ?thesis unfolding boot_def by (rule cfg_reach.step [OF _ cfg_step.discard [of _ 0]])
qed

abbreviation "free_config \<equiv> sample_config [None, None, None, None] [None, None, None, None]"

lemma clone_free_config: "val_clone_config_data True [] (sample_config ps qs) = (Some (sample_config ps qs), NO_ERR)"
proof -
  have "clone_test True [] (sample_config ps qs) = (Some (sample_config ps qs), NO_ERR)"
    using sample_config_data
    by (simp add: sample_config_def sample_system_def sample_host_def sample_node_def typ_has_children_def
        cloned_btype_def)
  then show ?thesis by (simp add: val_clone_config_data_def)
qed

lemma boot_lock:
  "cfg_lock [] 0 a CFG_SRC_NETCONF (boot (sample_config ps qs)) =
     (NO_ERR, upd 0 (\<lambda>c. c\<lparr>cfg_state := CFG_ST_FLOCK, locked_by := a, lock_src := CFG_SRC_NETCONF,
        lock_time := []\<rparr>) (boot (sample_config ps qs)))"
  unfolding cfg_lock_def boot_slots(1) [OF clone_free_config]
  by (simp add: cfg_ok_to_lock_def boot_slot_def)

lemmas boot_free = boot_slots [OF clone_free_config] boot_slots(2) [OF clone_free_config, unfolded One_nat_def]

section \<open>Properties\<close>

text \<open>
  C3: in every reachable state a configuration is either under a global lock, and then it has
  an owner and no partial lock, or it has no owner; partial locks exist only on the running
  configuration, in the state for partial locks.  Under a global lock only its owner may write, lock and
  partial lock requests are refused, and unlocking is refused to every other session.
\<close>
theorem cfg_lock_exclusion:
  assumes "cfg_reach db" and "cfg_arr db i = Some cfg"
  shows "(cfg_is_global_locked cfg \<longleftrightarrow> locked_by cfg \<noteq> 0) \<and>
    (cfg_is_global_locked cfg \<longrightarrow> plockQ cfg = [] \<and> cfg_ok_to_lock cfg \<noteq> NO_ERR \<and>
       cfg_ok_to_partial_lock cfg \<noteq> NO_ERR \<and>
       (\<forall>s. cfg_ok_to_write cfg s = NO_ERR \<longleftrightarrow> s = locked_by cfg) \<and>
       (\<forall>s. cfg_ok_to_unlock cfg s = NO_ERR \<longleftrightarrow> s = locked_by cfg)) \<and>
    (plockQ cfg \<noteq> [] \<longrightarrow> i = NCX_CFGID_RUNNING \<and> cfg_is_partial_locked cfg)"
proof -
  have ok: "slot_ok i cfg" using cfg_inv_slot [OF cfg_reach_inv [OF assms(1)] assms(2)] .
  have ids: "cfg_id cfg \<in> {0, 1, 2}" using ok by (auto simp: slot_ok_def MAX_CFGID_def)
  show ?thesis using ok ids by (cases "cfg_state cfg") (auto simp: slot_ok_def lock_defs)
qed

theorem cfg_lock_exclusion_witness:
  "cfg_ok_to_lock (boot_slot 0 ''running'' (Some free_config)) = NO_ERR \<and>
   \<not> cfg_is_global_locked (boot_slot 0 ''running'' (Some free_config))"
  using cfg_lock_exclusion [OF boot_reach boot_free(1)]
  by (simp add: boot_slot_def cfg_ok_to_lock_def)

text \<open>
  C4: a global lock is held until its owner gives it up.  No call that serves another session,
  the end of another session included, and no call of the server itself takes it away.
\<close>
theorem global_lock_held:
  assumes "cfg_reach db" and "global_owner i db = Some a" and "cfg_step db sid db'" and "sid \<noteq> a"
  shows "global_owner i db' = Some a"
  by (rule owner_step [OF assms(3,1,2,4)])

theorem global_lock_held_witness:
  "global_owner 0 (cfg_release_locks True 9 (snd (cfg_lock [] 0 4 CFG_SRC_NETCONF (boot free_config)))) = Some 4"
proof (rule global_lock_held)
  show "cfg_reach (snd (cfg_lock [] 0 4 CFG_SRC_NETCONF (boot free_config)))"
    by (rule cfg_reach.step [OF boot_reach cfg_step.lock]) simp
  show "global_owner 0 (snd (cfg_lock [] 0 4 CFG_SRC_NETCONF (boot free_config))) = Some 4"
    by (simp add: boot_lock global_owner_def upd_slot boot_free(1) cfg_is_global_locked_def)
  show "cfg_step (snd (cfg_lock [] 0 4 CFG_SRC_NETCONF (boot free_config))) 9
      (cfg_release_locks True 9 (snd (cfg_lock [] 0 4 CFG_SRC_NETCONF (boot free_config))))"
    by (rule cfg_step.terminated)
qed simp

text \<open>
  whatever lock and unlock calls of other sessions follow a granted lock, none of them
  succeeds in taking the lock, and the owner still holds it.
\<close>
theorem lock_calls_serialised:
  assumes "cfg_reach db" and "a \<noteq> 0" and "cfg_lock now i a src db = (NO_ERR, db1)"
    and "\<forall>(locks, b) \<in> set calls. b \<noteq> a \<and> b \<noteq> 0"
  shows "global_owner i (fold (\<lambda>(locks, b) db. if locks then snd (cfg_lock now i b src db)
      else snd (cfg_unlock mem i b db)) calls db1) = Some a"
proof -
  let ?call = "\<lambda>(locks, b). if locks then Lock_call b else Unlock_call b"
  have inv: "cfg_inv db" by (rule cfg_reach_inv [OF assms(1)])
  have own: "global_owner i db1 = Some a" using glock.lock_granted [OF inv assms(2), of now i src] assms(3) by simp
  have inv1: "cfg_inv db1" using glock.inv_lock [OF inv assms(2), of now i src] assms(3) by simp
  have "fold (\<lambda>(locks, b) db. if locks then snd (cfg_lock now i b src db) else snd (cfg_unlock mem i b db)) cs d =
      fold (glock.call now i src mem) (map ?call cs) d" for cs d
    by (induction cs arbitrary: d) auto
  moreover have "\<forall>c \<in> set (map ?call calls). c \<noteq> Unlock_call a \<and> c \<noteq> Lock_call 0"
    using assms(4) by (auto split: if_splits)
  ultimately show ?thesis using glock.owner_kept [OF inv1 own] by simp
qed

theorem lock_calls_serialised_witness:
  "global_owner 0 (snd (cfg_unlock True 0 9 (snd (cfg_lock [] 0 7 CFG_SRC_NETCONF
     (snd (cfg_lock [] 0 4 CFG_SRC_NETCONF (boot free_config))))))) = Some 4"
proof -
  have "cfg_lock [] 0 4 CFG_SRC_NETCONF (boot free_config) =
      (NO_ERR, snd (cfg_lock [] 0 4 CFG_SRC_NETCONF (boot free_config)))"
    by (simp add: boot_free cfg_lock_def cfg_ok_to_lock_def boot_slot_def)
  from lock_calls_serialised [OF boot_reach _ this, of "[(True, 7), (False, 9)]" True] show ?thesis by simp
qed

text \<open>
  locking and unlocking a configuration other than the candidate leaves everything
  as it was except the recorded time of the lock: the lock can be taken again at once.
\<close>
theorem cfg_lock_unlock_roundtrip:
  assumes "cfg_reach db" and "cfg_arr db i = Some cfg" and "i \<noteq> NCX_CFGID_CANDIDATE"
    and "lock_src cfg = CFG_SRC_NONE" and "cfg_lock now i a src db = (NO_ERR, db1)"
  shows "cfg_unlock mem i a db1 = (NO_ERR, upd i (lock_time_update (\<lambda>_. now)) db)"
proof -
  have ok: "slot_ok i cfg" using cfg_inv_slot [OF cfg_reach_inv [OF assms(1)] assms(2)] .
  from assms(2,5) have "cfg_ok_to_lock cfg = NO_ERR"
    and db1: "db1 = upd i (\<lambda>c. c\<lparr>cfg_state := CFG_ST_FLOCK, locked_by := a, lock_src := src, lock_time := now\<rparr>) db"
    by (auto simp: cfg_lock_def Let_def split: if_splits)
  then have ready: "cfg_state cfg = CFG_ST_READY" by (simp add: cfg_ok_to_lock_def split: cfg_state_t.splits)
  with ok have free: "locked_by cfg = 0" "cfg_id cfg \<noteq> NCX_CFGID_CANDIDATE"
    using assms(3) by (auto simp: slot_ok_def)
  have twice: "upd i f (upd i g db) = upd i (f \<circ> g) db" for f g
    by (simp add: upd_def option.map_comp)
  have same: "upd i f db = upd i g db" if "f cfg = g cfg" for f g
    using assms(2) that by (simp add: upd_def)
  have "upd i unlock_template db1 = upd i (lock_time_update (\<lambda>_. now)) db"
    unfolding db1 twice
    by (rule same) (use ready free(1) assms(4) in \<open>cases cfg; simp add: unlock_template_def\<close>)
  then show ?thesis
    using assms(2) free(2) by (simp add: cfg_unlock_def Let_def db1 upd_slot cfg_ok_to_unlock_def)
qed

theorem cfg_lock_unlock_roundtrip_witness:
  "cfg_unlock True 0 4 (snd (cfg_lock [] 0 4 CFG_SRC_NETCONF (boot free_config))) =
     (NO_ERR, upd 0 (lock_time_update (\<lambda>_. [])) (boot free_config))"
  by (rule cfg_lock_unlock_roundtrip [OF boot_reach boot_free(1), where src = CFG_SRC_NETCONF])
    (simp_all add: boot_slot_def boot_lock)

text \<open>
  unlocking the candidate discards its changes, as RFC 6241 section 8.3.5.2 requires:
  the candidate is again the configuration part of the running configuration and no longer dirty.
\<close>
theorem candidate_unlock_discards:
  assumes "cfg_reach db" and "cfg_unlock mem NCX_CFGID_CANDIDATE a db = (NO_ERR, db')"
    and "cfg_arr db NCX_CFGID_RUNNING = Some running" and "root running = Some r"
  shows "\<exists>cand. cfg_arr db' NCX_CFGID_CANDIDATE = Some cand \<and> root cand = Some (clone_part True [] r) \<and>
    \<not> cfg_get_dirty_flag cand \<and> cfg_state cand = CFG_ST_READY \<and> cfg_arr db' NCX_CFGID_RUNNING = Some running"
proof -
  obtain cand where c: "cfg_arr db NCX_CFGID_CANDIDATE = Some cand"
    using assms(2) by (cases "cfg_arr db NCX_CFGID_CANDIDATE") (auto simp: cfg_unlock_def)
  have cid: "cfg_id cand = NCX_CFGID_CANDIDATE"
    using cfg_inv_slot [OF cfg_reach_inv [OF assms(1)] c] by (simp add: slot_ok_def)
  have fill: "cfg_fill_candidate_from_running mem (upd NCX_CFGID_CANDIDATE unlock_template db) = (NO_ERR, db')"
    using assms(2) c cid by (auto simp: cfg_unlock_def Let_def split: if_splits)
  obtain copy res where cl: "val_clone_config_data mem [] r = (copy, res)" by fastforce
  with fill have "res = NO_ERR" using assms(3,4) c
    by (simp add: cfg_fill_candidate_from_running_def upd_slot)
  have "clone_test True [] r \<noteq> (None, NO_ERR)"
    by (rule clone_test_error)
  with cl \<open>res = NO_ERR\<close> obtain w where w: "copy = Some w"
    by (cases copy) (auto simp: val_clone_config_data_def split: prod.splits option.splits if_splits)
  with clone_config_data_spec [of mem "[]" r w res] cl have "w = clone_part True [] r" by simp
  with fill cl w show ?thesis using assms(3,4) c
    by (auto simp: cfg_fill_candidate_from_running_def upd_slot fill_candidate_fields
        fill_candidate_fields(6) [unfolded One_nat_def] cfg_get_dirty_flag_def unlock_template_def)
qed

theorem candidate_unlock_discards_witness:
  "\<exists>cand. cfg_arr (snd (cfg_unlock True 1 4 (snd (cfg_lock [] 1 4 CFG_SRC_NETCONF (boot free_config))))) 1 = Some cand \<and>
     root cand = Some free_config"
proof -
  define L where "L = snd (cfg_lock [] 1 4 CFG_SRC_NETCONF (boot free_config))"
  have l: "L = upd 1 (\<lambda>c. c\<lparr>cfg_state := CFG_ST_FLOCK, locked_by := 4, lock_src := CFG_SRC_NETCONF,
      lock_time := []\<rparr>) (boot free_config)"
    unfolding L_def cfg_lock_def boot_slots(2) [OF clone_free_config]
    by (simp add: cfg_ok_to_lock_def boot_slot_def cfg_get_dirty_flag_def)
  have reach: "cfg_reach L" unfolding L_def by (rule cfg_reach.step [OF boot_reach cfg_step.lock]) simp
  have run: "cfg_arr L 0 = Some (boot_slot 0 ''running'' (Some free_config))"
    by (simp add: l upd_slot boot_free(1))
  have cand: "cfg_arr L (Suc 0) = Some ((boot_slot 1 ''candidate'' (Some free_config))\<lparr>cfg_state := CFG_ST_FLOCK,
      locked_by := 4, lock_src := CFG_SRC_NETCONF, lock_time := []\<rparr>)"
    by (simp add: l upd_slot boot_free)
  have "cfg_unlock True 1 4 L = (NO_ERR, snd (cfg_unlock True 1 4 L))"
    by (simp add: cfg_unlock_def cand run cfg_ok_to_unlock_def boot_slot_def cfg_fill_candidate_from_running_def
        upd_slot clone_free_config)
  from candidate_unlock_discards [OF reach this run] have
    "\<exists>cand. cfg_arr (snd (cfg_unlock True 1 4 L)) 1 = Some cand \<and> root cand = Some (clone_part True [] free_config)"
    by (auto simp: boot_slot_def)
  then show ?thesis using clone_config_data_spec [OF clone_free_config] by (simp add: L_def)
qed

text \<open>
  C22: when a session ends, every lock it held is gone: no configuration is locked by it and the
  queue of partial locks keeps exactly those of the other sessions; global locks of other sessions stay.
\<close>
theorem release_locks_complete:
  fixes mem :: bool
  assumes "cfg_reach db" and "cfg_init_done db" and "sid \<noteq> 0"
  defines "db' \<equiv> cfg_release_locks mem sid db"
  shows "(\<forall>i cfg. cfg_arr db' i = Some cfg \<longrightarrow> locked_by cfg \<noteq> sid) \<and>
    map_option plockQ (cfg_arr db' i) =
      map_option (\<lambda>c. filter (\<lambda>p. plock_get_sid p \<noteq> sid) (plockQ c)) (cfg_arr db i) \<and>
    (\<forall>a. a \<noteq> sid \<longrightarrow> global_owner i db = Some a \<longrightarrow> global_owner i db' = Some a) \<and>
    cfg_get_lock_list db' sid = []"
proof -
  note inv = cfg_reach_inv [OF assms(1)]
  have none: "locked_by cfg \<noteq> sid" if "cfg_arr db' i = Some cfg" for i cfg
    using release_locks_locked_by [OF assms(2,3) inv that [unfolded db'_def]] .
  have "cfg_get_lock_list db' sid = []"
    unfolding cfg_get_lock_list_def using none by (auto split: option.splits)
  then show ?thesis
    using none release_locks_plockQ [OF assms(2,3) inv] owner_release [OF inv] by (auto simp: db'_def)
qed

theorem release_locks_complete_witness:
  "cfg_get_lock_list (cfg_release_locks True 4 (snd (cfg_lock [] 0 4 CFG_SRC_NETCONF (boot free_config)))) 4 = []"
proof -
  have r: "cfg_reach (snd (cfg_lock [] 0 4 CFG_SRC_NETCONF (boot free_config)))"
    by (rule cfg_reach.step [OF boot_reach cfg_step.lock]) simp
  have i: "cfg_init_done (snd (cfg_lock [] 0 4 CFG_SRC_NETCONF (boot free_config)))"
    by (simp add: boot_lock boot_free(3))
  show ?thesis using release_locks_complete [OF r i, of 4 True] by simp
qed

text \<open>
  \<^verbatim>\<open>cfg_release_partial_locks\<close> does not reset the state, as \<^verbatim>\<open>cfg_delete_partial_lock\<close>
  does.  After the session with the only partial lock has ended, the running configuration is still in
  the state \<^verbatim>\<open>CFG_ST_PLOCK\<close> with an empty queue, and every request for the global lock is denied.
\<close>
theorem release_leaves_plock_state:
  assumes "cfg_reach db" and "cfg_init_done db" and "cfg_arr db NCX_CFGID_RUNNING = Some cfg"
    and "cfg_add_partial_lock NCX_CFGID_RUNNING plcb db = (NO_ERR, db1)"
    and "plockQ cfg = []" and "plock_get_sid plcb = sid" and "sid \<noteq> 0"
  shows "\<exists>cfg'. cfg_arr (cfg_release_locks mem sid db1) NCX_CFGID_RUNNING = Some cfg' \<and> plockQ cfg' = [] \<and>
    cfg_is_partial_locked cfg' \<and> (\<forall>a src now. fst (cfg_lock now NCX_CFGID_RUNNING a src (cfg_release_locks mem sid db1)) =
      ERR_NCX_LOCK_DENIED)"
proof -
  let ?db2 = "cfg_release_locks mem sid db1"
  have r1: "cfg_reach db1"
    using cfg_reach.step [OF assms(1) cfg_step.plock [OF assms(6), of db 0]] assms(3-5) by simp
  from assms(3,4) have db1: "db1 = upd 0 (\<lambda>c. c\<lparr>cfg_state := CFG_ST_PLOCK, plockQ := plockQ c @ [plcb]\<rparr>) db"
    by (auto simp: cfg_add_partial_lock_def Let_def split: if_splits)
  have run1: "cfg_arr db1 0 = Some (cfg\<lparr>cfg_state := CFG_ST_PLOCK, plockQ := [plcb]\<rparr>)"
    using assms(3,5) by (simp add: db1 upd_slot)
  have i1: "cfg_init_done db1" using assms(2) by (simp add: db1)
  have free: "locked_by cfg = 0"
    using cfg_inv_slot [OF cfg_reach_inv [OF r1] run1] by (simp add: slot_ok_def)
  have st: "map_option cfg_state (cfg_arr (release_global mem sid i d) 0) = map_option cfg_state (cfg_arr d 0)"
    if "\<forall>c. cfg_arr d 0 = Some c \<longrightarrow> locked_by c = 0" for i d
    using that assms(7) fill_slot_field [of cfg_state mem "upd i unlock_template d" 0]
    by (cases "cfg_arr d i") (auto simp: release_global_def Let_def upd_slot fill_candidate_fields)
  have lb: "map_option locked_by (cfg_arr (release_global mem sid i d) 0) = map_option locked_by (cfg_arr d 0)"
    if "\<forall>c. cfg_arr d 0 = Some c \<longrightarrow> locked_by c = 0" for i d
    using that assms(7) by (cases "cfg_arr d 0") (auto simp: release_global_locked_by)
  have lb': "\<forall>c. cfg_arr (release_global mem sid i d) 0 = Some c \<longrightarrow> locked_by c = 0"
    if "\<forall>c. cfg_arr d 0 = Some c \<longrightarrow> locked_by c = 0" for i d
    using lb [OF that, of i] that by (cases "cfg_arr d 0") auto
  let ?d0 = "cfg_release_partial_locks sid db1"
  have d0: "\<forall>c. cfg_arr ?d0 0 = Some c \<longrightarrow> locked_by c = 0"
    by (simp add: cfg_release_partial_locks_def i1 upd_slot run1 release_plocks_fields drop_plock_fields free)
  have "map_option cfg_state (cfg_arr ?db2 0) = map_option cfg_state (cfg_arr ?d0 0)"
    using st [OF d0] st [OF lb' [OF d0]] st [OF lb' [OF lb' [OF d0]]]
    by (simp add: cfg_release_locks_def i1 assms(7))
  then have "map_option cfg_state (cfg_arr ?db2 0) = Some CFG_ST_PLOCK"
    by (simp add: cfg_release_partial_locks_def i1 upd_slot run1 release_plocks_fields drop_plock_fields assms(6))
  moreover have "map_option plockQ (cfg_arr ?db2 0) = Some []"
    using release_locks_plockQ [OF i1 assms(7) cfg_reach_inv [OF r1], of mem 0] assms(6) by (simp add: run1)
  ultimately show ?thesis
    by (auto simp: cfg_is_partial_locked_def cfg_lock_def Let_def cfg_ok_to_lock_def)
qed

theorem release_leaves_plock_state_witness:
  "fst (cfg_lock [] 0 9 CFG_SRC_NETCONF (cfg_release_locks True 5
     (snd (cfg_add_partial_lock 0 (sample_plcb 1 5) (boot free_config))))) = ERR_NCX_LOCK_DENIED"
proof -
  have "cfg_add_partial_lock 0 (sample_plcb 1 5) (boot free_config) =
      (NO_ERR, snd (cfg_add_partial_lock 0 (sample_plcb 1 5) (boot free_config)))"
    by (simp add: cfg_add_partial_lock_def boot_free(1) cfg_ok_to_partial_lock_def boot_slot_def)
  from release_leaves_plock_state [OF boot_reach boot_free(3) boot_free(1) this, where mem = True and sid = 5] show ?thesis
    by (auto simp: boot_slot_def sample_sid)
qed

text \<open>
  filling the candidate while a partial lock is held copies the lock pointers into
  it; releasing the lock clears them only in the running configuration.  The candidate keeps pointers
  to a control block that is no longer in the queue and has been freed, and \<^verbatim>\<open>val_write_ok\<close> refuses
  other sessions the nodes because of it as soon as any partial lock is active.
\<close>
theorem candidate_keeps_freed_lock:
  fixes mem :: bool
  assumes "cfg_arr db NCX_CFGID_RUNNING = Some running" and "cfg_state running = CFG_ST_PLOCK"
    and "plockQ running = [plcb]" and "root running = Some r"
    and "cfg_arr db NCX_CFGID_CANDIDATE = Some cand" and "val_clone_config_data mem [] r = (Some w, res)"
    and "val_at w p = Some n" and "list_ex (points_to plcb) (vplock n)"
  defines "db' \<equiv> cfg_delete_partial_lock NCX_CFGID_RUNNING (plock_get_id plcb)
     (snd (cfg_fill_candidate_from_running mem db))"
  shows "map_option plockQ (cfg_arr db' NCX_CFGID_RUNNING) = Some [] \<and>
    Option.bind (cfg_get_root db' NCX_CFGID_CANDIDATE) (\<lambda>w. val_at w p) = Some n \<and>
    list_ex (points_to plcb) (vplock n)"
proof -
  let ?f = "snd (cfg_fill_candidate_from_running mem db)"
  have f: "?f = upd 1 (fill_candidate (Some w) (Some (last_txid running))) db"
    using assms(1,4-6) by (simp add: cfg_fill_candidate_from_running_def)
  have run: "cfg_arr ?f 0 = Some running" using assms(1) by (simp add: f upd_slot)
  have find: "cfg_find_partial_lock running (plock_get_id plcb) = Some plcb"
    using assms(3) by (simp add: cfg_find_partial_lock_def)
  have "cfg_arr db' 1 = Some (fill_candidate (Some w) (Some (last_txid running)) cand)"
    using assms(2,5) unfolding db'_def cfg_delete_partial_lock_def run by (simp add: find Let_def upd_slot f)
  moreover have "map_option plockQ (cfg_arr db' 0) = Some []"
    using assms(2,3) unfolding db'_def cfg_delete_partial_lock_def run
    by (simp add: find Let_def upd_slot run drop_plock_fields)
  ultimately show ?thesis
    using assms(7,8) by (simp add: cfg_get_root_def MAX_CFGID_def fill_candidate_fields)
qed

theorem candidate_keeps_freed_lock_witness:
  "\<exists>db db'. db' = cfg_delete_partial_lock 0 1 (snd (cfg_fill_candidate_from_running True db)) \<and>
     map_option plockQ (cfg_arr db' 0) = Some [] \<and>
     Option.bind (cfg_get_root db' 1) (\<lambda>w. val_at w [0]) =
       Some (sample_system [Some (sample_plcb 1 5), None, None, None] [None, None, None, None])"
proof -
  let ?r = "sample_config [Some (sample_plcb 1 5), None, None, None] [None, None, None, None]"
  let ?db = "upd 0 (\<lambda>c. c\<lparr>cfg_state := CFG_ST_PLOCK, plockQ := [sample_plcb 1 5]\<rparr>) (boot ?r)"
  let ?n = "sample_system [Some (sample_plcb 1 5), None, None, None] [None, None, None, None]"
  have run: "cfg_arr ?db 0 = Some ((boot_slot 0 ''running'' (Some ?r))\<lparr>cfg_state := CFG_ST_PLOCK, plockQ := [sample_plcb 1 5]\<rparr>)"
    by (simp add: upd_slot boot_slots [OF clone_free_config])
  have cand: "cfg_arr ?db 1 = Some (boot_slot 1 ''candidate'' (Some ?r))"
    by (simp add: upd_slot boot_slots(2) [OF clone_free_config, unfolded One_nat_def])
  have at: "val_at ?r [0] = Some ?n" by (simp add: sample_simps)
  have pt: "list_ex (points_to (sample_plcb 1 5)) (vplock ?n)" by (simp add: sample_simps points_to_def)
  have fields: "cfg_state ((boot_slot 0 n r)\<lparr>cfg_state := CFG_ST_PLOCK, plockQ := q\<rparr>) = CFG_ST_PLOCK"
    "plockQ ((boot_slot 0 n r)\<lparr>cfg_state := CFG_ST_PLOCK, plockQ := q\<rparr>) = q"
    "root ((boot_slot 0 n r)\<lparr>cfg_state := CFG_ST_PLOCK, plockQ := q\<rparr>) = r" for n r q
    by (simp_all add: boot_slot_def)
  show ?thesis
    using candidate_keeps_freed_lock [OF run fields cand clone_free_config at pt]
    by (intro exI [of _ ?db] exI [of _ "cfg_delete_partial_lock 0 1 (snd (cfg_fill_candidate_from_running True ?db))"])
      (simp add: sample_sid)
qed

end
