(* ===== verification/Ncx_Num.thy ===== *)
theory Ncx_Num
  imports Obj_Tree "HOL-Library.Signed_Division"
begin

text \<open>
  Numbers (\<^verbatim>\<open>netconf/src/ncx/ncx_num.c\<close>): conversion from strings, output, comparison, limits and casts for the
  integer types and decimal64.

  The members of the union \<^verbatim>\<open>ncx_num_t\<close> are separate fields, because the functions only read the member of the
  type they are called for.  Signed integers are words read with \<^const>\<open>sint\<close>.  A double is its bit pattern; the
  floating point operations of the C library are a parameter.  \<^verbatim>\<open>long\<close> has 64 bits.
\<close>

section \<open>The conversions of the C library\<close>

text \<open>
  \<^verbatim>\<open>strtol\<close> and its relatives: white space, a sign, for base 16 an optional \<^verbatim>\<open>0x\<close>, digits.  The result is the sign,
  the magnitude and what is left; without digits it is zero and the whole string.
\<close>

definition isspace :: "char \<Rightarrow> bool" where
  "isspace c \<longleftrightarrow> of_char c = (32 :: nat) \<or> 9 \<le> (of_char c :: nat) \<and> (of_char c :: nat) \<le> 13"

definition isdigit :: "char \<Rightarrow> bool" where
  "isdigit c \<longleftrightarrow> 48 \<le> (of_char c :: nat) \<and> (of_char c :: nat) \<le> 57"

definition digit_of :: "char \<Rightarrow> nat" where
  "digit_of c =
     (let n = of_char c
      in if 48 \<le> n \<and> n \<le> 57 then n - 48
         else if 97 \<le> n \<and> n \<le> 122 then n - 87
         else if 65 \<le> n \<and> n \<le> 90 then n - 55
         else 36)"

definition digits_value :: "nat \<Rightarrow> string \<Rightarrow> nat" where
  "digits_value base ds = foldl (\<lambda>n c. base * n + digit_of c) 0 ds"

definition strto_sign :: "string \<Rightarrow> bool \<times> string" where
  "strto_sign s =
     (case dropWhile isspace s of
        [] \<Rightarrow> (False, [])
      | c # cs \<Rightarrow> (if c = CHR ''-'' then (True, cs) else if c = CHR ''+'' then (False, cs) else (False, c # cs)))"

definition strto_prefix :: "nat \<Rightarrow> string \<Rightarrow> string" where
  "strto_prefix base s =
     (case s of
        z # x # d # ds \<Rightarrow>
          (if base = 16 \<and> z = CHR ''0'' \<and> (x = CHR ''x'' \<or> x = CHR ''X'') \<and> digit_of d < 16 then d # ds else s)
      | _ \<Rightarrow> s)"

definition strto :: "nat \<Rightarrow> string \<Rightarrow> bool \<times> nat \<times> string" where
  "strto base s =
     (let (neg, t) = strto_sign s;
          u = strto_prefix base t;
          ds = takeWhile (\<lambda>c. digit_of c < base) u
      in if ds = [] then (False, 0, s)
         else (neg, digits_value base ds, dropWhile (\<lambda>c. digit_of c < base) u))"

text \<open>\<^verbatim>\<open>strtol\<close> and \<^verbatim>\<open>strtoll\<close> stay within the limits of the type; so do \<^verbatim>\<open>strtoul\<close> and \<^verbatim>\<open>strtoull\<close>, which negate modulo 2^64.\<close>

definition strtoll :: "nat \<Rightarrow> string \<Rightarrow> u64 \<times> string" where
  "strtoll base s =
     (case strto base s of
        (neg, n, rest) \<Rightarrow>
          (word_of_int (if neg then max (- (2 ^ 63)) (- int n) else min (2 ^ 63 - 1) (int n)), rest))"

definition strtoull :: "nat \<Rightarrow> string \<Rightarrow> u64 \<times> string" where
  "strtoull base s =
     (case strto base s of
        (neg, n, rest) \<Rightarrow>
          (if n \<ge> 2 ^ 64 then - 1 else if neg then - of_nat n else of_nat n, rest))"

section \<open>Numbers\<close>

datatype ncx_numfmt_t = NCX_NF_NONE | NCX_NF_OCTAL | NCX_NF_DEC | NCX_NF_HEX | NCX_NF_REAL

record ncx_dec64_t =
  dec_val :: u64
  dec_digits :: u8
  dec_zeroes :: u8

record ncx_num_t =
  num_i :: u32
  num_l :: u64
  num_u :: u32
  num_ul :: u64
  num_d :: u64
  num_dec :: ncx_dec64_t

text \<open>\<open>f_strtod\<close> gives the number and \<^verbatim>\<open>errno\<close>.\<close>

record float_ops =
  f_lt :: "u64 \<Rightarrow> u64 \<Rightarrow> bool"
  f_eq :: "u64 \<Rightarrow> u64 \<Rightarrow> bool"
  f_strtod :: "string \<Rightarrow> u64 \<times> int"
  f_of_int :: "int \<Rightarrow> u64"
  f_lrint :: "u64 \<Rightarrow> u64"
  f_floor :: "u64 \<Rightarrow> u64"
  f_ceil :: "u64 \<Rightarrow> u64"
  f_round :: "u64 \<Rightarrow> u64"
  f_inf :: "bool \<Rightarrow> u64"
  f_printf :: "u64 \<Rightarrow> string"

abbreviation NCX_MIN_INT8 :: int where "NCX_MIN_INT8 \<equiv> - 128"
abbreviation NCX_MAX_INT8 :: int where "NCX_MAX_INT8 \<equiv> 127"
abbreviation NCX_MIN_INT16 :: int where "NCX_MIN_INT16 \<equiv> - 32768"
abbreviation NCX_MAX_INT16 :: int where "NCX_MAX_INT16 \<equiv> 32767"
abbreviation NCX_MIN_INT :: int where "NCX_MIN_INT \<equiv> - 2147483648"
abbreviation NCX_MAX_INT :: int where "NCX_MAX_INT \<equiv> 2147483647"
abbreviation NCX_MIN_LONG :: int where "NCX_MIN_LONG \<equiv> - 9223372036854775808"
abbreviation NCX_MAX_LONG :: int where "NCX_MAX_LONG \<equiv> 9223372036854775807"
abbreviation NCX_MAX_UINT8 :: nat where "NCX_MAX_UINT8 \<equiv> 255"
abbreviation NCX_MAX_UINT16 :: nat where "NCX_MAX_UINT16 \<equiv> 65535"

definition int_btyps :: "ncx_btype_t set" where "int_btyps = {NCX_BT_INT8, NCX_BT_INT16, NCX_BT_INT32}"
definition uint_btyps :: "ncx_btype_t set" where "uint_btyps = {NCX_BT_UINT8, NCX_BT_UINT16, NCX_BT_UINT32}"

definition zero_num :: ncx_num_t where
  "zero_num = \<lparr>num_i = 0, num_l = 0, num_u = 0, num_ul = 0, num_d = 0, num_dec = \<lparr>dec_val = 0, dec_digits = 0, dec_zeroes = 0\<rparr>\<rparr>"

definition ncx_init_num :: "ncx_num_t \<Rightarrow> ncx_num_t" where
  "ncx_init_num num = zero_num"

section \<open>Conversion of integers\<close>

text \<open>The search for a point leaves the pointer at the end of the string, where no \<^verbatim>\<open>0\<close> is.\<close>

definition ncx_get_numfmt :: "string \<Rightarrow> ncx_numfmt_t" where
  "ncx_get_numfmt numstr =
     (case numstr of
        [] \<Rightarrow> NCX_NF_NONE
      | c # cs \<Rightarrow>
          (if c = CHR ''0'' \<and> (case cs of x # _ \<Rightarrow> x = CHR ''x'' \<or> x = CHR ''X'' | [] \<Rightarrow> False) then NCX_NF_HEX
           else if CHR ''.'' \<in> set (c # cs) then NCX_NF_REAL
           else NCX_NF_DEC))"

definition numfmt_base :: "ncx_numfmt_t \<Rightarrow> nat option" where
  "numfmt_base numfmt =
     (case numfmt of NCX_NF_OCTAL \<Rightarrow> Some 8 | NCX_NF_DEC \<Rightarrow> Some 10 | NCX_NF_HEX \<Rightarrow> Some 16 | _ \<Rightarrow> None)"

definition convert_int :: "string \<Rightarrow> nat \<Rightarrow> ncx_btype_t \<Rightarrow> ncx_num_t \<Rightarrow> status_t \<times> ncx_num_t" where
  "convert_int numstr base btyp val =
     (case strtoll base numstr of
        (l, err) \<Rightarrow>
          (if err \<noteq> [] then (ERR_NCX_INVALID_NUM, val)
           else if btyp = NCX_BT_INT8 \<and> (sint l < NCX_MIN_INT8 \<or> sint l > NCX_MAX_INT8) then (ERR_NCX_NOT_IN_RANGE, val)
           else if btyp = NCX_BT_INT16 \<and> (sint l < NCX_MIN_INT16 \<or> sint l > NCX_MAX_INT16) then (ERR_NCX_NOT_IN_RANGE, val)
           else (NO_ERR, val\<lparr>num_i := ucast l\<rparr>)))"

definition convert_uint :: "string \<Rightarrow> nat \<Rightarrow> ncx_btype_t \<Rightarrow> ncx_num_t \<Rightarrow> status_t \<times> ncx_num_t" where
  "convert_uint numstr base btyp val =
     (case strtoull base numstr of
        (ul, err) \<Rightarrow>
          (if err \<noteq> [] then (ERR_NCX_INVALID_NUM, val)
           else if btyp = NCX_BT_UINT8 \<and> unat ul > NCX_MAX_UINT8 then (ERR_NCX_NOT_IN_RANGE, val)
           else if btyp = NCX_BT_UINT16 \<and> unat ul > NCX_MAX_UINT16 then (ERR_NCX_NOT_IN_RANGE, val)
           else if hd numstr = CHR ''-'' then (ERR_NCX_NOT_IN_RANGE, val)
           else (NO_ERR, val\<lparr>num_u := ucast ul\<rparr>)))"

definition ncx_convert_num ::
    "float_ops \<Rightarrow> string \<Rightarrow> ncx_numfmt_t \<Rightarrow> ncx_btype_t \<Rightarrow> ncx_num_t \<Rightarrow> status_t \<times> ncx_num_t" where
  "ncx_convert_num fo numstr numfmt btyp val =
     (if numstr = [] then (ERR_NCX_INVALID_VALUE, val)
      else (let numfmt = (if numfmt = NCX_NF_NONE then ncx_get_numfmt numstr else numfmt)
            in if btyp \<in> int_btyps
               then (case numfmt_base numfmt of
                       Some base \<Rightarrow> convert_int numstr base btyp val
                     | None \<Rightarrow> (if numfmt = NCX_NF_REAL then ERR_NCX_WRONG_NUMTYP else ERR_INTERNAL_VAL, val))
               else if btyp = NCX_BT_INT64
               then (case numfmt_base numfmt of
                       Some base \<Rightarrow>
                         (case strtoll base numstr of
                            (ll, err) \<Rightarrow>
                              (if err \<noteq> [] then (ERR_NCX_INVALID_NUM, val) else (NO_ERR, val\<lparr>num_l := ll\<rparr>)))
                     | None \<Rightarrow> (if numfmt = NCX_NF_REAL then ERR_NCX_WRONG_NUMTYP else ERR_INTERNAL_VAL, val))
               else if btyp \<in> uint_btyps
               then (case numfmt_base numfmt of
                       Some base \<Rightarrow> convert_uint numstr base btyp val
                     | None \<Rightarrow> (if numfmt = NCX_NF_REAL then ERR_NCX_WRONG_NUMTYP else ERR_INTERNAL_VAL, val))
               else if btyp = NCX_BT_UINT64
               then (case numfmt_base numfmt of
                       Some base \<Rightarrow>
                         (case strtoull base numstr of
                            (ull, err) \<Rightarrow>
                              (if err \<noteq> [] then (ERR_NCX_INVALID_NUM, val)
                               else if hd numstr = CHR ''-'' then (ERR_NCX_NOT_IN_RANGE, val)
                               else (NO_ERR, val\<lparr>num_ul := ull\<rparr>)))
                     | None \<Rightarrow> (if numfmt = NCX_NF_REAL then ERR_NCX_WRONG_TKTYPE else ERR_INTERNAL_VAL, val))
               else if btyp = NCX_BT_FLOAT64
               then (if numfmt \<in> {NCX_NF_OCTAL, NCX_NF_DEC, NCX_NF_REAL}
                     then (case f_strtod fo numstr of
                             (d, errno) \<Rightarrow>
                               (if errno \<noteq> 0 then (ERR_NCX_INVALID_NUM, val) else (NO_ERR, val\<lparr>num_d := d\<rparr>)))
                     else if numfmt = NCX_NF_HEX then (ERR_NCX_WRONG_NUMTYP, val)
                     else (ERR_INTERNAL_VAL, val))
               else (ERR_INTERNAL_VAL, val)))"

text \<open>How the format is found: \<^verbatim>\<open>0x\<close>, a point, a leading zero.\<close>

definition ncx_decode_num :: "float_ops \<Rightarrow> string \<Rightarrow> ncx_btype_t \<Rightarrow> ncx_num_t \<Rightarrow> status_t \<times> ncx_num_t" where
  "ncx_decode_num fo numstr btyp retnum =
     (case numstr of
        z # x # rest \<Rightarrow>
          (if z = CHR ''0'' \<and> (x = CHR ''x'' \<or> x = CHR ''X'') then ncx_convert_num fo rest NCX_NF_HEX btyp retnum
           else if CHR ''.'' \<in> set numstr then ncx_convert_num fo numstr NCX_NF_REAL btyp retnum
           else if z = CHR ''0'' then ncx_convert_num fo numstr NCX_NF_OCTAL btyp retnum
           else ncx_convert_num fo numstr NCX_NF_DEC btyp retnum)
      | _ \<Rightarrow>
          (if CHR ''.'' \<in> set numstr then ncx_convert_num fo numstr NCX_NF_REAL btyp retnum
           else if numstr = ''0'' then ncx_convert_num fo numstr NCX_NF_OCTAL btyp retnum
           else ncx_convert_num fo numstr NCX_NF_DEC btyp retnum))"

section \<open>Conversion of decimal64\<close>

definition NCX_MAX_NUMLEN :: nat where "NCX_MAX_NUMLEN = 47"

definition tdiv :: "u64 \<Rightarrow> int \<Rightarrow> u64" where "tdiv a b = word_of_int (sint a sdiv b)"
definition trem :: "u64 \<Rightarrow> int \<Rightarrow> u64" where "trem a b = word_of_int (sint a smod b)"

text \<open>
  The whole part, up to the point, is copied to \<^verbatim>\<open>numbuff\<close>, which has 47 bytes, by \<^verbatim>\<open>xml_strncpy\<close>, which adds a
  NUL; \<open>None\<close> is a write past the end of that buffer.  The leading zeroes are counted in a byte.
\<close>

definition skip_sign :: "string \<Rightarrow> string" where
  "skip_sign numstr =
     (case numstr of c # cs \<Rightarrow> (if c = CHR ''+'' \<or> c = CHR ''-'' then cs else numstr) | [] \<Rightarrow> numstr)"

definition dec64_limit :: "bool \<Rightarrow> u8 \<Rightarrow> int" where
  "dec64_limit isneg digits = ((\<lambda>t. t sdiv 10) ^^ unat digits) (if isneg then NCX_MIN_LONG else NCX_MAX_LONG)"

definition scale10 :: "nat \<Rightarrow> u64 \<Rightarrow> u64" where
  "scale10 n x = ((\<lambda>x. x * 10) ^^ n) x"

text \<open>A string without a point is a whole number in the format it was found to have.\<close>

definition dec64_whole :: "string \<Rightarrow> ncx_numfmt_t \<Rightarrow> status_t + u64 \<times> string option \<times> u8" where
  "dec64_whole numstr numfmt =
     (case (if numfmt = NCX_NF_REAL then Some 10 else numfmt_base numfmt) of
        None \<Rightarrow> Inl ERR_INTERNAL_VAL
      | Some base \<Rightarrow>
          (case strtoll base numstr of
             (basenum, err) \<Rightarrow> (if err \<noteq> [] then Inl ERR_NCX_INVALID_NUM else Inr (basenum, None, 0))))"

text \<open>The zeroes of the number before the point and after it; the counter has 8 bits, and at 256 it is back at the point.\<close>

definition count_zeroes :: "string \<Rightarrow> u8" where
  "count_zeroes frac =
     (let n = length (takeWhile (\<lambda>c. c = CHR ''0'') frac) in if n < 255 then of_nat (1 + n) else 0)"

text \<open>The base number, with the string after the point when there is one and the count of leading zeroes.\<close>

definition dec64_base ::
    "string \<Rightarrow> ncx_numfmt_t \<Rightarrow> (status_t + u64 \<times> string option \<times> u8) option" where
  "dec64_base numstr numfmt =
     (let whole = take (length numstr - length (dropWhile isdigit (skip_sign numstr))) numstr;
          rest = dropWhile isdigit (skip_sign numstr)
      in case rest of
           c # frac \<Rightarrow>
             (if c = CHR ''.''
              then (if length whole \<ge> NCX_MAX_NUMLEN then None
                    else (let basenum = fst (strtoll 10 whole)
                          in Some (Inr (basenum, Some frac,
                               if basenum = 0 then count_zeroes frac else 0))))
              else Some (dec64_whole numstr numfmt))
         | [] \<Rightarrow> Some (dec64_whole numstr numfmt))"

text \<open>Digits of the fraction, padded with zeroes.\<close>

definition dec64_fraction :: "bool \<Rightarrow> u8 \<Rightarrow> string \<Rightarrow> status_t + u64" where
  "dec64_fraction isneg digits frac =
     (let ds = takeWhile isdigit frac; numdigits = length ds
      in if numdigits > unat digits then Inl ERR_NCX_DEC64_FRACOVFL
         else if numdigits = 0 then Inr 0
         else (case strtoll 10 ds of
                 (fracnum, err) \<Rightarrow>
                   (if err \<noteq> [] then Inl ERR_NCX_INVALID_NUM
                    else (let fracnum = scale10 (unat digits - numdigits) fracnum
                          in Inr (if isneg then - fracnum else fracnum)))))"

definition ncx_convert_dec64 ::
    "string \<Rightarrow> ncx_numfmt_t \<Rightarrow> u8 \<Rightarrow> ncx_num_t \<Rightarrow> (status_t \<times> ncx_num_t) option" where
  "ncx_convert_dec64 numstr numfmt digits val =
     (if numstr = [] then Some (NO_ERR, val\<lparr>num_dec := (num_dec val)\<lparr>dec_val := 0, dec_digits := digits\<rparr>\<rparr>)
      else (let numfmt = (if numfmt = NCX_NF_NONE then ncx_get_numfmt numstr else numfmt);
                isneg = (hd numstr = CHR ''-'')
            in case dec64_base numstr numfmt of
                 None \<Rightarrow> None
               | Some (Inl res) \<Rightarrow> Some (res, val)
               | Some (Inr (basenum, point, lzeroes)) \<Rightarrow>
                   (let testnum = dec64_limit isneg digits
                    in if (if isneg then sint basenum < testnum else sint basenum > testnum)
                       then Some (ERR_NCX_DEC64_BASEOVFL, val)
                       else (case (case point of None \<Rightarrow> Inr 0 | Some frac \<Rightarrow> dec64_fraction isneg digits frac) of
                               Inl res \<Rightarrow> Some (res, val)
                             | Inr fracnum \<Rightarrow>
                                 Some (NO_ERR, val\<lparr>num_dec := \<lparr>dec_val = scale10 (unat digits) basenum + fracnum,
                                                            dec_digits = digits, dec_zeroes = lzeroes\<rparr>\<rparr>)))))"

definition ncx_decode_dec64 :: "string \<Rightarrow> u8 \<Rightarrow> ncx_num_t \<Rightarrow> (status_t \<times> ncx_num_t) option" where
  "ncx_decode_dec64 numstr digits retnum =
     (case numstr of
        z # x # rest \<Rightarrow>
          (if z = CHR ''0'' \<and> (x = CHR ''x'' \<or> x = CHR ''X'') then ncx_convert_dec64 rest NCX_NF_HEX digits retnum
           else if CHR ''.'' \<in> set numstr then ncx_convert_dec64 numstr NCX_NF_REAL digits retnum
           else if z = CHR ''0'' then ncx_convert_dec64 numstr NCX_NF_OCTAL digits retnum
           else ncx_convert_dec64 numstr NCX_NF_DEC digits retnum)
      | _ \<Rightarrow>
          (if CHR ''.'' \<in> set numstr then ncx_convert_dec64 numstr NCX_NF_REAL digits retnum
           else if numstr = ''0'' then ncx_convert_dec64 numstr NCX_NF_OCTAL digits retnum
           else ncx_convert_dec64 numstr NCX_NF_DEC digits retnum))"

definition ncx_get_dec64_base :: "ncx_num_t \<Rightarrow> u64" where
  "ncx_get_dec64_base num =
     (if dec_digits (num_dec num) \<noteq> 0
      then tdiv (dec_val (num_dec num)) (10 * int (unat (dec_digits (num_dec num))))
      else dec_val (num_dec num))"

definition ncx_get_dec64_fraction :: "ncx_num_t \<Rightarrow> u64" where
  "ncx_get_dec64_fraction num =
     (if dec_digits (num_dec num) \<noteq> 0
      then trem (dec_val (num_dec num)) (10 * int (unat (dec_digits (num_dec num))))
      else 0)"

section \<open>Comparison\<close>

definition compare3 :: "('a \<Rightarrow> 'a \<Rightarrow> bool) \<Rightarrow> 'a \<Rightarrow> 'a \<Rightarrow> int" where
  "compare3 lt x y = (if lt x y then - 1 else if x = y then 0 else 1)"

text \<open>The digits of the numbers differ by \<open>d\<close>: the product is computed in \<^verbatim>\<open>int64\<close>.\<close>

definition dec64_compare :: "ncx_num_t \<Rightarrow> ncx_num_t \<Rightarrow> int" where
  "dec64_compare num1 num2 =
     (let b1 = ncx_get_dec64_base num1; b2 = ncx_get_dec64_base num2;
          z1 = dec_zeroes (num_dec num1); z2 = dec_zeroes (num_dec num2);
          d1 = dec_digits (num_dec num1); d2 = dec_digits (num_dec num2)
      in if sint b1 < sint b2 then - 1
         else if b1 \<noteq> b2 then 1
         else if b1 = 0 \<and> z1 < z2 then 1
         else if b1 = 0 \<and> z1 > z2 then - 1
         else (let f1 = ncx_get_dec64_fraction num1; f2 = ncx_get_dec64_fraction num2;
                   g1 = (if d1 < d2 then f1 * (10 * of_nat (unat (d2 - d1))) else f1);
                   g2 = (if d1 > d2 then f2 * (10 * of_nat (unat (d1 - d2))) else f2)
               in compare3 (\<lambda>x y. sint x < sint y) g1 g2))"

definition ncx_compare_nums :: "float_ops \<Rightarrow> ncx_num_t \<Rightarrow> ncx_num_t \<Rightarrow> ncx_btype_t \<Rightarrow> int" where
  "ncx_compare_nums fo num1 num2 btyp =
     (if btyp \<in> int_btyps then compare3 (\<lambda>x y. sint x < sint y) (num_i num1) (num_i num2)
      else if btyp = NCX_BT_INT64 then compare3 (\<lambda>x y. sint x < sint y) (num_l num1) (num_l num2)
      else if btyp \<in> uint_btyps then compare3 (<) (num_u num1) (num_u num2)
      else if btyp = NCX_BT_UINT64 then compare3 (<) (num_ul num1) (num_ul num2)
      else if btyp = NCX_BT_DECIMAL64 then dec64_compare num1 num2
      else if btyp = NCX_BT_FLOAT64
      then (if f_lt fo (num_d num1) (num_d num2) then - 1
            else if f_eq fo (num_d num1) (num_d num2) then 0 else 1)
      else 0)"

section \<open>Output\<close>

definition sprintf_dec64 :: "ncx_dec64_t \<Rightarrow> status_t \<times> string" where
  "sprintf_dec64 dec =
     (if dec_val dec = 0 then (NO_ERR, ''0.0'')
      else if dec_zeroes dec > 0
      then (NO_ERR, (if sint (dec_val dec) > 0 then ''0.'' else ''-0.'') @
              replicate (unat (dec_zeroes dec) - 1) (CHR ''0'') @ nat_string (nat \<bar>sint (dec_val dec)\<bar>))
      else if dec_digits dec = 0 then (ERR_INTERNAL_VAL, [])
      else (let decbuff = int_string (sint (dec_val dec)); pos = length decbuff; n = unat (dec_digits dec)
            in if pos \<le> n then (ERR_INTERNAL_VAL, [])
               else (NO_ERR, take (pos - n) decbuff @ ''.'' @ drop (pos - n) decbuff)))"

text \<open>Trailing zeroes of the fraction are cut off the output of a double.\<close>

definition remove_trailing_zeroes :: "string \<Rightarrow> string" where
  "remove_trailing_zeroes buff =
     (let t = dropWhile (\<lambda>c. c = CHR ''0'') (rev buff)
      in rev (case t of c # cs \<Rightarrow> (if c = CHR ''.'' then cs else t) | [] \<Rightarrow> []))"

definition ncx_sprintf_num :: "float_ops \<Rightarrow> ncx_num_t \<Rightarrow> ncx_btype_t \<Rightarrow> status_t \<times> string" where
  "ncx_sprintf_num fo num btyp =
     (if btyp \<in> int_btyps then (NO_ERR, int_string (sint (num_i num)))
      else if btyp = NCX_BT_INT64 then (NO_ERR, int_string (sint (num_l num)))
      else if btyp \<in> uint_btyps then (NO_ERR, nat_string (unat (num_u num)))
      else if btyp = NCX_BT_UINT64 then (NO_ERR, nat_string (unat (num_ul num)))
      else if btyp = NCX_BT_DECIMAL64 then sprintf_dec64 (num_dec num)
      else if btyp = NCX_BT_FLOAT64 then (NO_ERR, remove_trailing_zeroes (f_printf fo (num_d num)))
      else (ERR_INTERNAL_VAL, []))"

section \<open>Limits, tests and copies\<close>

definition ncx_set_num_min :: "float_ops \<Rightarrow> ncx_btype_t \<Rightarrow> ncx_num_t \<Rightarrow> ncx_num_t" where
  "ncx_set_num_min fo btyp num =
     (case btyp of
        NCX_BT_INT8 \<Rightarrow> num\<lparr>num_i := word_of_int NCX_MIN_INT8\<rparr>
      | NCX_BT_INT16 \<Rightarrow> num\<lparr>num_i := word_of_int NCX_MIN_INT16\<rparr>
      | NCX_BT_INT32 \<Rightarrow> num\<lparr>num_i := word_of_int NCX_MIN_INT\<rparr>
      | NCX_BT_INT64 \<Rightarrow> num\<lparr>num_l := word_of_int NCX_MIN_LONG\<rparr>
      | NCX_BT_UINT8 \<Rightarrow> num\<lparr>num_u := 0\<rparr>
      | NCX_BT_UINT16 \<Rightarrow> num\<lparr>num_u := 0\<rparr>
      | NCX_BT_UINT32 \<Rightarrow> num\<lparr>num_u := 0\<rparr>
      | NCX_BT_UINT64 \<Rightarrow> num\<lparr>num_ul := 0\<rparr>
      | NCX_BT_DECIMAL64 \<Rightarrow> num\<lparr>num_dec := (num_dec num)\<lparr>dec_val := word_of_int NCX_MIN_LONG, dec_zeroes := 0\<rparr>\<rparr>
      | NCX_BT_FLOAT64 \<Rightarrow> num\<lparr>num_d := f_inf fo True\<rparr>
      | _ \<Rightarrow> num)"

definition ncx_set_num_max :: "float_ops \<Rightarrow> ncx_btype_t \<Rightarrow> ncx_num_t \<Rightarrow> ncx_num_t" where
  "ncx_set_num_max fo btyp num =
     (case btyp of
        NCX_BT_INT8 \<Rightarrow> num\<lparr>num_i := word_of_int NCX_MAX_INT8\<rparr>
      | NCX_BT_INT16 \<Rightarrow> num\<lparr>num_i := word_of_int NCX_MAX_INT16\<rparr>
      | NCX_BT_INT32 \<Rightarrow> num\<lparr>num_i := word_of_int NCX_MAX_INT\<rparr>
      | NCX_BT_INT64 \<Rightarrow> num\<lparr>num_l := word_of_int NCX_MAX_LONG\<rparr>
      | NCX_BT_UINT8 \<Rightarrow> num\<lparr>num_u := of_nat NCX_MAX_UINT8\<rparr>
      | NCX_BT_UINT16 \<Rightarrow> num\<lparr>num_u := of_nat NCX_MAX_UINT16\<rparr>
      | NCX_BT_UINT32 \<Rightarrow> num\<lparr>num_u := - 1\<rparr>
      | NCX_BT_UINT64 \<Rightarrow> num\<lparr>num_ul := - 1\<rparr>
      | NCX_BT_DECIMAL64 \<Rightarrow> num\<lparr>num_dec := (num_dec num)\<lparr>dec_val := word_of_int NCX_MAX_LONG, dec_zeroes := 0\<rparr>\<rparr>
      | NCX_BT_FLOAT64 \<Rightarrow> num\<lparr>num_d := f_inf fo False\<rparr>
      | _ \<Rightarrow> num)"

text \<open>The two 16 and 32 bit unsigned types are missing from the next two functions.\<close>

definition ncx_set_num_one :: "float_ops \<Rightarrow> ncx_btype_t \<Rightarrow> ncx_num_t \<Rightarrow> ncx_num_t" where
  "ncx_set_num_one fo btyp num =
     (if btyp \<in> int_btyps then num\<lparr>num_i := 1\<rparr>
      else if btyp = NCX_BT_INT64 then num\<lparr>num_l := 1\<rparr>
      else if btyp = NCX_BT_UINT8 then num\<lparr>num_u := 1\<rparr>
      else if btyp = NCX_BT_UINT64 then num\<lparr>num_ul := 1\<rparr>
      else if btyp = NCX_BT_DECIMAL64
      then num\<lparr>num_dec := (num_dec num)\<lparr>dec_val := 10 * ucast (dec_digits (num_dec num)), dec_zeroes := 0\<rparr>\<rparr>
      else if btyp = NCX_BT_FLOAT64 then num\<lparr>num_d := f_of_int fo 1\<rparr>
      else num)"

definition ncx_set_num_zero :: "float_ops \<Rightarrow> ncx_btype_t \<Rightarrow> ncx_num_t \<Rightarrow> ncx_num_t" where
  "ncx_set_num_zero fo btyp num =
     (if btyp \<in> int_btyps then num\<lparr>num_i := 0\<rparr>
      else if btyp = NCX_BT_INT64 then num\<lparr>num_l := 0\<rparr>
      else if btyp = NCX_BT_UINT8 then num\<lparr>num_u := 0\<rparr>
      else if btyp = NCX_BT_UINT64 then num\<lparr>num_ul := 0\<rparr>
      else if btyp = NCX_BT_DECIMAL64 then num\<lparr>num_dec := (num_dec num)\<lparr>dec_val := 0, dec_zeroes := 1\<rparr>\<rparr>
      else if btyp = NCX_BT_FLOAT64 then num\<lparr>num_d := f_of_int fo 0\<rparr>
      else num)"

definition ncx_num_zero :: "float_ops \<Rightarrow> ncx_num_t \<Rightarrow> ncx_btype_t \<Rightarrow> bool" where
  "ncx_num_zero fo num btyp =
     (if btyp \<in> int_btyps then num_i num = 0
      else if btyp = NCX_BT_INT64 then num_l num = 0
      else if btyp \<in> uint_btyps then num_u num = 0
      else if btyp = NCX_BT_UINT64 then num_ul num = 0
      else if btyp = NCX_BT_DECIMAL64 then dec_val (num_dec num) = 0
      else if btyp = NCX_BT_FLOAT64 then f_eq fo (num_d num) (f_of_int fo 0)
      else False)"

definition ncx_is_min :: "float_ops \<Rightarrow> ncx_num_t \<Rightarrow> ncx_btype_t \<Rightarrow> bool" where
  "ncx_is_min fo num btyp =
     (case btyp of
        NCX_BT_INT8 \<Rightarrow> sint (num_i num) = NCX_MIN_INT8
      | NCX_BT_INT16 \<Rightarrow> sint (num_i num) = NCX_MIN_INT16
      | NCX_BT_INT32 \<Rightarrow> sint (num_i num) = NCX_MIN_INT
      | NCX_BT_INT64 \<Rightarrow> sint (num_l num) = NCX_MIN_LONG
      | NCX_BT_UINT8 \<Rightarrow> num_u num = 0
      | NCX_BT_UINT16 \<Rightarrow> num_u num = 0
      | NCX_BT_UINT32 \<Rightarrow> num_u num = 0
      | NCX_BT_UINT64 \<Rightarrow> num_ul num = 0
      | NCX_BT_DECIMAL64 \<Rightarrow> sint (dec_val (num_dec num)) = NCX_MIN_LONG
      | NCX_BT_FLOAT64 \<Rightarrow> f_eq fo (num_d num) (f_inf fo True)
      | _ \<Rightarrow> False)"

definition ncx_is_max :: "float_ops \<Rightarrow> ncx_num_t \<Rightarrow> ncx_btype_t \<Rightarrow> bool" where
  "ncx_is_max fo num btyp =
     (case btyp of
        NCX_BT_INT8 \<Rightarrow> sint (num_i num) = NCX_MAX_INT8
      | NCX_BT_INT16 \<Rightarrow> sint (num_i num) = NCX_MAX_INT16
      | NCX_BT_INT32 \<Rightarrow> sint (num_i num) = NCX_MAX_INT
      | NCX_BT_INT64 \<Rightarrow> sint (num_l num) = NCX_MAX_LONG
      | NCX_BT_UINT8 \<Rightarrow> unat (num_u num) = NCX_MAX_UINT8
      | NCX_BT_UINT16 \<Rightarrow> unat (num_u num) = NCX_MAX_UINT16
      | NCX_BT_UINT32 \<Rightarrow> num_u num = - 1
      | NCX_BT_UINT64 \<Rightarrow> num_ul num = - 1
      | NCX_BT_DECIMAL64 \<Rightarrow> sint (dec_val (num_dec num)) = NCX_MAX_LONG
      | NCX_BT_FLOAT64 \<Rightarrow> f_eq fo (num_d num) (f_inf fo False)
      | _ \<Rightarrow> False)"

definition ncx_copy_num :: "ncx_num_t \<Rightarrow> ncx_btype_t \<Rightarrow> ncx_num_t \<Rightarrow> status_t \<times> ncx_num_t" where
  "ncx_copy_num num1 btyp num2 =
     (if btyp \<in> int_btyps then (NO_ERR, num2\<lparr>num_i := num_i num1\<rparr>)
      else if btyp = NCX_BT_INT64 then (NO_ERR, num2\<lparr>num_l := num_l num1\<rparr>)
      else if btyp \<in> uint_btyps then (NO_ERR, num2\<lparr>num_u := num_u num1\<rparr>)
      else if btyp = NCX_BT_UINT64 then (NO_ERR, num2\<lparr>num_ul := num_ul num1\<rparr>)
      else if btyp = NCX_BT_DECIMAL64 then (NO_ERR, num2\<lparr>num_dec := num_dec num1\<rparr>)
      else if btyp = NCX_BT_FLOAT64 then (NO_ERR, num2\<lparr>num_d := num_d num1\<rparr>)
      else (ERR_INTERNAL_VAL, num2))"

text \<open>Floor, ceiling and rounding: \<open>fl\<close> is the operation on doubles, and for decimal64 all three take the remainder.\<close>

definition round_with :: "(u64 \<Rightarrow> u64) \<Rightarrow> ncx_num_t \<Rightarrow> ncx_btype_t \<Rightarrow> ncx_num_t \<Rightarrow> status_t \<times> ncx_num_t" where
  "round_with fl num1 btyp num2 =
     (if btyp = NCX_BT_DECIMAL64
      then (NO_ERR, num2\<lparr>num_dec := (num_dec num1)\<lparr>dec_val :=
              trem (dec_val (num_dec num1)) (10 * int (unat (dec_digits (num_dec num1))))\<rparr>\<rparr>)
      else if btyp = NCX_BT_FLOAT64 then (NO_ERR, num2\<lparr>num_d := fl (num_d num1)\<rparr>)
      else ncx_copy_num num1 btyp num2)"

definition ncx_num_floor :: "float_ops \<Rightarrow> ncx_num_t \<Rightarrow> ncx_btype_t \<Rightarrow> ncx_num_t \<Rightarrow> status_t \<times> ncx_num_t" where
  "ncx_num_floor fo num1 btyp num2 = round_with (f_floor fo) num1 btyp num2"
definition ncx_num_ceiling :: "float_ops \<Rightarrow> ncx_num_t \<Rightarrow> ncx_btype_t \<Rightarrow> ncx_num_t \<Rightarrow> status_t \<times> ncx_num_t" where
  "ncx_num_ceiling fo num1 btyp num2 = round_with (f_ceil fo) num1 btyp num2"
definition ncx_round_num :: "float_ops \<Rightarrow> ncx_num_t \<Rightarrow> ncx_btype_t \<Rightarrow> ncx_num_t \<Rightarrow> status_t \<times> ncx_num_t" where
  "ncx_round_num fo num1 btyp num2 = round_with (f_round fo) num1 btyp num2"

definition ncx_num_is_integral :: "float_ops \<Rightarrow> ncx_num_t \<Rightarrow> ncx_btype_t \<Rightarrow> bool" where
  "ncx_num_is_integral fo num btyp =
     (if btyp \<in> int_btyps \<or> btyp \<in> uint_btyps \<or> btyp = NCX_BT_INT64 \<or> btyp = NCX_BT_UINT64 then True
      else if btyp = NCX_BT_DECIMAL64
      then (if dec_digits (num_dec num) = 0 then False
            else tdiv (dec_val (num_dec num)) (10 * int (unat (dec_digits (num_dec num)))) \<noteq> 0)
      else if btyp = NCX_BT_FLOAT64 then f_eq fo (f_round fo (num_d num)) (num_d num)
      else False)"

definition ncx_cvt_to_int64 :: "float_ops \<Rightarrow> ncx_num_t \<Rightarrow> ncx_btype_t \<Rightarrow> u64" where
  "ncx_cvt_to_int64 fo num btyp =
     (if btyp \<in> int_btyps then scast (num_i num)
      else if btyp = NCX_BT_INT64 then num_l num
      else if btyp \<in> uint_btyps then ucast (num_u num)
      else if btyp = NCX_BT_UINT64 then num_ul num
      else if btyp = NCX_BT_DECIMAL64
      then (if dec_digits (num_dec num) = 0 then 0
            else tdiv (dec_val (num_dec num)) (10 * int (unat (dec_digits (num_dec num)))))
      else if btyp = NCX_BT_FLOAT64 then f_lrint fo (num_d num)
      else 0)"

section \<open>Casts\<close>

definition NCX_DEF_FRACTION_DIGITS :: u8 where "NCX_DEF_FRACTION_DIGITS = 2"

text \<open>A whole number becomes a decimal64 with the digits of the target; \<open>f\<close> multiplies in the width of the source.\<close>

definition cast_dec64 :: "(u32 \<Rightarrow> u64) \<Rightarrow> ncx_num_t \<Rightarrow> ncx_num_t" where
  "cast_dec64 f num2 =
     (let digits = (if dec_digits (num_dec num2) = 0 then NCX_DEF_FRACTION_DIGITS else dec_digits (num_dec num2))
      in num2\<lparr>num_dec := (num_dec num2)\<lparr>dec_digits := digits, dec_val := f (10 * ucast digits)\<rparr>\<rparr>)"

definition ncx_cast_num ::
    "float_ops \<Rightarrow> ncx_num_t \<Rightarrow> ncx_btype_t \<Rightarrow> ncx_btype_t \<Rightarrow> ncx_num_t \<Rightarrow> status_t \<times> ncx_num_t" where
  "ncx_cast_num fo num1 btyp1 btyp2 num2 =
     (if btyp1 \<in> int_btyps
      then (let x = num_i num1
            in if btyp2 \<in> int_btyps then (NO_ERR, num2\<lparr>num_i := x\<rparr>)
               else if btyp2 = NCX_BT_INT64 then (NO_ERR, num2\<lparr>num_l := scast x\<rparr>)
               else if btyp2 \<in> uint_btyps then (NO_ERR, num2\<lparr>num_u := x\<rparr>)
               else if btyp2 = NCX_BT_UINT64 then (NO_ERR, num2\<lparr>num_ul := scast x\<rparr>)
               else if btyp2 = NCX_BT_DECIMAL64 then (NO_ERR, cast_dec64 (\<lambda>k. scast (x * k)) num2)
               else if btyp2 = NCX_BT_FLOAT64 then (NO_ERR, num2\<lparr>num_d := f_of_int fo (sint x)\<rparr>)
               else (ERR_INTERNAL_VAL, num2))
      else if btyp1 = NCX_BT_INT64
      then (let x = num_l num1
            in if btyp2 \<in> int_btyps \<or> btyp2 \<in> uint_btyps then (ERR_NCX_INVALID_VALUE, num2)
               else if btyp2 = NCX_BT_INT64 then (NO_ERR, num2\<lparr>num_l := x\<rparr>)
               else if btyp2 = NCX_BT_UINT64 then (NO_ERR, num2\<lparr>num_ul := x\<rparr>)
               else if btyp2 = NCX_BT_DECIMAL64 then (NO_ERR, cast_dec64 (\<lambda>k. x * ucast k) num2)
               else if btyp2 = NCX_BT_FLOAT64 then (NO_ERR, num2\<lparr>num_d := f_of_int fo (sint x)\<rparr>)
               else (ERR_INTERNAL_VAL, num2))
      else if btyp1 \<in> uint_btyps
      then (let x = num_u num1
            in if btyp2 \<in> int_btyps then (NO_ERR, num2\<lparr>num_i := x\<rparr>)
               else if btyp2 = NCX_BT_INT64 then (NO_ERR, num2\<lparr>num_l := ucast x\<rparr>)
               else if btyp2 \<in> uint_btyps then (NO_ERR, num2\<lparr>num_u := x\<rparr>)
               else if btyp2 = NCX_BT_UINT64 then (NO_ERR, num2\<lparr>num_ul := ucast x\<rparr>)
               else if btyp2 = NCX_BT_DECIMAL64 then (NO_ERR, cast_dec64 (\<lambda>k. ucast (x * k)) num2)
               else if btyp2 = NCX_BT_FLOAT64 then (NO_ERR, num2\<lparr>num_d := f_of_int fo (uint x)\<rparr>)
               else (ERR_INTERNAL_VAL, num2))
      else if btyp1 = NCX_BT_UINT64
      then (let x = num_ul num1
            in if btyp2 \<in> int_btyps \<or> btyp2 \<in> uint_btyps then (ERR_NCX_INVALID_VALUE, num2)
               else if btyp2 = NCX_BT_INT64 then (NO_ERR, num2\<lparr>num_l := x\<rparr>)
               else if btyp2 = NCX_BT_UINT64 then (NO_ERR, num2\<lparr>num_ul := x\<rparr>)
               else if btyp2 = NCX_BT_DECIMAL64 then (NO_ERR, cast_dec64 (\<lambda>k. x * ucast k) num2)
               else if btyp2 = NCX_BT_FLOAT64 then (NO_ERR, num2\<lparr>num_d := f_of_int fo (uint x)\<rparr>)
               else (ERR_INTERNAL_VAL, num2))
      else if btyp1 = NCX_BT_DECIMAL64
      then (if dec_digits (num_dec num1) = 0 then (ERR_NCX_INVALID_VALUE, num2)
            else (let testbase = tdiv (dec_val (num_dec num1)) (10 * int (unat (dec_digits (num_dec num1))))
                  in if btyp2 \<in> int_btyps \<or> btyp2 \<in> uint_btyps then (ERR_NCX_INVALID_VALUE, num2)
                     else if btyp2 = NCX_BT_INT64 then (NO_ERR, num2\<lparr>num_l := testbase\<rparr>)
                     else if btyp2 = NCX_BT_UINT64 then (NO_ERR, num2\<lparr>num_ul := testbase\<rparr>)
                     else if btyp2 = NCX_BT_DECIMAL64 then (NO_ERR, num2\<lparr>num_dec := num_dec num1\<rparr>)
                     else if btyp2 = NCX_BT_FLOAT64 then (NO_ERR, num2\<lparr>num_d := f_of_int fo (sint testbase)\<rparr>)
                     else (ERR_INTERNAL_VAL, num2)))
      else if btyp1 = NCX_BT_FLOAT64
      then (let x = num_d num1
            in if btyp2 \<in> int_btyps \<or> btyp2 \<in> uint_btyps \<or> btyp2 = NCX_BT_DECIMAL64 then (ERR_NCX_INVALID_VALUE, num2)
               else if btyp2 = NCX_BT_INT64 then (NO_ERR, num2\<lparr>num_l := f_lrint fo x\<rparr>)
               else if btyp2 = NCX_BT_UINT64 then (NO_ERR, num2\<lparr>num_ul := f_lrint fo x\<rparr>)
               else if btyp2 = NCX_BT_FLOAT64 then (NO_ERR, num2\<lparr>num_d := x\<rparr>)
               else (ERR_INTERNAL_VAL, num2))
      else (ERR_INTERNAL_VAL, num2))"

end
