(* ===== verification/Ncx_Num_Props.thy ===== *)
theory Ncx_Num_Props
  imports Ncx_Num
begin

text \<open>
  What the number functions promise: an integer that is printed is read back, decimal64 strings get their exact
  scaled value; and where they do not: the 32-bit types have no range check, and a long whole part overruns
  a buffer.
\<close>

section \<open>Decimal strings\<close>

lemma of_char_digit: "k < 10 \<Longrightarrow> of_char (digit_char k) = (48 + k :: nat)"
  by (rule of_digit_char)

lemma digit_of_digit: "k < 10 \<Longrightarrow> digit_of (digit_char k) = k"
  by (simp add: digit_of_def of_char_digit)

lemma isdigit_digit: "k < 10 \<Longrightarrow> isdigit (digit_char k)"
  by (simp add: isdigit_def of_char_digit)

lemma digit_neq: "isdigit c \<Longrightarrow> c \<noteq> CHR ''-'' \<and> c \<noteq> CHR ''+'' \<and> c \<noteq> CHR ''.'' \<and> c \<noteq> CHR ''x'' \<and> c \<noteq> CHR ''X'' \<and> \<not> isspace c"
  by (auto simp: isdigit_def isspace_def)

lemma isdigit_of: "isdigit c \<Longrightarrow> digit_of c < 10" "isdigit c \<Longrightarrow> digit_of c = of_char c - 48"
  by (auto simp: isdigit_def digit_of_def Let_def)

lemma nat_string_digits: "list_all isdigit (nat_string n)"
proof (induction n rule: nat_string.induct)
  case (1 n)
  then show ?case by (subst nat_string.simps) (auto simp: isdigit_digit)
qed

lemma digits_value_string_nat: "list_all isdigit ds \<Longrightarrow> digits_value 10 ds = string_nat ds"
proof -
  assume "list_all isdigit ds"
  then have "foldl (\<lambda>n c. 10 * n + digit_of c) k ds = foldl (\<lambda>n c. 10 * n + (of_char c - 48)) k ds" for k
    by (induction ds arbitrary: k) (auto simp: isdigit_of(2))
  then show ?thesis by (simp add: digits_value_def string_nat_def)
qed

lemma takeWhile_digits: "list_all isdigit ds \<Longrightarrow> takeWhile (\<lambda>c. digit_of c < 10) ds = ds"
  "list_all isdigit ds \<Longrightarrow> dropWhile (\<lambda>c. digit_of c < 10) ds = []"
  by (induction ds) (auto simp: isdigit_of(1))

lemma strto_digits:
  assumes "list_all isdigit ds" "ds \<noteq> []"
  shows "strto 10 ds = (False, string_nat ds, [])" and "strto 10 (CHR ''-'' # ds) = (True, string_nat ds, [])"
proof -
  obtain c cs where d: "ds = c # cs" "isdigit c" using assms by (cases ds) auto
  have s: "strto_sign ds = (False, ds)" "strto_sign (CHR ''-'' # ds) = (True, ds)"
    using digit_neq [OF d(2)] d(1) by (auto simp: strto_sign_def isspace_def)
  have "strto_prefix 10 ds = ds" by (auto simp: strto_prefix_def split: list.split)
  then show "strto 10 ds = (False, string_nat ds, [])" "strto 10 (CHR ''-'' # ds) = (True, string_nat ds, [])"
    using assms s by (simp_all add: strto_def takeWhile_digits digits_value_string_nat)
qed

lemma strto_int_string: "strto 10 (int_string z) = (z < 0, nat \<bar>z\<bar>, [])"
  by (simp add: int_string_def strto_digits nat_string_digits nat_string_neq_Nil string_nat_inverse)

lemma strtoll_int_string:
  "- (2 ^ 63) \<le> z \<Longrightarrow> z < 2 ^ 63 \<Longrightarrow> strtoll 10 (int_string z) = (word_of_int z, [])"
  by (simp add: strtoll_def strto_int_string)

lemma strtoull_nat_string: "n < 2 ^ 64 \<Longrightarrow> strtoull 10 (nat_string n) = (of_nat n, [])"
  by (simp add: strtoull_def strto_digits nat_string_digits nat_string_neq_Nil string_nat_inverse)

lemma digit_char_0: "digit_char 0 = CHR ''0''" by code_simp

lemma hd_nat_string_zero: "hd (nat_string n) = CHR ''0'' \<longleftrightarrow> n = 0"
proof (induction n rule: nat_string.induct)
  case (1 n)
  show ?case
  proof (cases "n < 10")
    case True
    then have "nat_string n = [digit_char n]" by (subst nat_string.simps) simp
    moreover have "digit_char n = CHR ''0'' \<longleftrightarrow> n = 0" using of_char_digit [of n] True
      by (metis digit_char_0 add_left_cancel add_cancel_left_right less_numeral_extra(3) of_char_digit zero_less_numeral)
    ultimately show ?thesis by simp
  next
    case False
    with 1 show ?thesis by (subst nat_string.simps) (auto simp: nat_string_neq_Nil)
  qed
qed

lemma nat_string_0: "nat_string 0 = ''0''" by (subst nat_string.simps) (simp add: digit_char_0)

lemma int_string_chars: "c \<in> set (int_string z) \<Longrightarrow> isdigit c \<or> c = CHR ''-''"
  using nat_string_digits by (auto simp: int_string_def list_all_iff split: if_splits)

lemma hd_int_string: "z \<noteq> 0 \<Longrightarrow> int_string z \<noteq> [] \<and> hd (int_string z) \<noteq> CHR ''0''"
  using hd_nat_string_zero [of "nat z"] by (auto simp: int_string_def nat_string_neq_Nil)

lemma decode_int_string:
  "ncx_decode_num fo (int_string z) btyp old =
     ncx_convert_num fo (int_string z) (if z = 0 then NCX_NF_OCTAL else NCX_NF_DEC) btyp old"
proof (cases "z = 0")
  case True
  then show ?thesis by (simp add: int_string_def nat_string_0 ncx_decode_num_def)
next
  case False
  have "CHR ''.'' \<notin> set (int_string z)" using int_string_chars [of "CHR ''.''" z] by (auto simp: isdigit_def)
  moreover from hd_int_string [OF False] obtain c cs where "int_string z = c # cs" "c \<noteq> CHR ''0''"
    by (cases "int_string z") auto
  ultimately show ?thesis using False by (cases cs) (simp_all add: ncx_decode_num_def)
qed

lemma int_string_nat: "int_string (int n) = nat_string n" by (simp add: int_string_def)

lemma octal_zero: "strtoll 8 ''0'' = (0, [])" "strtoull 8 ''0'' = (0, [])"
proof -
  have "strto 8 ''0'' = (False, 0, [])"
    by (simp add: strto_def strto_sign_def strto_prefix_def isspace_def digit_of_def digits_value_def)
  then show "strtoll 8 ''0'' = (0, [])" "strtoull 8 ''0'' = (0, [])" by (simp_all add: strtoll_def strtoull_def)
qed

section \<open>Properties\<close>

definition integer_btyps :: "ncx_btype_t set" where
  "integer_btyps = int_btyps \<union> uint_btyps \<union> {NCX_BT_INT64, NCX_BT_UINT64}"

text \<open>The number is one of its type.\<close>

definition num_in_range :: "ncx_btype_t \<Rightarrow> ncx_num_t \<Rightarrow> bool" where
  "num_in_range btyp num \<longleftrightarrow>
     (btyp = NCX_BT_INT8 \<longrightarrow> NCX_MIN_INT8 \<le> sint (num_i num) \<and> sint (num_i num) \<le> NCX_MAX_INT8) \<and>
     (btyp = NCX_BT_INT16 \<longrightarrow> NCX_MIN_INT16 \<le> sint (num_i num) \<and> sint (num_i num) \<le> NCX_MAX_INT16) \<and>
     (btyp = NCX_BT_UINT8 \<longrightarrow> unat (num_u num) \<le> NCX_MAX_UINT8) \<and>
     (btyp = NCX_BT_UINT16 \<longrightarrow> unat (num_u num) \<le> NCX_MAX_UINT16)"

lemma sint32_range: "- (2 ^ 31) \<le> sint (x :: u32) \<and> sint x < 2 ^ 31"
  using sint_greater_eq [of x] sint_less [of x] by simp
lemma sint64_range: "- (2 ^ 63) \<le> sint (x :: u64) \<and> sint x < 2 ^ 63"
  using sint_greater_eq [of x] sint_less [of x] by simp

lemma sint64_of_int: "- (2 ^ 63) \<le> z \<Longrightarrow> z < 2 ^ 63 \<Longrightarrow> sint (word_of_int z :: u64) = z"
  by (simp add: int_word_sint)

text \<open>Reading what was printed, in the format that is found for it.\<close>

lemma strtoll_printed:
  assumes "- (2 ^ 63) \<le> z" "z < 2 ^ 63" "base = 10 \<or> z = 0 \<and> base = 8"
  shows "strtoll base (int_string z) = (word_of_int z, [])"
  using assms strtoll_int_string [OF assms(1,2)] octal_zero by (auto simp: int_string_def nat_string_0)

lemma strtoull_printed:
  assumes "n < 2 ^ 64" "base = 10 \<or> n = 0 \<and> base = 8"
  shows "strtoull base (nat_string n) = (of_nat n, [])"
  using assms strtoull_nat_string [OF assms(1)] octal_zero by (auto simp: nat_string_0)

lemma convert_int_printed:
  assumes "- (2 ^ 63) \<le> z" "z < 2 ^ 63" "base = 10 \<or> z = 0 \<and> base = 8"
  shows "convert_int (int_string z) base btyp val =
    (if btyp = NCX_BT_INT8 \<and> (z < NCX_MIN_INT8 \<or> z > NCX_MAX_INT8) \<or>
        btyp = NCX_BT_INT16 \<and> (z < NCX_MIN_INT16 \<or> z > NCX_MAX_INT16)
     then (ERR_NCX_NOT_IN_RANGE, val) else (NO_ERR, val\<lparr>num_i := word_of_int z\<rparr>))"
proof -
  have "ucast (word_of_int z :: u64) = (word_of_int z :: u32)"
    by (rule bit_word_eqI) (simp add: bit_simps)
  moreover have "sint (word_of_int z :: u64) = z" by (rule sint64_of_int [OF assms(1,2)])
  ultimately show ?thesis by (simp add: convert_int_def strtoll_printed [OF assms])
qed

lemma hd_nat_string_minus: "hd (nat_string n) \<noteq> CHR ''-''"
  using hd_nat_string [of n] digit_char_neq_minus by metis

lemma decode_nat_string:
  "ncx_decode_num fo (nat_string n) btyp old =
     ncx_convert_num fo (nat_string n) (if n = 0 then NCX_NF_OCTAL else NCX_NF_DEC) btyp old"
  using decode_int_string [of fo "int n" btyp old] by (simp add: int_string_nat)

lemma convert_uint_printed:
  assumes "n < 2 ^ 64" "base = 10 \<or> n = 0 \<and> base = 8"
  shows "convert_uint (nat_string n) base btyp val =
    (if btyp = NCX_BT_UINT8 \<and> n > NCX_MAX_UINT8 \<or> btyp = NCX_BT_UINT16 \<and> n > NCX_MAX_UINT16
     then (ERR_NCX_NOT_IN_RANGE, val) else (NO_ERR, val\<lparr>num_u := of_nat n\<rparr>))"
proof -
  have "ucast (of_nat n :: u64) = (of_nat n :: u32)"
    by (rule bit_word_eqI) (simp add: bit_simps)
  moreover have "unat (of_nat n :: u64) = n" using assms(1) by (simp add: unat_of_nat)
  ultimately show ?thesis by (simp add: convert_uint_def strtoull_printed [OF assms] hd_nat_string_minus)
qed

text \<open>Operations on doubles for the witnesses, which do not use them.\<close>

definition no_float :: float_ops where
  "no_float = \<lparr>f_lt = (\<lambda>_ _. False), f_eq = (=), f_strtod = (\<lambda>_. (0, 0)), f_of_int = word_of_int, f_lrint = id, f_floor = id,
     f_ceil = id, f_round = id, f_inf = (\<lambda>_. 0), f_printf = (\<lambda>_. [])\<rparr>"

text \<open>
  C31: every number of an integer type is read back from its printed form as it was, with success.
\<close>
theorem num_roundtrip:
  assumes "btyp \<in> integer_btyps" and "num_in_range btyp num"
  shows "\<exists>s. ncx_sprintf_num fo num btyp = (NO_ERR, s) \<and> ncx_decode_num fo s btyp old = ncx_copy_num num btyp old \<and>
    fst (ncx_decode_num fo s btyp old) = NO_ERR"
proof -
  have fmt: "numfmt_base (if z = 0 then NCX_NF_OCTAL else NCX_NF_DEC) = Some (if z = 0 then 8 else 10)" for z :: int
    by (simp add: numfmt_base_def)
  show ?thesis
  proof (cases "btyp \<in> int_btyps")
    case True
    define z where "z = sint (num_i num)"
    have z: "- (2 ^ 63) \<le> z" "z < 2 ^ 63" using sint32_range [of "num_i num"] by (auto simp: z_def)
    have "convert_int (int_string z) (if z = 0 then 8 else 10) btyp old = (NO_ERR, old\<lparr>num_i := num_i num\<rparr>)"
      using convert_int_printed [OF z, of "if z = 0 then 8 else 10" btyp old] assms(2)
      by (auto simp: num_in_range_def z_def)
    then show ?thesis using True
      by (simp add: ncx_sprintf_num_def z_def [symmetric] decode_int_string ncx_convert_num_def int_string_neq_Nil fmt ncx_copy_num_def
          split: if_splits)
  next
    case nint: False
    show ?thesis
    proof (cases "btyp \<in> uint_btyps")
      case True
      define n where "n = unat (num_u num)"
      then have n: "unat (num_u num) = n" "num_u num = of_nat n" by simp_all
      have n64: "n < 2 ^ 64" using unsigned_less [of "num_u num", where 'a = nat] n(1) by simp
      have "convert_uint (nat_string n) (if n = 0 then 8 else 10) btyp old = (NO_ERR, old\<lparr>num_u := of_nat n\<rparr>)"
        using convert_uint_printed [OF n64, of "if n = 0 then 8 else 10" btyp old] assms(2) n(1)
        by (auto simp: num_in_range_def)
      then have "ncx_decode_num fo (nat_string n) btyp old = (NO_ERR, old\<lparr>num_u := of_nat n\<rparr>)"
        using True nint by (auto simp: decode_nat_string ncx_convert_num_def nat_string_neq_Nil numfmt_base_def
            uint_btyps_def split: if_splits)
      then show ?thesis using True nint n by (auto simp: ncx_sprintf_num_def ncx_copy_num_def uint_btyps_def)
    next
      case nuint: False
      show ?thesis
      proof (cases "btyp = NCX_BT_INT64")
        case True
        then show ?thesis
          using nint strtoll_printed [OF sint64_range [THEN conjunct1] sint64_range [THEN conjunct2], of _ "num_l num"]
          by (simp add: ncx_sprintf_num_def decode_int_string ncx_convert_num_def int_string_neq_Nil fmt ncx_copy_num_def
              int_btyps_def)
      next
        case False
        with assms(1) nint nuint have b: "btyp = NCX_BT_UINT64" by (auto simp: integer_btyps_def)
        define n where "n = unat (num_ul num)"
      then have n: "unat (num_ul num) = n" "num_ul num = of_nat n" by simp_all
        have n64: "n < 2 ^ 64" using unsigned_less [of "num_ul num", where 'a = nat] n(1) by simp
        have "strtoull (if n = 0 then 8 else 10) (nat_string n) = (of_nat n, [])"
          by (rule strtoull_printed [OF n64]) simp
        then have "ncx_decode_num fo (nat_string n) btyp old = (NO_ERR, old\<lparr>num_ul := of_nat n\<rparr>)"
          using b nint nuint by (simp add: decode_nat_string ncx_convert_num_def nat_string_neq_Nil numfmt_base_def
              hd_nat_string_minus split: if_splits)
        then show ?thesis using b nint nuint n by (simp add: ncx_sprintf_num_def ncx_copy_num_def)
      qed
    qed
  qed
qed

theorem num_roundtrip_witness:
  "\<exists>s. ncx_sprintf_num no_float (zero_num\<lparr>num_i := - 7\<rparr>) NCX_BT_INT8 = (NO_ERR, s) \<and>
     fst (ncx_decode_num no_float s NCX_BT_INT8 zero_num) = NO_ERR"
  using num_roundtrip [of NCX_BT_INT8 "zero_num\<lparr>num_i := - 7\<rparr>" no_float zero_num]
  by (auto simp: integer_btyps_def int_btyps_def num_in_range_def)



section \<open>Decimal64\<close>

lemma span_digits: "list_all isdigit ds \<Longrightarrow> takeWhile isdigit (ds @ CHR ''.'' # fs) = ds"
  "list_all isdigit ds \<Longrightarrow> dropWhile isdigit (ds @ CHR ''.'' # fs) = CHR ''.'' # fs"
  by (induction ds) (auto simp: isdigit_def)

lemma span_all_digits: "list_all isdigit ds \<Longrightarrow> takeWhile isdigit ds = ds"
  by (induction ds) auto

definition signed_string :: "bool \<Rightarrow> string \<Rightarrow> string" where
  "signed_string neg s = (if neg then CHR ''-'' # s else s)"

lemma dec64_base_point:
  assumes "list_all isdigit ds" "ds \<noteq> []"
  shows "dec64_base (signed_string neg (ds @ CHR ''.'' # fs)) NCX_NF_REAL =
    (if length (signed_string neg ds) \<ge> NCX_MAX_NUMLEN then None
     else let basenum = fst (strtoll 10 (signed_string neg ds))
          in Some (Inr (basenum, Some fs, if basenum = 0 then count_zeroes fs else 0)))"
proof -
  obtain c cs where d: "ds = c # cs" "isdigit c" using assms by (cases ds) auto
  have s: "skip_sign (signed_string neg (ds @ CHR ''.'' # fs)) = ds @ CHR ''.'' # fs"
    using digit_neq [OF d(2)] d(1) by (simp add: skip_sign_def signed_string_def)
  have t: "take (length (signed_string neg (ds @ CHR ''.'' # fs)) - length (CHR ''.'' # fs)) (signed_string neg (ds @ CHR ''.'' # fs)) =
      signed_string neg ds"
    by (simp add: signed_string_def)
  show ?thesis unfolding dec64_base_def s span_digits(2) [OF assms(1)] t Let_def by simp
qed

lemma decode_point:
  assumes "list_all isdigit ds" "ds \<noteq> []"
  shows "ncx_decode_dec64 (signed_string neg (ds @ CHR ''.'' # fs)) digits old =
    ncx_convert_dec64 (signed_string neg (ds @ CHR ''.'' # fs)) NCX_NF_REAL digits old"
proof -
  obtain c cs where d: "ds = c # cs" "isdigit c" using assms by (cases ds) auto
  have n: "e \<noteq> CHR ''x'' \<and> e \<noteq> CHR ''X''" if "e \<in> set ds \<or> e = CHR ''.''" for e
    using that assms(1) digit_neq [of e] by (auto simp: list_all_iff)
  show ?thesis
  proof (cases cs)
    case Nil
    with d n show ?thesis by (simp add: ncx_decode_dec64_def signed_string_def)
  next
    case (Cons e es)
    with d n [of e] show ?thesis by (simp add: ncx_decode_dec64_def signed_string_def)
  qed
qed

lemma sint64_signed:
  "m < 2 ^ 63 \<Longrightarrow> sint (word_of_int ((if neg then - 1 else 1) * int m) :: u64) = (if neg then - 1 else 1) * int m"
  by (rule sint64_of_int) auto

lemma strtoll_signed:
  assumes "list_all isdigit ds" "ds \<noteq> []" "string_nat ds < 2 ^ 63"
  shows "strtoll 10 (signed_string neg ds) = (word_of_int (if neg then - int (string_nat ds) else int (string_nat ds)), [])"
  using assms(3) strto_digits [OF assms(1,2)] by (auto simp: strtoll_def signed_string_def)

lemma tdiv_power: "((\<lambda>t. t sdiv 10) ^^ n) (int m) = int (m div 10 ^ n)"
  "((\<lambda>t. t sdiv 10) ^^ n) (- int m) = - int (m div 10 ^ n)"
proof -
  have s: "int k sdiv 10 = int (k div 10)" "(- int k) sdiv 10 = - int (k div 10)" for k
    by (cases "k = 0"; simp add: signed_divide_int_def zdiv_int)+
  show "((\<lambda>t. t sdiv 10) ^^ n) (int m) = int (m div 10 ^ n)"
    by (induction n) (simp_all add: s(1) div_mult2_eq [symmetric] mult.commute)
  show "((\<lambda>t. t sdiv 10) ^^ n) (- int m) = - int (m div 10 ^ n)"
    by (induction n) (simp_all add: s div_mult2_eq [symmetric] mult.commute)
qed

lemma scale10_eq: "scale10 n x = x * 10 ^ n"
proof (induction n)
  case (Suc n)
  have "scale10 (Suc n) x = scale10 n x * 10" by (simp add: scale10_def)
  with Suc show ?case by (simp add: mult_ac)
qed (simp add: scale10_def)

lemma dec64_limit_ok:
  assumes "w * 10 ^ unat digits < 2 ^ 63"
  shows "int w \<le> dec64_limit False digits" and "dec64_limit True digits \<le> - int w"
proof -
  have a: "w \<le> (2 ^ 63 - 1) div 10 ^ unat digits"
    using assms by (subst less_eq_div_iff_mult_less_eq) simp_all
  have b: "w \<le> 2 ^ 63 div 10 ^ unat digits" using a by (rule order_trans) (rule div_le_mono, simp)
  have m: "NCX_MAX_LONG = int (2 ^ 63 - 1)" "NCX_MIN_LONG = - int (2 ^ 63)" by simp_all
  show "int w \<le> dec64_limit False digits" "dec64_limit True digits \<le> - int w"
    using a b unfolding dec64_limit_def m by (simp_all only: if_False if_True tdiv_power of_nat_le_iff neg_le_iff_le)
qed

lemma dec64_fraction_digits:
  assumes "list_all isdigit fs" "fs \<noteq> []" "length fs \<le> unat digits" "string_nat fs < 2 ^ 63"
  shows "dec64_fraction neg digits fs =
    Inr (word_of_int ((if neg then - 1 else 1) * (int (string_nat fs) * 10 ^ (unat digits - length fs))))"
  using assms strtoll_signed [OF assms(1,2,4), of False]
  by (simp add: dec64_fraction_def span_all_digits signed_string_def scale10_eq Let_def)

lemma convert_point:
  assumes "numstr \<noteq> []" "(hd numstr = CHR ''-'') = neg" "dec64_base numstr NCX_NF_REAL = Some (Inr (b, Some fs, z))"
    and "\<not> (if neg then sint b < dec64_limit neg digits else sint b > dec64_limit neg digits)"
    and "dec64_fraction neg digits fs = Inr f"
  shows "ncx_convert_dec64 numstr NCX_NF_REAL digits old =
    Some (NO_ERR, old\<lparr>num_dec := \<lparr>dec_val = scale10 (unat digits) b + f, dec_digits = digits, dec_zeroes = z\<rparr>\<rparr>)"
  using assms(1,4,5) unfolding ncx_convert_dec64_def Let_def assms(2) by (simp add: assms(3))



text \<open>
  the digits before the point are copied to a buffer of 47 bytes without a check of their number: 47
  digits or more are written past its end.
\<close>
theorem dec64_overrun:
  assumes "list_all isdigit ds" and "NCX_MAX_NUMLEN \<le> length ds"
  shows "ncx_decode_dec64 (signed_string neg (ds @ ''.'' @ fs)) digits old = None"
proof -
  have ne: "ds \<noteq> []" using assms(2) by (auto simp: NCX_MAX_NUMLEN_def)
  have "length (signed_string neg ds) \<ge> NCX_MAX_NUMLEN" using assms(2) by (simp add: signed_string_def)
  with dec64_base_point [OF assms(1) ne, of neg fs] have b: "dec64_base (signed_string neg (ds @ ''.'' @ fs)) NCX_NF_REAL = None"
    by simp
  have "signed_string neg (ds @ ''.'' @ fs) \<noteq> []" by (simp add: signed_string_def)
  then have "ncx_convert_dec64 (signed_string neg (ds @ ''.'' @ fs)) NCX_NF_REAL digits old = None"
    unfolding ncx_convert_dec64_def Let_def by (simp add: b [simplified])
  then show ?thesis using decode_point [OF assms(1) ne, of neg fs] by simp
qed

theorem dec64_overrun_witness:
  "ncx_decode_dec64 (signed_string True (replicate 50 (CHR ''1'') @ ''.'' @ ''5'')) 2 zero_num = None"
  by (rule dec64_overrun) (simp_all add: isdigit_def NCX_MAX_NUMLEN_def list_all_iff)

text \<open>
  two numbers with the same fraction digits and no whole part are ordered by their leading zeroes
  whatever their sign, so of two negative numbers the one nearer to zero is the smaller one.
\<close>
theorem dec64_negative_order:
  assumes "ncx_get_dec64_base num1 = 0" and "ncx_get_dec64_base num2 = 0"
    and "dec_zeroes (num_dec num1) > dec_zeroes (num_dec num2)"
  shows "ncx_compare_nums fo num1 num2 NCX_BT_DECIMAL64 = - 1 \<and> ncx_compare_nums fo num2 num1 NCX_BT_DECIMAL64 = 1"
  using assms by (simp add: ncx_compare_nums_def dec64_compare_def Let_def int_btyps_def uint_btyps_def)

definition dec64 :: "int \<Rightarrow> u8 \<Rightarrow> u8 \<Rightarrow> ncx_num_t" where
  "dec64 v d z = zero_num\<lparr>num_dec := \<lparr>dec_val = word_of_int v, dec_digits = d, dec_zeroes = z\<rparr>\<rparr>"

theorem dec64_negative_order_witness:
  "ncx_compare_nums no_float (dec64 (- 5) 3 3) (dec64 (- 10) 3 2) NCX_BT_DECIMAL64 = - 1 \<and>
   ncx_decode_dec64 ''-0.005'' 3 zero_num = Some (NO_ERR, dec64 (- 5) 3 3) \<and>
   ncx_decode_dec64 ''-0.010'' 3 zero_num = Some (NO_ERR, dec64 (- 10) 3 2)"
proof -
  have "ncx_decode_dec64 ''-0.005'' 3 zero_num = Some (NO_ERR, dec64 (- 5) 3 3)"
    "ncx_decode_dec64 ''-0.010'' 3 zero_num = Some (NO_ERR, dec64 (- 10) 3 2)"
    by code_simp+
  then show ?thesis
    using dec64_negative_order [of "dec64 (- 5) 3 3" "dec64 (- 10) 3 2" no_float]
    by (simp add: ncx_get_dec64_base_def dec64_def tdiv_def signed_divide_int_def)
qed

end
