(* ===== verification/Agt_Cfg.thy ===== *)
theory Agt_Cfg
  imports Cfg_Props Ncx_Num_Props
begin

text \<open>
  Transactions on the configurations, \<^verbatim>\<open>netconf/src/agt/agt_cfg.c\<close>: the control block of a transaction, the
  allocation of transaction IDs and the file that keeps the last one across restarts.

  The undo records of a transaction belong to the edit engine of \<^verbatim>\<open>agt_val.c\<close>, which is not modelled; of the queues
  of a transaction only the audit records are here.  The file that \<^verbatim>\<open>agt_cfg_txid_filespec\<close> names is its
  content, \<open>None\<close> when it does not exist.
\<close>

section \<open>State\<close>

datatype agt_cfg_edit_type_t = AGT_CFG_EDIT_TYPE_NONE | AGT_CFG_EDIT_TYPE_FULL | AGT_CFG_EDIT_TYPE_PARTIAL

record agt_cfg_audit_rec_t =
  audit_target :: string
  audit_editop :: op_editop_t

record agt_cfg_transaction_t =
  tx_id :: u64
  tx_edit_type :: agt_cfg_edit_type_t
  tx_cfg_id :: nat
  tx_apply_res :: status_t
  tx_commit_res :: status_t
  tx_rollback_res :: status_t
  start_bad :: bool
  rootcheck :: bool
  commitcheck :: bool
  is_validate :: bool
  auditQ :: "agt_cfg_audit_rec_t list"

record txid_state =
  agt_cfg_txid :: u64
  txid_file :: "string option"

text \<open>
  What the C library does with the file: whether it can be opened for writing, whether \<^verbatim>\<open>fputs\<close> succeeds and what
  it has written if not, and the status \<^verbatim>\<open>errno_to_status\<close> gives, which is never \<^verbatim>\<open>NO_ERR\<close>.
\<close>

record txid_io =
  open_ok :: bool
  puts_ok :: bool
  partial :: string
  io_status :: status_t

section \<open>The transaction ID file\<close>

abbreviation LF :: char where "LF \<equiv> CHR 0x0A"

definition write_txid_file :: "float_ops \<Rightarrow> txid_io \<Rightarrow> u64 \<Rightarrow> string option \<Rightarrow> status_t \<times> string option" where
  "write_txid_file fo io curid file =
     (if \<not> open_ok io then (io_status io, file)
      else (case ncx_sprintf_num fo ((ncx_init_num zero_num)\<lparr>num_ul := curid\<rparr>) NCX_BT_UINT64 of
              (res, buffer) \<Rightarrow>
                (if res \<noteq> NO_ERR then (res, Some [])
                 else if puts_ok io then (NO_ERR, Some (buffer @ [LF]))
                 else (io_status io, Some (partial io)))))"

text \<open>\<^verbatim>\<open>fgets\<close>: up to 127 characters, up to the end of the line and with it.\<close>

fun fgets_line :: "nat \<Rightarrow> string \<Rightarrow> string" where
  "fgets_line 0 s = []"
| "fgets_line n [] = []"
| "fgets_line (Suc n) (c # cs) = (if c = LF then [c] else c # fgets_line n cs)"

text \<open>The third result is \<^verbatim>\<open>agt_cfg_txid\<close>, which is set only when a number was read; the second is \<^verbatim>\<open>*curid\<close>.\<close>

definition read_txid_file :: "float_ops \<Rightarrow> txid_io \<Rightarrow> txid_state \<Rightarrow> status_t \<times> u64 \<times> u64" where
  "read_txid_file fo io st =
     (case txid_file st of
        None \<Rightarrow> (io_status io, 0, agt_cfg_txid st)
      | Some content \<Rightarrow>
          (let buffer = fgets_line 127 content
           in if buffer = [] then (io_status io, 0, agt_cfg_txid st)
              else if length buffer > 1
              then (case ncx_convert_num fo (butlast buffer) NCX_NF_DEC NCX_BT_UINT64 (ncx_init_num zero_num) of
                      (res, num) \<Rightarrow>
                        (if res = NO_ERR then (NO_ERR, num_ul num, num_ul num)
                         else (res, 0, agt_cfg_txid st)))
              else (ERR_NCX_INVALID_NUM, 0, agt_cfg_txid st)))"

definition agt_cfg_update_txid :: "float_ops \<Rightarrow> txid_io \<Rightarrow> txid_state \<Rightarrow> status_t \<times> txid_state" where
  "agt_cfg_update_txid fo io st =
     (case write_txid_file fo io (agt_cfg_txid st) (txid_file st) of
        (res, file) \<Rightarrow> (res, st\<lparr>txid_file := file\<rparr>))"

text \<open>The status of the update is only logged.\<close>

definition allocate_txid :: "float_ops \<Rightarrow> txid_io \<Rightarrow> txid_state \<Rightarrow> u64 \<times> txid_state" where
  "allocate_txid fo io st =
     (let next = agt_cfg_txid st + 1;
          next = (if next = 0 then next + 1 else next);
          st = snd (agt_cfg_update_txid fo io (st\<lparr>agt_cfg_txid := next\<rparr>))
      in (next, st))"

definition set_last_txid :: "u64 \<Rightarrow> nat \<Rightarrow> cfg_db \<Rightarrow> cfg_db" where
  "set_last_txid txid cfgid db =
     (case cfg_get_config_id db cfgid of
        None \<Rightarrow> db
      | Some cfg \<Rightarrow> upd cfgid (\<lambda>c. c\<lparr>last_txid := txid\<rparr>) db)"

definition CFG_INITIAL_TXID :: u64 where "CFG_INITIAL_TXID = 0"

definition agt_cfg_init_transactions ::
    "float_ops \<Rightarrow> txid_io \<Rightarrow> bool \<Rightarrow> txid_state \<Rightarrow> cfg_db \<Rightarrow> status_t \<times> txid_state \<times> cfg_db" where
  "agt_cfg_init_transactions fo io foundfile st db =
     (let (res, txid, st) =
            (if foundfile
             then (case read_txid_file fo io st of (res, curid, global) \<Rightarrow> (res, curid, st\<lparr>agt_cfg_txid := global\<rparr>))
             else (case write_txid_file fo io CFG_INITIAL_TXID (txid_file st) of
                     (res, file) \<Rightarrow> (res, CFG_INITIAL_TXID, st\<lparr>txid_file := file\<rparr>)))
      in if res \<noteq> NO_ERR then (res, st, db)
         else (res, st\<lparr>agt_cfg_txid := txid\<rparr>,
               fold (set_last_txid txid) [NCX_CFGID_RUNNING, NCX_CFGID_CANDIDATE, NCX_CFGID_STARTUP] db))"

section \<open>Transactions\<close>

text \<open>
  The block comes from \<^verbatim>\<open>malloc\<close>, and \<open>junk\<close> is what the memory held: \<^verbatim>\<open>memset(txcb, 0x0, sizeof txcb)\<close> clears only
  as many bytes as a pointer has, which is part of the queue header.  \<open>mem\<close>: the allocation succeeds; \<open>bad\<close>: the
  state of the configuration is \<^verbatim>\<open>AGT_CFG_STATE_BAD\<close>.
\<close>

definition init_txcb ::
    "bool \<Rightarrow> agt_cfg_transaction_t \<Rightarrow> u64 \<Rightarrow> nat \<Rightarrow> agt_cfg_edit_type_t \<Rightarrow> bool \<Rightarrow> bool \<Rightarrow> agt_cfg_transaction_t" where
  "init_txcb bad junk txid cfgid etype rcheck validate =
     (let txcb = junk\<lparr>auditQ := [], tx_id := txid, tx_cfg_id := cfgid, rootcheck := rcheck,
                     tx_edit_type := etype, is_validate := validate, tx_apply_res := ERR_NCX_SKIPPED,
                     tx_commit_res := ERR_NCX_SKIPPED, tx_rollback_res := ERR_NCX_SKIPPED\<rparr>
      in if bad then txcb\<lparr>start_bad := True\<rparr> else txcb)"

definition agt_cfg_new_transaction ::
    "float_ops \<Rightarrow> txid_io \<Rightarrow> bool \<Rightarrow> bool \<Rightarrow> agt_cfg_transaction_t \<Rightarrow> nat \<Rightarrow> agt_cfg_edit_type_t \<Rightarrow> bool \<Rightarrow> bool \<Rightarrow>
     txid_state \<Rightarrow> cfg_db \<Rightarrow> status_t \<times> agt_cfg_transaction_t option \<times> txid_state \<times> cfg_db" where
  "agt_cfg_new_transaction fo io mem bad junk cfgid etype rcheck validate st db =
     (case cfg_get_config_id db cfgid of
        None \<Rightarrow> (ERR_NCX_CFG_NOT_FOUND, None, st, db)
      | Some cfg \<Rightarrow>
          (if cur_txid cfg \<noteq> 0 then (ERR_NCX_NO_ACCESS_STATE, None, st, db)
           else if \<not> mem then (ERR_INTERNAL_MEM, None, st, db)
           else (let (txid, st) = allocate_txid fo io st
                 in (NO_ERR, Some (init_txcb bad junk txid cfgid etype rcheck validate), st,
                     upd cfgid (\<lambda>c. c\<lparr>cur_txid := txid\<rparr>) db))))"

lemma init_txcb_fields [simp]:
  "tx_id (init_txcb bad junk txid cfgid etype rcheck validate) = txid"
  "tx_cfg_id (init_txcb bad junk txid cfgid etype rcheck validate) = cfgid"
  "tx_rollback_res (init_txcb bad junk txid cfgid etype rcheck validate) = ERR_NCX_SKIPPED"
  "rootcheck (init_txcb bad junk txid cfgid etype rcheck validate) = rcheck"
  "auditQ (init_txcb bad junk txid cfgid etype rcheck validate) = []"
  "commitcheck (init_txcb bad junk txid cfgid etype rcheck validate) = commitcheck junk"
  "start_bad (init_txcb bad junk txid cfgid etype rcheck validate) = (bad \<or> start_bad junk)"
  by (simp_all add: init_txcb_def Let_def)

definition agt_cfg_free_transaction :: "agt_cfg_transaction_t option \<Rightarrow> cfg_db \<Rightarrow> cfg_db" where
  "agt_cfg_free_transaction txcb db =
     (case txcb of
        None \<Rightarrow> db
      | Some tx \<Rightarrow>
          (if tx_id tx \<noteq> 0
           then (case cfg_get_config_id db (tx_cfg_id tx) of
                   None \<Rightarrow> db
                 | Some cfg \<Rightarrow>
                     (if cur_txid cfg = tx_id tx then upd (tx_cfg_id tx) (\<lambda>c. c\<lparr>cur_txid := 0\<rparr>) db else db))
           else db))"

definition agt_cfg_txid_in_progress :: "cfg_db \<Rightarrow> nat \<Rightarrow> u64" where
  "agt_cfg_txid_in_progress db cfgid =
     (case cfg_get_config_id db cfgid of Some cfg \<Rightarrow> cur_txid cfg | None \<Rightarrow> 0)"

definition agt_cfg_new_auditrec :: "bool \<Rightarrow> string \<Rightarrow> op_editop_t \<Rightarrow> agt_cfg_audit_rec_t option" where
  "agt_cfg_new_auditrec mem target editop =
     (if mem then Some \<lparr>audit_target = target, audit_editop = editop\<rparr> else None)"

section \<open>IDs\<close>

lemma allocate_txid_nonzero: "fst (allocate_txid fo io st) \<noteq> 0"
  by (simp add: allocate_txid_def Let_def)

lemma allocate_txid_global: "agt_cfg_txid (snd (allocate_txid fo io st)) = fst (allocate_txid fo io st)"
  by (simp add: allocate_txid_def agt_cfg_update_txid_def Let_def split: prod.split)

lemma allocate_txid_next:
  "unat (agt_cfg_txid st) < 2 ^ 64 - 1 \<Longrightarrow> fst (allocate_txid fo io st) = agt_cfg_txid st + 1"
proof -
  assume "unat (agt_cfg_txid st) < 2 ^ 64 - 1"
  then have "unat (agt_cfg_txid st + 1) \<noteq> 0" by (simp add: unat_word_ariths)
  then have "agt_cfg_txid st + 1 \<noteq> 0" by (metis unat_0)
  then show ?thesis by (simp add: allocate_txid_def Let_def)
qed

section \<open>The file is read back\<close>

lemma fgets_line_stop: "LF \<notin> set s \<Longrightarrow> length s < n \<Longrightarrow> fgets_line n (s @ LF # t) = s @ [LF]"
proof (induction s arbitrary: n)
  case Nil
  then show ?case by (cases n) simp_all
next
  case (Cons c s)
  then show ?case by (cases n) auto
qed

lemma digits_no_LF: "list_all isdigit s \<Longrightarrow> LF \<notin> set s"
  by (induction s) (auto simp: isdigit_def)

lemma length_nat_string: "n < 10 ^ k \<Longrightarrow> 0 < k \<Longrightarrow> length (nat_string n) \<le> k"
proof (induction n arbitrary: k rule: nat_string.induct)
  case (1 n)
  show ?case
  proof (cases "n < 10")
    case True
    then show ?thesis using "1.prems"(2) by (subst nat_string.simps) simp
  next
    case False
    then obtain j where k: "k = Suc j" and j: "0 < j" using "1.prems" by (cases k; cases "k = 1") auto
    then have "n div 10 < 10 ^ j" using "1.prems"(1) by (simp add: div_less_iff_less_mult)
    then show ?thesis using "1.IH" [of j] False j k by (subst nat_string.simps) simp
  qed
qed

lemma written_txid_read:
  assumes "open_ok io" "puts_ok io"
  shows "\<exists>content. write_txid_file fo io txid old = (NO_ERR, Some content) \<and>
    read_txid_file fo io' (st\<lparr>txid_file := Some content\<rparr>) = (NO_ERR, txid, txid)"
proof -
  let ?s = "nat_string (unat txid)"
  have t64: "unat txid < 2 ^ 64" using unsigned_less [of txid, where 'a = nat] by simp
  have "length ?s \<le> 20" by (rule length_nat_string) (use t64 in simp_all)
  then have line: "fgets_line 127 (?s @ [LF]) = ?s @ [LF]"
    by (intro fgets_line_stop digits_no_LF nat_string_digits) simp
  have conv: "ncx_convert_num fo ?s NCX_NF_DEC NCX_BT_UINT64 n = (NO_ERR, n\<lparr>num_ul := txid\<rparr>)" for n
    using strtoull_nat_string [OF t64]
    by (simp add: ncx_convert_num_def nat_string_neq_Nil numfmt_base_def hd_nat_string_minus int_btyps_def uint_btyps_def)
  have "write_txid_file fo io txid old = (NO_ERR, Some (?s @ [LF]))"
    using assms by (simp add: write_txid_file_def ncx_sprintf_num_def int_btyps_def uint_btyps_def)
  moreover have "read_txid_file fo io' (st\<lparr>txid_file := Some (?s @ [LF])\<rparr>) = (NO_ERR, txid, txid)"
    using nat_string_neq_Nil [of "unat txid"] by (simp add: read_txid_file_def line Let_def conv)
  ultimately show ?thesis by blast
qed

lemma set_last_txid_slot:
  "cfg_arr (set_last_txid txid i db) j =
     (if j = i \<and> i \<le> MAX_CFGID then map_option (\<lambda>c. c\<lparr>last_txid := txid\<rparr>) (cfg_arr db j) else cfg_arr db j)"
  by (auto simp: set_last_txid_def cfg_get_config_id_def upd_slot split: option.split)

lemma init_transactions_slots:
  assumes "i \<le> MAX_CFGID"
  shows "cfg_arr (fold (set_last_txid txid) [NCX_CFGID_RUNNING, NCX_CFGID_CANDIDATE, NCX_CFGID_STARTUP] db) i =
    map_option (\<lambda>c. c\<lparr>last_txid := txid\<rparr>) (cfg_arr db i)"
proof -
  have "i = 0 \<or> i = 1 \<or> i = 2" using assms by (auto simp: MAX_CFGID_def)
  then show ?thesis by (elim disjE) (simp_all add: set_last_txid_slot MAX_CFGID_def)
qed

section \<open>Properties\<close>

text \<open>
  C11: the ID of a transaction that was allocated while its file could be written is the last
  transaction ID of every configuration after a restart that finds this file, and the next transaction gets the
  ID that follows it (1 after the largest one).
\<close>
theorem txid_survives_restart:
  assumes "open_ok io" and "puts_ok io" and "allocate_txid fo io st = (txid, st1)"
    and "txid_file st2 = txid_file st1"
    and "agt_cfg_init_transactions fo io2 True st2 db = (res, st3, db3)"
  shows "res = NO_ERR \<and>
    (\<forall>i \<le> MAX_CFGID. cfg_arr db3 i = map_option (\<lambda>c. c\<lparr>last_txid := txid\<rparr>) (cfg_arr db i)) \<and>
    fst (allocate_txid fo io3 st3) = (if txid = - 1 then 1 else txid + 1)"
proof -
  obtain ls where w: "write_txid_file fo io txid (txid_file st) = (NO_ERR, Some ls)"
    and r: "\<And>st. read_txid_file fo io2 (st\<lparr>txid_file := Some ls\<rparr>) = (NO_ERR, txid, txid)"
    using written_txid_read [OF assms(1,2), of fo txid "txid_file st"] by (metis Pair_inject option.inject)
  have "txid_file st1 = Some ls"
    using assms(3) w by (auto simp: allocate_txid_def agt_cfg_update_txid_def Let_def split: prod.splits)
  then have "st2 = st2\<lparr>txid_file := Some ls\<rparr>" using assms(4) by simp
  then have "read_txid_file fo io2 st2 = (NO_ERR, txid, txid)" using r by metis
  then have res: "res = NO_ERR"
    and db3: "db3 = fold (set_last_txid txid) [NCX_CFGID_RUNNING, NCX_CFGID_CANDIDATE, NCX_CFGID_STARTUP] db"
    and st3: "agt_cfg_txid st3 = txid"
    using assms(5) by (auto simp: agt_cfg_init_transactions_def)
  have "txid + 1 = 0 \<longleftrightarrow> txid = - 1" by (simp add: eq_neg_iff_add_eq_0)
  then show ?thesis using res init_transactions_slots [of _ txid db] st3
    unfolding db3 by (simp add: allocate_txid_def Let_def)
qed

definition io_fine :: txid_io where
  "io_fine = \<lparr>open_ok = True, puts_ok = True, partial = [], io_status = ERR_NCX_OPERATION_FAILED\<rparr>"

theorem txid_survives_restart_witness:
  "fst (agt_cfg_init_transactions no_float io_fine True
     (snd (allocate_txid no_float io_fine \<lparr>agt_cfg_txid = 41, txid_file = None\<rparr>)) (boot free_config)) = NO_ERR"
  using txid_survives_restart [of io_fine no_float "\<lparr>agt_cfg_txid = 41, txid_file = None\<rparr>" _ _ _ io_fine "boot free_config"]
  by (metis io_fine_def prod.collapse txid_io.select_convs(1,2))

text \<open>
  C10: a transaction on a configuration is refused while another one is in progress there; when it
  is granted its ID is not 0, it is the one in progress, and freeing the transaction ends it and leaves the
  configurations as they were, so that the next request is not refused for this reason.
\<close>
theorem transaction_exclusive:
  assumes "agt_cfg_new_transaction fo io True bad junk i etype rc v st db = (res, txcb, st', db')"
    and "cfg_get_config_id db i = Some cfg"
  shows "(agt_cfg_txid_in_progress db i \<noteq> 0 \<longrightarrow> res = ERR_NCX_NO_ACCESS_STATE \<and> txcb = None \<and> db' = db) \<and>
    (agt_cfg_txid_in_progress db i = 0 \<longrightarrow>
       (\<exists>tx. txcb = Some tx \<and> res = NO_ERR \<and> tx_id tx \<noteq> 0 \<and> agt_cfg_txid_in_progress db' i = tx_id tx) \<and>
       agt_cfg_free_transaction txcb db' = db)"
proof -
  have i: "i \<le> MAX_CFGID" "cfg_arr db i = Some cfg"
    using assms(2) by (auto simp: cfg_get_config_id_def split: if_splits)
  have same: "upd i (\<lambda>c. c\<lparr>cur_txid := 0\<rparr>) (upd i (\<lambda>c. c\<lparr>cur_txid := t\<rparr>) db) = db" if "cur_txid cfg = 0" for t
    using i(2) that by (simp add: upd_def fun_upd_idem)
  show ?thesis
  proof (cases "cur_txid cfg = 0")
    case True
    obtain t s where a: "allocate_txid fo io st = (t, s)" by (metis prod.exhaust)
    have "t \<noteq> 0" using allocate_txid_nonzero [of fo io st] a by simp
    with assms i True a obtain tx where tx: "txcb = Some tx" "tx_id tx = t" "tx_cfg_id tx = i" "res = NO_ERR"
      and db': "db' = upd i (\<lambda>c. c\<lparr>cur_txid := t\<rparr>) db"
      by (auto simp: agt_cfg_new_transaction_def)
    have run: "cfg_get_config_id db' i = Some (cfg\<lparr>cur_txid := t\<rparr>)"
      using i by (simp add: db' cfg_get_config_id_def upd_slot)
    then have "agt_cfg_free_transaction txcb db' = db"
      using same [OF True, of t] \<open>t \<noteq> 0\<close> unfolding tx(1) agt_cfg_free_transaction_def by (simp add: tx db')
    then show ?thesis using run tx assms(2) True \<open>t \<noteq> 0\<close> by (simp add: agt_cfg_txid_in_progress_def)
  qed (use assms i in \<open>simp add: agt_cfg_new_transaction_def agt_cfg_txid_in_progress_def\<close>)
qed

definition junk_tx :: agt_cfg_transaction_t where
  "junk_tx = \<lparr>tx_id = 0, tx_edit_type = AGT_CFG_EDIT_TYPE_NONE, tx_cfg_id = 0, tx_apply_res = NO_ERR,
     tx_commit_res = NO_ERR, tx_rollback_res = NO_ERR, start_bad = False, rootcheck = False, commitcheck = True,
     is_validate = False, auditQ = []\<rparr>"

lemma boot_running: "cfg_get_config_id (boot free_config) 0 = Some (boot_slot 0 ''running'' (Some free_config))"
  by (simp add: cfg_get_config_id_def boot_free)

theorem transaction_exclusive_witness:
  "fst (agt_cfg_new_transaction no_float io_fine True False junk_tx 0 AGT_CFG_EDIT_TYPE_FULL False False
     \<lparr>agt_cfg_txid = 41, txid_file = None\<rparr> (boot free_config)) = NO_ERR"
proof -
  have "agt_cfg_txid_in_progress (boot free_config) 0 = 0"
    unfolding agt_cfg_txid_in_progress_def boot_running by (simp add: boot_slot_def)
  then show ?thesis
    using transaction_exclusive [OF _ boot_running] by (metis prod.collapse)
qed

text \<open>
  The flags of a new transaction that are not set here keep what the allocated memory held: the flag that a commit
  is being checked, which decides in \<^verbatim>\<open>agt_val.c\<close> which tests of an edit are run, is not cleared.
\<close>

theorem new_transaction_junk:
  assumes "agt_cfg_new_transaction fo io True False junk i etype rc v st db = (NO_ERR, Some tx, st', db')"
  shows "commitcheck tx = commitcheck junk \<and> start_bad tx = start_bad junk"
  using assms by (auto simp: agt_cfg_new_transaction_def Let_def split: option.splits if_splits prod.splits)

end
