(* ===== verification/Agt_Load.thy ===== *)
theory Agt_Load
  imports Agt_Cfg
begin

text \<open>
  How the agent applies a configuration to a datastore: the phases of an edit in \<^verbatim>\<open>netconf/src/agt/agt_val.c\<close>
  (\<^verbatim>\<open>handle_callback\<close>, \<^verbatim>\<open>agt_val_validate_write\<close>, \<^verbatim>\<open>agt_val_apply_write\<close>, \<^verbatim>\<open>agt_val_apply_commit\<close>), the internal
  operation \<^verbatim>\<open>load-config\<close> of \<^verbatim>\<open>agt_ncx.c\<close> with its driver \<^verbatim>\<open>load_config_file\<close> of \<^verbatim>\<open>agt_rpc.c\<close>, saving to
  NV-storage (\<^verbatim>\<open>agt_ncx_cfg_save\<close>), and the commit callbacks of \<^verbatim>\<open>agt_commit_validate.c\<close> and
  \<^verbatim>\<open>agt_commit_complete.c\<close>.

  What walks the trees and calls the device's code below these functions is an \<open>engine\<close>: \<^verbatim>\<open>invoke_btype_cb\<close> in
  its phases, the edits of \<^verbatim>\<open>attempt_commit\<close> and \<^verbatim>\<open>attempt_rollback\<close>, \<^verbatim>\<open>delete_dead_nodes\<close>, the tests of
  \<^verbatim>\<open>agt_val_root_check\<close>, and the XML reader and writer.  A file of type \<open>'f\<close> is what the writer wrote.  An
  operation on one of the static configurations names it by its index.
\<close>

section \<open>State and environment\<close>

datatype ncx_confirm_event =
    NCX_CC_EVENT_NONE | NCX_CC_EVENT_START | NCX_CC_EVENT_CANCEL | NCX_CC_EVENT_TIMEOUT | NCX_CC_EVENT_EXTEND
  | NCX_CC_EVENT_COMPLETE

record commit_cb_t =
  cc_backup_source :: "string option"
  cc_persist_id :: "string option"
  cc_start_time :: int
  cc_cancel_timeout :: u32
  cc_ses_id :: u32
  cc_active :: bool

text \<open>The four flags are those of the agent's profile that collect the errors of a load.\<close>

record 'f ncx_state =
  ncx_db :: cfg_db
  commit_cb :: commit_cb_t
  ncx_txid :: txid_state
  files :: "string \<Rightarrow> 'f option"
  cc_events :: "ncx_confirm_event list"
  load_validate_errors :: bool
  load_rootcheck_errors :: bool
  load_top_rootcheck_errors :: bool
  load_apply_errors :: bool

text \<open>
  \<open>e_validate op sid target new\<close> gives the status and \<open>new\<close> with the results marked in its nodes; \<open>e_apply\<close>,
  \<open>e_commit\<close> and \<open>e_rollback\<close> work on the configurations; \<open>e_root_check\<close> also tells whether errors of the
  commit tests and of the top node were met; \<open>e_clean\<close> is \<^verbatim>\<open>val_clean_tree\<close>.
\<close>

record 'f engine =
  e_validate :: "op_editop_t \<Rightarrow> u32 \<Rightarrow> nat option \<Rightarrow> cfg_db \<Rightarrow> val_value \<Rightarrow> status_t \<times> val_value"
  e_apply :: "op_editop_t \<Rightarrow> u32 \<Rightarrow> nat \<Rightarrow> val_value \<Rightarrow> cfg_db \<Rightarrow> status_t \<times> cfg_db"
  e_commit :: "op_editop_t \<Rightarrow> u32 \<Rightarrow> nat \<Rightarrow> val_value \<Rightarrow> cfg_db \<Rightarrow> status_t \<times> cfg_db"
  e_rollback :: "op_editop_t \<Rightarrow> u32 \<Rightarrow> nat \<Rightarrow> val_value \<Rightarrow> cfg_db \<Rightarrow> status_t \<times> cfg_db"
  e_dead_nodes :: "val_value \<Rightarrow> status_t \<times> val_value"
  e_root_check :: "val_value \<Rightarrow> status_t \<times> bool \<times> bool"
  e_clean :: "val_value \<Rightarrow> val_value"
  e_purge :: "val_value \<Rightarrow> val_value"
  e_order :: "val_value \<Rightarrow> val_value"
  e_write :: "val_value \<Rightarrow> status_t \<times> 'f"
  e_open_reader :: "'f option \<Rightarrow> status_t"
  e_parse :: "'f option \<Rightarrow> status_t \<times> val_value option"
  e_post_psd :: "status_t \<Rightarrow> val_value option \<Rightarrow> status_t \<times> val_value option"

text \<open>
  The profile and the file names: \<open>p_find_backup\<close> searches the data path for the backup file,
  \<open>p_make_from_src\<close> and \<open>p_make\<close> build its name, \<open>p_home_startup\<close> the default name of the startup file.
  \<open>commit_validators\<close> and \<open>commit_completers\<close> are the registered callbacks, in their order, \<open>None\<close> for an entry
  without a callback.
\<close>

record 'f ncx_env =
  eng :: "'f engine"
  fops :: float_ops
  tx_io :: txid_io
  tx_junk :: agt_cfg_transaction_t
  p_mem :: bool
  p_candidate_target :: bool
  p_has_startup :: bool
  p_startup_error :: bool
  p_running_error :: bool
  p_config_bad :: bool
  p_time :: string
  p_can_open :: "string \<Rightarrow> bool"
  p_find_backup :: "(string \<Rightarrow> 'f option) \<Rightarrow> status_t \<times> string option"
  p_make_from_src :: "string \<Rightarrow> status_t \<times> string option"
  p_make :: "status_t \<times> string option"
  p_home_startup :: "status_t \<times> string option"
  commit_validators :: "(val_value option \<Rightarrow> status_t) option list"
  commit_completers :: "status_t option list"

section \<open>Commit callbacks\<close>

fun agt_commit_validate :: "(val_value option \<Rightarrow> status_t) option list \<Rightarrow> val_value option \<Rightarrow> status_t" where
  "agt_commit_validate [] cand = NO_ERR"
| "agt_commit_validate (cb # cbs) cand =
     (case cb of
        None \<Rightarrow> agt_commit_validate cbs cand
      | Some f \<Rightarrow> (let res = f cand in if res \<noteq> NO_ERR then res else agt_commit_validate cbs cand))"

fun agt_commit_complete :: "status_t option list \<Rightarrow> status_t" where
  "agt_commit_complete [] = NO_ERR"
| "agt_commit_complete (cb # cbs) =
     (case cb of
        None \<Rightarrow> agt_commit_complete cbs
      | Some res \<Rightarrow> (if res \<noteq> NO_ERR then res else agt_commit_complete cbs))"

section \<open>Phases of an edit\<close>

definition attempt_commit ::
    "'f ncx_env \<Rightarrow> op_editop_t \<Rightarrow> u32 \<Rightarrow> nat \<Rightarrow> val_value \<Rightarrow> agt_cfg_transaction_t \<Rightarrow> cfg_db \<Rightarrow> status_t \<times> cfg_db" where
  "attempt_commit env editop sid target newval tx db =
     (case e_commit (eng env) editop sid target newval db of
        (res, db) \<Rightarrow>
          (if res \<noteq> NO_ERR then (res, db)
           else (NO_ERR, cfg_set_dirty_flag target
                           (upd target (\<lambda>c. cfg_update_last_txid (tx_id tx) (cfg_update_last_ch_time (p_time env) c)) db))))"

text \<open>
  The root of the target is the current value, so a current value is there.  The record of a write to data that
  are not configuration goes to the reply.
\<close>

definition handle_callback ::
    "'f ncx_env \<Rightarrow> agt_cbtyp_t \<Rightarrow> op_editop_t \<Rightarrow> u32 \<Rightarrow> nat \<Rightarrow> val_value \<Rightarrow> agt_cfg_transaction_t \<Rightarrow> cfg_db \<Rightarrow>
     status_t \<times> agt_cfg_transaction_t \<times> cfg_db" where
  "handle_callback env cbtyp editop sid target newval tx db =
     (if \<not> val_is_config_data [newval] then (ERR_NCX_ACCESS_READ_ONLY, tx, db)
      else case cbtyp of
             AGT_CB_APPLY \<Rightarrow>
               (case e_apply (eng env) editop sid target newval db of (res, db) \<Rightarrow> (res, tx\<lparr>tx_apply_res := res\<rparr>, db))
           | AGT_CB_COMMIT \<Rightarrow>
               (case attempt_commit env editop sid target newval tx db of
                  (res, db) \<Rightarrow>
                    (let tx = tx\<lparr>tx_commit_res := res\<rparr>
                     in if res \<noteq> NO_ERR
                        then (case e_rollback (eng env) editop sid target newval db of
                                (res2, db) \<Rightarrow> (res, tx\<lparr>tx_rollback_res := res2\<rparr>, db))
                        else (res, tx, db)))
           | AGT_CB_ROLLBACK \<Rightarrow>
               (case e_rollback (eng env) editop sid target newval db of
                  (res, db) \<Rightarrow> (res, tx\<lparr>tx_rollback_res := res\<rparr>, db))
           | _ \<Rightarrow> (ERR_INTERNAL_VAL, tx, db))"

definition agt_val_validate_write ::
    "'f ncx_env \<Rightarrow> u32 \<Rightarrow> nat option \<Rightarrow> val_value \<Rightarrow> op_editop_t \<Rightarrow> cfg_db \<Rightarrow> status_t \<times> val_value" where
  "agt_val_validate_write env sid target valroot editop db =
     (let res = (case target of
                   None \<Rightarrow> NO_ERR
                 | Some i \<Rightarrow> (case cfg_arr db i of None \<Rightarrow> NO_ERR | Some cfg \<Rightarrow> cfg_ok_to_write cfg sid))
      in if res \<noteq> NO_ERR then (res, valroot)
         else if \<not> val_is_config_data [valroot] then (ERR_NCX_ACCESS_READ_ONLY, valroot)
         else e_validate (eng env) editop sid target db valroot)"

text \<open>The loop over the dead nodes works on the root of the target.\<close>

definition dead_nodes_in :: "'f ncx_env \<Rightarrow> nat \<Rightarrow> cfg_db \<Rightarrow> status_t \<times> cfg_db" where
  "dead_nodes_in env target db =
     (case Option.bind (cfg_arr db target) root of
        None \<Rightarrow> (NO_ERR, db)
      | Some r \<Rightarrow> (case e_dead_nodes (eng env) r of (res, r) \<Rightarrow> (res, upd target (\<lambda>c. c\<lparr>root := Some r\<rparr>) db)))"

definition root_check_in :: "'f ncx_env \<Rightarrow> val_value \<Rightarrow> 'f ncx_state \<Rightarrow> status_t \<times> 'f ncx_state" where
  "root_check_in env r s =
     (case e_root_check (eng env) r of
        (res, errs, tops) \<Rightarrow>
          (res, s\<lparr>load_rootcheck_errors := load_rootcheck_errors s \<or> errs,
                  load_top_rootcheck_errors := load_top_rootcheck_errors s \<or> tops\<rparr>))"

text \<open>No transaction of the modelled callers asks for the check of the root in the apply phase.\<close>

definition agt_val_apply_write ::
    "'f ncx_env \<Rightarrow> u32 \<Rightarrow> nat \<Rightarrow> val_value \<Rightarrow> op_editop_t \<Rightarrow> agt_cfg_transaction_t \<Rightarrow> cfg_db \<Rightarrow>
     status_t \<times> agt_cfg_transaction_t \<times> cfg_db" where
  "agt_val_apply_write env sid target pducfg editop tx db =
     (let (res, tx, db) = handle_callback env AGT_CB_APPLY editop sid target pducfg tx db;
          (res, db) = (if res = NO_ERR then dead_nodes_in env target db else (res, db))
      in if res = NO_ERR then handle_callback env AGT_CB_COMMIT editop sid target pducfg tx db
         else (case handle_callback env AGT_CB_ROLLBACK editop sid target pducfg tx db of (_, tx, db) \<Rightarrow> (res, tx, db)))"

section \<open>Writing files\<close>

text \<open>
  \<^verbatim>\<open>xml_wr_check_file\<close> with the writer as the engine's.  The file is truncated before the writer starts, so a
  failure of the writer leaves what was written so far.
\<close>

definition xml_wr_check_file ::
    "'f ncx_env \<Rightarrow> string \<Rightarrow> val_value \<Rightarrow> (string \<Rightarrow> 'f option) \<Rightarrow> status_t \<times> (string \<Rightarrow> 'f option)" where
  "xml_wr_check_file env filespec val fs =
     (if \<not> p_can_open env filespec then (ERR_FIL_OPEN, fs)
      else (case e_write (eng env) val of (res, text) \<Rightarrow> (res, fs(filespec \<mapsto> text))))"

definition agt_get_startup_filespec :: "'f ncx_env \<Rightarrow> cfg_db \<Rightarrow> status_t \<times> string option" where
  "agt_get_startup_filespec env db =
     (case cfg_get_config_id db NCX_CFGID_RUNNING of
        None \<Rightarrow> (ERR_INTERNAL_VAL, None)
      | Some running \<Rightarrow>
          (case Option.bind (cfg_get_config_id db NCX_CFGID_STARTUP) src_url of
             Some url \<Rightarrow> (if p_mem env then (NO_ERR, Some url) else (ERR_INTERNAL_MEM, None))
           | None \<Rightarrow>
               (case src_url running of
                  Some url \<Rightarrow> (if p_mem env then (NO_ERR, Some url) else (ERR_INTERNAL_MEM, None))
                | None \<Rightarrow> p_home_startup env)))"

text \<open>The part of \<^verbatim>\<open>agt_ncx_cfg_save\<close> after the root is copied: the file, then the startup configuration.\<close>

definition save_startup_file ::
    "'f ncx_env \<Rightarrow> val_value \<Rightarrow> val_value option \<Rightarrow> 'f ncx_state \<Rightarrow> status_t \<times> 'f ncx_state" where
  "save_startup_file env r copystartup s =
     (case agt_get_startup_filespec env (ncx_db s) of
        (res, name) \<Rightarrow>
          (case name of
             None \<Rightarrow> (res, s)
           | Some filebuffer \<Rightarrow>
               (if res \<noteq> NO_ERR then (res, s)
                else (case xml_wr_check_file env filebuffer r (files s) of
                        (res, fs) \<Rightarrow>
                          (let s = s\<lparr>files := fs\<rparr>
                           in if res = NO_ERR \<and> cfg_get_config_id (ncx_db s) NCX_CFGID_STARTUP \<noteq> None
                              then (res, s\<lparr>ncx_db := upd NCX_CFGID_STARTUP
                                        (\<lambda>c. cfg_update_last_ch_time (p_time env) (c\<lparr>root := copystartup\<rparr>)) (ncx_db s)\<rparr>)
                              else (res, s))))))"

definition agt_ncx_cfg_save :: "'f ncx_env \<Rightarrow> nat \<Rightarrow> 'f ncx_state \<Rightarrow> status_t \<times> 'f ncx_state" where
  "agt_ncx_cfg_save env i s =
     (case cfg_arr (ncx_db s) i of
        None \<Rightarrow> (ERR_INTERNAL_PTR, s)
      | Some cfg \<Rightarrow>
          (case root cfg of
             None \<Rightarrow> (ERR_INTERNAL_PTR, s)
           | Some r \<Rightarrow>
               (if cfg_loc cfg \<notin> {CFG_LOC_NONE, CFG_LOC_FILE} then (ERR_NCX_OPERATION_NOT_SUPPORTED, s)
                else if cfg_get_config_id (ncx_db s) NCX_CFGID_STARTUP = None then save_startup_file env r None s
                else (case val_clone_config_data (p_mem env) [] r of
                        (None, res) \<Rightarrow> (res, s)
                      | (Some copystartup, res) \<Rightarrow>
                          (if res = NO_ERR then save_startup_file env r (Some copystartup) s else (res, s))))))"

section \<open>Applying a commit\<close>

definition clean_root :: "'f ncx_env \<Rightarrow> nat \<Rightarrow> cfg_db \<Rightarrow> cfg_db" where
  "clean_root env i db = upd i (\<lambda>c. c\<lparr>root := map_option (e_clean (eng env)) (root c)\<rparr>) db"

text \<open>
  The macro \<^verbatim>\<open>ALLOW_SKIP_EMPTY_COMMIT\<close> is not defined.  The status of the rollback only goes to the transaction.
  The source is the candidate, whose root the caller's checks have found.
\<close>

definition agt_val_apply_commit ::
    "'f ncx_env \<Rightarrow> u32 \<Rightarrow> val_value \<Rightarrow> nat \<Rightarrow> bool \<Rightarrow> agt_cfg_transaction_t \<Rightarrow> 'f ncx_state \<Rightarrow>
     status_t \<times> agt_cfg_transaction_t \<times> 'f ncx_state" where
  "agt_val_apply_commit env sid source target save_nvstore tx s =
     (let (res, tx, db) = handle_callback env AGT_CB_APPLY OP_EDITOP_COMMIT sid target source tx (ncx_db s);
          (res, tx, db) =
            (if res = NO_ERR
             then (case handle_callback env AGT_CB_COMMIT OP_EDITOP_COMMIT sid target source tx db of
                     (res, tx, db) \<Rightarrow>
                       (if res = NO_ERR then (agt_commit_complete (commit_completers env), tx, db) else (res, tx, db)))
             else (case handle_callback env AGT_CB_ROLLBACK OP_EDITOP_COMMIT sid target source tx db of
                     (_, tx, db) \<Rightarrow> (res, tx, db)));
          s = s\<lparr>ncx_db := db\<rparr>
      in if res = NO_ERR \<and> \<not> p_has_startup env \<and> save_nvstore
         then (case agt_ncx_cfg_save env target s of
                 (res, s) \<Rightarrow>
                   (if res = NO_ERR then (res, tx, s\<lparr>ncx_db := clean_root env target (ncx_db s)\<rparr>) else (res, tx, s)))
         else (res, tx, s))"

definition agt_val_check_commit_edits ::
    "'f ncx_env \<Rightarrow> u32 \<Rightarrow> cfg_template \<Rightarrow> val_value \<Rightarrow> nat \<Rightarrow> cfg_db \<Rightarrow> status_t" where
  "agt_val_check_commit_edits env sid source srcroot target db =
     (if \<not> cfg_get_dirty_flag source then NO_ERR
      else if \<not> val_is_config_data [srcroot] then ERR_NCX_ACCESS_READ_ONLY
      else fst (e_validate (eng env) OP_EDITOP_COMMIT sid (Some target) db srcroot))"

section \<open>The internal operation \<open>load-config\<close>\<close>

text \<open>
  \<open>p_config_bad\<close> and the other parameters of a new transaction come from the environment.
\<close>

definition new_transaction ::
    "'f ncx_env \<Rightarrow> nat \<Rightarrow> bool \<Rightarrow> bool \<Rightarrow> 'f ncx_state \<Rightarrow> status_t \<times> agt_cfg_transaction_t option \<times> 'f ncx_state" where
  "new_transaction env cfgid rcheck validate s =
     (case agt_cfg_new_transaction (fops env) (tx_io env) (p_mem env) (p_config_bad env) (tx_junk env) cfgid
             AGT_CFG_EDIT_TYPE_FULL rcheck validate (ncx_txid s) (ncx_db s) of
        (res, txcb, txid, db) \<Rightarrow> (res, txcb, s\<lparr>ncx_txid := txid, ncx_db := db\<rparr>))"

text \<open>
  The session is a dummy one.  The results are the status, the transaction and the value that
  \<^verbatim>\<open>msg->rpc_user2\<close> passes on to the invoke phase.
\<close>

definition load_config_validate ::
    "'f ncx_env \<Rightarrow> u32 \<Rightarrow> nat \<Rightarrow> op_editop_t \<Rightarrow> bool \<Rightarrow> val_value option \<Rightarrow> 'f ncx_state \<Rightarrow>
     status_t \<times> agt_cfg_transaction_t option \<times> val_value option \<times> 'f ncx_state" where
  "load_config_validate env sid target editop parse_errors val s =
     (case val of
        None \<Rightarrow> (ERR_NCX_OPERATION_FAILED, None, None, s)
      | Some v \<Rightarrow>
          (let v = (if parse_errors then e_purge (eng env) v else v);
               (res, txcb, s) = new_transaction env NCX_CFGID_RUNNING False False s
           in if txcb = None then (if res = NO_ERR then ERR_NCX_OPERATION_FAILED else res, txcb, None, s)
              else (let (res, v) = agt_val_validate_write env sid (Some target) v editop (ncx_db s);
                        s = (if res \<noteq> NO_ERR then s\<lparr>load_validate_errors := True\<rparr> else s)
                    in if res \<noteq> NO_ERR \<and> p_startup_error env then (res, txcb, None, s)
                       else (let (res, v) = e_dead_nodes (eng env) v;
                                 (res, s) = (if res = NO_ERR then root_check_in env v s else (res, s));
                                 fatal = load_rootcheck_errors s \<and> p_startup_error env \<or>
                                         load_top_rootcheck_errors s \<and> p_running_error env
                             in (if res \<noteq> NO_ERR \<and> \<not> fatal then NO_ERR else res, txcb, Some v, s)))))"

definition load_config_invoke ::
    "'f ncx_env \<Rightarrow> u32 \<Rightarrow> nat \<Rightarrow> op_editop_t \<Rightarrow> agt_cfg_transaction_t \<Rightarrow> val_value option \<Rightarrow> 'f ncx_state \<Rightarrow>
     status_t \<times> agt_cfg_transaction_t \<times> 'f ncx_state" where
  "load_config_invoke env sid target editop tx val s =
     (let (res, tx, s) =
            (case val of
               Some v \<Rightarrow>
                 (case agt_val_apply_write env sid target v editop tx (ncx_db s) of
                    (res, tx, db) \<Rightarrow>
                      (res, tx, s\<lparr>ncx_db := db, load_apply_errors := load_apply_errors s \<or> res \<noteq> NO_ERR\<rparr>))
             | None \<Rightarrow> (ERR_INTERNAL_PTR, tx, s))
      in (res, tx, s\<lparr>ncx_db := clean_root env target (ncx_db s)\<rparr>))"

text \<open>Errors that make the server stop.\<close>

definition NEED_EXIT :: "status_t \<Rightarrow> bool" where
  "NEED_EXIT res \<longleftrightarrow> res \<in> {ERR_INTERNAL_PTR, ERR_INTERNAL_MEM, ERR_INTERNAL_VAL, ERR_INTERNAL_INIT_SEQ, ERR_FIL_OPEN, ERR_NCX_EOF}"

text \<open>
  \<^verbatim>\<open>load_config_file\<close> for a configuration of its own (\<^verbatim>\<open>justval\<close> is false).  \<open>live\<close> tells which session IDs are in use;
  the dummy session in slot 0 is created here, so ID 0 is.  The transaction is freed with the message.
\<close>

definition load_config_file ::
    "'f ncx_env \<Rightarrow> (u32 \<Rightarrow> bool) \<Rightarrow> string \<Rightarrow> nat \<Rightarrow> bool \<Rightarrow> u32 \<Rightarrow> 'f ncx_state \<Rightarrow> status_t \<times> 'f ncx_state" where
  "load_config_file env live filespec target isload use_sid s =
     (if agt_cfg_txid_in_progress (ncx_db s) NCX_CFGID_RUNNING \<noteq> 0 \<and> use_sid \<noteq> 0 then (ERR_INTERNAL_INIT_SEQ, s)
      else if \<not> p_mem env then (ERR_INTERNAL_MEM, s)
      else if use_sid \<noteq> 0 \<and> \<not> live use_sid then (ERR_NCX_INVALID_VALUE, s)
      else (let res = e_open_reader (eng env) (files s filespec)
            in if res \<noteq> NO_ERR then (res, s)
               else (let editop = (if isload then OP_EDITOP_LOAD else OP_EDITOP_REPLACE);
                         (res, val) = e_parse (eng env) (files s filespec);
                         retres = res;
                         (res, val) = (if \<not> (NEED_EXIT res \<or> res = ERR_XML_READER_EOF) then e_post_psd (eng env) res val
                                       else (res, val));
                         retres = (if res \<noteq> NO_ERR then res else retres);
                         stop = retres \<noteq> NO_ERR \<and> (NEED_EXIT retres \<or> p_startup_error env);
                         res = (if stop then retres else res);
                         parse_errors = (retres \<noteq> NO_ERR \<and> \<not> stop);
                         retres = (if parse_errors then NO_ERR else retres)
                     in if res \<noteq> NO_ERR then (retres, s)
                        else (let (res, txcb, val, s) = load_config_validate env use_sid target editop parse_errors val s
                              in if res \<noteq> NO_ERR
                                 then (res, s\<lparr>ncx_db := agt_cfg_free_transaction txcb (ncx_db s)\<rparr>)
                                 else (let val = map_option (e_order (eng env)) val;
                                           (res, tx, s) = load_config_invoke env use_sid target editop (the txcb) val s;
                                           retres = (if res \<noteq> NO_ERR then res else retres)
                                       in (retres, s\<lparr>ncx_db := agt_cfg_free_transaction (Some tx) (ncx_db s)\<rparr>))))))"

definition agt_rpc_load_config_file ::
    "'f ncx_env \<Rightarrow> (u32 \<Rightarrow> bool) \<Rightarrow> string option \<Rightarrow> nat \<Rightarrow> bool \<Rightarrow> u32 \<Rightarrow> 'f ncx_state \<Rightarrow> status_t \<times> 'f ncx_state" where
  "agt_rpc_load_config_file env live filespec target isload use_sid s =
     (case filespec of
        None \<Rightarrow> (ERR_INTERNAL_PTR, s)
      | Some name \<Rightarrow> load_config_file env live name target isload use_sid s)"

definition agt_ncx_load_backup ::
    "'f ncx_env \<Rightarrow> (u32 \<Rightarrow> bool) \<Rightarrow> string option \<Rightarrow> nat \<Rightarrow> u32 \<Rightarrow> 'f ncx_state \<Rightarrow> status_t \<times> 'f ncx_state" where
  "agt_ncx_load_backup env live filespec target use_sid s =
     agt_rpc_load_config_file env live filespec target False use_sid s"

end
