(* ===== verification/Agt_Not.thy ===== *)
theory Agt_Not
  imports Agt_Load Xml_Util "HOL-Library.Monad_Syntax"
begin

text \<open>
  Notifications, \<^verbatim>\<open>netconf/src/agt/agt_not.c\<close>: the queue of events that is also the replay buffer, the subscriptions of
  the sessions, and the function that moves every subscription on by one message.  \<^verbatim>\<open>send_some_notifications\<close> of
  \<^verbatim>\<open>agt_ncxserver.c\<close>, which calls it, is here too.

  The messages of the queue have addresses, and the back pointers of a subscription are addresses.  Following a pointer to a
  message that is not in the queue any more, so that its memory has been freed, gives \<open>None\<close>.  A new message gets an
  address that has not been used before.  A subscription points to its session by the ID.
\<close>

section \<open>State\<close>

datatype agt_not_state_t = AGT_NOT_STATE_NONE | AGT_NOT_STATE_INIT | AGT_NOT_STATE_REPLAY | AGT_NOT_STATE_TIMED
  | AGT_NOT_STATE_LIVE | AGT_NOT_STATE_SHUTDOWN

datatype op_filtertyp_t = OP_FILTER_NONE | OP_FILTER_SUBTREE | OP_FILTER_XPATH

text \<open>The element \<open>notification\<close> that is built for a message: its children.\<close>

record ('o, 'v) not_element =
  e_time :: string
  e_event :: 'o
  e_payload :: "'v list"
  e_sequence_id :: "u32 option"

record ('o, 'v) agt_not_msg_t =
  maddr :: nat
  notobj :: 'o
  payloadQ :: "'v list"
  msgid :: u32
  eventTime :: string
  built :: "('o, 'v) not_element option"

text \<open>The flags are the bits of \<^verbatim>\<open>flags\<close>.\<close>

record 'v agt_not_subscription_t =
  sub_sid :: u32
  filtertyp :: op_filtertyp_t
  filterval :: "'v option"
  selectval :: "'v option"
  createTime :: string
  startTime :: "string option"
  stopTime :: "string option"
  FL_FUTURESTOP :: bool
  FL_RC_READY :: bool
  FL_RC_DONE :: bool
  FL_NC_READY :: bool
  FL_NC_DONE :: bool
  firstreplaymsg :: "nat option"
  lastreplaymsg :: "nat option"
  lastmsg :: "nat option"
  firstreplaymsgid :: u32
  lastreplaymsgid :: u32
  lastmsgid :: u32
  sub_state :: agt_not_state_t

text \<open>
  \<open>last_msgid\<close> is the static \<^verbatim>\<open>msgid\<close>, \<open>notif_on\<close> the flag \<^verbatim>\<open>notif_active\<close> of the sessions, \<open>sent\<close> what
  has been written to them.
\<close>

record ('o, 'v) not_world =
  subscriptionQ :: "'v agt_not_subscription_t list"
  notificationQ :: "('o, 'v) agt_not_msg_t list"
  anySubscriptions :: bool
  last_msgid :: u32
  notification_count :: u32
  next_addr :: nat
  notif_on :: "u32 \<Rightarrow> bool"
  sent :: "(u32 \<times> ('o, 'v) not_element) list"

text \<open>
  What the module uses: the profile, the two objects it sends itself, access control (theory \<open>Agt_Acm\<close>) for the user of a
  session, the filters, the conversion of times, the current time, the begin of a message (theory \<open>Ses\<close>), and
  memory: \<open>p_build\<close> is the result of the allocations of a message, \<open>p_seq\<close> whether that of the sequence number succeeds.
\<close>

record ('o, 'v) not_env =
  eventlog_size :: u32
  notif_sequence_id :: bool
  maxburst :: u32
  replayCompleteobj :: 'o
  notificationCompleteobj :: 'o
  p_allowed :: "u32 \<Rightarrow> 'o \<Rightarrow> bool"
  p_tree_filter :: "u32 \<Rightarrow> 'v \<Rightarrow> ('o, 'v) not_element \<Rightarrow> bool"
  p_xpath_filter :: "u32 \<Rightarrow> 'v option \<Rightarrow> ('o, 'v) not_element \<Rightarrow> bool"
  p_utctime :: "string \<Rightarrow> string option \<times> bool \<times> status_t"
  p_now :: string
  p_start_msg :: "u32 \<Rightarrow> status_t"
  p_build :: status_t
  p_seq :: bool
  p_new :: bool
  p_new_sub :: bool

definition NCX_DEF_STREAM_NAME :: string where "NCX_DEF_STREAM_NAME = ''NETCONF''"

definition init_static_vars :: "('o, 'v) not_world \<Rightarrow> ('o, 'v) not_world" where
  "init_static_vars w = w\<lparr>anySubscriptions := False, last_msgid := 0, notification_count := 0\<rparr>"

definition free_subscription :: "'v agt_not_subscription_t \<Rightarrow> ('o, 'v) not_world \<Rightarrow> ('o, 'v) not_world" where
  "free_subscription sub w = w\<lparr>notif_on := (notif_on w)(sub_sid sub := False)\<rparr>"

definition new_subscription ::
    "('o, 'v) not_env \<Rightarrow> u32 \<Rightarrow> string \<Rightarrow> string option \<Rightarrow> string option \<Rightarrow> bool \<Rightarrow> op_filtertyp_t \<Rightarrow> 'v option \<Rightarrow> 'v option \<Rightarrow>
     ('o, 'v) not_world \<Rightarrow> 'v agt_not_subscription_t option \<times> ('o, 'v) not_world" where
  "new_subscription env sid curtime start stop futurestop ftyp fval selval w =
     (if \<not> p_new_sub env then (None, w)
      else (Some \<lparr>sub_sid = sid, filtertyp = ftyp, filterval = fval, selectval = selval, createTime = curtime,
              startTime = start, stopTime = stop, FL_FUTURESTOP = futurestop, FL_RC_READY = False, FL_RC_DONE = False,
              FL_NC_READY = False, FL_NC_DONE = False, firstreplaymsg = None, lastreplaymsg = None, lastmsg = None,
              firstreplaymsgid = 0, lastreplaymsgid = 0, lastmsgid = 0, sub_state = AGT_NOT_STATE_INIT\<rparr>,
            w\<lparr>notif_on := (notif_on w)(sid := True)\<rparr>))"

section \<open>Subscribing\<close>

text \<open>
  The parameters of \<^verbatim>\<open>create-subscription\<close> with the status of their nodes; for the filter also the result of its check,
  its type and the expression.
\<close>

record 'v sub_request =
  rq_stream :: "(status_t \<times> string) option"
  rq_filter :: "(status_t \<times> 'v \<times> status_t \<times> op_filtertyp_t \<times> 'v) option"
  rq_start :: "(status_t \<times> string) option"
  rq_stop :: "(status_t \<times> string) option"

definition parm :: "(status_t \<times> 'a) option \<Rightarrow> 'a option" where
  "parm p = (case p of None \<Rightarrow> None | Some (res, x) \<Rightarrow> (if res = NO_ERR then Some x else None))"

definition check_stream :: "'v sub_request \<Rightarrow> status_t" where
  "check_stream rq =
     (case parm (rq_stream rq) of
        None \<Rightarrow> NO_ERR
      | Some s \<Rightarrow> (if xml_strcmp NCX_DEF_STREAM_NAME s \<noteq> 0 then ERR_NCX_NOT_FOUND else NO_ERR))"

definition check_filter :: "'v sub_request \<Rightarrow> status_t \<times> op_filtertyp_t \<times> 'v option" where
  "check_filter rq =
     (case rq_filter rq of
        None \<Rightarrow> (NO_ERR, OP_FILTER_NONE, None)
      | Some (res, v, fres, ftyp, sel) \<Rightarrow>
          (if res \<noteq> NO_ERR then (NO_ERR, OP_FILTER_NONE, None)
           else if fres \<noteq> NO_ERR then (fres, OP_FILTER_NONE, None)
           else (NO_ERR, ftyp, if ftyp = OP_FILTER_XPATH then Some sel else None)))"

text \<open>A conversion: the time, the status, and whether an error is recorded.\<close>

definition to_utc :: "('o, 'v) not_env \<Rightarrow> string \<Rightarrow> status_t \<times> string option \<times> status_t list" where
  "to_utc env t =
     (case p_utctime env t of (u, isneg, res) \<Rightarrow>
        (if u = None \<or> isneg
         then (let res = (if isneg then ERR_NCX_INVALID_VALUE else res) in (res, u, [res]))
         else (res, u, [])))"

text \<open>
  The checks of the times when one is given: the status, the two converted times, whether the stop time is to come, and
  the recorded errors.
\<close>

definition check_times ::
    "('o, 'v) not_env \<Rightarrow> string option \<Rightarrow> string option \<Rightarrow> status_t \<times> string option \<times> string option \<times> bool \<times> status_t list" where
  "check_times env start stop =
     (let (res, s, errs) = (case start of None \<Rightarrow> (NO_ERR, None, []) | Some t \<Rightarrow> to_utc env t);
          (res, p, errs) =
            (case stop of
               Some t \<Rightarrow> (if res = NO_ERR then (case to_utc env t of (res, p, e) \<Rightarrow> (res, p, errs @ e)) else (res, None, errs))
             | None \<Rightarrow> (res, None, errs));
          (res, errs) =
            (case s of
               Some s \<Rightarrow>
                 (if res = NO_ERR \<and> xml_strcmp s (p_now env) > 0 then (ERR_NCX_BAD_ELEMENT, errs @ [ERR_NCX_BAD_ELEMENT])
                  else (res, errs))
             | None \<Rightarrow> (res, errs));
          (res, errs) =
            (case (s, p) of
               (Some s, Some p) \<Rightarrow>
                 (if res = NO_ERR \<and> xml_strcmp s p > 0 then (ERR_NCX_BAD_ELEMENT, errs @ [ERR_NCX_BAD_ELEMENT])
                  else (res, errs))
             | _ \<Rightarrow> (res, errs))
      in (case p of
            Some q \<Rightarrow>
              (if res = NO_ERR
               then (let (res, errs) = (if s = None then (ERR_NCX_MISSING_ELEMENT, errs @ [ERR_NCX_MISSING_ELEMENT]) else (res, errs))
                     in (res, s, p, xml_strcmp q (p_now env) > 0, errs))
               else (res, s, p, False, errs))
          | None \<Rightarrow> (res, s, p, False, errs)))"

text \<open>The result has the status, the errors that are recorded for the reply, and the new subscription.\<close>

definition create_subscription_validate ::
    "('o, 'v) not_env \<Rightarrow> u32 \<Rightarrow> 'v sub_request \<Rightarrow> ('o, 'v) not_world \<Rightarrow>
     status_t \<times> status_t list \<times> 'v agt_not_subscription_t option \<times> ('o, 'v) not_world" where
  "create_subscription_validate env sid rq w =
     (let res = check_stream rq;
          errs = (if res = NO_ERR then [] else [res]);
          (filterres, ftyp, selval) = check_filter rq;
          start = parm (rq_start rq);
          stop = parm (rq_stop rq);
          (res, s, p, futurestop, errs) =
            (if start \<noteq> None \<or> stop \<noteq> None
             then (case check_times env start stop of (res, s, p, f, e) \<Rightarrow> (res, s, p, f, errs @ e))
             else (res, None, None, False, errs));
          res2 = (if sid \<in> sub_sid ` set (subscriptionQ w) then ERR_NCX_IN_USE else NO_ERR);
          errs = (if res2 = NO_ERR then errs else errs @ [res2])
      in if res = NO_ERR \<and> res2 = NO_ERR \<and> filterres = NO_ERR
         then (case new_subscription env sid (p_now env) s p futurestop ftyp (map_option (fst \<circ> snd) (rq_filter rq)) selval w of
                 (None, w) \<Rightarrow> (ERR_INTERNAL_MEM, errs @ [ERR_INTERNAL_MEM], None, w)
               | (Some sub, w) \<Rightarrow> (NO_ERR, errs, Some sub, w))
         else (if res = NO_ERR then res2 else res, errs, None, w))"

text \<open>The loop that looks for the last message to replay, from the first one on.\<close>

fun last_replay :: "string \<Rightarrow> ('o, 'v) agt_not_msg_t list \<Rightarrow> ('o, 'v) agt_not_msg_t option" where
  "last_replay stop [] = None"
| "last_replay stop [m] = Some m"
| "last_replay stop (m # n # ms) = (if xml_strcmp stop (eventTime n) < 0 then Some m else last_replay stop (n # ms))"

abbreviation set_last_replay ::
    "('o, 'v) agt_not_msg_t option \<Rightarrow> 'v agt_not_subscription_t \<Rightarrow> 'v agt_not_subscription_t" where
  "set_last_replay p sub \<equiv>
     (case p of None \<Rightarrow> sub | Some n \<Rightarrow> sub\<lparr>lastreplaymsg := Some (maddr n), lastreplaymsgid := msgid n\<rparr>)"

definition start_replay ::
    "string \<Rightarrow> ('o, 'v) agt_not_msg_t list \<Rightarrow> 'v agt_not_subscription_t \<Rightarrow> 'v agt_not_subscription_t" where
  "start_replay start q sub =
     (let sub = sub\<lparr>sub_state := AGT_NOT_STATE_REPLAY\<rparr>
      in case dropWhile (\<lambda>n. \<not> xml_strcmp start (eventTime n) \<le> 0) q of
           [] \<Rightarrow> sub\<lparr>FL_RC_READY := True\<rparr>
         | n # rest \<Rightarrow>
             (let sub = sub\<lparr>firstreplaymsg := Some (maddr n), firstreplaymsgid := msgid n\<rparr>
              in case stopTime sub of
                   None \<Rightarrow> sub
                 | Some stop \<Rightarrow>
                     (if FL_FUTURESTOP sub then set_last_replay (Some (last (n # rest))) sub
                      else if xml_strcmp stop (eventTime n) \<le> 0
                      then sub\<lparr>firstreplaymsg := None, firstreplaymsgid := 0, FL_RC_READY := True\<rparr>
                      else set_last_replay (last_replay stop (n # rest)) sub)))"

definition create_subscription_invoke ::
    "'v agt_not_subscription_t \<Rightarrow> ('o, 'v) not_world \<Rightarrow> ('o, 'v) not_world" where
  "create_subscription_invoke sub w =
     (let sub =
        (case startTime sub of
           Some start \<Rightarrow> start_replay start (notificationQ w) sub
         | None \<Rightarrow>
             (let sub = sub\<lparr>sub_state := AGT_NOT_STATE_LIVE\<rparr>
              in if notificationQ w = [] then sub
                 else sub\<lparr>lastmsg := Some (maddr (last (notificationQ w))), lastmsgid := msgid (last (notificationQ w))\<rparr>))
      in w\<lparr>subscriptionQ := subscriptionQ w @ [sub], anySubscriptions := True\<rparr>)"

text \<open>
  Both phases as the dispatcher calls them: the invoke phase follows when the status is \<open>NO_ERR\<close>, and reads the subscription that
  the validate phase left in the message.
\<close>

definition create_subscription ::
    "('o, 'v) not_env \<Rightarrow> u32 \<Rightarrow> 'v sub_request \<Rightarrow> ('o, 'v) not_world \<Rightarrow> (status_t \<times> status_t list \<times> ('o, 'v) not_world) option" where
  "create_subscription env sid rq w =
     (case create_subscription_validate env sid rq w of
        (res, errs, sub, w) \<Rightarrow>
          (if res \<noteq> NO_ERR then Some (res, errs, w)
           else case sub of None \<Rightarrow> None | Some sub \<Rightarrow> Some (res, errs, create_subscription_invoke sub w)))"

section \<open>Events\<close>

text \<open>The new message is not yet in the queue.\<close>

definition new_notification ::
    "('o, 'v) not_env \<Rightarrow> 'o \<Rightarrow> bool \<Rightarrow> 'v list \<Rightarrow> ('o, 'v) not_world \<Rightarrow> ('o, 'v) agt_not_msg_t option \<times> ('o, 'v) not_world" where
  "new_notification env obj usemsgid payload w =
     (if \<not> p_new env then (None, w)
      else (let w = (if usemsgid then w\<lparr>last_msgid := last_msgid w + 1\<rparr> else w)
            in (Some \<lparr>maddr = next_addr w, notobj = obj, payloadQ = payload, msgid = (if usemsgid then last_msgid w else 0),
                  eventTime = p_now env, built = None\<rparr>,
                w\<lparr>next_addr := next_addr w + 1\<rparr>)))"

definition clear_ptrs :: "nat \<Rightarrow> 'v agt_not_subscription_t \<Rightarrow> 'v agt_not_subscription_t" where
  "clear_ptrs a sub =
     sub\<lparr>firstreplaymsg := (if firstreplaymsg sub = Some a then None else firstreplaymsg sub),
         lastreplaymsg := (if lastreplaymsg sub = Some a then None else lastreplaymsg sub),
         lastmsg := (if lastmsg sub = Some a then None else lastmsg sub)\<rparr>"

definition delete_oldest_notification :: "('o, 'v) not_world \<Rightarrow> ('o, 'v) not_world" where
  "delete_oldest_notification w =
     (case notificationQ w of
        [] \<Rightarrow> w
      | m # ms \<Rightarrow>
          w\<lparr>notificationQ := ms, subscriptionQ := map (clear_ptrs (maddr m)) (subscriptionQ w),
            notification_count := (if notification_count w > 0 then notification_count w - 1 else notification_count w)\<rparr>)"

text \<open>\<open>None\<close>: the assertion fails.\<close>

definition agt_not_queue_notification ::
    "('o, 'v) not_env \<Rightarrow> ('o, 'v) agt_not_msg_t \<Rightarrow> ('o, 'v) not_world \<Rightarrow> ('o, 'v) not_world option" where
  "agt_not_queue_notification env m w =
     (if eventlog_size env \<noteq> 0
      then (if \<not> notification_count w \<le> eventlog_size env then None
            else (let w = (if notification_count w = eventlog_size env then delete_oldest_notification w else w)
                  in Some (w\<lparr>notification_count := notification_count w + 1, notificationQ := notificationQ w @ [m]\<rparr>)))
      else Some (w\<lparr>notificationQ := notificationQ w @ [m]\<rparr>))"

section \<open>Sending\<close>

text \<open>The element is built when the message is sent for the first time; the payload moves into it.\<close>

definition build_msg ::
    "('o, 'v) not_env \<Rightarrow> bool \<Rightarrow> ('o, 'v) agt_not_msg_t \<Rightarrow> status_t \<times> ('o, 'v) agt_not_msg_t" where
  "build_msg env checkfilter m =
     (case built m of
        Some e \<Rightarrow> (NO_ERR, m)
      | None \<Rightarrow>
          (if p_build env \<noteq> NO_ERR then (p_build env, m)
           else (NO_ERR, m\<lparr>payloadQ := [],
                   built := Some \<lparr>e_time = eventTime m, e_event = notobj m, e_payload = payloadQ m,
                     e_sequence_id = (if checkfilter \<and> notif_sequence_id env \<and> p_seq env then Some (msgid m) else None)\<rparr>\<rparr>)))"

definition filter_passed :: "('o, 'v) not_env \<Rightarrow> 'v agt_not_subscription_t \<Rightarrow> ('o, 'v) not_element \<Rightarrow> bool" where
  "filter_passed env sub e =
     (case filterval sub of
        None \<Rightarrow> True
      | Some v \<Rightarrow>
          (case filtertyp sub of
             OP_FILTER_SUBTREE \<Rightarrow> p_tree_filter env (sub_sid sub) v e
           | OP_FILTER_XPATH \<Rightarrow> p_xpath_filter env (sub_sid sub) (selectval sub) e
           | OP_FILTER_NONE \<Rightarrow> False))"

definition send_notification ::
    "('o, 'v) not_env \<Rightarrow> 'v agt_not_subscription_t \<Rightarrow> ('o, 'v) agt_not_msg_t \<Rightarrow> bool \<Rightarrow> ('o, 'v) not_world \<Rightarrow>
     status_t \<times> ('o, 'v) agt_not_msg_t \<times> ('o, 'v) not_world" where
  "send_notification env sub m checkfilter w =
     (case build_msg env checkfilter m of
        (res, m) \<Rightarrow>
          (if res \<noteq> NO_ERR then (res, m, w)
           else if checkfilter \<and> \<not> filter_passed env sub (the (built m)) then (NO_ERR, m, w)
           else if p_start_msg env (sub_sid sub) \<noteq> NO_ERR then (p_start_msg env (sub_sid sub), m, w)
           else (NO_ERR, m, w\<lparr>sent := sent w @ [(sub_sid sub, the (built m))]\<rparr>)))"

definition send_complete ::
    "('o, 'v) not_env \<Rightarrow> 'o \<Rightarrow> 'v agt_not_subscription_t \<Rightarrow> ('o, 'v) not_world \<Rightarrow> 'v agt_not_subscription_t \<times> ('o, 'v) not_world" where
  "send_complete env obj sub w =
     (case new_notification env obj False [] w of
        (None, w) \<Rightarrow> (sub, w)
      | (Some m, w) \<Rightarrow>
          (case send_notification env sub m False w of
             (res, _, w) \<Rightarrow> (if res \<noteq> NO_ERR \<and> NEED_EXIT res then sub\<lparr>sub_state := AGT_NOT_STATE_SHUTDOWN\<rparr> else sub, w)))"

definition send_replayComplete ::
    "('o, 'v) not_env \<Rightarrow> 'v agt_not_subscription_t \<Rightarrow> ('o, 'v) not_world \<Rightarrow> 'v agt_not_subscription_t \<times> ('o, 'v) not_world" where
  "send_replayComplete env = send_complete env (replayCompleteobj env)"

definition send_notificationComplete ::
    "('o, 'v) not_env \<Rightarrow> 'v agt_not_subscription_t \<Rightarrow> ('o, 'v) not_world \<Rightarrow> 'v agt_not_subscription_t \<times> ('o, 'v) not_world" where
  "send_notificationComplete env = send_complete env (notificationCompleteobj env)"

definition get_entry_after :: "u32 \<Rightarrow> ('o, 'v) agt_not_msg_t list \<Rightarrow> ('o, 'v) agt_not_msg_t option" where
  "get_entry_after i q = find (\<lambda>m. msgid m > i) q"

text \<open>The entry after the one at an address.\<close>

fun entry_after :: "nat \<Rightarrow> ('o, 'v) agt_not_msg_t list \<Rightarrow> ('o, 'v) agt_not_msg_t option option" where
  "entry_after a [] = None"
| "entry_after a (m # ms) = (if maddr m = a then Some (case ms of [] \<Rightarrow> None | n # _ \<Rightarrow> Some n) else entry_after a ms)"

definition first_entry :: "('o, 'v) agt_not_msg_t list \<Rightarrow> ('o, 'v) agt_not_msg_t option" where
  "first_entry q = (case q of [] \<Rightarrow> None | m # _ \<Rightarrow> Some m)"

text \<open>The next message of a timed or live subscription, and that of a replay.\<close>

definition next_live ::
    "'v agt_not_subscription_t \<Rightarrow> ('o, 'v) agt_not_msg_t list \<Rightarrow> ('o, 'v) agt_not_msg_t option option" where
  "next_live sub q =
     (case lastmsg sub of
        Some a \<Rightarrow> entry_after a q
      | None \<Rightarrow> Some (if lastmsgid sub \<noteq> 0 then get_entry_after (lastmsgid sub) q else first_entry q))"

definition next_replay ::
    "'v agt_not_subscription_t \<Rightarrow> ('o, 'v) agt_not_msg_t list \<Rightarrow> ('o, 'v) agt_not_msg_t option option" where
  "next_replay sub q =
     (case lastmsg sub of
        Some a \<Rightarrow> entry_after a q
      | None \<Rightarrow>
          (if lastmsgid sub \<noteq> 0 then Some (get_entry_after (lastmsgid sub) q)
           else case firstreplaymsg sub of
                  Some a \<Rightarrow> map_option Some (find (\<lambda>m. maddr m = a) q)
                | None \<Rightarrow> Some (get_entry_after (firstreplaymsgid sub) q)))"

definition upd_msg :: "('o, 'v) agt_not_msg_t \<Rightarrow> ('o, 'v) not_world \<Rightarrow> ('o, 'v) not_world" where
  "upd_msg m w = w\<lparr>notificationQ := map (\<lambda>n. if maddr n = maddr m then m else n) (notificationQ w)\<rparr>"

text \<open>Access control and \<^verbatim>\<open>send_notification\<close>: the status and how many were sent.\<close>

definition deliver ::
    "('o, 'v) not_env \<Rightarrow> 'v agt_not_subscription_t \<Rightarrow> ('o, 'v) agt_not_msg_t \<Rightarrow> ('o, 'v) not_world \<Rightarrow>
     status_t \<times> u32 \<times> ('o, 'v) not_world" where
  "deliver env sub m w =
     (if \<not> p_allowed env (sub_sid sub) (notobj m) then (NO_ERR, 0, w)
      else (case send_notification env sub m True w of (res, m, w) \<Rightarrow> (res, 1, upd_msg m w)))"

definition fatal :: "status_t \<Rightarrow> bool" where
  "fatal res \<longleftrightarrow> res \<noteq> NO_ERR \<and> NEED_EXIT res"

text \<open>
  One pass of the loop for a subscription in the given state: the subscription afterwards, or \<open>None\<close> when it has expired, and the
  number of messages.
\<close>

definition replay_done ::
    "('o, 'v) not_env \<Rightarrow> 'v agt_not_subscription_t \<Rightarrow> ('o, 'v) not_world \<Rightarrow> 'v agt_not_subscription_t \<times> u32 \<times> ('o, 'v) not_world" where
  "replay_done env sub w =
     (if FL_RC_DONE sub
      then (if stopTime sub \<noteq> None
            then (if FL_FUTURESTOP sub then (sub\<lparr>sub_state := AGT_NOT_STATE_TIMED\<rparr>, 0, w)
                  else (case send_notificationComplete env (sub\<lparr>FL_NC_READY := True\<rparr>) w of
                          (sub, w) \<Rightarrow> (sub\<lparr>FL_NC_DONE := True, sub_state := AGT_NOT_STATE_SHUTDOWN\<rparr>, 1, w)))
            else (sub\<lparr>sub_state := AGT_NOT_STATE_LIVE\<rparr>, 0, w))
      else (case send_replayComplete env sub w of (sub, w) \<Rightarrow> (sub\<lparr>FL_RC_DONE := True\<rparr>, 1, w)))"

definition replay_next ::
    "('o, 'v) not_env \<Rightarrow> 'v agt_not_subscription_t \<Rightarrow> ('o, 'v) not_world \<Rightarrow>
     ('v agt_not_subscription_t \<times> u32 \<times> ('o, 'v) not_world) option" where
  "replay_next env sub w =
     do { p \<leftarrow> next_replay sub (notificationQ w);
          Some (case p of
            Some m \<Rightarrow>
              (case deliver env sub m w of
                 (res, n, w) \<Rightarrow>
                   (if fatal res then (sub\<lparr>sub_state := AGT_NOT_STATE_SHUTDOWN\<rparr>, n, w)
                    else (sub\<lparr>lastmsg := Some (maddr m), lastmsgid := msgid m,
                            FL_RC_READY := (FL_RC_READY sub \<or> lastreplaymsg sub = Some (maddr m) \<or>
                              lastreplaymsgid sub \<noteq> 0 \<and> lastreplaymsgid sub \<le> msgid m)\<rparr>, n, w)))
          | None \<Rightarrow>
              (case send_replayComplete env (sub\<lparr>FL_RC_READY := True\<rparr>) w of
                 (sub, w) \<Rightarrow>
                   (let sub = sub\<lparr>FL_RC_DONE := True\<rparr>
                    in (if stopTime sub \<noteq> None
                        then (if FL_FUTURESTOP sub then sub\<lparr>sub_state := AGT_NOT_STATE_TIMED\<rparr> else sub\<lparr>FL_NC_READY := True\<rparr>)
                        else sub\<lparr>sub_state := AGT_NOT_STATE_LIVE\<rparr>, 1, w)))) }"

definition live_next ::
    "('o, 'v) not_env \<Rightarrow> 'v agt_not_subscription_t \<Rightarrow> ('o, 'v) not_world \<Rightarrow>
     (('o, 'v) agt_not_msg_t option \<times> 'v agt_not_subscription_t \<times> u32 \<times> ('o, 'v) not_world) option" where
  "live_next env sub w =
     do { p \<leftarrow> next_live sub (notificationQ w);
          Some (case p of
            None \<Rightarrow> (None, sub, 0, w)
          | Some m \<Rightarrow>
              (let sub = sub\<lparr>lastmsg := Some (maddr m), lastmsgid := msgid m\<rparr>
               in case deliver env sub m w of
                    (res, n, w) \<Rightarrow> (Some m, if fatal res then sub\<lparr>sub_state := AGT_NOT_STATE_SHUTDOWN\<rparr> else sub, n, w))) }"

definition timed_next ::
    "('o, 'v) not_env \<Rightarrow> 'v agt_not_subscription_t \<Rightarrow> ('o, 'v) not_world \<Rightarrow>
     ('v agt_not_subscription_t \<times> u32 \<times> ('o, 'v) not_world) option" where
  "timed_next env sub w =
     do { (p, sub1, n, w) \<leftarrow> live_next env sub w;
          let ret = xml_strcmp (the (stopTime sub)) (case p of Some m \<Rightarrow> eventTime m | None \<Rightarrow> p_now env);
          Some (if ret \<le> 0 then sub1\<lparr>FL_NC_READY := True, sub_state := AGT_NOT_STATE_SHUTDOWN\<rparr> else sub1, n, w) }"

definition serve ::
    "('o, 'v) not_env \<Rightarrow> 'v agt_not_subscription_t \<Rightarrow> ('o, 'v) not_world \<Rightarrow>
     ('v agt_not_subscription_t option \<times> u32 \<times> ('o, 'v) not_world) option" where
  "serve env sub w =
     (case sub_state sub of
        AGT_NOT_STATE_REPLAY \<Rightarrow>
          (if FL_RC_READY sub then (case replay_done env sub w of (sub, n, w) \<Rightarrow> Some (Some sub, n, w))
           else do { (sub, n, w) \<leftarrow> replay_next env sub w; Some (Some sub, n, w) })
      | AGT_NOT_STATE_TIMED \<Rightarrow> do { (sub, n, w) \<leftarrow> timed_next env sub w; Some (Some sub, n, w) }
      | AGT_NOT_STATE_LIVE \<Rightarrow> do { (_, sub, n, w) \<leftarrow> live_next env sub w; Some (Some sub, n, w) }
      | AGT_NOT_STATE_SHUTDOWN \<Rightarrow>
          (if stopTime sub \<noteq> None \<and> \<not> FL_NC_DONE sub
           then (case send_notificationComplete env sub w of (sub, w) \<Rightarrow> Some (Some (sub\<lparr>FL_NC_DONE := True\<rparr>), 1, w))
           else Some (None, 0, free_subscription sub w))
      | _ \<Rightarrow> Some (Some sub, 0, w))"

text \<open>\<open>kept\<close>: the subscriptions before the current one in the queue.\<close>

fun serve_loop ::
    "('o, 'v) not_env \<Rightarrow> 'v agt_not_subscription_t list \<Rightarrow> 'v agt_not_subscription_t list \<Rightarrow> ('o, 'v) not_world \<Rightarrow>
     (u32 \<times> ('o, 'v) not_world) option" where
  "serve_loop env kept [] w = Some (0, w\<lparr>subscriptionQ := kept\<rparr>)"
| "serve_loop env kept (sub # subs) w =
     do { (p, n, w) \<leftarrow> serve env sub w;
          (m, w) \<leftarrow> (case p of
             Some sub \<Rightarrow> serve_loop env (kept @ [sub]) subs w
           | None \<Rightarrow> serve_loop env kept subs (w\<lparr>anySubscriptions := (kept @ subs \<noteq> [])\<rparr>));
          Some (n + m, w) }"

definition agt_not_send_notifications :: "('o, 'v) not_env \<Rightarrow> ('o, 'v) not_world \<Rightarrow> (u32 \<times> ('o, 'v) not_world) option" where
  "agt_not_send_notifications env w =
     (if \<not> anySubscriptions w then Some (0, w) else serve_loop env [] (subscriptionQ w) w)"

definition agt_not_clean_eventlog :: "('o, 'v) not_env \<Rightarrow> ('o, 'v) not_world \<Rightarrow> ('o, 'v) not_world" where
  "agt_not_clean_eventlog env w =
     (if eventlog_size env > 0 then w
      else if \<not> anySubscriptions w then w\<lparr>notificationQ := []\<rparr>
      else (let lowest = fold (\<lambda>sub low. if lastmsgid sub \<noteq> 0 \<and> lastmsgid sub < low then lastmsgid sub else low)
                           (subscriptionQ w) (- 1)
            in w\<lparr>notificationQ := dropWhile (\<lambda>m. msgid m < lowest) (notificationQ w)\<rparr>))"

partial_function (option) send_loop ::
    "('o, 'v) not_env \<Rightarrow> u32 \<Rightarrow> ('o, 'v) not_world \<Rightarrow> ('o, 'v) not_world option" where
  "send_loop env sendtotal w =
     do { (n, w) \<leftarrow> agt_not_send_notifications env w;
          if n = 0 then Some w
          else if maxburst env \<noteq> 0 \<and> sendtotal + n \<ge> maxburst env then Some w
          else send_loop env (sendtotal + n) w }"

definition send_some_notifications :: "('o, 'v) not_env \<Rightarrow> ('o, 'v) not_world \<Rightarrow> ('o, 'v) not_world option" where
  "send_some_notifications env w =
     do { w \<leftarrow> send_loop env 0 w; Some (if eventlog_size env = 0 then agt_not_clean_eventlog env w else w) }"

section \<open>The end of subscriptions\<close>

definition agt_not_remove_subscription :: "u32 \<Rightarrow> ('o, 'v) not_world \<Rightarrow> ('o, 'v) not_world" where
  "agt_not_remove_subscription sid w =
     (if \<not> anySubscriptions w then w
      else case dropWhile (\<lambda>sub. sub_sid sub \<noteq> sid) (subscriptionQ w) of
             [] \<Rightarrow> w
           | sub # rest \<Rightarrow>
               (let q = takeWhile (\<lambda>sub. sub_sid sub \<noteq> sid) (subscriptionQ w) @ rest
                in (free_subscription sub w)\<lparr>subscriptionQ := q, anySubscriptions := (q \<noteq> [])\<rparr>))"

definition agt_not_cleanup :: "('o, 'v) not_world \<Rightarrow> ('o, 'v) not_world" where
  "agt_not_cleanup w = (fold free_subscription (subscriptionQ w) (init_static_vars w))\<lparr>subscriptionQ := [], notificationQ := []\<rparr>"

end
