(* ===== verification/Agt_Not_Props.thy ===== *)
theory Agt_Not_Props
  imports Agt_Not
begin

text \<open>
  The queue of events with its subscriptions: the invariant that relates the back pointers to the IDs, its preservation, and
  the properties.
\<close>

section \<open>The invariant\<close>

definition queue_ok :: "('o, 'v) agt_not_msg_t list \<Rightarrow> u32 \<Rightarrow> nat \<Rightarrow> bool" where
  "queue_ok q lim addr \<longleftrightarrow> sorted_wrt (\<lambda>m n. msgid m < msgid n) q \<and> distinct (map maddr q) \<and>
     (\<forall>m \<in> set q. 0 < msgid m \<and> msgid m \<le> lim \<and> maddr m < addr)"

text \<open>A pointer with its ID: to an entry of the queue, or the entry with the ID has been deleted and all others are newer.\<close>

definition ptr_ok :: "('o, 'v) agt_not_msg_t list \<Rightarrow> nat option \<Rightarrow> u32 \<Rightarrow> bool" where
  "ptr_ok q p i \<longleftrightarrow>
     (case p of Some a \<Rightarrow> (\<exists>m \<in> set q. maddr m = a \<and> msgid m = i) | None \<Rightarrow> (\<forall>m \<in> set q. i < msgid m))"

definition replaying :: "'v agt_not_subscription_t \<Rightarrow> bool" where
  "replaying sub \<longleftrightarrow> sub_state sub = AGT_NOT_STATE_REPLAY \<and> \<not> FL_RC_READY sub"

definition sub_ok :: "('o, 'v) agt_not_msg_t list \<Rightarrow> u32 \<Rightarrow> 'v agt_not_subscription_t \<Rightarrow> bool" where
  "sub_ok q lim sub \<longleftrightarrow> ptr_ok q (lastmsg sub) (lastmsgid sub) \<and> lastmsgid sub \<le> lim \<and>
     (replaying sub \<and> lastmsgid sub = 0 \<longrightarrow> ptr_ok q (firstreplaymsg sub) (firstreplaymsgid sub) \<and> firstreplaymsgid sub \<le> lim) \<and>
     sub_state sub \<notin> {AGT_NOT_STATE_NONE, AGT_NOT_STATE_INIT} \<and>
     (sub_state sub = AGT_NOT_STATE_TIMED \<longrightarrow> stopTime sub \<noteq> None)"

definition not_ok :: "u32 \<Rightarrow> ('o, 'v) not_world \<Rightarrow> bool" where
  "not_ok N w \<longleftrightarrow> queue_ok (notificationQ w) (last_msgid w) (next_addr w) \<and>
     (\<forall>sub \<in> set (subscriptionQ w). sub_ok (notificationQ w) (last_msgid w) sub) \<and>
     distinct (map sub_sid (subscriptionQ w)) \<and> anySubscriptions w = (subscriptionQ w \<noteq> []) \<and>
     (\<forall>sub \<in> set (subscriptionQ w). sub_sid sub \<noteq> 0) \<and>
     (N \<noteq> 0 \<longrightarrow> unat (notification_count w) = length (notificationQ w) \<and> notification_count w \<le> N)"

section \<open>Pointers and IDs\<close>

lemma queue_inj: "queue_ok q l k \<Longrightarrow> m \<in> set q \<Longrightarrow> n \<in> set q \<Longrightarrow> maddr m = maddr n \<Longrightarrow> m = n"
  unfolding queue_ok_def by (metis distinct_map inj_onD)

lemma queue_ok_Cons: "queue_ok (m # q) l k \<Longrightarrow> queue_ok q l k \<and> (\<forall>n \<in> set q. msgid m < msgid n \<and> maddr n \<noteq> maddr m)"
  unfolding queue_ok_def by (auto simp: image_iff)

lemma entry_after_id:
  "queue_ok q l k \<Longrightarrow> m \<in> set q \<Longrightarrow> entry_after (maddr m) q = Some (find (\<lambda>n. msgid m < msgid n) q)"
proof (induction q)
  case (Cons n q)
  show ?case
  proof (cases "m = n")
    case True
    have "find (\<lambda>x. msgid n < msgid x) q = first_entry q"
      using queue_ok_Cons [OF Cons.prems(1)] by (cases q) (auto simp: first_entry_def)
    then show ?thesis using True by (simp add: first_entry_def)
  next
    case False
    then have "m \<in> set q" using Cons.prems(2) by simp
    moreover from this have "maddr n \<noteq> maddr m" "msgid n < msgid m" using queue_ok_Cons [OF Cons.prems(1)] by metis+
    ultimately show ?thesis using Cons.IH queue_ok_Cons [OF Cons.prems(1)] by auto
  qed
qed simp

lemma find_all: "\<forall>m \<in> set q. P m \<Longrightarrow> find P q = first_entry q"
  by (cases q) (simp_all add: first_entry_def)

lemma next_live_id:
  assumes q: "queue_ok q l k" and s: "ptr_ok q (lastmsg sub) (lastmsgid sub)"
  shows "next_live sub q = Some (find (\<lambda>m. lastmsgid sub < msgid m) q)"
proof (cases "lastmsg sub")
  case None
  then have "find (\<lambda>m. lastmsgid sub < msgid m) q = first_entry q" using s by (intro find_all) (simp add: ptr_ok_def)
  then show ?thesis using None by (simp add: next_live_def get_entry_after_def)
next
  case (Some a)
  then obtain m where "m \<in> set q" "maddr m = a" "msgid m = lastmsgid sub" using s by (auto simp: ptr_ok_def)
  then show ?thesis using Some entry_after_id [OF q, of m] by (simp add: next_live_def)
qed

lemma find_at: "queue_ok q l k \<Longrightarrow> m \<in> set q \<Longrightarrow>
    find (\<lambda>n. maddr n = maddr m) q = Some m \<and> find (\<lambda>n. msgid m \<le> msgid n) q = Some m"
proof (induction q)
  case (Cons n q)
  show ?case
  proof (cases "m = n")
    case False
    then have m: "m \<in> set q" using Cons.prems(2) by simp
    then have "maddr n \<noteq> maddr m" "msgid n < msgid m" using queue_ok_Cons [OF Cons.prems(1)] by metis+
    then show ?thesis using Cons.IH [OF _ m] queue_ok_Cons [OF Cons.prems(1)] by auto
  qed simp
qed simp

lemma next_replay_id:
  assumes q: "queue_ok q l k" and s: "sub_ok q l sub" "replaying sub"
  shows "next_replay sub q = Some (find (\<lambda>m. if lastmsgid sub = 0 then firstreplaymsgid sub \<le> msgid m else lastmsgid sub < msgid m) q)"
proof (cases "lastmsgid sub = 0")
  case False
  have "next_replay sub q = next_live sub q" using False by (simp add: next_replay_def next_live_def split: option.split)
  then show ?thesis using next_live_id [OF q, of sub] s False by (simp add: sub_ok_def)
next
  case True
  then have "lastmsg sub = None"
    using s q by (auto simp: sub_ok_def ptr_ok_def queue_ok_def split: option.splits)
  moreover have f: "ptr_ok q (firstreplaymsg sub) (firstreplaymsgid sub)" using s True by (simp add: sub_ok_def)
  moreover have "get_entry_after i q = find (\<lambda>m. i \<le> msgid m) q" if "\<forall>m \<in> set q. i < msgid m" for i
    using that find_all [of q "\<lambda>m. i < msgid m"] find_all [of q "\<lambda>m. i \<le> msgid m"] by (simp add: get_entry_after_def less_imp_le)
  moreover have "\<exists>y. find (\<lambda>n. maddr n = a) q = Some y \<and> find (\<lambda>m. firstreplaymsgid sub \<le> msgid m) q = Some y"
    if p: "firstreplaymsg sub = Some a" for a
  proof -
    obtain m where "m \<in> set q" "maddr m = a" "msgid m = firstreplaymsgid sub" using f p by (auto simp: ptr_ok_def)
    then show ?thesis using find_at [OF q, of m] by simp
  qed
  ultimately show ?thesis
    using True by (cases "firstreplaymsg sub") (auto simp: next_replay_def ptr_ok_def)
qed

section \<open>A pass of the loop\<close>

text \<open>What of a message never changes.\<close>

definition key :: "('o, 'v) agt_not_msg_t \<Rightarrow> nat \<times> u32 \<times> string \<times> 'o" where
  "key m = (maddr m, msgid m, eventTime m, notobj m)"

definition same_events :: "('o, 'v) not_world \<Rightarrow> ('o, 'v) not_world \<Rightarrow> bool" where
  "same_events w w' \<longleftrightarrow> map key (notificationQ w') = map key (notificationQ w) \<and> last_msgid w' = last_msgid w \<and>
     subscriptionQ w' = subscriptionQ w \<and> notification_count w' = notification_count w \<and> next_addr w \<le> next_addr w' \<and>
     anySubscriptions w' = anySubscriptions w"

lemma same_events_refl [simp]: "same_events w w"
  by (simp add: same_events_def)

lemma same_events_trans: "same_events w w' \<Longrightarrow> same_events w' w'' \<Longrightarrow> same_events w w''"
  by (simp add: same_events_def)

lemma key_image: "(\<exists>m \<in> set q. P (msgid m) (maddr m)) \<longleftrightarrow> (\<exists>x \<in> key ` set q. P (fst (snd x)) (fst x))"
  by (simp add: key_def)

lemma set_keys:
  assumes "map key q' = map key q"
  shows "(\<exists>m \<in> set q'. P (msgid m) (maddr m)) \<longleftrightarrow> (\<exists>m \<in> set q. P (msgid m) (maddr m))"
proof -
  have "key ` set q' = key ` set q" using arg_cong [OF assms, of set] by simp
  then show ?thesis unfolding key_image by simp
qed

lemma all_keys: "map key q' = map key q \<Longrightarrow> (\<forall>m \<in> set q'. P (msgid m) (maddr m)) \<longleftrightarrow> (\<forall>m \<in> set q. P (msgid m) (maddr m))"
  using set_keys [of q' q "\<lambda>i a. \<not> P i a"] by blast

lemma queue_ok_keys:
  assumes "map key q' = map key q" "k \<le> k'" "queue_ok q l k"
  shows "queue_ok q' l k'"
proof -
  have sel: "map msgid q = map (fst \<circ> snd) (map key q)" "map maddr q = map fst (map key q)" for q :: "('o, 'v) agt_not_msg_t list"
    by (simp_all add: key_def)
  then have "map msgid q' = map msgid q" "map maddr q' = map maddr q" using assms(1) by metis+
  moreover have "\<forall>m \<in> set q'. 0 < msgid m \<and> msgid m \<le> l \<and> maddr m < k'"
    using assms all_keys [OF assms(1), of "\<lambda>i a. 0 < i \<and> i \<le> l \<and> a < k'"] by (auto simp: queue_ok_def)
  ultimately show ?thesis using assms(3) unfolding queue_ok_def by (metis sorted_wrt_map)
qed

lemma sub_ok_keys: "map key q' = map key q \<Longrightarrow> sub_ok q' l sub = sub_ok q l sub"
  using set_keys [of q' q "\<lambda>i a. a = x \<and> i = y" for x y] all_keys [of q' q "\<lambda>i a. y < i" for y]
  by (simp add: sub_ok_def ptr_ok_def split: option.split)

text \<open>How much is left to do for a subscription: its messages to come and its state.\<close>

definition stage :: "'v agt_not_subscription_t \<Rightarrow> nat" where
  "stage sub =
     (case sub_state sub of
        AGT_NOT_STATE_REPLAY \<Rightarrow> (if \<not> FL_RC_READY sub then 5 else if \<not> FL_RC_DONE sub then 4 else 3)
      | AGT_NOT_STATE_SHUTDOWN \<Rightarrow> (if stopTime sub \<noteq> None \<and> \<not> FL_NC_DONE sub then 1 else 0)
      | _ \<Rightarrow> 2)"

definition weight :: "('o, 'v) agt_not_msg_t list \<Rightarrow> 'v agt_not_subscription_t \<Rightarrow> nat" where
  "weight q sub = length (filter (\<lambda>m. lastmsgid sub < msgid m) q) + stage sub"

lemma weight_next:
  assumes "m \<in> set q" "lastmsgid sub < msgid m" "lastmsgid sub' = msgid m" "stage sub' \<le> stage sub"
  shows "weight q sub' + 1 \<le> weight q sub"
proof -
  have "filter (\<lambda>x. msgid m < msgid x) q = filter (\<lambda>x. msgid m < msgid x) (filter (\<lambda>x. lastmsgid sub < msgid x) q)"
    using assms(2) by (auto intro!: filter_cong)
  also have "length \<dots> < length (filter (\<lambda>x. lastmsgid sub < msgid x) q)"
    by (rule length_filter_less [where x = m]) (use assms in auto)
  finally show ?thesis using assms(3,4) by (simp add: weight_def)
qed

definition good_pass ::
    "('o, 'v) not_env \<Rightarrow> ('o, 'v) not_world \<Rightarrow> 'v agt_not_subscription_t \<Rightarrow>
     'v agt_not_subscription_t option \<times> u32 \<times> ('o, 'v) not_world \<Rightarrow> bool" where
  "good_pass env w sub r \<longleftrightarrow>
     (case r of (p, n, w') \<Rightarrow> same_events w w' \<and> n \<le> 1 \<and>
        (case p of
           None \<Rightarrow> n = 0
         | Some sub' \<Rightarrow>
             sub_ok (notificationQ w) (last_msgid w) sub' \<and> sub_sid sub' = sub_sid sub \<and>
             (replaying sub' \<longrightarrow> lastmsgid sub' \<noteq> 0) \<and>
             weight (notificationQ w) sub' + unat n \<le> weight (notificationQ w) sub \<and>
             (sub_state sub = AGT_NOT_STATE_LIVE \<longrightarrow>
                sub_state sub' \<in> {AGT_NOT_STATE_LIVE, AGT_NOT_STATE_SHUTDOWN} \<and>
                (n = 0 \<and> (\<forall>obj. p_allowed env (sub_sid sub) obj) \<longrightarrow>
                   (\<forall>m \<in> set (notificationQ w). msgid m \<le> lastmsgid sub'))) \<and>
             (sub_state sub = AGT_NOT_STATE_SHUTDOWN \<longrightarrow> sub_state sub' = AGT_NOT_STATE_SHUTDOWN)))"

lemma send_notification_cases:
  assumes "send_notification env sub m c w = (res, m', w')"
  obtains e where "key m' = key m" "w' = w\<lparr>sent := e\<rparr>"
proof (rule that)
  show "key m' = key m" "w' = w\<lparr>sent := sent w'\<rparr>"
    using assms by (auto simp: send_notification_def build_msg_def key_def split: prod.splits option.splits if_splits)
qed

lemma deliver_same:
  assumes q: "queue_ok (notificationQ w) l k" "m \<in> set (notificationQ w)" and d: "deliver env sub m w = (res, n, w')"
  shows "same_events w w' \<and> n \<le> 1 \<and> (n = 0 \<longrightarrow> \<not> p_allowed env (sub_sid sub) (notobj m))"
proof (cases "p_allowed env (sub_sid sub) (notobj m)")
  case True
  obtain m' w1 where s: "send_notification env sub m True w = (res, m', w1)" "w' = upd_msg m' w1" "n = 1"
    using d True by (auto simp: deliver_def split: prod.splits)
  obtain e where e: "key m' = key m" "w1 = w\<lparr>sent := e\<rparr>" by (rule send_notification_cases [OF s(1)])
  have "key x = key m'" if "x \<in> set (notificationQ w)" "maddr x = maddr m'" for x
    using queue_inj [OF q(1) that(1) q(2)] that(2) e(1) by (simp add: key_def)
  then have "map key (notificationQ w') = map key (notificationQ w)" using s(2) e(2) by (auto simp: upd_msg_def)
  then show ?thesis using s e(2) True by (simp add: same_events_def upd_msg_def)
qed (use d in \<open>simp add: deliver_def\<close>)

lemma send_complete_same:
  assumes "send_complete env obj sub w = (sub', w')"
  shows "same_events w w' \<and> sub' \<in> {sub, sub\<lparr>sub_state := AGT_NOT_STATE_SHUTDOWN\<rparr>}"
proof (cases "p_new env")
  case True
  obtain m w1 where n: "new_notification env obj False [] w = (Some m, w1)" "w1 = w\<lparr>next_addr := next_addr w + 1\<rparr>"
    using True by (simp add: new_notification_def Let_def)
  obtain res m' w2 where s: "send_notification env sub m False w1 = (res, m', w2)" by (metis prod_cases3)
  then obtain e where "w2 = w1\<lparr>sent := e\<rparr>" by (rule send_notification_cases)
  then show ?thesis using assms n s by (auto simp: send_complete_def same_events_def split: if_splits)
qed (use assms in \<open>simp add: send_complete_def new_notification_def\<close>)

lemma complete_same:
  "send_replayComplete env sub w = (sub', w') \<Longrightarrow> same_events w w' \<and> sub' \<in> {sub, sub\<lparr>sub_state := AGT_NOT_STATE_SHUTDOWN\<rparr>}"
  "send_notificationComplete env sub w = (sub', w') \<Longrightarrow> same_events w w' \<and> sub' \<in> {sub, sub\<lparr>sub_state := AGT_NOT_STATE_SHUTDOWN\<rparr>}"
  unfolding send_replayComplete_def send_notificationComplete_def by (erule send_complete_same)+

lemma unat_le_1: "(n :: u32) \<le> 1 \<Longrightarrow> unat n \<le> 1"
  by (simp add: word_le_nat_alt)

text \<open>The subscription stays where it is, or moves on to a message.\<close>

lemma good_moved:
  assumes "same_events w w'" "n \<le> 1" "sub_ok (notificationQ w) (last_msgid w) sub"
    and "lastmsg sub' = lastmsg sub" "lastmsgid sub' = lastmsgid sub" "sub_sid sub' = sub_sid sub" "stopTime sub' = stopTime sub"
    and "\<not> replaying sub'" "sub_state sub' \<notin> {AGT_NOT_STATE_NONE, AGT_NOT_STATE_INIT}"
    and "sub_state sub' = AGT_NOT_STATE_TIMED \<Longrightarrow> stopTime sub \<noteq> None"
    and "stage sub' + unat n \<le> stage sub" "sub_state sub \<noteq> AGT_NOT_STATE_LIVE"
    and "sub_state sub = AGT_NOT_STATE_SHUTDOWN \<Longrightarrow> sub_state sub' = AGT_NOT_STATE_SHUTDOWN"
  shows "good_pass env w sub (Some sub', n, w')"
  using assms by (simp add: good_pass_def sub_ok_def weight_def)

lemma good_next:
  assumes "same_events w w'" "n \<le> 1" "queue_ok (notificationQ w) (last_msgid w) k" "m \<in> set (notificationQ w)" "lastmsgid sub < msgid m"
    and "lastmsg sub' = Some (maddr m)" "lastmsgid sub' = msgid m" "sub_sid sub' = sub_sid sub" "stopTime sub' = stopTime sub"
    and "sub_state sub' \<notin> {AGT_NOT_STATE_NONE, AGT_NOT_STATE_INIT}"
    and "sub_state sub' = AGT_NOT_STATE_TIMED \<Longrightarrow> stopTime sub \<noteq> None"
    and "stage sub' \<le> stage sub"
    and "sub_state sub = AGT_NOT_STATE_LIVE \<Longrightarrow> sub_state sub' \<in> {AGT_NOT_STATE_LIVE, AGT_NOT_STATE_SHUTDOWN}"
    and "n = 0 \<Longrightarrow> \<not> p_allowed env (sub_sid sub) (notobj m)" "sub_state sub \<noteq> AGT_NOT_STATE_SHUTDOWN"
  shows "good_pass env w sub (Some sub', n, w')"
proof -
  have m: "0 < msgid m" "msgid m \<le> last_msgid w" using assms(3,4) by (auto simp: queue_ok_def)
  have "ptr_ok (notificationQ w) (lastmsg sub') (lastmsgid sub')" using assms(4,6,7) by (auto simp: ptr_ok_def)
  moreover have "weight (notificationQ w) sub' + unat n \<le> weight (notificationQ w) sub"
    using weight_next [OF assms(4,5,7,12)] unat_le_1 [OF assms(2)] by simp
  ultimately show ?thesis using assms m by (auto simp: good_pass_def sub_ok_def)
qed

lemma replay_done_good:
  assumes ok: "sub_ok (notificationQ w) (last_msgid w) sub" and st: "sub_state sub = AGT_NOT_STATE_REPLAY" "FL_RC_READY sub"
    and r: "replay_done env sub w = (sub', n, w')"
  shows "good_pass env w sub (Some sub', n, w')"
proof (cases "FL_RC_DONE sub \<and> (stopTime sub = None \<or> FL_FUTURESTOP sub)")
  case True
  then have "w' = w" "n = 0" "sub' = sub\<lparr>sub_state := if stopTime sub = None then AGT_NOT_STATE_LIVE else AGT_NOT_STATE_TIMED\<rparr>"
    using r by (auto simp: replay_done_def split: if_splits)
  then show ?thesis using ok st True by (intro good_moved) (simp_all add: replaying_def stage_def split: if_splits)
next
  case fin: False
  show ?thesis
  proof (cases "FL_RC_DONE sub")
    case True
    obtain sub1 w1 where s: "send_notificationComplete env (sub\<lparr>FL_NC_READY := True\<rparr>) w = (sub1, w1)" by fastforce
    then have "w' = w1" "n = 1" "sub' = sub1\<lparr>FL_NC_DONE := True, sub_state := AGT_NOT_STATE_SHUTDOWN\<rparr>"
      using r fin True by (auto simp: replay_done_def)
    then show ?thesis using complete_same(2) [OF s] ok st True by (intro good_moved) (auto simp: replaying_def stage_def)
  next
    case False
    obtain sub1 w1 where s: "send_replayComplete env sub w = (sub1, w1)" by fastforce
    then have "w' = w1" "n = 1" "sub' = sub1\<lparr>FL_RC_DONE := True\<rparr>" using r False by (auto simp: replay_done_def)
    then show ?thesis using complete_same(1) [OF s] ok st False by (intro good_moved) (auto simp: replaying_def stage_def)
  qed
qed

lemma replay_next_good:
  assumes q: "queue_ok (notificationQ w) (last_msgid w) k" and ok: "sub_ok (notificationQ w) (last_msgid w) sub"
    and st: "replaying sub"
  shows "\<exists>sub' n w'. replay_next env sub w = Some (sub', n, w') \<and> good_pass env w sub (Some sub', n, w')"
proof -
  let ?next = "\<lambda>m. if lastmsgid sub = 0 then firstreplaymsgid sub \<le> msgid m else lastmsgid sub < msgid m"
  note next_id = next_replay_id [OF q ok st]
  have live: "sub_state sub \<noteq> AGT_NOT_STATE_LIVE" "sub_state sub = AGT_NOT_STATE_REPLAY" "stage sub = 5"
    using st by (auto simp: replaying_def stage_def)
  show ?thesis
  proof (cases "find ?next (notificationQ w)")
    case None
    obtain sub1 w1 where s: "send_replayComplete env (sub\<lparr>FL_RC_READY := True\<rparr>) w = (sub1, w1)" by fastforce
    let ?sub' = "let sub = sub1\<lparr>FL_RC_DONE := True\<rparr>
      in (if stopTime sub \<noteq> None
          then (if FL_FUTURESTOP sub then sub\<lparr>sub_state := AGT_NOT_STATE_TIMED\<rparr> else sub\<lparr>FL_NC_READY := True\<rparr>)
          else sub\<lparr>sub_state := AGT_NOT_STATE_LIVE\<rparr>)"
    have "replay_next env sub w = Some (?sub', 1, w1)" using next_id None s by (simp add: replay_next_def Let_def)
    moreover have "good_pass env w sub (Some ?sub', 1, w1)"
      using complete_same(1) [OF s] ok live by (intro good_moved) (auto simp: replaying_def stage_def Let_def split: if_splits)
    ultimately show ?thesis by blast
  next
    case (Some m)
    then have m: "m \<in> set (notificationQ w)" "?next m" by (auto simp: find_Some_iff)
    then have less: "lastmsgid sub < msgid m" using q by (auto simp: queue_ok_def split: if_splits)
    obtain res n w1 where d: "deliver env sub m w = (res, n, w1)" by (metis prod_cases3)
    note same = deliver_same [OF q m(1) d]
    show ?thesis
    proof (cases "fatal res")
      case True
      have "good_pass env w sub (Some (sub\<lparr>sub_state := AGT_NOT_STATE_SHUTDOWN\<rparr>), n, w1)"
        using same ok live unat_le_1 [of n] by (intro good_moved) (auto simp: replaying_def stage_def)
      then show ?thesis using next_id Some d True by (auto simp: replay_next_def)
    next
      case False
      let ?sub' = "sub\<lparr>lastmsg := Some (maddr m), lastmsgid := msgid m,
        FL_RC_READY := (FL_RC_READY sub \<or> lastreplaymsg sub = Some (maddr m) \<or>
          lastreplaymsgid sub \<noteq> 0 \<and> lastreplaymsgid sub \<le> msgid m)\<rparr>"
      have "good_pass env w sub (Some ?sub', n, w1)"
        using same live by (intro good_next [OF _ _ q m(1) less]) (auto simp: stage_def)
      then show ?thesis using next_id Some d False by (auto simp: replay_next_def)
    qed
  qed
qed

lemma live_next_cases:
  assumes q: "queue_ok (notificationQ w) (last_msgid w) k" and ok: "sub_ok (notificationQ w) (last_msgid w) sub"
  obtains (idle) "live_next env sub w = Some (None, sub, 0, w)" "\<forall>m \<in> set (notificationQ w). msgid m \<le> lastmsgid sub"
  | (moved) m res n w' where "m \<in> set (notificationQ w)" "lastmsgid sub < msgid m"
      "live_next env sub w = Some (Some m,
        if fatal res then sub\<lparr>lastmsg := Some (maddr m), lastmsgid := msgid m, sub_state := AGT_NOT_STATE_SHUTDOWN\<rparr>
        else sub\<lparr>lastmsg := Some (maddr m), lastmsgid := msgid m\<rparr>, n, w')"
      "same_events w w'" "n \<le> 1" "n = 0 \<longrightarrow> \<not> p_allowed env (sub_sid sub) (notobj m)"
proof (cases "find (\<lambda>m. lastmsgid sub < msgid m) (notificationQ w)")
  case None
  then have "\<forall>m \<in> set (notificationQ w). msgid m \<le> lastmsgid sub" by (auto simp: find_None_iff)
  then show ?thesis using idle None next_live_id [OF q, of sub] ok by (simp add: live_next_def sub_ok_def)
next
  case (Some m)
  then have m: "m \<in> set (notificationQ w)" "lastmsgid sub < msgid m" by (auto simp: find_Some_iff)
  let ?sub = "sub\<lparr>lastmsg := Some (maddr m), lastmsgid := msgid m\<rparr>"
  obtain res n w1 where d: "deliver env ?sub m w = (res, n, w1)" by (metis prod_cases3)
  show ?thesis
    using moved [OF m, of res n w1] deliver_same [OF q m(1) d] d Some next_live_id [OF q, of sub] ok
    by (simp add: live_next_def sub_ok_def)
qed

lemma serve_good:
  fixes w :: "('o, 'v) not_world"
  assumes q: "queue_ok (notificationQ w) (last_msgid w) k" and ok: "sub_ok (notificationQ w) (last_msgid w) sub"
  shows "\<exists>r. serve env sub w = Some r \<and> good_pass env w sub r"
proof (cases "sub_state sub")
  case AGT_NOT_STATE_REPLAY
  show ?thesis
  proof (cases "FL_RC_READY sub")
    case True
    then show ?thesis
      using replay_done_good [OF ok AGT_NOT_STATE_REPLAY True, of env] AGT_NOT_STATE_REPLAY by (auto simp: serve_def split: prod.split)
  next
    case False
    then show ?thesis
      using replay_next_good [OF q ok, of env] AGT_NOT_STATE_REPLAY by (auto simp: serve_def replaying_def)
  qed
next
  case AGT_NOT_STATE_LIVE
  show ?thesis
  proof (rule live_next_cases [OF q ok, of env])
    assume "live_next env sub w = Some (None, sub, 0, w)" "\<forall>m \<in> set (notificationQ w). msgid m \<le> lastmsgid sub"
    then show ?thesis using AGT_NOT_STATE_LIVE ok by (simp add: serve_def good_pass_def replaying_def)
  next
    fix m :: "('o, 'v) agt_not_msg_t" and res n w'
    let ?sub = "if fatal res then sub\<lparr>lastmsg := Some (maddr m), lastmsgid := msgid m, sub_state := AGT_NOT_STATE_SHUTDOWN\<rparr>
        else sub\<lparr>lastmsg := Some (maddr m), lastmsgid := msgid m\<rparr>"
    assume m: "m \<in> set (notificationQ w)" "lastmsgid sub < msgid m" "live_next env sub w = Some (Some m, ?sub, n, w')"
        "same_events w w'" "n \<le> 1" "n = 0 \<longrightarrow> \<not> p_allowed env (sub_sid sub) (notobj m)"
    have "good_pass env w sub (Some ?sub, n, w')"
      using AGT_NOT_STATE_LIVE m(6) by (intro good_next [OF m(4,5) q m(1,2)]) (auto simp: stage_def split: if_splits)
    then show ?thesis using AGT_NOT_STATE_LIVE m(3) by (simp add: serve_def)
  qed
next
  case AGT_NOT_STATE_TIMED
  then have stop: "stopTime sub \<noteq> None" using ok by (simp add: sub_ok_def)
  show ?thesis
  proof (rule live_next_cases [OF q ok, of env])
    assume "live_next env sub w = Some (None, sub, 0, w)"
    moreover have "good_pass env w sub (Some (if b then sub\<lparr>FL_NC_READY := True, sub_state := AGT_NOT_STATE_SHUTDOWN\<rparr> else sub), 0, w)" for b
      using AGT_NOT_STATE_TIMED ok stop by (intro good_moved) (auto simp: replaying_def stage_def)
    ultimately show ?thesis using AGT_NOT_STATE_TIMED by (simp add: serve_def timed_next_def Let_def)
  next
    fix m :: "('o, 'v) agt_not_msg_t" and res n w'
    let ?sub = "if fatal res then sub\<lparr>lastmsg := Some (maddr m), lastmsgid := msgid m, sub_state := AGT_NOT_STATE_SHUTDOWN\<rparr>
        else sub\<lparr>lastmsg := Some (maddr m), lastmsgid := msgid m\<rparr>"
    assume m: "m \<in> set (notificationQ w)" "lastmsgid sub < msgid m" "live_next env sub w = Some (Some m, ?sub, n, w')"
        "same_events w w'" "n \<le> 1" "n = 0 \<longrightarrow> \<not> p_allowed env (sub_sid sub) (notobj m)"
    have "good_pass env w sub (Some (if b then ?sub\<lparr>FL_NC_READY := True, sub_state := AGT_NOT_STATE_SHUTDOWN\<rparr> else ?sub), n, w')" for b
      using AGT_NOT_STATE_TIMED m(6) stop by (intro good_next [OF m(4,5) q m(1,2)]) (auto simp: stage_def)
    then show ?thesis using AGT_NOT_STATE_TIMED m(3) by (simp add: serve_def timed_next_def Let_def)
  qed
next
  case AGT_NOT_STATE_SHUTDOWN
  show ?thesis
  proof (cases "stopTime sub \<noteq> None \<and> \<not> FL_NC_DONE sub")
    case True
    obtain sub1 w1 where s: "send_notificationComplete env sub w = (sub1, w1)" by fastforce
    have "good_pass env w sub (Some (sub1\<lparr>FL_NC_DONE := True\<rparr>), 1, w1)"
      using complete_same(2) [OF s] ok True AGT_NOT_STATE_SHUTDOWN by (intro good_moved) (auto simp: replaying_def stage_def)
    then show ?thesis using True s AGT_NOT_STATE_SHUTDOWN by (simp add: serve_def)
  next
    case False
    then show ?thesis
      using AGT_NOT_STATE_SHUTDOWN by (auto simp: serve_def good_pass_def same_events_def free_subscription_def)
  qed
qed (use ok in \<open>simp_all add: sub_ok_def\<close>)

section \<open>A call\<close>

definition same_queue :: "('o, 'v) not_world \<Rightarrow> ('o, 'v) not_world \<Rightarrow> bool" where
  "same_queue w w' \<longleftrightarrow> map key (notificationQ w') = map key (notificationQ w) \<and> last_msgid w' = last_msgid w \<and>
     notification_count w' = notification_count w \<and> next_addr w \<le> next_addr w'"

lemma same_queue_simps [simp]: "same_queue w w" "same_queue w (w'\<lparr>subscriptionQ := q\<rparr>) = same_queue w w'"
  by (simp_all add: same_queue_def)

lemma same_queue_trans: "same_queue w w' \<Longrightarrow> same_queue w' w'' \<Longrightarrow> same_queue w w''"
  by (simp add: same_queue_def)

lemma same_queue_ok:
  "same_queue w w' \<Longrightarrow> queue_ok (notificationQ w) (last_msgid w) (next_addr w) \<Longrightarrow>
     queue_ok (notificationQ w') (last_msgid w') (next_addr w')"
  using queue_ok_keys [of "notificationQ w'" "notificationQ w" "next_addr w" "next_addr w'" "last_msgid w"] by (simp add: same_queue_def)

lemma same_queue_sub: "same_queue w w' \<Longrightarrow> sub_ok (notificationQ w') (last_msgid w') sub = sub_ok (notificationQ w) (last_msgid w) sub"
  using sub_ok_keys [of "notificationQ w'" "notificationQ w"] by (simp add: same_queue_def)

lemma filter_key_image: "length (filter (\<lambda>m. i < msgid m) q) = length (filter (\<lambda>x. i < fst (snd x)) (map key q))"
  by (simp add: filter_map o_def key_def)

lemma filter_keys: "map key q' = map key q \<Longrightarrow> length (filter (\<lambda>m. i < msgid m) q') = length (filter (\<lambda>m. i < msgid m) q)"
  unfolding filter_key_image by simp

lemma same_queue_weight: "same_queue w w' \<Longrightarrow> weight (notificationQ w') sub = weight (notificationQ w) sub"
  using filter_keys [of "notificationQ w'" "notificationQ w"] by (simp add: same_queue_def weight_def)

lemma same_queue_all:
  "same_queue w w' \<Longrightarrow> (\<forall>m \<in> set (notificationQ w'). msgid m \<le> i) = (\<forall>m \<in> set (notificationQ w). msgid m \<le> i)"
  unfolding same_queue_def using all_keys [of "notificationQ w'" "notificationQ w" "\<lambda>j a. j \<le> i"] by simp

text \<open>What becomes of a subscription in a call that sends \<open>c\<close> messages.\<close>

definition served ::
    "('o, 'v) not_env \<Rightarrow> ('o, 'v) agt_not_msg_t list \<Rightarrow> nat \<Rightarrow> 'v agt_not_subscription_t \<Rightarrow> 'v agt_not_subscription_t \<Rightarrow> bool" where
  "served env q c sub sub' \<longleftrightarrow> sub_sid sub' = sub_sid sub \<and>
     (sub_state sub = AGT_NOT_STATE_LIVE \<longrightarrow>
        sub_state sub' \<in> {AGT_NOT_STATE_LIVE, AGT_NOT_STATE_SHUTDOWN} \<and>
        (c = 0 \<and> (\<forall>obj. p_allowed env (sub_sid sub) obj) \<longrightarrow> (\<forall>m \<in> set q. msgid m \<le> lastmsgid sub'))) \<and>
     (sub_state sub = AGT_NOT_STATE_SHUTDOWN \<longrightarrow> sub_state sub' = AGT_NOT_STATE_SHUTDOWN)"

lemma served_less: "served env q c sub sub' \<Longrightarrow> c \<le> d \<Longrightarrow> served env q d sub sub'"
  by (auto simp: served_def)

definition loop_ok ::
    "('o, 'v) not_env \<Rightarrow> ('o, 'v) not_world \<Rightarrow> 'v agt_not_subscription_t list \<Rightarrow> 'v agt_not_subscription_t list \<Rightarrow> nat \<Rightarrow> bool" where
  "loop_ok env w subs subs' c \<longleftrightarrow> c \<le> length subs \<and>
     (\<forall>sub' \<in> set subs'. sub_ok (notificationQ w) (last_msgid w) sub' \<and> (replaying sub' \<longrightarrow> lastmsgid sub' \<noteq> 0) \<and>
        (\<exists>sub \<in> set subs. served env (notificationQ w) c sub sub')) \<and>
     (distinct (map sub_sid subs) \<longrightarrow> distinct (map sub_sid subs')) \<and>
     sum_list (map (weight (notificationQ w)) subs') + c \<le> sum_list (map (weight (notificationQ w)) subs)"

lemma loop_ok_keys:
  assumes "same_queue w w'" "loop_ok env w' subs subs' c"
  shows "loop_ok env w subs subs' c"
proof -
  have "served env (notificationQ w') c sub sub' = served env (notificationQ w) c sub sub'" for sub sub'
    using same_queue_all [OF assms(1)] by (simp add: served_def)
  then show ?thesis using assms(2) same_queue_sub [OF assms(1)] same_queue_weight [OF assms(1)] by (simp add: loop_ok_def cong: map_cong)
qed

lemma serve_loop_ok:
  fixes w :: "('o, 'v) not_world"
  assumes "queue_ok (notificationQ w) (last_msgid w) (next_addr w)"
    and "\<forall>sub \<in> set subs. sub_ok (notificationQ w) (last_msgid w) sub"
    and "anySubscriptions w = (kept @ subs \<noteq> [])"
  shows "\<exists>c w' subs'. serve_loop env kept subs w = Some (of_nat c, w') \<and> subscriptionQ w' = kept @ subs' \<and>
    anySubscriptions w' = (kept @ subs' \<noteq> []) \<and> same_queue w w' \<and> loop_ok env w subs subs' c"
  using assms
proof (induction subs arbitrary: kept w)
  case Nil
  then show ?case by (intro exI [of _ "0 :: nat"]) (simp add: loop_ok_def)
next
  case (Cons sub subs)
  obtain p n w1 where s: "serve env sub w = Some (p, n, w1)" "good_pass env w sub (p, n, w1)"
    using serve_good [OF Cons.prems(1), of sub env] Cons.prems(2) by auto
  have same: "same_queue w w1" "anySubscriptions w1 = anySubscriptions w" and n1: "n \<le> 1"
    using s(2) by (simp_all add: good_pass_def same_events_def same_queue_def)
  have n: "of_nat (unat n) = n" "unat n \<le> 1" using unat_le_1 [OF n1] by simp_all
  have q: "queue_ok (notificationQ w1) (last_msgid w1) (next_addr w1)" using same_queue_ok [OF same(1) Cons.prems(1)] .
  have subs: "\<forall>sub \<in> set subs. sub_ok (notificationQ w1) (last_msgid w1) sub"
    using Cons.prems(2) same_queue_sub [OF same(1)] by simp
  show ?case
  proof (cases p)
    case None
    let ?w1 = "w1\<lparr>anySubscriptions := (kept @ subs \<noteq> [])\<rparr>"
    have sq: "same_queue w ?w1" using same(1) by (simp add: same_queue_def)
    obtain c w2 subs' where r: "serve_loop env kept subs ?w1 = Some (of_nat c, w2)" "subscriptionQ w2 = kept @ subs'"
        "anySubscriptions w2 = (kept @ subs' \<noteq> [])" "same_queue ?w1 w2" "loop_ok env ?w1 subs subs' c"
      using Cons.IH [of ?w1 kept] q subs by auto
    have "loop_ok env w subs subs' c" using loop_ok_keys [OF sq r(5)] .
    then have "loop_ok env w (sub # subs) subs' c" by (auto simp: loop_ok_def)
    moreover have "n = 0" using s(2) None by (simp add: good_pass_def)
    ultimately show ?thesis
      using r s(1) None same_queue_trans [OF sq r(4)] by (intro exI [of _ c] exI [of _ w2] exI [of _ subs']) simp
  next
    case (Some sub')
    obtain c w2 subs' where r: "serve_loop env (kept @ [sub']) subs w1 = Some (of_nat c, w2)" "subscriptionQ w2 = kept @ sub' # subs'"
        "anySubscriptions w2" "same_queue w1 w2" "loop_ok env w1 subs subs' c"
      using Cons.IH [of w1 "kept @ [sub']"] q subs same(2) Cons.prems(3) by auto
    have l: "loop_ok env w subs subs' c" using loop_ok_keys [OF same(1) r(5)] .
    have sid: "sub_sid ` set subs' \<subseteq> sub_sid ` set subs" using l by (auto simp: loop_ok_def served_def)
    have "served env (notificationQ w) (unat n) sub sub'" "sub_sid sub' = sub_sid sub"
      using s(2) Some by (auto simp: good_pass_def served_def unat_eq_zero)
    then have h: "served env (notificationQ w) (unat n + c) sub sub'" "sub_sid sub' = sub_sid sub"
      by (auto intro: served_less)
    have t: "\<exists>sub \<in> set subs. served env (notificationQ w) (unat n + c) sub x" if "x \<in> set subs'" for x
      using l that served_less [of env "notificationQ w" c _ x "unat n + c"] unfolding loop_ok_def by fastforce
    have g: "sub_ok (notificationQ w) (last_msgid w) sub'" "replaying sub' \<longrightarrow> lastmsgid sub' \<noteq> 0"
        "weight (notificationQ w) sub' + unat n \<le> weight (notificationQ w) sub"
      using s(2) Some by (auto simp: good_pass_def)
    have d: "distinct (map sub_sid (sub # subs)) \<longrightarrow> distinct (map sub_sid (sub' # subs'))"
      using l sid h(2) by (auto simp: loop_ok_def)
    have "\<exists>sub \<in> set (sub # subs). served env (notificationQ w) (unat n + c) sub x" if "x \<in> set (sub' # subs')" for x
      using that h(1) t by auto
    then have "loop_ok env w (sub # subs) (sub' # subs') (unat n + c)"
      using l g d n(2) by (simp add: loop_ok_def)
    moreover have "n + of_nat c = of_nat (unat n + c)" by simp
    ultimately show ?thesis
      using r s(1) Some same_queue_trans [OF same(1) r(4)]
      by (intro exI [of _ "unat n + c"] exI [of _ w2] exI [of _ "sub' # subs'"]) simp
  qed
qed

end
