(* ===== verification/Agt_Not_Main.thy ===== *)
theory Agt_Not_Main
  imports Agt_Not_Props
begin

text \<open>Runs of the notification module, the invariant along them, and the properties.\<close>

section \<open>The operations keep the invariant\<close>

lemma start_replay_keeps:
  "sub_sid (start_replay t q sub) = sub_sid sub" "lastmsg (start_replay t q sub) = lastmsg sub"
  "lastmsgid (start_replay t q sub) = lastmsgid sub" "sub_state (start_replay t q sub) = AGT_NOT_STATE_REPLAY"
  "stopTime (start_replay t q sub) = stopTime sub"
  by (simp_all add: start_replay_def Let_def split: list.split option.split)

lemma start_replay_ptr:
  assumes "queue_ok q lim k" "replaying (start_replay t q sub)"
  shows "ptr_ok q (firstreplaymsg (start_replay t q sub)) (firstreplaymsgid (start_replay t q sub)) \<and>
    firstreplaymsgid (start_replay t q sub) \<le> lim"
proof (cases "dropWhile (\<lambda>n. \<not> xml_strcmp t (eventTime n) \<le> 0) q")
  case Nil
  have "start_replay t q sub = sub\<lparr>sub_state := AGT_NOT_STATE_REPLAY, FL_RC_READY := True\<rparr>"
    unfolding start_replay_def Let_def Nil by simp
  then show ?thesis using assms(2) by (simp add: replaying_def)
next
  case (Cons n ms)
  then have n: "n \<in> set q" by (metis list.set_intros(1) set_dropWhileD)
  have "firstreplaymsg (start_replay t q sub) = Some (maddr n)" "firstreplaymsgid (start_replay t q sub) = msgid n"
    using assms(2) Cons by (auto simp: start_replay_def Let_def replaying_def split: option.splits if_splits)
  then show ?thesis using n assms(1) by (auto simp: ptr_ok_def queue_ok_def)
qed

text \<open>A subscription as the validate phase makes it.\<close>

definition fresh_sub :: "'v agt_not_subscription_t \<Rightarrow> bool" where
  "fresh_sub sub \<longleftrightarrow> lastmsg sub = None \<and> lastmsgid sub = 0"

lemma new_subscription_cases:
  assumes "new_subscription env sid t start stop f ftyp fval sval w = (p, w')"
  obtains (none) "p = None" "w' = w"
  | (some) sub where "p = Some sub" "fresh_sub sub" "sub_sid sub = sid" "startTime sub = start" "stopTime sub = stop"
      "FL_FUTURESTOP sub = f" "filterval sub = fval" "w' = w\<lparr>notif_on := (notif_on w)(sid := True)\<rparr>"
proof (cases "p_new_sub env")
  case True
  then show ?thesis using assms by (intro some) (auto simp: new_subscription_def fresh_sub_def)
qed (use assms none in \<open>simp add: new_subscription_def\<close>)

lemma validate_cases:
  assumes "create_subscription_validate env sid rq w = (res, errs, p, w')"
  obtains (refused) "p = None" "w' = w"
  | (accepted) sub where "p = Some sub" "res = NO_ERR" "fresh_sub sub" "sub_sid sub = sid" "sid \<notin> sub_sid ` set (subscriptionQ w)"
      "w' = w\<lparr>notif_on := (notif_on w)(sid := True)\<rparr>"
proof -
  obtain fr ft sv r s t f e where d: "check_filter rq = (fr, ft, sv)"
      "(if parm (rq_start rq) \<noteq> None \<or> parm (rq_stop rq) \<noteq> None
        then (case check_times env (parm (rq_start rq)) (parm (rq_stop rq)) of
                (res, s, p, f, e) \<Rightarrow> (res, s, p, f, (if check_stream rq = NO_ERR then [] else [check_stream rq]) @ e))
        else (check_stream rq, None, None, False, if check_stream rq = NO_ERR then [] else [check_stream rq])) = (r, s, t, f, e)"
    by (metis prod_cases3 prod_cases5)
  obtain q w1 where n: "new_subscription env sid (p_now env) s t f ft (map_option (fst \<circ> snd) (rq_filter rq)) sv w = (q, w1)" by fastforce
  show ?thesis
  proof (cases "r = NO_ERR \<and> sid \<notin> sub_sid ` set (subscriptionQ w) \<and> fr = NO_ERR \<and> q \<noteq> None")
    case True
    from n show ?thesis
    proof (cases rule: new_subscription_cases)
      case (some sub)
      have "p = Some sub" "res = NO_ERR" "w' = w\<lparr>notif_on := (notif_on w)(sid := True)\<rparr>"
        using assms d n True some by (simp_all add: create_subscription_validate_def Let_def)
      then show ?thesis using accepted some True by blast
    qed (use True in simp)
  next
    case False
    from n have w1: "q = None \<Longrightarrow> w1 = w" by (cases rule: new_subscription_cases) simp_all
    have "p = None \<and> w' = w"
    proof (cases "r = NO_ERR \<and> sid \<notin> sub_sid ` set (subscriptionQ w) \<and> fr = NO_ERR")
      case True
      then have "q = None" using False by simp
      then show ?thesis using assms d n w1 True by (simp add: create_subscription_validate_def Let_def)
    next
      case False
      then show ?thesis using assms d by (cases "fr = NO_ERR") (simp_all add: create_subscription_validate_def Let_def split: if_splits)
    qed
    then show ?thesis using refused by simp
  qed
qed

lemma fresh_sub_ok:
  assumes q: "queue_ok q lim k" and f: "fresh_sub sub"
  shows "sub_ok q lim (case startTime sub of
      Some start \<Rightarrow> start_replay start q sub
    | None \<Rightarrow> (let sub = sub\<lparr>sub_state := AGT_NOT_STATE_LIVE\<rparr>
        in if q = [] then sub else sub\<lparr>lastmsg := Some (maddr (last q)), lastmsgid := msgid (last q)\<rparr>))"
proof (cases "startTime sub")
  case None
  have "q \<noteq> [] \<Longrightarrow> last q \<in> set q" by simp
  then show ?thesis using None q f by (auto simp: sub_ok_def ptr_ok_def replaying_def queue_ok_def fresh_sub_def Let_def)
next
  case (Some t)
  have "ptr_ok q None 0" using q by (simp add: ptr_ok_def queue_ok_def)
  then show ?thesis
    using Some f start_replay_ptr [OF q, of t sub] by (simp add: sub_ok_def start_replay_keeps fresh_sub_def)
qed

lemma create_subscription_ok:
  assumes ok: "not_ok N w" and c: "create_subscription env sid rq w = Some (res, errs, w')" "sid \<noteq> 0"
  shows "not_ok N w'"
proof -
  obtain r e p w1 where v: "create_subscription_validate env sid rq w = (r, e, p, w1)" by (metis prod_cases4)
  then show ?thesis
  proof (cases rule: validate_cases)
    case refused
    then show ?thesis using c v ok by (auto simp: create_subscription_def split: if_splits)
  next
    case (accepted sub)
    have w': "w' = create_subscription_invoke sub w1" using c v accepted by (simp add: create_subscription_def)
    have q: "queue_ok (notificationQ w) (last_msgid w) (next_addr w)" using ok by (simp add: not_ok_def)
    let ?sub = "case startTime sub of
        Some start \<Rightarrow> start_replay start (notificationQ w) sub
      | None \<Rightarrow> (let sub = sub\<lparr>sub_state := AGT_NOT_STATE_LIVE\<rparr>
          in if notificationQ w = [] then sub
             else sub\<lparr>lastmsg := Some (maddr (last (notificationQ w))), lastmsgid := msgid (last (notificationQ w))\<rparr>)"
    have nq: "notificationQ w1 = notificationQ w" by (simp add: accepted(6))
    have "sub_sid ?sub = sid" using accepted(4) by (simp add: start_replay_keeps Let_def split: option.split)
    moreover have "subscriptionQ w' = subscriptionQ w @ [?sub]" "anySubscriptions w'" "notificationQ w' = notificationQ w"
        "last_msgid w' = last_msgid w" "next_addr w' = next_addr w" "notification_count w' = notification_count w"
      unfolding w' create_subscription_invoke_def Let_def nq by (simp_all add: accepted(6))
    ultimately show ?thesis
      using ok fresh_sub_ok [OF q accepted(3)] accepted(5) c(2) by (simp add: not_ok_def)
  qed
qed

lemma sub_ok_drop:
  assumes "sub_ok (m # ms) lim sub" "queue_ok (m # ms) lim k"
  shows "sub_ok ms lim (clear_ptrs (maddr m) sub)"
proof -
  have "ptr_ok ms (if p = Some (maddr m) then None else p) i" if "ptr_ok (m # ms) p i" for p i
    using that queue_ok_Cons [OF assms(2)] by (auto simp: ptr_ok_def split: option.splits)
  then show ?thesis using assms(1) by (simp add: sub_ok_def clear_ptrs_def replaying_def)
qed

lemma delete_oldest_ok:
  assumes ok: "not_ok N w" "N \<noteq> 0"
  shows "not_ok N (delete_oldest_notification w)"
proof (cases "notificationQ w")
  case Nil
  then show ?thesis using ok by (simp add: delete_oldest_notification_def)
next
  case (Cons m ms)
  have q: "queue_ok (m # ms) (last_msgid w) (next_addr w)" using ok Cons by (simp add: not_ok_def)
  have c: "unat (notification_count w) = Suc (length ms)" "notification_count w \<le> N" using ok Cons by (simp_all add: not_ok_def)
  have pos: "notification_count w > 0" using c(1) by (cases "notification_count w = 0") (auto simp: word_gt_0)
  then have "unat (notification_count w - 1) = length ms" using c(1) by (simp add: unat_minus_one word_gt_0)
  moreover have "notification_count w - 1 \<le> N" using c pos \<open>unat (notification_count w - 1) = length ms\<close>
    by (simp add: word_le_nat_alt)
  moreover have "map sub_sid (map (clear_ptrs (maddr m)) (subscriptionQ w)) = map sub_sid (subscriptionQ w)"
    by (simp add: clear_ptrs_def o_def)
  ultimately show ?thesis
    using ok Cons q queue_ok_Cons [OF q] sub_ok_drop [OF _ q] pos
    by (simp add: not_ok_def delete_oldest_notification_def del: map_map) (auto simp: clear_ptrs_def)
qed

lemma sub_ok_add:
  assumes "sub_ok q lim sub" "msgid m = lim'" "lim < lim'"
  shows "sub_ok (q @ [m]) lim' sub"
proof -
  have "ptr_ok (q @ [m]) p i" if "ptr_ok q p i" "i \<le> lim" for p i
    using that assms(2,3) by (auto simp: ptr_ok_def split: option.splits)
  then show ?thesis using assms by (auto simp: sub_ok_def)
qed

lemma queue_ok_add:
  assumes "queue_ok q lim k" "msgid m = lim'" "lim < lim'" "maddr m = k"
  shows "queue_ok (q @ [m]) lim' (k + 1)"
  using assms by (auto simp: queue_ok_def sorted_wrt_append intro: le_less_trans [OF word_zero_le])

lemma add_1_less:
  assumes "(x :: u32) < y \<or> x \<noteq> - 1"
  shows "x < x + 1" "unat (x + 1) = unat x + 1"
proof -
  have "unat x < 4294967295"
  proof (cases "x = - 1")
    case True
    then have "x < y" using assms by simp
    then show ?thesis using True by (simp add: word_less_nat_alt) (use unsigned_less [of y, where 'a = nat] in simp)
  next
    case False
    then have "unat x \<noteq> 4294967295" by (auto simp: word_unat_eq_iff unsigned_minus_1_eq_mask mask_eq_exp_minus_1)
    then show ?thesis using unsigned_less [of x, where 'a = nat] by simp
  qed
  then show "unat (x + 1) = unat x + 1" by (simp add: unat_word_ariths)
  then show "x < x + 1" by (simp add: word_less_nat_alt)
qed

lemma add_message_ok:
  assumes ok: "not_ok N w" and m: "msgid m = last_msgid w + 1" "maddr m = next_addr w" "last_msgid w \<noteq> - 1"
    and c: "N \<noteq> 0 \<Longrightarrow> notification_count w < N"
  shows "not_ok N (w\<lparr>last_msgid := last_msgid w + 1, next_addr := next_addr w + 1,
      notification_count := (if N = 0 then notification_count w else notification_count w + 1),
      notificationQ := notificationQ w @ [m]\<rparr>)"
proof -
  have less: "last_msgid w < last_msgid w + 1" using m(3) add_1_less(1) by blast
  have "unat (notification_count w + 1) = unat (notification_count w) + 1 \<and> notification_count w + 1 \<le> N" if "N \<noteq> 0"
    using c [OF that] add_1_less(2) [of "notification_count w" N] by (auto simp: word_le_nat_alt word_less_nat_alt)
  then show ?thesis
    using ok sub_ok_add [OF _ m(1) less] queue_ok_add [OF _ m(1) less m(2)] by (auto simp: not_ok_def)
qed

lemma new_notification_eq:
  assumes "new_notification env obj True payload w = (Some m, w1)"
  shows "w1 = w\<lparr>last_msgid := last_msgid w + 1, next_addr := next_addr w + 1\<rparr> \<and> msgid m = last_msgid w + 1 \<and>
    maddr m = next_addr w \<and> eventTime m = p_now env \<and> notobj m = obj \<and> payloadQ m = payload \<and> built m = None"
  using assms by (auto simp: new_notification_def Let_def split: if_splits)

lemma queue_notification_ok:
  assumes ok: "not_ok N w" and N: "eventlog_size env = N" and m: "new_notification env obj True payload w = (Some m, w1)"
    and wrap: "last_msgid w \<noteq> - 1"
  shows "\<exists>w'. agt_not_queue_notification env m w1 = Some w' \<and> not_ok N w'"
proof -
  note m = new_notification_eq [OF m]
  define v where "v = (if N \<noteq> 0 \<and> notification_count w = N then delete_oldest_notification w else w)"
  have keep: "last_msgid v = last_msgid w" "next_addr v = next_addr w"
    by (simp_all add: v_def delete_oldest_notification_def split: list.split)
  have v: "not_ok N v" using ok delete_oldest_ok [OF ok] by (simp add: v_def)
  have "notification_count v < N" if "N \<noteq> 0"
  proof (cases "notification_count w = N")
    case True
    have "unat (notification_count w) = length (notificationQ w)" using ok that by (simp add: not_ok_def)
    then have "notificationQ w \<noteq> []" using True that by (auto simp: word_unat_eq_iff)
    then have "notification_count v = N - 1"
      using True that by (auto simp: v_def delete_oldest_notification_def word_gt_0 split: list.split)
    moreover have "0 < unat N" using that by (simp add: unat_gt_0)
    ultimately show ?thesis using that by (simp add: word_less_nat_alt unat_minus_one)
  next
    case False
    then show ?thesis using ok that by (simp add: v_def not_ok_def order.strict_iff_order)
  qed
  then have "not_ok N (v\<lparr>last_msgid := last_msgid v + 1, next_addr := next_addr v + 1,
      notification_count := (if N = 0 then notification_count v else notification_count v + 1),
      notificationQ := notificationQ v @ [m]\<rparr>)"
    using m wrap keep by (intro add_message_ok [OF v]) simp_all
  moreover have "delete_oldest_notification (w\<lparr>last_msgid := i, next_addr := k\<rparr>) =
      (delete_oldest_notification w)\<lparr>last_msgid := i, next_addr := k\<rparr>" for i k
    by (simp add: delete_oldest_notification_def split: list.split)
  moreover have "notification_count w \<le> N" if "N \<noteq> 0" using ok that by (simp add: not_ok_def)
  ultimately show ?thesis
    using N m keep by (cases "N = 0") (auto simp: agt_not_queue_notification_def v_def Let_def)
qed

lemma remove_subscription_ok:
  assumes ok: "not_ok N w"
  shows "not_ok N (agt_not_remove_subscription sid w)"
proof (cases "dropWhile (\<lambda>sub. sub_sid sub \<noteq> sid) (subscriptionQ w)")
  case Nil
  then have "agt_not_remove_subscription sid w = w" unfolding agt_not_remove_subscription_def Nil by simp
  then show ?thesis using ok by simp
next
  case (Cons sub rest)
  obtain pre where pre: "takeWhile (\<lambda>sub. sub_sid sub \<noteq> sid) (subscriptionQ w) = pre" by blast
  have subs: "subscriptionQ w = pre @ sub # rest" using Cons pre by (metis takeWhile_dropWhile_id)
  have "agt_not_remove_subscription sid w =
      (if anySubscriptions w then (free_subscription sub w)\<lparr>subscriptionQ := pre @ rest, anySubscriptions := (pre @ rest \<noteq> [])\<rparr> else w)"
    unfolding agt_not_remove_subscription_def Cons pre by (simp add: Let_def)
  then show ?thesis using ok subs by (auto simp: not_ok_def free_subscription_def)
qed

lemma send_ok:
  assumes ok: "not_ok N w"
  shows "\<exists>c w'. agt_not_send_notifications env w = Some (of_nat c, w') \<and> not_ok N w' \<and> same_queue w w' \<and>
    loop_ok env w (subscriptionQ w) (subscriptionQ w') c"
proof (cases "subscriptionQ w")
  case Nil
  then show ?thesis using ok by (intro exI [of _ 0]) (simp add: agt_not_send_notifications_def not_ok_def loop_ok_def)
next
  case (Cons sub subs)
  have pre: "queue_ok (notificationQ w) (last_msgid w) (next_addr w)"
      "\<forall>sub \<in> set (subscriptionQ w). sub_ok (notificationQ w) (last_msgid w) sub" "anySubscriptions w = ([] @ subscriptionQ w \<noteq> [])"
    using ok by (simp_all add: not_ok_def)
  obtain c w' subs' where r: "serve_loop env [] (subscriptionQ w) w = Some (of_nat c, w')" "subscriptionQ w' = subs'"
      "anySubscriptions w' = (subs' \<noteq> [])" "same_queue w w'" "loop_ok env w (subscriptionQ w) subs' c"
    using serve_loop_ok [OF pre, of env] by auto
  have "\<exists>sub \<in> set (subscriptionQ w). sub_sid sub' = sub_sid sub" if "sub' \<in> set subs'" for sub'
    using r(5) that unfolding loop_ok_def served_def by blast
  then have "\<forall>sub' \<in> set subs'. sub_sid sub' \<noteq> 0" using ok unfolding not_ok_def by metis
  moreover have "length (notificationQ w') = length (notificationQ w)" using r(4) unfolding same_queue_def by (metis length_map)
  ultimately have "not_ok N w'"
    using ok r same_queue_ok [OF r(4) pre(1)] same_queue_sub [OF r(4)]
    by (auto simp: not_ok_def loop_ok_def same_queue_def)
  then show ?thesis
    using r Cons ok by (intro exI [of _ c] exI [of _ w']) (simp add: agt_not_send_notifications_def not_ok_def)
qed

lemma subs_few:
  assumes "not_ok N w"
  shows "length (subscriptionQ w) < 2 ^ 32"
proof -
  have "length (subscriptionQ w) = card (sub_sid ` set (subscriptionQ w))"
    using assms distinct_card [of "map sub_sid (subscriptionQ w)"] by (simp add: not_ok_def)
  also have "\<dots> < card (UNIV :: u32 set)"
  proof (rule psubset_card_mono)
    have "0 \<notin> sub_sid ` set (subscriptionQ w)" using assms by (auto simp: not_ok_def)
    then show "sub_sid ` set (subscriptionQ w) \<subset> UNIV" by blast
  qed simp
  finally show ?thesis by (simp add: card_word)
qed

text \<open>What a burst does to a subscription.\<close>

definition burst ::
    "('o, 'v) not_env \<Rightarrow> ('o, 'v) agt_not_msg_t list \<Rightarrow> 'v agt_not_subscription_t \<Rightarrow> 'v agt_not_subscription_t \<Rightarrow> bool" where
  "burst env q sub sub' \<longleftrightarrow> sub_sid sub' = sub_sid sub \<and>
     (sub_state sub = AGT_NOT_STATE_LIVE \<longrightarrow> sub_state sub' \<in> {AGT_NOT_STATE_LIVE, AGT_NOT_STATE_SHUTDOWN}) \<and>
     (sub_state sub = AGT_NOT_STATE_SHUTDOWN \<longrightarrow> sub_state sub' = AGT_NOT_STATE_SHUTDOWN) \<and>
     (sub_state sub = AGT_NOT_STATE_LIVE \<and> sub_state sub' = AGT_NOT_STATE_LIVE \<and> maxburst env = 0 \<and>
        (\<forall>obj. p_allowed env (sub_sid sub) obj) \<longrightarrow> (\<forall>m \<in> set q. msgid m \<le> lastmsgid sub'))"

lemma burst_last: "served env q c sub sub' \<Longrightarrow> c = 0 \<or> maxburst env \<noteq> 0 \<Longrightarrow> burst env q sub sub'"
  by (auto simp: served_def burst_def)

lemma burst_trans: "served env q c sub sub1 \<Longrightarrow> burst env q sub1 sub' \<Longrightarrow> burst env q sub sub'"
  by (auto simp: served_def burst_def)

lemma burst_keys: "same_queue w w' \<Longrightarrow> burst env (notificationQ w') sub sub' = burst env (notificationQ w) sub sub'"
  using same_queue_all [of w w' "lastmsgid sub'"] by (simp add: burst_def)

lemma send_loop_ok:
  assumes "not_ok N w"
  shows "\<exists>w'. send_loop env t w = Some w' \<and> not_ok N w' \<and> same_queue w w' \<and>
    (\<forall>sub' \<in> set (subscriptionQ w'). (replaying sub' \<longrightarrow> lastmsgid sub' \<noteq> 0) \<and>
       (\<exists>sub \<in> set (subscriptionQ w). burst env (notificationQ w) sub sub'))"
  using assms
proof (induction "sum_list (map (weight (notificationQ w)) (subscriptionQ w))" arbitrary: w t rule: less_induct)
  case less
  obtain c w1 where r: "agt_not_send_notifications env w = Some (of_nat c, w1)" "not_ok N w1" "same_queue w w1"
      "loop_ok env w (subscriptionQ w) (subscriptionQ w1) c"
    using send_ok [OF less.prems, of env] by blast
  have small: "c < 2 ^ 32" using r(4) subs_few [OF less.prems] by (simp add: loop_ok_def)
  then have c0: "(of_nat c :: u32) = 0 \<longleftrightarrow> c = 0" by (simp add: word_unat_eq_iff unat_of_nat)
  have subs: "(replaying sub1 \<longrightarrow> lastmsgid sub1 \<noteq> 0) \<and> (\<exists>sub \<in> set (subscriptionQ w). served env (notificationQ w) c sub sub1)"
    if "sub1 \<in> set (subscriptionQ w1)" for sub1
    using r(4) that by (simp add: loop_ok_def)
  show ?case
  proof (cases "c = 0 \<or> maxburst env \<noteq> 0 \<and> t + of_nat c \<ge> maxburst env")
    case True
    then have "send_loop env t w = Some w1" using r(1) c0 by (subst send_loop.simps) auto
    moreover have "c = 0 \<or> maxburst env \<noteq> 0" using True by blast
    ultimately show ?thesis using r(2,3) subs burst_last by blast
  next
    case False
    have w1: "map (weight (notificationQ w1)) (subscriptionQ w1) = map (weight (notificationQ w)) (subscriptionQ w1)"
      using same_queue_weight [OF r(3)] by simp
    have "sum_list (map (weight (notificationQ w1)) (subscriptionQ w1)) <
        sum_list (map (weight (notificationQ w)) (subscriptionQ w))"
      unfolding w1 using r(4) False by (simp add: loop_ok_def)
    from less.hyps [OF this r(2), of "t + of_nat c"] obtain w' where w': "send_loop env (t + of_nat c) w1 = Some w'"
        "not_ok N w'" "same_queue w1 w'"
        "\<And>sub'. sub' \<in> set (subscriptionQ w') \<Longrightarrow> (replaying sub' \<longrightarrow> lastmsgid sub' \<noteq> 0) \<and>
           (\<exists>sub \<in> set (subscriptionQ w1). burst env (notificationQ w1) sub sub')"
      by blast
    have "send_loop env t w = Some w'" using r(1) c0 False w'(1) by (subst send_loop.simps) auto
    moreover have "\<exists>sub \<in> set (subscriptionQ w). burst env (notificationQ w) sub sub'" if "sub' \<in> set (subscriptionQ w')" for sub'
      using w'(4) [OF that] subs burst_trans burst_keys [OF r(3)] by metis
    ultimately show ?thesis using w'(2,4) same_queue_trans [OF r(3) w'(3)] by blast
  qed
qed

lemma lowest_le:
  "fold (\<lambda>sub low. if lastmsgid sub \<noteq> 0 \<and> lastmsgid sub < low then lastmsgid sub else low) subs (start :: u32) \<le> start \<and>
   (\<forall>sub \<in> set subs. lastmsgid sub \<noteq> 0 \<longrightarrow>
      fold (\<lambda>sub low. if lastmsgid sub \<noteq> 0 \<and> lastmsgid sub < low then lastmsgid sub else low) subs start \<le> lastmsgid sub)"
proof (induction subs arbitrary: start)
  case (Cons sub subs)
  show ?case
    using Cons.IH [of "if lastmsgid sub \<noteq> 0 \<and> lastmsgid sub < start then lastmsgid sub else start"]
    by (auto split: if_splits dest: order_trans)
qed simp

lemma clean_ok:
  assumes ok: "not_ok 0 w" and N: "eventlog_size env = 0"
    and started: "\<forall>sub \<in> set (subscriptionQ w). replaying sub \<longrightarrow> lastmsgid sub \<noteq> 0"
  shows "not_ok 0 (agt_not_clean_eventlog env w)"
proof (cases "anySubscriptions w")
  case False
  then show ?thesis using ok N by (simp add: agt_not_clean_eventlog_def not_ok_def queue_ok_def)
next
  case True
  obtain low where low: "agt_not_clean_eventlog env w = w\<lparr>notificationQ := dropWhile (\<lambda>m. msgid m < low) (notificationQ w)\<rparr>"
      "\<forall>sub \<in> set (subscriptionQ w). lastmsgid sub \<noteq> 0 \<longrightarrow> low \<le> lastmsgid sub"
    using True N lowest_le [of "subscriptionQ w" "- 1"] by (auto simp: agt_not_clean_eventlog_def Let_def)
  obtain pre post where pre: "takeWhile (\<lambda>m. msgid m < low) (notificationQ w) = pre"
      and post: "dropWhile (\<lambda>m. msgid m < low) (notificationQ w) = post" by blast
  have app: "notificationQ w = pre @ post" using pre post by (metis takeWhile_dropWhile_id)
  have q: "queue_ok (pre @ post) (last_msgid w) (next_addr w)" using ok app by (simp add: not_ok_def)
  have q': "queue_ok post (last_msgid w) (next_addr w)" using q by (simp add: queue_ok_def sorted_wrt_append)
  have kept: "m \<in> set post" if "m \<in> set (notificationQ w)" "low \<le> msgid m" for m
  proof -
    have "m \<notin> set pre" using that(2) pre by (auto dest: set_takeWhileD)
    then show ?thesis using that(1) app by simp
  qed
  have "sub_ok post (last_msgid w) sub" if "sub \<in> set (subscriptionQ w)" for sub
  proof -
    have s: "sub_ok (notificationQ w) (last_msgid w) sub" using ok that by (simp add: not_ok_def)
    have "ptr_ok post (lastmsg sub) (lastmsgid sub)"
    proof (cases "lastmsg sub")
      case None
      then show ?thesis using s app by (auto simp: sub_ok_def ptr_ok_def)
    next
      case (Some a)
      then obtain m where m: "m \<in> set (notificationQ w)" "maddr m = a" "msgid m = lastmsgid sub"
        using s by (auto simp: sub_ok_def ptr_ok_def)
      have "0 < msgid m" using ok m(1) by (simp add: not_ok_def queue_ok_def)
      then have "lastmsgid sub \<noteq> 0" using m(3) by auto
      then have "m \<in> set post" using m low(2) that by (intro kept) auto
      then show ?thesis using Some m by (auto simp: ptr_ok_def)
    qed
    then show ?thesis using s started that by (auto simp: sub_ok_def)
  qed
  then show ?thesis using ok q' low(1) post by (simp add: not_ok_def)
qed

lemma send_some_ok:
  assumes "not_ok N w" "eventlog_size env = N"
  shows "\<exists>w'. send_some_notifications env w = Some w' \<and> not_ok N w' \<and>
    (\<forall>sub' \<in> set (subscriptionQ w'). \<exists>sub \<in> set (subscriptionQ w). burst env (notificationQ w) sub sub')"
proof -
  obtain w1 where w1: "send_loop env 0 w = Some w1" "not_ok N w1"
      "\<forall>sub' \<in> set (subscriptionQ w1). replaying sub' \<longrightarrow> lastmsgid sub' \<noteq> 0"
      "\<forall>sub' \<in> set (subscriptionQ w1). \<exists>sub \<in> set (subscriptionQ w). burst env (notificationQ w) sub sub'"
    using send_loop_ok [OF assms(1), of env 0] by blast
  have "subscriptionQ (agt_not_clean_eventlog env w1) = subscriptionQ w1" by (simp add: agt_not_clean_eventlog_def Let_def)
  then show ?thesis
    using w1 clean_ok [of w1 env] assms(2) by (cases "N = 0") (auto simp: send_some_notifications_def)
qed

section \<open>Runs\<close>

text \<open>
  What happens to the module between its initialisation and its cleanup.  The results of the allocations, of the filters and
  so on may change from call to call, the size of the event log does not.
\<close>

inductive not_step :: "u32 \<Rightarrow> ('o, 'v) not_world \<Rightarrow> ('o, 'v) not_world \<Rightarrow> bool" for N where
  event: "eventlog_size env = N \<Longrightarrow> last_msgid w \<noteq> - 1 \<Longrightarrow> new_notification env obj True payload w = (Some m, w1) \<Longrightarrow>
     agt_not_queue_notification env m w1 = Some w2 \<Longrightarrow> not_step N w w2"
| subscribe: "sid \<noteq> 0 \<Longrightarrow> create_subscription env sid rq w = Some (res, errs, w') \<Longrightarrow> not_step N w w'"
| send: "eventlog_size env = N \<Longrightarrow> send_some_notifications env w = Some w' \<Longrightarrow> not_step N w w'"
| unsubscribe: "not_step N w (agt_not_remove_subscription sid w)"

definition not_start :: "('o, 'v) not_world" where
  "not_start = \<lparr>subscriptionQ = [], notificationQ = [], anySubscriptions = False, last_msgid = 0, notification_count = 0,
     next_addr = 0, notif_on = (\<lambda>_. False), sent = []\<rparr>"

inductive not_reach :: "u32 \<Rightarrow> ('o, 'v) not_world \<Rightarrow> bool" for N where
  start: "not_reach N not_start"
| step: "not_reach N w \<Longrightarrow> not_step N w w' \<Longrightarrow> not_reach N w'"

lemma not_step_ok: "not_step N w w' \<Longrightarrow> not_ok N w \<Longrightarrow> not_ok N w'"
proof (induction rule: not_step.induct)
  case (event env w obj payload m w1 w2)
  then show ?case using queue_notification_ok [of N w env obj payload m w1] by auto
next
  case (send env w w')
  then show ?case using send_some_ok [of N w env] by auto
qed (simp_all add: create_subscription_ok remove_subscription_ok)

lemma reach_ok: "not_reach N w \<Longrightarrow> not_ok N w"
proof (induction rule: not_reach.induct)
  case start
  then show ?case by (simp add: not_start_def not_ok_def queue_ok_def)
qed (rule not_step_ok)

section \<open>Properties\<close>

text \<open>
  C5: the pointers by which the subscriptions walk through the queue of events are only an optimisation.
  In every state the module can reach, with a log of any size, the message that a live or timed subscription gets next is the first
  one in the queue with a larger ID than the last it was given, and a replay starts at the first message that was
  selected for it or, when that has been deleted, at the oldest that is left.  In particular no pointer leads to a message that
  has been freed.
\<close>
theorem notifications_follow_ids:
  assumes "not_reach N w" "sub \<in> set (subscriptionQ w)"
  shows "(sub_state sub \<in> {AGT_NOT_STATE_LIVE, AGT_NOT_STATE_TIMED} \<longrightarrow>
      next_live sub (notificationQ w) = Some (find (\<lambda>m. lastmsgid sub < msgid m) (notificationQ w))) \<and>
    (sub_state sub = AGT_NOT_STATE_REPLAY \<and> \<not> FL_RC_READY sub \<longrightarrow>
      next_replay sub (notificationQ w) =
        Some (find (\<lambda>m. if lastmsgid sub = 0 then firstreplaymsgid sub \<le> msgid m else lastmsgid sub < msgid m) (notificationQ w)))"
proof -
  have q: "queue_ok (notificationQ w) (last_msgid w) (next_addr w)" "sub_ok (notificationQ w) (last_msgid w) sub"
    using reach_ok [OF assms(1)] assms(2) by (simp_all add: not_ok_def)
  then show ?thesis
    using next_live_id [OF q(1), of sub] next_replay_id [OF q] by (simp add: sub_ok_def replaying_def)
qed


text \<open>The subscription of a session that asks for a replay from a time after the last event.\<close>

definition late_sub :: "u32 \<Rightarrow> string \<Rightarrow> string \<Rightarrow> agt_not_state_t \<Rightarrow> bool \<Rightarrow> 'v agt_not_subscription_t" where
  "late_sub sid t now st ready_done =
     \<lparr>sub_sid = sid, filtertyp = OP_FILTER_NONE, filterval = None, selectval = None, createTime = now, startTime = Some t,
      stopTime = None, FL_FUTURESTOP = False, FL_RC_READY = True, FL_RC_DONE = ready_done, FL_NC_READY = False, FL_NC_DONE = False,
      firstreplaymsg = None, lastreplaymsg = None, lastmsg = None, firstreplaymsgid = 0, lastreplaymsgid = 0, lastmsgid = 0,
      sub_state = st\<rparr>"

lemma late_sub_sel [simp]:
  "sub_sid (late_sub sid t now st r) = sid" "filterval (late_sub sid t now st r) = None" "sub_state (late_sub sid t now st r) = st"
  by (simp_all add: late_sub_def)

lemma late_subscription:
  fixes w :: "('o, 'v) not_world"
  assumes "subscriptionQ w = []" "\<forall>n \<in> set (notificationQ w). xml_strcmp t (eventTime n) > 0"
    and "p_utctime env t0 = (Some t, False, NO_ERR)" "xml_strcmp t (p_now env) \<le> 0" "p_new_sub env"
  shows "create_subscription env sid \<lparr>rq_stream = None, rq_filter = None, rq_start = Some (NO_ERR, t0), rq_stop = None\<rparr> w =
    Some (NO_ERR, [], w\<lparr>notif_on := (notif_on w)(sid := True),
      subscriptionQ := [late_sub sid t (p_now env) AGT_NOT_STATE_REPLAY False], anySubscriptions := True\<rparr>)"
proof -
  have "dropWhile (\<lambda>n. \<not> xml_strcmp t (eventTime n) \<le> 0) (notificationQ w) = []" using assms(2) by auto
  then have "start_replay t (notificationQ w) sub = sub\<lparr>sub_state := AGT_NOT_STATE_REPLAY, FL_RC_READY := True\<rparr>" for sub :: "'v agt_not_subscription_t"
    by (simp only: start_replay_def Let_def list.case)
  then show ?thesis
    using assms by (simp add: create_subscription_def create_subscription_validate_def check_stream_def check_filter_def
        parm_def check_times_def to_utc_def new_subscription_def create_subscription_invoke_def late_sub_def Let_def)
qed

lemma serve_one:
  assumes "anySubscriptions w" "subscriptionQ w = [sub]" "serve env sub w = Some (Some sub', n, w')"
  shows "agt_not_send_notifications env w = Some (n, w'\<lparr>subscriptionQ := [sub']\<rparr>)"
  using assms by (simp add: agt_not_send_notifications_def)

text \<open>
  C28: a replay that starts after the last event in the log should replay nothing.  The subscription
  gets its \<^verbatim>\<open>replayComplete\<close>, but its position in the queue is never set, so that as a live subscription it begins with the
  oldest event of the log, although all of them are older than the start time.
\<close>
theorem late_replay_sends_everything:
  fixes w :: "('o, 'v) not_world"
  assumes w: "subscriptionQ w = []" "notificationQ w = m # ms" "\<forall>n \<in> set (notificationQ w). xml_strcmp t (eventTime n) > 0"
    and env: "p_utctime env t0 = (Some t, False, NO_ERR)" "xml_strcmp t (p_now env) \<le> 0" "p_new_sub env" "p_new env"
      "p_build env = NO_ERR" "p_start_msg env sid = NO_ERR" "p_allowed env sid (notobj m)"
  shows "\<exists>w0 w1 w2 w3 rc e.
    create_subscription env sid \<lparr>rq_stream = None, rq_filter = None, rq_start = Some (NO_ERR, t0), rq_stop = None\<rparr> w = Some (NO_ERR, [], w0) \<and>
    agt_not_send_notifications env w0 = Some (1, w1) \<and> agt_not_send_notifications env w1 = Some (0, w2) \<and>
    agt_not_send_notifications env w2 = Some (1, w3) \<and> sent w3 = sent w @ [(sid, rc), (sid, e)] \<and>
    e_event rc = replayCompleteobj env \<and> e = the (built (snd (build_msg env True m)))"
proof -
  define w0 where "w0 = w\<lparr>notif_on := (notif_on w)(sid := True),
      subscriptionQ := [late_sub sid t (p_now env) AGT_NOT_STATE_REPLAY False], anySubscriptions := True\<rparr>"
  define rc where "rc = (\<lparr>e_time = p_now env, e_event = replayCompleteobj env, e_payload = [], e_sequence_id = None\<rparr> :: ('o, 'v) not_element)"
  define e where "e = the (built (snd (build_msg env True m)))"
  let ?w1 = "w0\<lparr>next_addr := next_addr w + 1, sent := sent w @ [(sid, rc)]\<rparr>"
  have "serve env (late_sub sid t (p_now env) AGT_NOT_STATE_REPLAY False) w0 =
      Some (Some (late_sub sid t (p_now env) AGT_NOT_STATE_REPLAY True), 1, ?w1)"
    using env by (simp add: serve_def replay_done_def late_sub_def send_replayComplete_def send_complete_def new_notification_def
        send_notification_def build_msg_def rc_def w0_def)
  then have s1: "agt_not_send_notifications env w0 = Some (1, ?w1\<lparr>subscriptionQ := [late_sub sid t (p_now env) AGT_NOT_STATE_REPLAY True]\<rparr>)"
    by (intro serve_one) (simp_all add: w0_def)
  define w1 where "w1 = ?w1\<lparr>subscriptionQ := [late_sub sid t (p_now env) AGT_NOT_STATE_REPLAY True]\<rparr>"
  have "serve env (late_sub sid t (p_now env) AGT_NOT_STATE_REPLAY True) w1 =
      Some (Some (late_sub sid t (p_now env) AGT_NOT_STATE_LIVE True), 0, w1)"
    by (simp add: serve_def replay_done_def late_sub_def)
  then have s2: "agt_not_send_notifications env w1 = Some (0, w1\<lparr>subscriptionQ := [late_sub sid t (p_now env) AGT_NOT_STATE_LIVE True]\<rparr>)"
    by (intro serve_one) (simp_all add: w1_def w0_def)
  define w2 where "w2 = w1\<lparr>subscriptionQ := [late_sub sid t (p_now env) AGT_NOT_STATE_LIVE True]\<rparr>"
  have b: "build_msg env True m = (NO_ERR, snd (build_msg env True m))"
    using env(5) by (simp add: build_msg_def split: option.split)
  have d: "deliver env sub m w2 = (NO_ERR, 1, upd_msg (snd (build_msg env True m)) (w2\<lparr>sent := sent w2 @ [(sid, e)]\<rparr>))"
    if "sub_sid sub = sid" "filterval sub = None" for sub
    unfolding deliver_def send_notification_def by (subst b) (simp add: that env filter_passed_def e_def)
  have nx: "next_live (late_sub sid t (p_now env) AGT_NOT_STATE_LIVE True) (notificationQ w2) = Some (Some m)"
    using w(2) by (simp add: next_live_def late_sub_def first_entry_def w2_def w1_def w0_def)
  have "\<exists>sub w3. serve env (late_sub sid t (p_now env) AGT_NOT_STATE_LIVE True) w2 = Some (Some sub, 1, w3) \<and>
      sent w3 = sent w @ [(sid, rc), (sid, e)]"
    by (simp add: serve_def live_next_def nx d Let_def fatal_def) (simp add: upd_msg_def w2_def w1_def w0_def)
  then obtain sub w3 where f: "serve env (late_sub sid t (p_now env) AGT_NOT_STATE_LIVE True) w2 = Some (Some sub, 1, w3)"
      "sent w3 = sent w @ [(sid, rc), (sid, e)]" by blast
  have "agt_not_send_notifications env w2 = Some (1, w3\<lparr>subscriptionQ := [sub]\<rparr>)"
    by (rule serve_one [OF _ _ f(1)]) (simp_all add: w2_def w1_def w0_def)
  moreover have "sent (w3\<lparr>subscriptionQ := [sub]\<rparr>) = sent w @ [(sid, rc), (sid, e)]" "e_event rc = replayCompleteobj env"
    using f(2) by (simp_all add: rc_def)
  ultimately show ?thesis
    using late_subscription [OF w(1,3) env(1-3), of sid] s1 s2
    unfolding w0_def [symmetric] w1_def [symmetric] w2_def [symmetric] e_def [symmetric] by blast
qed

text \<open>
  C29: when the filter of a request is refused and everything else is fine, the validate phase of
  \<^verbatim>\<open>create-subscription\<close> makes no subscription and returns \<open>NO_ERR\<close> all the same, because the status of the filter
  is not part of its result.  The invoke phase then follows the missing subscription.
\<close>
theorem bad_filter_dereferences_null:
  assumes "rq_filter rq = Some (NO_ERR, v, fres, ftyp, sel)" "fres \<noteq> NO_ERR"
    and "rq_stream rq = None" "rq_start rq = None" "rq_stop rq = None" "sid \<notin> sub_sid ` set (subscriptionQ w)"
  shows "create_subscription_validate env sid rq w = (NO_ERR, [], None, w) \<and> create_subscription env sid rq w = None"
  using assms by (simp add: create_subscription_def create_subscription_validate_def check_filter_def check_stream_def parm_def Let_def)

text \<open>
  the error of an unknown stream is recorded, but the check of the times resets the status, so a request
  with a start time gets its subscription to the only stream there is, and an error in the reply.
\<close>
theorem unknown_stream_accepted:
  assumes "rq_stream rq = Some (NO_ERR, s)" "s \<noteq> NCX_DEF_STREAM_NAME" "rq_filter rq = None" "rq_stop rq = None"
    and "rq_start rq = Some (NO_ERR, t0)" "p_utctime env t0 = (Some t, False, NO_ERR)" "xml_strcmp t (p_now env) \<le> 0"
    and "p_new_sub env" "sid \<notin> sub_sid ` set (subscriptionQ w)"
  shows "\<exists>w'. create_subscription env sid rq w = Some (NO_ERR, [ERR_NCX_NOT_FOUND], w') \<and> sid \<in> sub_sid ` set (subscriptionQ w')"
  using assms xml_strcmp_eq [of NCX_DEF_STREAM_NAME s]
  by (auto simp: create_subscription_def create_subscription_validate_def check_stream_def check_filter_def
        parm_def check_times_def to_utc_def new_subscription_def create_subscription_invoke_def start_replay_keeps Let_def)

section \<open>Witnesses\<close>

definition sample_not_env :: "(nat, unit) not_env" where
  "sample_not_env = \<lparr>eventlog_size = 10, notif_sequence_id = True, maxburst = 0, replayCompleteobj = 1, notificationCompleteobj = 2,
     p_allowed = (\<lambda>_ _. True), p_tree_filter = (\<lambda>_ _ _. True), p_xpath_filter = (\<lambda>_ _ _. True),
     p_utctime = (\<lambda>t. (Some t, False, NO_ERR)), p_now = ''2024-01-01T00:00:00Z'', p_start_msg = (\<lambda>_. NO_ERR), p_build = NO_ERR,
     p_seq = True, p_new = True, p_new_sub = True\<rparr>"

definition sample_event :: "(nat, unit) agt_not_msg_t" where
  "sample_event = \<lparr>maddr = 0, notobj = 7, payloadQ = [], msgid = 1, eventTime = ''2024-01-01T00:00:00Z'', built = None\<rparr>"

text \<open>One event in the log; then a live subscription of session 3.\<close>

definition sample_log :: "(nat, unit) not_world" where
  "sample_log = not_start\<lparr>last_msgid := 1, next_addr := 1, notification_count := 1, notificationQ := [sample_event]\<rparr>"

definition sample_sub :: "unit agt_not_subscription_t" where
  "sample_sub = (late_sub 3 [] ''2024-01-01T00:00:00Z'' AGT_NOT_STATE_LIVE False)\<lparr>startTime := None, FL_RC_READY := False,
     lastmsg := Some 0, lastmsgid := 1\<rparr>"

definition sample_not :: "(nat, unit) not_world" where
  "sample_not = sample_log\<lparr>notif_on := (\<lambda>_. False)(3 := True), subscriptionQ := [sample_sub], anySubscriptions := True\<rparr>"

lemma sample_log_reach: "not_reach 10 sample_log"
proof -
  have n: "new_notification sample_not_env 7 True [] not_start = (Some sample_event, not_start\<lparr>last_msgid := 1, next_addr := 1\<rparr>)"
    by (simp add: new_notification_def sample_not_env_def sample_event_def not_start_def)
  have "agt_not_queue_notification sample_not_env sample_event (not_start\<lparr>last_msgid := 1, next_addr := 1\<rparr>) = Some sample_log"
    by (simp add: agt_not_queue_notification_def sample_log_def sample_not_env_def not_start_def)
  with n have "not_step 10 not_start sample_log"
    by (intro not_step.event [of sample_not_env _ not_start]) (simp_all add: sample_not_env_def not_start_def)
  then show ?thesis by (rule not_reach.step [OF not_reach.start])
qed

lemma sample_not_reach: "not_reach 10 sample_not"
proof -
  have "create_subscription sample_not_env 3 \<lparr>rq_stream = None, rq_filter = None, rq_start = None, rq_stop = None\<rparr> sample_log =
      Some (NO_ERR, [], sample_not)"
    by (simp add: create_subscription_def create_subscription_validate_def check_stream_def check_filter_def parm_def
        new_subscription_def create_subscription_invoke_def sample_log_def sample_not_def sample_sub_def late_sub_def
        sample_not_env_def not_start_def sample_event_def Let_def)
  then have "not_step 10 sample_log sample_not" by (intro not_step.subscribe) simp_all
  then show ?thesis by (rule not_reach.step [OF sample_log_reach])
qed

lemma sample_sub_sel [simp]:
  "subscriptionQ sample_not = [sample_sub]" "sub_state sample_sub = AGT_NOT_STATE_LIVE" "lastmsgid sample_sub = 1"
  "notificationQ sample_not = [sample_event]" "sub_sid sample_sub = 3" "subscriptionQ sample_log = []"
  "notificationQ sample_log = [sample_event]"
  by (simp_all add: sample_not_def sample_log_def sample_sub_def late_sub_def not_start_def)

theorem notifications_follow_ids_witness: "next_live sample_sub (notificationQ sample_not) = Some None"
  using notifications_follow_ids [OF sample_not_reach, of sample_sub] by (simp add: sample_event_def)


theorem late_replay_sends_everything_witness:
  "\<exists>w0 w1 w2 w3 rc e.
     create_subscription (sample_not_env\<lparr>p_now := ''2024-01-03''\<rparr>) 3
       \<lparr>rq_stream = None, rq_filter = None, rq_start = Some (NO_ERR, ''2024-01-02''), rq_stop = None\<rparr> sample_log = Some (NO_ERR, [], w0) \<and>
     agt_not_send_notifications (sample_not_env\<lparr>p_now := ''2024-01-03''\<rparr>) w0 = Some (1, w1) \<and>
     agt_not_send_notifications (sample_not_env\<lparr>p_now := ''2024-01-03''\<rparr>) w1 = Some (0, w2) \<and>
     agt_not_send_notifications (sample_not_env\<lparr>p_now := ''2024-01-03''\<rparr>) w2 = Some (1, w3) \<and>
     sent w3 = [(3, rc), (3, e)] \<and> e_event rc = 1 \<and> e_event e = 7 \<and> e_time e = ''2024-01-01T00:00:00Z''"
  using late_replay_sends_everything [of sample_log sample_event "[]" "''2024-01-02''" "sample_not_env\<lparr>p_now := ''2024-01-03''\<rparr>"
      "''2024-01-02''" 3]
  by (force simp: sample_not_env_def sample_event_def build_msg_def sample_log_def not_start_def)

theorem bad_filter_dereferences_null_witness:
  "create_subscription sample_not_env 3
     \<lparr>rq_stream = None, rq_filter = Some (NO_ERR, (), ERR_NCX_INVALID_VALUE, OP_FILTER_NONE, ()), rq_start = None, rq_stop = None\<rparr>
     sample_log = None"
  using bad_filter_dereferences_null [where w = sample_log and sid = 3 and env = sample_not_env and
      rq = "\<lparr>rq_stream = None, rq_filter = Some (NO_ERR, (), ERR_NCX_INVALID_VALUE, OP_FILTER_NONE, ()), rq_start = None, rq_stop = None\<rparr>"]
  by simp

theorem unknown_stream_accepted_witness:
  "\<exists>w'. create_subscription sample_not_env 3
      \<lparr>rq_stream = Some (NO_ERR, ''SNMP''), rq_filter = None, rq_start = Some (NO_ERR, ''2023''), rq_stop = None\<rparr> sample_log =
      Some (NO_ERR, [ERR_NCX_NOT_FOUND], w')"
  using unknown_stream_accepted [where w = sample_log and sid = 3 and env = sample_not_env and s = "''SNMP''" and ?t0.0 = "''2023''" and
      t = "''2023''" and rq = "\<lparr>rq_stream = Some (NO_ERR, ''SNMP''), rq_filter = None, rq_start = Some (NO_ERR, ''2023''), rq_stop = None\<rparr>"]
  by (auto simp: NCX_DEF_STREAM_NAME_def sample_not_env_def)

end
