(* ===== verification/Agt_Plock.thy ===== *)
theory Agt_Plock
  imports Cfg
begin

text \<open>
  The server side of the RFC 5717 operations (\<^verbatim>\<open>netconf/src/agt/agt_plock.c\<close>): the validate and invoke
  callbacks of \<^verbatim>\<open>partial-lock\<close> and \<^verbatim>\<open>partial-unlock\<close>.  Lemmas: a failing request leaves the running
  configuration exactly as it was, a granted one holds its lock on every selected node, and what
  unlocking restores.

  The XPath evaluator, the generator of instance identifiers, the memory allocator and the test for a
  confirmed commit in progress are parameters.  A pointer that leads to no node counts as a null pointer.
\<close>

section \<open>The RPC message\<close>

datatype rpc_data_t = RPC_DATA_NONE | RPC_DATA_STD | RPC_DATA_YANG

text \<open>
  The parts of \<^verbatim>\<open>rpc_msg_t\<close> the callbacks use.  A reply leaf is made by \<^verbatim>\<open>xml_val_new_number\<close> or
  \<^verbatim>\<open>xml_val_new_string\<close>.  An entry of the error queue holds the status that \<^verbatim>\<open>agt_record_error\<close> was given and
  its error-info parameter.
\<close>

datatype reply_leaf = Leaf_number string u32 u32 | Leaf_string string u32 string

datatype error_parm = NCX_NT_NONE | NCX_NT_STRING string | NCX_NT_UINT32_PTR u32

record rpc_msg_t =
  rpc_input :: val_value
  rpc_user1 :: "plock_cb_t option"
  rpc_data_type :: rpc_data_t
  rpc_dataQ :: "reply_leaf list"
  msg_errQ :: "(status_t \<times> error_parm) list"

definition agt_record_error :: "status_t \<Rightarrow> error_parm \<Rightarrow> rpc_msg_t \<Rightarrow> rpc_msg_t" where
  "agt_record_error res parm msg = msg\<lparr>msg_errQ := msg_errQ msg @ [(res, parm)]\<rparr>"

abbreviation M_partial_lock :: string where "M_partial_lock \<equiv> ''ietf-netconf-partial-lock''"
abbreviation N_select :: string where "N_select \<equiv> ''select''"
abbreviation N_lock_id :: string where "N_lock_id \<equiv> ''lock-id''"
abbreviation N_locked_node :: string where "N_locked_node \<equiv> ''locked-node''"

section \<open>partial-lock, validation\<close>

text \<open>
  \<open>eval\<close> is \<^verbatim>\<open>xpath1_eval_xmlexpr\<close> on the running configuration; for a null \<^verbatim>\<open>pcb\<close> it returns no result and
  leaves \<^verbatim>\<open>*res\<close> alone.  It sets the document root of the \<^verbatim>\<open>pcb\<close>.
\<close>

definition eval_select ::
    "(xpath_pcb_t \<Rightarrow> val_value \<Rightarrow> xpath_result_t option \<times> status_t) \<Rightarrow> val_value \<Rightarrow> xpath_pcb_t option \<Rightarrow> status_t \<Rightarrow>
     xpath_result_t option \<times> status_t" where
  "eval_select eval tree pcb res = (case pcb of None \<Rightarrow> (None, res) | Some pcb \<Rightarrow> eval pcb tree)"

text \<open>One turn of the loop over the select parameters, at position \<open>i\<close> of the children of the input.\<close>

definition do_select ::
    "(xpath_pcb_t \<Rightarrow> val_value \<Rightarrow> xpath_result_t option \<times> status_t) \<Rightarrow> val_value \<Rightarrow> nat \<Rightarrow>
     rpc_msg_t \<times> plock_cb_t \<times> status_t \<times> status_t \<Rightarrow> rpc_msg_t \<times> plock_cb_t \<times> status_t \<times> status_t" where
  "do_select eval tree i = (\<lambda>(msg, plcb, res, retres).
     (let select_val = val_childQ (rpc_input msg) ! i;
          xpathpcb = val_xpathpcb (val_data select_val);
          parm = NCX_NT_STRING (val_str (val_data select_val))
      in case eval_select eval tree xpathpcb res of
           (None, res) \<Rightarrow> (agt_record_error res parm msg, plcb, res, res)
         | (Some result, res) \<Rightarrow>
             (if res \<noteq> NO_ERR then (agt_record_error res parm msg, plcb, res, res)
              else if restype result \<noteq> XP_RT_NODESET
              then (agt_record_error ERR_NCX_XPATH_NOT_NODESET parm msg, plcb, ERR_NCX_XPATH_NOT_NODESET,
                    ERR_NCX_XPATH_NOT_NODESET)
              else (msg\<lparr>rpc_input := val_update (\<lambda>v. Val ((val_data v)\<lparr>val_xpathpcb := None\<rparr>) (val_childQ v))
                                       (rpc_input msg) [i]\<rparr>,
                    (case xpathpcb of
                       Some pcb \<Rightarrow> plock_add_select (pcb\<lparr>val_docroot := Some []\<rparr>) result plcb
                     | None \<Rightarrow> plcb),
                    res, retres))))"

lemma length_childQ_do_select:
  "length (val_childQ (rpc_input (fst (do_select eval tree i st)))) = length (val_childQ (rpc_input (fst st)))"
  by (cases "rpc_input (fst st)")
    (auto simp: do_select_def agt_record_error_def Let_def split: prod.splits option.splits)

text \<open>
  The state of the loop is the message, the control block, \<open>res\<close> and \<open>retres\<close>.
\<close>

function select_loop ::
    "xmlns_db \<Rightarrow> (xpath_pcb_t \<Rightarrow> val_value \<Rightarrow> xpath_result_t option \<times> status_t) \<Rightarrow> val_value \<Rightarrow> nat \<Rightarrow>
     rpc_msg_t \<times> plock_cb_t \<times> status_t \<times> status_t \<Rightarrow> rpc_msg_t \<times> plock_cb_t \<times> status_t \<times> status_t" where
  "select_loop ns eval tree i st =
     (let st = do_select eval tree i st
      in case val_find_next_child ns (rpc_input (fst st)) (Some M_partial_lock) N_select i of
           None \<Rightarrow> st
         | Some j \<Rightarrow> select_loop ns eval tree j st)"
  by pat_completeness auto

termination select_loop
  by (relation "measure (\<lambda>(ns, eval, tree, i, st). length (val_childQ (rpc_input (fst st))) - i)")
    (auto simp: length_childQ_do_select dest!: find_next_child_gt)

declare select_loop.simps [simp del]

text \<open>
  The loop over the nodes of the final result checks every one of them and keeps the last error.
\<close>

fun check_nodes :: "u32 \<Rightarrow> val_value \<Rightarrow> val_ptr list \<Rightarrow> rpc_msg_t \<times> status_t \<Rightarrow> rpc_msg_t \<times> status_t" where
  "check_nodes sid tree [] (msg, retres) = (msg, retres)"
| "check_nodes sid tree (p # ps) (msg, retres) =
     (let (res, lockowner) =
            (case val_at tree p of
               None \<Rightarrow> (ERR_INTERNAL_PTR, 0)
             | Some testval \<Rightarrow> val_ok_to_partial_lock (val_ancestors [] tree p) sid 0 testval)
      in if res = NO_ERR then check_nodes sid tree ps (msg, retres)
         else check_nodes sid tree ps
           (agt_record_error res (if res = ERR_NCX_LOCK_DENIED then NCX_NT_UINT32_PTR lockowner else NCX_NT_NONE) msg,
            res))"

text \<open>The new block, with the reset of the counter when it is exhausted and no partial lock is active.\<close>

definition new_plcb ::
    "nat option \<Rightarrow> bool \<Rightarrow> string \<Rightarrow> u32 \<Rightarrow> cfg_template \<Rightarrow> u32 \<Rightarrow> plock_cb_t option \<times> status_t \<times> u32" where
  "new_plcb mem1 mem2 now sid running last_id =
     (case plock_cb_new mem1 mem2 now sid NO_ERR last_id of
        (plcb, res, last_id) \<Rightarrow>
          (if res = ERR_NCX_RESOURCE_DENIED \<and> plcb = None \<and> \<not> cfg_is_partial_locked running
           then plock_cb_new mem1 mem2 now sid NO_ERR (plock_cb_reset_id last_id)
           else (plcb, res, last_id)))"

text \<open>
  The part of the callback after the block is there.  \<open>cc_active\<close> is \<^verbatim>\<open>agt_ncx_cc_active()\<close>.
\<close>

definition check_selects ::
    "xmlns_db \<Rightarrow> (xpath_pcb_t \<Rightarrow> val_value \<Rightarrow> xpath_result_t option \<times> status_t) \<Rightarrow> bool \<Rightarrow> u32 \<Rightarrow> val_value \<Rightarrow> nat \<Rightarrow>
     rpc_msg_t \<Rightarrow> plock_cb_t \<Rightarrow> status_t \<times> rpc_msg_t" where
  "check_selects ns eval cc_active sid tree i msg plcb =
     (let (msg, plcb, _, retres) = select_loop ns eval tree i (msg, plcb, NO_ERR, NO_ERR);
          (msg, plcb, retres) =
            (if retres = NO_ERR
             then (case plock_make_final_result tree plcb of
                     (res, plcb) \<Rightarrow>
                       (if res \<noteq> NO_ERR then (agt_record_error res NCX_NT_NONE msg, plcb, res)
                        else (msg, plcb, retres)))
             else (msg, plcb, retres));
          (msg, retres) =
            (if retres = NO_ERR
             then check_nodes sid tree (nodeQ (plock_get_final_result plcb)) (msg, retres)
             else (msg, retres));
          (msg, retres) =
            (if cc_active
             then (agt_record_error ERR_NCX_IN_USE_COMMIT NCX_NT_NONE msg, ERR_NCX_IN_USE_COMMIT)
             else (msg, retres))
      in if retres = NO_ERR then (retres, msg\<lparr>rpc_user1 := Some plcb\<rparr>) else (retres, msg))"

text \<open>
  The running configuration has a root when requests are served; without one the model reports an
  internal error.  The last component is the counter of the lock ids.
\<close>

definition partial_lock_validate ::
    "xmlns_db \<Rightarrow> (xpath_pcb_t \<Rightarrow> val_value \<Rightarrow> xpath_result_t option \<times> status_t) \<Rightarrow> bool \<Rightarrow> nat option \<Rightarrow> bool \<Rightarrow>
     string \<Rightarrow> u32 \<Rightarrow> cfg_db \<Rightarrow> rpc_msg_t \<Rightarrow> u32 \<Rightarrow> status_t \<times> rpc_msg_t \<times> u32" where
  "partial_lock_validate ns eval cc_active mem1 mem2 now sid db msg last_id =
     (case cfg_get_config_id db NCX_CFGID_RUNNING of
        None \<Rightarrow> (ERR_INTERNAL_PTR, agt_record_error ERR_INTERNAL_PTR NCX_NT_NONE msg, last_id)
      | Some running \<Rightarrow>
          (let res = cfg_ok_to_partial_lock running
           in if res \<noteq> NO_ERR then (res, agt_record_error res NCX_NT_NONE msg, last_id)
              else case val_find_child ns (rpc_input msg) (Some M_partial_lock) N_select of
                     None \<Rightarrow> (ERR_INTERNAL_VAL, msg, last_id)
                   | Some i \<Rightarrow>
                       (if val_res (val_data (val_childQ (rpc_input msg) ! i)) \<noteq> NO_ERR
                        then (ERR_INTERNAL_VAL, msg, last_id)
                        else case new_plcb mem1 mem2 now sid running last_id of
                               (None, res, last_id) \<Rightarrow>
                                 (let res = (if res = NO_ERR then ERR_INTERNAL_MEM else res)
                                  in (res, agt_record_error res NCX_NT_NONE msg, last_id))
                             | (Some plcb, res, last_id) \<Rightarrow>
                                 (if res \<noteq> NO_ERR then (res, agt_record_error res NCX_NT_NONE msg, last_id)
                                  else case root running of
                                         None \<Rightarrow> (ERR_INTERNAL_PTR, msg, last_id)
                                       | Some r \<Rightarrow>
                                           (case check_selects ns eval cc_active sid r i msg plcb of
                                              (res, msg) \<Rightarrow> (res, msg, last_id))))))"

section \<open>partial-lock, invocation\<close>

definition set_at :: "plock_cb_t \<Rightarrow> val_value \<Rightarrow> val_ptr \<Rightarrow> status_t \<times> val_value" where
  "set_at plcb tree p =
     (case val_at tree p of
        None \<Rightarrow> (ERR_INTERNAL_PTR, tree)
      | Some testval \<Rightarrow>
          (case val_set_partial_lock (val_ancestors [] tree p) plcb testval of
             (res, testval) \<Rightarrow> (res, val_update (\<lambda>_. testval) tree p)))"

definition clear_at :: "plock_cb_t \<Rightarrow> val_value \<Rightarrow> val_ptr \<Rightarrow> val_value" where
  "clear_at plcb tree p =
     val_update (val_clear_partial_lock (val_ancestors [] tree p) plcb) tree p"

text \<open>
  The loop stops at the first error; then \<^verbatim>\<open>resnode\<close> is already the next node: the head of the third
  component, or null if that is empty.
\<close>

fun set_loop :: "plock_cb_t \<Rightarrow> val_value \<Rightarrow> val_ptr list \<Rightarrow> status_t \<times> val_value \<times> val_ptr list" where
  "set_loop plcb tree [] = (NO_ERR, tree, [])"
| "set_loop plcb tree (p # ps) =
     (case set_at plcb tree p of
        (res, tree) \<Rightarrow> (if res = NO_ERR then set_loop plcb tree ps else (res, tree, ps)))"

text \<open>The nodes are cleared up to and including \<^verbatim>\<open>resnode\<close>, which is given by the nodes from it on.\<close>

fun clear_until :: "plock_cb_t \<Rightarrow> val_ptr list \<Rightarrow> val_value \<Rightarrow> val_ptr list \<Rightarrow> val_value" where
  "clear_until plcb resnode tree [] = tree"
| "clear_until plcb resnode tree (p # ps) =
     (let tree = clear_at plcb tree p
      in if length (p # ps) = length resnode then tree else clear_until plcb resnode tree ps)"

definition clear_loop :: "plock_cb_t \<Rightarrow> val_value \<Rightarrow> val_ptr list \<Rightarrow> val_value" where
  "clear_loop plcb tree ps = foldl (clear_at plcb) tree ps"

abbreviation set_root :: "val_value \<Rightarrow> cfg_db \<Rightarrow> cfg_db" where
  "set_root r \<equiv> upd NCX_CFGID_RUNNING (\<lambda>cfg. cfg\<lparr>root := Some r\<rparr>)"

text \<open>
  The locked-node leafs, up to the first error.  \<open>gen\<close> is \<^verbatim>\<open>val_gen_instance_id\<close>, \<open>mem\<close> tells for which
  nodes there is memory for the leaf.
\<close>

fun reply_nodes :: "(val_ptr \<Rightarrow> status_t \<times> string) \<Rightarrow> (val_ptr \<Rightarrow> bool) \<Rightarrow> u32 \<Rightarrow> val_ptr list \<Rightarrow> rpc_msg_t \<Rightarrow>
    status_t \<times> rpc_msg_t" where
  "reply_nodes gen mem nsid [] msg = (NO_ERR, msg)"
| "reply_nodes gen mem nsid (p # ps) msg =
     (case gen p of
        (res, pathbuff) \<Rightarrow>
          (let res = (if res = NO_ERR \<and> \<not> mem p then ERR_INTERNAL_MEM else res)
           in if res = NO_ERR
              then reply_nodes gen mem nsid ps
                     (msg\<lparr>rpc_dataQ := rpc_dataQ msg @ [Leaf_string N_locked_node nsid pathbuff]\<rparr>)
              else (res, agt_record_error res NCX_NT_NONE msg)))"

definition make_reply :: "bool \<Rightarrow> (val_ptr \<Rightarrow> status_t \<times> string) \<Rightarrow> (val_ptr \<Rightarrow> bool) \<Rightarrow> plock_cb_t \<Rightarrow> rpc_msg_t \<Rightarrow>
    status_t \<times> rpc_msg_t" where
  "make_reply memid gen mem plcb msg =
     (let msg = msg\<lparr>rpc_data_type := RPC_DATA_YANG\<rparr>;
          nsid = val_get_nsid (rpc_input msg)
      in if \<not> memid then (ERR_INTERNAL_MEM, agt_record_error ERR_INTERNAL_MEM NCX_NT_NONE msg)
         else reply_nodes gen mem nsid (nodeQ (plock_get_final_result plcb))
                (msg\<lparr>rpc_dataQ := rpc_dataQ msg @ [Leaf_number N_lock_id nsid (plock_get_id plcb)]\<rparr>))"

text \<open>
  \<open>memid\<close>: there is memory for the lock-id leaf.  The callback is called with the block that the
  validation stored and with a running configuration that has a root.
\<close>

definition partial_lock_invoke ::
    "bool \<Rightarrow> (val_ptr \<Rightarrow> status_t \<times> string) \<Rightarrow> (val_ptr \<Rightarrow> bool) \<Rightarrow> cfg_db \<Rightarrow> rpc_msg_t \<Rightarrow>
     status_t \<times> rpc_msg_t \<times> cfg_db" where
  "partial_lock_invoke memid gen mem db msg =
     (case (rpc_user1 msg, cfg_get_root db NCX_CFGID_RUNNING) of
        (Some plcb, Some r) \<Rightarrow>
          (let nodes = nodeQ (plock_get_final_result plcb)
           in case set_loop plcb r nodes of
                (res, r, resnode) \<Rightarrow>
                  (if res \<noteq> NO_ERR
                   then (res, agt_record_error res NCX_NT_NONE msg, set_root (clear_until plcb resnode r nodes) db)
                   else case cfg_add_partial_lock NCX_CFGID_RUNNING plcb (set_root r db) of
                          (res, db) \<Rightarrow>
                            (if res \<noteq> NO_ERR
                             then (res, agt_record_error res NCX_NT_NONE msg, set_root (clear_loop plcb r nodes) db)
                             else case make_reply memid gen mem plcb msg of
                                    (res, msg) \<Rightarrow>
                                      (if res = NO_ERR then (res, msg, db)
                                       else (res, msg\<lparr>rpc_dataQ := [], rpc_data_type := RPC_DATA_NONE\<rparr>,
                                             cfg_delete_partial_lock NCX_CFGID_RUNNING (plock_get_id plcb)
                                               (set_root (clear_loop plcb r nodes) db))))))
      | _ \<Rightarrow> (ERR_INTERNAL_PTR, msg, db))"

section \<open>partial-unlock\<close>

definition partial_unlock_validate :: "xmlns_db \<Rightarrow> u32 \<Rightarrow> cfg_db \<Rightarrow> rpc_msg_t \<Rightarrow> status_t \<times> rpc_msg_t" where
  "partial_unlock_validate ns sid db msg =
     (case val_find_child ns (rpc_input msg) (Some M_partial_lock) N_lock_id of
        None \<Rightarrow> (ERR_NCX_INVALID_VALUE, msg)
      | Some i \<Rightarrow>
          (let lock_id_val = val_childQ (rpc_input msg) ! i
           in if val_res (val_data lock_id_val) \<noteq> NO_ERR then (ERR_NCX_INVALID_VALUE, msg)
              else case Option.bind (cfg_get_config_id db NCX_CFGID_RUNNING)
                          (\<lambda>running. cfg_find_partial_lock running (val_uint (val_data lock_id_val))) of
                     None \<Rightarrow> (ERR_NCX_INVALID_VALUE, agt_record_error ERR_NCX_INVALID_VALUE NCX_NT_NONE msg)
                   | Some plcb \<Rightarrow>
                       (if plock_get_sid plcb \<noteq> sid
                        then (ERR_NCX_INVALID_VALUE, agt_record_error ERR_NCX_INVALID_VALUE NCX_NT_NONE msg)
                        else (NO_ERR, msg\<lparr>rpc_user1 := Some plcb\<rparr>))))"

definition partial_unlock_invoke :: "cfg_db \<Rightarrow> rpc_msg_t \<Rightarrow> status_t \<times> cfg_db" where
  "partial_unlock_invoke db msg =
     (NO_ERR,
      case rpc_user1 msg of
        None \<Rightarrow> db
      | Some plcb \<Rightarrow> cfg_delete_partial_lock NCX_CFGID_RUNNING (plock_get_id plcb) db)"

section \<open>Trees without a lock\<close>

text \<open>How often the node at a path points to a lock, and the tree with all its pointers removed.\<close>

fun cnt :: "plock_cb_t \<Rightarrow> val_value \<Rightarrow> val_ptr \<Rightarrow> nat" where
  "cnt plcb (Val d cs) [] = length (filter (points_to plcb) (val_plock d))"
| "cnt plcb (Val d cs) (i # p) = (if i < length cs then cnt plcb (cs ! i) p else 0)"

fun strip :: "plock_cb_t \<Rightarrow> val_value \<Rightarrow> val_value" where
  "strip plcb (Val d cs) =
     Val (d\<lparr>val_plock := map (\<lambda>s. if points_to plcb s then None else s) (val_plock d)\<rparr>) (map (strip plcb) cs)"

definition fresh_lock :: "plock_cb_t \<Rightarrow> val_value \<Rightarrow> bool" where
  "fresh_lock plcb v \<longleftrightarrow> (\<forall>p. cnt plcb v p = 0)"

lemma cnt_at: "cnt plcb v p = (case val_at v p of Some n \<Rightarrow> length (filter (points_to plcb) (vplock n)) | None \<Rightarrow> 0)"
  by (induction plcb v p rule: cnt.induct) auto

lemma fresh_child: "fresh_lock plcb (Val d cs) \<Longrightarrow> c \<in> set cs \<Longrightarrow> fresh_lock plcb c"
proof -
  assume f: "fresh_lock plcb (Val d cs)" "c \<in> set cs"
  then obtain i where i: "i < length cs" "c = cs ! i" by (auto simp: in_set_conv_nth)
  have "cnt plcb (Val d cs) (i # p) = 0" for p using f(1) by (simp only: fresh_lock_def)
  with i show ?thesis by (simp add: fresh_lock_def)
qed

lemma fresh_top: "fresh_lock plcb (Val d cs) \<Longrightarrow> filter (points_to plcb) (val_plock d) = []"
  unfolding fresh_lock_def by (metis cnt.simps(1) length_0_conv)

lemma fresh_Val:
  "fresh_lock plcb (Val d cs) \<longleftrightarrow> filter (points_to plcb) (val_plock d) = [] \<and> (\<forall>c \<in> set cs. fresh_lock plcb c)"
proof
  assume r: "filter (points_to plcb) (val_plock d) = [] \<and> (\<forall>c \<in> set cs. fresh_lock plcb c)"
  have "cnt plcb (Val d cs) p = 0" for p using r by (cases p) (simp_all add: fresh_lock_def)
  then show "fresh_lock plcb (Val d cs)" by (simp add: fresh_lock_def)
qed (use fresh_top fresh_child in blast)

lemma strip_fresh: "fresh_lock plcb v \<Longrightarrow> strip plcb v = v"
proof (induction plcb v rule: strip.induct)
  case (1 plcb d cs)
  have "map (\<lambda>s. if points_to plcb s then None else s) (val_plock d) = val_plock d"
    using fresh_top [OF 1(2)] by (intro map_idI) (auto simp: filter_empty_conv)
  moreover have "map (strip plcb) cs = cs" using 1 fresh_child by (intro map_idI) blast
  ultimately show ?case by simp
qed

lemma strip_keeps: "vobj (strip plcb v) = vobj v" by (cases v) simp

lemma val_at_strip: "val_at (strip plcb v) p = map_option (strip plcb) (val_at v p)"
proof (induction p arbitrary: v)
  case (Cons i p)
  then show ?case by (cases v) simp
qed simp

lemma ancestors_strip:
  "val_ancestors (map (strip plcb) anc) (strip plcb v) p = map (strip plcb) (val_ancestors anc v p)"
proof (induction p arbitrary: v anc)
  case (Cons i p)
  show ?case using Cons [of "v # anc"] by (cases v) (simp del: strip.simps, simp)
qed simp

text \<open>The node at the path is configuration data; only the objects matter, so removing pointers does not.\<close>

definition config_at :: "val_value \<Rightarrow> val_ptr \<Rightarrow> bool" where
  "config_at v p \<longleftrightarrow> (case val_at v p of Some n \<Rightarrow> val_is_config_data (n # val_ancestors [] v p) | None \<Rightarrow> False)"

lemma config_at_strip: "config_at (strip plcb v) p = config_at v p"
proof (cases "val_at v p")
  case (Some n)
  have "val_is_config_data (strip plcb n # map (strip plcb) (val_ancestors [] v p)) =
      val_is_config_data (n # val_ancestors [] v p)"
    by (rule val_is_config_data_objs) (simp add: strip_keeps)
  with Some ancestors_strip [of plcb "[]" v p] show ?thesis by (simp add: config_at_def val_at_strip)
qed (simp add: config_at_def val_at_strip)

lemma config_at_cong: "strip plcb v = strip plcb w \<Longrightarrow> config_at v p = config_at w p"
  using config_at_strip by metis

lemma fresh_absent: "fresh_lock plcb v \<Longrightarrow> lock_absent plcb anc v"
proof (induction anc v rule: config_nodes.induct)
  case (1 anc d cs)
  then show ?case
    using fresh_top [OF 1(2)] fresh_child [OF 1(2)]
    by (auto simp: lock_absent_def filter_empty_conv list_ex_iff)
qed

subsection \<open>Setting and clearing\<close>

lemma strip_fill_slot:
  "map (\<lambda>s. if points_to plcb s then None else s) (fill_slot plcb ps) = map (\<lambda>s. if points_to plcb s then None else s) ps"
  by (induction plcb ps rule: fill_slot.induct) (auto simp: points_to_def)

lemma strip_clear_slot:
  "map (\<lambda>s. if points_to plcb s then None else s) (clear_slot plcb ps) = map (\<lambda>s. if points_to plcb s then None else s) ps"
  by (induction plcb ps rule: clear_slot.induct) (auto simp: points_to_def)

lemma strip_set: "strip plcb (snd (val_set_partial_lock anc plcb v)) = strip plcb v"
  by (cases v) (auto simp: val_set_partial_lock_def set_plock_def strip_fill_slot split: sum.splits)

lemma strip_clear: "strip plcb (val_clear_partial_lock anc plcb v) = strip plcb v"
proof (induction anc plcb v rule: val_clear_partial_lock.induct)
  case (1 anc plcb d cs)
  have "map (strip plcb) (map (\<lambda>c. if VAL_IS_DELETED c then c
            else if val_is_config_data (c # Val d cs # anc) then val_clear_partial_lock (Val d cs # anc) plcb c
            else c) cs) = map (strip plcb) cs"
    if "val_is_config_data (Val d cs # anc)" "\<not> list_ex (points_to plcb) (val_plock d)" "typ_has_children (val_btyp d)"
    using 1 [OF _ that(2,3)] that(1) by simp
  then show ?case by (simp add: strip_clear_slot del: map_map)
qed

lemma strip_update:
  "(\<And>w. val_at v p = Some w \<Longrightarrow> strip plcb (f w) = strip plcb w) \<Longrightarrow> strip plcb (val_update f v p) = strip plcb v"
proof (induction f v p rule: val_update.induct)
  case (2 f d cs i p)
  then show ?case
    by (auto simp: map_update intro: list_update_same_conv [THEN iffD2])
qed simp

lemma strip_set_at: "strip plcb (snd (set_at plcb v p)) = strip plcb v"
  using strip_set [of plcb "val_ancestors [] v p"]
  by (auto simp: set_at_def split: option.splits prod.splits intro!: strip_update) (metis snd_conv)

lemma strip_clear_at: "strip plcb (clear_at plcb v p) = strip plcb v"
  by (simp add: clear_at_def strip_update strip_clear)

lemma cnt_fill_slot:
  "None \<in> set ps \<Longrightarrow> length (filter (points_to plcb) (fill_slot plcb ps)) = Suc (length (filter (points_to plcb) ps))"
  by (induction plcb ps rule: fill_slot.induct) (auto simp: points_to_def)

lemma cnt_clear_slot:
  "length (filter (points_to plcb) (clear_slot plcb ps)) = length (filter (points_to plcb) ps) - 1"
  by (induction plcb ps rule: clear_slot.induct) (auto simp: points_to_def)

lemma cnt_update_same: "val_at v p = Some w \<Longrightarrow> cnt plcb (val_update f v p) p = cnt plcb (f w) []"
  by (induction f v p rule: val_update.induct) (auto split: if_splits)

lemma cnt_update_le:
  "(\<And>w q. val_at v p = Some w \<Longrightarrow> cnt plcb (f w) q \<le> cnt plcb w q) \<Longrightarrow> cnt plcb (val_update f v p) q \<le> cnt plcb v q"
proof (induction f v p arbitrary: q rule: val_update.induct)
  case (2 f d cs i p)
  show ?case using 2 by (cases q) (auto simp: nth_list_update)
qed simp

lemma cnt_clear_le: "cnt plcb (val_clear_partial_lock anc plcb v) q \<le> cnt plcb v q"
proof (induction anc plcb v arbitrary: q rule: val_clear_partial_lock.induct)
  case (1 anc plcb d cs)
  show ?case using 1 by (cases q) (auto simp: cnt_clear_slot)
qed

lemma cnt_clear_top:
  "val_is_config_data (v # anc) \<Longrightarrow> cnt plcb (val_clear_partial_lock anc plcb v) [] = cnt plcb v [] - 1"
  by (cases v) (auto simp: cnt_clear_slot list_ex_iff filter_empty_conv)

lemma cnt_clear_at_le: "cnt plcb (clear_at plcb v p) q \<le> cnt plcb v q"
  unfolding clear_at_def by (rule cnt_update_le) (rule cnt_clear_le)

lemma cnt_clear_at: "config_at v p \<Longrightarrow> cnt plcb (clear_at plcb v p) p = cnt plcb v p - 1"
  by (auto simp: clear_at_def config_at_def cnt_update_same cnt_clear_top cnt_at [of plcb v p] split: option.splits)
    (simp add: cnt_at)

lemma vplock_update:
  "val_at v p = Some n \<Longrightarrow> map_option vplock (val_at (val_update (\<lambda>_. set_plock g n) v p) q) =
     (if q = p then Some (g (vplock n)) else map_option vplock (val_at v q))"
proof (induction p arbitrary: v q)
  case Nil
  then show ?case by (cases q) (auto simp: set_plock_def)
next
  case (Cons i p)
  then obtain d cs where v: "v = Val d cs" "i < length cs" "val_at (cs ! i) p = Some n"
    by (cases v) (auto split: if_splits)
  show ?case
  proof (cases q)
    case (Cons j q')
    then show ?thesis using v Cons.IH [OF v(3), of q'] by (auto simp: nth_list_update)
  qed (simp add: v)
qed

lemma set_at_ok:
  "set_at plcb v p = (NO_ERR, v') \<longleftrightarrow> (\<exists>n. val_at v p = Some n \<and> config_at v p \<and>
     only_locks_of (plock_get_sid plcb) n \<and> None \<in> set (vplock n) \<and>
     v' = val_update (\<lambda>_. set_plock (fill_slot plcb) n) v p)"
proof (cases "val_at v p")
  case (Some n)
  obtain res w where w: "val_set_partial_lock (val_ancestors [] v p) plcb n = (res, w)" by fastforce
  show ?thesis
    using Some w set_partial_lock_ok [of "val_ancestors [] v p" plcb n w]
      set_partial_lock_ok [of "val_ancestors [] v p" plcb n "set_plock (fill_slot plcb) n"]
    by (auto simp: set_at_def config_at_def)
qed (simp add: set_at_def)

lemma val_update_same: "val_at v p = Some n \<Longrightarrow> val_update (\<lambda>_. n) v p = v"
  by (induction "\<lambda>_ :: val_value. n" v p rule: val_update.induct) (auto split: if_splits)

lemma set_at_failed: "set_at plcb v p = (res, v') \<Longrightarrow> res \<noteq> NO_ERR \<Longrightarrow> v' = v"
  by (auto simp: set_at_def val_set_partial_lock_def val_update_same split: option.splits sum.splits if_splits)

lemma cnt_vplock: "cnt plcb v p = (case map_option vplock (val_at v p) of Some ps \<Rightarrow> length (filter (points_to plcb) ps) | None \<Rightarrow> 0)"
  by (simp add: cnt_at split: option.splits)

lemma cnt_set_at:
  "set_at plcb v p = (NO_ERR, v') \<Longrightarrow> cnt plcb v' q = cnt plcb v q + (if q = p then 1 else 0)"
proof -
  assume "set_at plcb v p = (NO_ERR, v')"
  then obtain n where n: "val_at v p = Some n" "None \<in> set (vplock n)" "v' = val_update (\<lambda>_. set_plock (fill_slot plcb) n) v p"
    by (auto simp: set_at_ok)
  show ?thesis
    unfolding n(3) cnt_vplock vplock_update [OF n(1)] using n(1,2) cnt_fill_slot by simp
qed

text \<open>What the loop that sets the locks has done when it stops: a prefix of the nodes is locked.\<close>

lemma set_loop_spec:
  "set_loop plcb v ps = (res, v', rest) \<Longrightarrow>
     \<exists>ds. strip plcb v' = strip plcb v \<and> (\<forall>p \<in> set ds. config_at v p) \<and>
       (\<forall>q. cnt plcb v' q = cnt plcb v q + count_list ds q) \<and>
       (if res = NO_ERR then ds = ps \<and> rest = [] else \<exists>p. ps = ds @ p # rest)"
proof (induction plcb v ps arbitrary: v' rule: set_loop.induct)
  case (1 plcb v)
  then show ?case by (intro exI [of _ "[]"]) simp
next
  case (2 plcb v p ps)
  obtain r1 v1 where s: "set_at plcb v p = (r1, v1)" by fastforce
  have st: "strip plcb v1 = strip plcb v" using strip_set_at [of plcb v p] s by simp
  show ?case
  proof (cases "r1 = NO_ERR")
    case True
    with 2(2) s have "set_loop plcb v1 ps = (res, v', rest)" by simp
    from 2(1) [OF s [symmetric] True this] st obtain ds2 where d: "strip plcb v' = strip plcb v"
      "\<forall>p \<in> set ds2. config_at v1 p" "\<forall>q. cnt plcb v' q = cnt plcb v1 q + count_list ds2 q"
      "if res = NO_ERR then ds2 = ps \<and> rest = [] else \<exists>p. ps = ds2 @ p # rest" by auto
    have "config_at v p" using s True by (auto simp: set_at_ok)
    with d(1,3,4) cnt_set_at [OF s [unfolded True]] config_at_cong [OF st] d(2) show ?thesis
      by (intro exI [of _ "p # ds2"]) auto
  next
    case False
    with 2(2) s have "res = r1" "v' = v1" "rest = ps" by auto
    with set_at_failed [OF s False] False show ?thesis by (intro exI [of _ "[]"]) auto
  qed
qed

lemma clear_loop_spec:
  "strip plcb (clear_loop plcb v L) = strip plcb v \<and> cnt plcb (clear_loop plcb v L) q \<le> cnt plcb v q \<and>
     (config_at v q \<longrightarrow> cnt plcb (clear_loop plcb v L) q \<le> cnt plcb v q - count_list L q)"
proof (induction L arbitrary: v)
  case (Cons p L)
  have l: "clear_loop plcb v (p # L) = clear_loop plcb (clear_at plcb v p) L" by (simp add: clear_loop_def)
  show ?case
    using Cons [of "clear_at plcb v p"] cnt_clear_at_le [of plcb v p q] cnt_clear_at [of v q plcb]
      config_at_cong [OF strip_clear_at [of plcb v p], of q]
    unfolding l by (auto simp: strip_clear_at)
qed (simp add: clear_loop_def)

lemma clear_until_prefix: "clear_until plcb rest v (xs @ rest) = clear_loop plcb v (xs @ take 1 rest)"
proof (induction xs arbitrary: v)
  case Nil
  show ?case by (cases rest) (simp_all add: clear_loop_def Let_def)
qed (simp add: clear_loop_def Let_def)

text \<open>Clearing every locked node, and possibly more, restores a tree that did not hold the lock before.\<close>

lemma clear_loop_restores:
  assumes "fresh_lock plcb v" and "strip plcb v' = strip plcb v" and "\<forall>q. cnt plcb v' q = count_list ds q"
    and "\<forall>p \<in> set ds. config_at v p"
  shows "clear_loop plcb v' (ds @ L) = v"
proof -
  let ?T = "clear_loop plcb v' (ds @ L)"
  have "cnt plcb ?T q = 0" for q
  proof (cases "q \<in> set ds")
    case True
    with assms(4) config_at_cong [OF assms(2)] have "config_at v' q" by blast
    then show ?thesis using clear_loop_spec [of plcb v' "ds @ L" q] assms(3) by simp
  next
    case False
    then show ?thesis using clear_loop_spec [of plcb v' "ds @ L" q] assms(3) by (simp add: count_list_0_iff)
  qed
  then have "strip plcb ?T = ?T" by (intro strip_fresh) (simp add: fresh_lock_def)
  with clear_loop_spec [of plcb v' "ds @ L"] assms(2) strip_fresh [OF assms(1)] show ?thesis by simp
qed

lemma set_loop_backed_out:
  assumes "fresh_lock plcb v" and "set_loop plcb v ps = (res, v', rest)"
  shows "res \<noteq> NO_ERR \<Longrightarrow> clear_until plcb rest v' ps = v" and "res = NO_ERR \<Longrightarrow> clear_loop plcb v' ps = v"
proof -
  from set_loop_spec [OF assms(2)] obtain ds where d: "strip plcb v' = strip plcb v"
    "\<forall>p \<in> set ds. config_at v p" "\<forall>q. cnt plcb v' q = count_list ds q"
    "if res = NO_ERR then ds = ps \<and> rest = [] else \<exists>p. ps = ds @ p # rest"
    using assms(1) by (auto simp: fresh_lock_def)
  note restores = clear_loop_restores [OF assms(1) d(1,3,2)]
  show "clear_until plcb rest v' ps = v" if "res \<noteq> NO_ERR"
  proof -
    from d(4) that obtain p where "ps = (ds @ [p]) @ rest" by auto
    with clear_until_prefix [of plcb rest v' "ds @ [p]"] restores [of "p # take 1 rest"] show ?thesis by simp
  qed
  show "clear_loop plcb v' ps = v" if "res = NO_ERR" using d(4) that restores [of "[]"] by simp
qed

lemma upd_upd: "upd i f (upd i g db) = upd i (f \<circ> g) db"
  by (cases "cfg_arr db i") (simp_all add: upd_def)

lemma get_root_upd:
  "cfg_get_root (upd i f db) j = (if j = i then (if i > MAX_CFGID then None else Option.bind (map_option f (cfg_arr db i)) root)
     else cfg_get_root db j)"
  by (auto simp: cfg_get_root_def upd_slot split: option.splits)

text \<open>Adding and deleting a block with a new id and address.\<close>

lemma delete_added_lock:
  assumes "cfg_arr db 0 = Some cfg" and "\<forall>p \<in> set (plockQ cfg). plock_get_id p \<noteq> plock_get_id plcb \<and> plock_addr p \<noteq> plock_addr plcb"
    and "fresh_lock plcb r"
  shows "cfg_delete_partial_lock 0 (plock_get_id plcb)
       (upd 0 (\<lambda>c. c\<lparr>cfg_state := CFG_ST_PLOCK, plockQ := plockQ c @ [plcb], root := Some r\<rparr>) db) =
     upd 0 (\<lambda>c. c\<lparr>root := Some r, cfg_state := (if plockQ cfg = [] then CFG_ST_READY else CFG_ST_PLOCK)\<rparr>) db"
proof -
  have find: "List.find (\<lambda>p. plock_get_id p = plock_get_id plcb) (plockQ cfg @ [plcb]) = Some plcb"
  proof -
    have "List.find (\<lambda>p. plock_get_id p = plock_get_id plcb) (plockQ cfg) = None"
      using assms(2) by (auto simp: find_None_iff)
    then show ?thesis by (simp add: find_append)
  qed
  have rem: "remove_first (\<lambda>p. plock_addr p = plock_addr plcb) (plockQ cfg @ [plcb]) = plockQ cfg"
    using assms(2) by (simp add: remove_first_append)
  show ?thesis
    using assms(1) clear_absent [OF fresh_absent [OF assms(3)], of "[]"]
    by (simp add: cfg_delete_partial_lock_def upd_slot cfg_find_partial_lock_def find Let_def drop_plock_def rem upd_def)
qed

section \<open>What an invocation does\<close>

text \<open>The reply of a granted lock: the id, then one leaf per node.\<close>

lemma reply_nodes_ok:
  "reply_nodes gen mem nsid ps msg = (NO_ERR, msg') \<Longrightarrow>
     msg' = msg\<lparr>rpc_dataQ := rpc_dataQ msg @ map (\<lambda>p. Leaf_string N_locked_node nsid (snd (gen p))) ps\<rparr> \<and>
     (\<forall>p \<in> set ps. fst (gen p) = NO_ERR \<and> mem p)"
proof (induction ps arbitrary: msg)
  case (Cons p ps)
  show ?case
    using Cons.prems Cons.IH [of "msg\<lparr>rpc_dataQ := rpc_dataQ msg @ [Leaf_string N_locked_node nsid (snd (gen p))]\<rparr>"]
    by (cases "gen p"; cases "fst (gen p) = NO_ERR \<and> mem p") (auto simp: Let_def split: if_splits)
qed simp

lemma reply_nodes_granted:
  "\<forall>p \<in> set ps. fst (gen p) = NO_ERR \<and> mem p \<Longrightarrow> fst (reply_nodes gen mem nsid ps msg) = NO_ERR"
proof (induction ps arbitrary: msg)
  case (Cons p ps)
  then show ?case by (cases "gen p") simp
qed simp

text \<open>The cases of an invocation: the locks cannot be set, the block cannot be added, the reply fails, or all is done.\<close>

lemma invoke_cases:
  assumes "rpc_user1 msg = Some plcb" and "cfg_arr db 0 = Some cfg" and "root cfg = Some r"
    and "partial_lock_invoke memid gen mem db msg = (res, msg', db')"
  obtains v rest where "set_loop plcb r (nodeQ (plock_get_final_result plcb)) = (res, v, rest)" "res \<noteq> NO_ERR"
      "db' = set_root (clear_until plcb rest v (nodeQ (plock_get_final_result plcb))) db"
      "msg' = agt_record_error res NCX_NT_NONE msg"
  | v where "set_loop plcb r (nodeQ (plock_get_final_result plcb)) = (NO_ERR, v, [])" "res \<noteq> NO_ERR"
      "db' = set_root (clear_loop plcb v (nodeQ (plock_get_final_result plcb))) db"
      "msg' = agt_record_error res NCX_NT_NONE msg"
  | v where "set_loop plcb r (nodeQ (plock_get_final_result plcb)) = (NO_ERR, v, [])" "res \<noteq> NO_ERR"
      "db' = cfg_delete_partial_lock 0 (plock_get_id plcb)
         (upd 0 (\<lambda>c. c\<lparr>cfg_state := CFG_ST_PLOCK, plockQ := plockQ c @ [plcb],
            root := Some (clear_loop plcb v (nodeQ (plock_get_final_result plcb)))\<rparr>) db)"
      "rpc_dataQ msg' = []" "rpc_data_type msg' = RPC_DATA_NONE"
  | v where "set_loop plcb r (nodeQ (plock_get_final_result plcb)) = (NO_ERR, v, [])" "res = NO_ERR"
      "make_reply memid gen mem plcb msg = (NO_ERR, msg')" "cfg_ok_to_partial_lock cfg = NO_ERR"
      "db' = upd 0 (\<lambda>c. c\<lparr>root := Some v, cfg_state := CFG_ST_PLOCK, plockQ := plockQ c @ [plcb]\<rparr>) db"
proof -
  let ?S = "nodeQ (plock_get_final_result plcb)"
  obtain r1 v rest where s: "set_loop plcb r ?S = (r1, v, rest)" by (metis prod.exhaust)
  have root: "cfg_get_root db 0 = Some r" using assms(2,3) by (simp add: cfg_get_root_def)
  note inv = assms(4) [unfolded partial_lock_invoke_def assms(1) root option.case prod.case Let_def s]
  show ?thesis
  proof (cases "r1 = NO_ERR")
    case False
    with inv s that(1) show ?thesis by auto
  next
    case True
    then have rest: "rest = []" using set_loop_spec [OF s] by auto
    have slot: "cfg_arr (set_root v db) 0 = Some (cfg\<lparr>root := Some v\<rparr>)" using assms(2) by (simp add: upd_slot)
    have ok: "cfg_ok_to_partial_lock (cfg\<lparr>root := Some v\<rparr>) = cfg_ok_to_partial_lock cfg"
      by (simp add: cfg_ok_to_partial_lock_def)
    show ?thesis
    proof (cases "cfg_ok_to_partial_lock cfg = NO_ERR")
      case False
      with inv True s rest assms(2) that(2) show ?thesis
        by (auto simp: cfg_add_partial_lock_def slot ok Let_def upd_upd comp_def)
    next
      case ok': True
      obtain r2 m where m: "make_reply memid gen mem plcb msg = (r2, m)" by fastforce
      show ?thesis
      proof (cases "r2 = NO_ERR")
        case t: True
        show ?thesis
          using inv True s rest m t ok' by (intro that(4)) (auto simp: cfg_add_partial_lock_def slot ok Let_def upd_upd comp_def)
      next
        case False
        show ?thesis
          using inv True s rest m False ok' by (intro that(3)) (auto simp: cfg_add_partial_lock_def slot ok Let_def upd_upd comp_def)
      qed
    qed
  qed
qed

lemma set_loop_ok:
  "distinct ps \<Longrightarrow> \<forall>p \<in> set ps. config_at v p \<and> (\<exists>ss. map_option vplock (val_at v p) = Some ss \<and> None \<in> set ss \<and>
       (\<forall>l. Some l \<in> set ss \<longrightarrow> plock_get_sid l = plock_get_sid plcb)) \<Longrightarrow>
     \<exists>v'. set_loop plcb v ps = (NO_ERR, v', [])"
proof (induction ps arbitrary: v)
  case (Cons p ps)
  from Cons.prems(2) obtain n where n: "val_at v p = Some n" "config_at v p" "None \<in> set (vplock n)"
    "only_locks_of (plock_get_sid plcb) n" by (auto simp: only_locks_of_def)
  let ?v = "val_update (\<lambda>_. set_plock (fill_slot plcb) n) v p"
  have s: "set_at plcb v p = (NO_ERR, ?v)" using n by (simp add: set_at_ok)
  have "strip plcb ?v = strip plcb v" using strip_set_at [of plcb v p] s by simp
  then have "\<exists>v'. set_loop plcb ?v ps = (NO_ERR, v', [])"
    using Cons.prems by (intro Cons.IH) (auto simp: vplock_update [OF n(1)] config_at_cong [of plcb ?v v])
  with s show ?case by simp
qed simp

lemma val_update_at: "val_at v p = Some n \<Longrightarrow> val_update (\<lambda>_. f n) v p = val_update f v p"
  by (induction f v p rule: val_update.induct) (auto split: if_splits)

lemma set_loop_lock_all: "set_loop plcb v ps = (NO_ERR, v', rest) \<Longrightarrow> v' = lock_all plcb ps v"
proof (induction ps arbitrary: v)
  case (Cons p ps)
  then obtain w where w: "set_at plcb v p = (NO_ERR, w)" "set_loop plcb w ps = (NO_ERR, v', rest)"
    by (auto split: prod.splits if_splits)
  then have "w = lock_at plcb p v"
    by (auto simp: set_at_ok lock_at_def val_update_at [where f = "set_plock (fill_slot plcb)"])
  with Cons.IH [OF w(2)] show ?case by (simp add: lock_all_simps)
qed (simp add: lock_all_simps)

lemma cnt_clear_below:
  "0 < cnt plcb v p \<Longrightarrow> cnt plcb (val_clear_partial_lock anc plcb v) (p @ i # q) = cnt plcb v (p @ i # q)"
proof (induction anc plcb v arbitrary: p rule: val_clear_partial_lock.induct)
  case (1 anc plcb d cs)
  show ?case
  proof (cases p)
    case Nil
    with 1(2) have "list_ex (points_to plcb) (val_plock d)" by (auto simp: list_ex_iff filter_empty_conv)
    with Nil show ?thesis by simp
  next
    case (Cons j p')
    with 1(2) have j: "j < length cs" "0 < cnt plcb (cs ! j) p'" by (auto split: if_splits)
    with 1(1) [OF _ _ _ nth_mem [OF j(1)] _ _ j(2)] Cons show ?thesis by auto
  qed
qed

lemma cnt_points: "0 < cnt plcb v p \<longleftrightarrow> (\<exists>n. val_at v p = Some n \<and> list_ex (points_to plcb) (vplock n))"
  by (auto simp: cnt_at list_ex_iff filter_empty_conv split: option.splits)

section \<open>What a validation checks\<close>

lemma do_select_keeps:
  assumes "do_select eval t i (msg, plcb, res, retres) = (msg', plcb', res', retres')"
  shows "plock_id plcb' = plock_id plcb" "plock_addr plcb' = plock_addr plcb" "plock_sesid plcb' = plock_sesid plcb"
    "rpc_dataQ msg' = rpc_dataQ msg"
  using assms
  by (auto simp: do_select_def Let_def agt_record_error_def plock_add_select_def split: prod.splits option.splits if_splits)

lemma select_loop_keeps:
  "select_loop ns eval t i (msg, plcb, res, retres) = (msg', plcb', res', retres') \<Longrightarrow>
     plock_id plcb' = plock_id plcb \<and> plock_addr plcb' = plock_addr plcb \<and> plock_sesid plcb' = plock_sesid plcb \<and>
     rpc_dataQ msg' = rpc_dataQ msg"
proof (induction ns eval t i "(msg, plcb, res, retres)" arbitrary: msg plcb res retres rule: select_loop.induct)
  case (1 ns eval t i)
  obtain m1 p1 s1 r1 where d: "do_select eval t i (msg, plcb, res, retres) = (m1, p1, s1, r1)"
    by (metis prod.exhaust)
  show ?case
    using 1(2) "1.hyps" [OF d [symmetric]] do_select_keeps [OF d]
    by (subst (asm) select_loop.simps) (auto simp: d Let_def split: option.splits)
qed

lemma make_final_keeps:
  "plock_make_final_result t plcb = (res, plcb') \<Longrightarrow> plock_id plcb' = plock_id plcb \<and>
     plock_addr plcb' = plock_addr plcb \<and> plock_sesid plcb' = plock_sesid plcb"
  by (auto simp: plock_make_final_result_def Let_def split: list.splits prod.splits)

lemma check_nodes_ok:
  "check_nodes sid t ps (msg, retres) = (msg', NO_ERR) \<Longrightarrow> retres = NO_ERR \<and> msg' = msg \<and>
     (\<forall>p \<in> set ps. \<exists>n. val_at t p = Some n \<and> fst (val_ok_to_partial_lock (val_ancestors [] t p) sid 0 n) = NO_ERR)"
proof (induction ps arbitrary: msg retres)
  case (Cons p ps)
  show ?case
  proof (cases "val_at t p")
    case None
    with Cons.prems Cons.IH [of "agt_record_error ERR_INTERNAL_PTR NCX_NT_NONE msg" ERR_INTERNAL_PTR] show ?thesis by simp
  next
    case (Some n)
    obtain res lo where v: "val_ok_to_partial_lock (val_ancestors [] t p) sid 0 n = (res, lo)" by fastforce
    show ?thesis
      using Cons.prems Cons.IH [of msg retres]
        Cons.IH [of "agt_record_error res (if res = ERR_NCX_LOCK_DENIED then NCX_NT_UINT32_PTR lo else NCX_NT_NONE) msg" res]
      by (auto simp: Some v Let_def split: if_splits)
  qed
qed simp

lemma new_plcb_ok:
  assumes "new_plcb mem1 mem2 now sid running last_id = (Some plcb, NO_ERR, new_id)"
  shows "plock_get_sid plcb = sid" "plock_get_id plcb = new_id" "mem1 = Some (plock_addr plcb)"
    "last_id \<noteq> NCX_MAX_UINT \<and> new_id = last_id + 1 \<or>
     last_id = NCX_MAX_UINT \<and> new_id = 1 \<and> \<not> cfg_is_partial_locked running"
  using assms
  by (auto simp: new_plcb_def plock_cb_new_def plock_cb_reset_id_def plock_get_sid_def plock_get_id_def Let_def
      split: if_splits option.splits)

text \<open>A granted validation: the state allows the lock, and every node of the stored block can be locked.\<close>

lemma validate_ok:
  assumes "partial_lock_validate ns eval cc_active mem1 mem2 now sid db msg last_id = (NO_ERR, msg', new_id)"
  obtains running r plcb where "cfg_arr db 0 = Some running" "root running = Some r"
    "cfg_ok_to_partial_lock running = NO_ERR" "\<not> cc_active" "rpc_user1 msg' = Some plcb"
    "plock_get_sid plcb = sid" "plock_get_id plcb = new_id" "mem1 = Some (plock_addr plcb)"
    "last_id \<noteq> NCX_MAX_UINT \<and> new_id = last_id + 1 \<or>
     last_id = NCX_MAX_UINT \<and> new_id = 1 \<and> \<not> cfg_is_partial_locked running"
    "\<forall>p \<in> set (nodeQ (plock_get_final_result plcb)). \<exists>n. val_at r p = Some n \<and>
       fst (val_ok_to_partial_lock (val_ancestors [] r p) sid 0 n) = NO_ERR"
    "rpc_dataQ msg' = rpc_dataQ msg" "\<not> xpath_nodeset_empty (plock_get_final_result plcb)"
proof -
  from assms obtain running i p0 r where v: "cfg_arr db 0 = Some running" "cfg_ok_to_partial_lock running = NO_ERR"
    "new_plcb mem1 mem2 now sid running last_id = (Some p0, NO_ERR, new_id)" "root running = Some r"
    "check_selects ns eval cc_active sid r i msg p0 = (NO_ERR, msg')"
    by (auto simp: partial_lock_validate_def cfg_get_config_id_def Let_def MAX_CFGID_def
        split: option.splits if_splits prod.splits)
  obtain m1 p1 s1 r1 where l: "select_loop ns eval r i (msg, p0, NO_ERR, NO_ERR) = (m1, p1, s1, r1)"
    by (metis prod.exhaust)
  obtain r2 p2 where f: "plock_make_final_result r p1 = (r2, p2)" by fastforce
  have c: "r1 = NO_ERR" "r2 = NO_ERR" "\<not> cc_active" "rpc_user1 msg' = Some p2" "rpc_dataQ msg' = rpc_dataQ m1"
    "\<exists>m. check_nodes sid r (nodeQ (plock_get_final_result p2)) (m1, NO_ERR) = (m, NO_ERR)"
    using v(5) check_nodes_ok
    by (auto simp: check_selects_def l f Let_def split: if_splits prod.splits)
      (metis status_t.distinct)+
  have ne: "\<not> xpath_nodeset_empty (plock_get_final_result p2)"
    using f c(2) by (auto simp: plock_make_final_result_def Let_def plock_get_final_result_def
        split: list.splits prod.splits if_splits)
  note k = select_loop_keeps [OF l] make_final_keeps [OF f] new_plcb_ok [OF v(3)]
  show ?thesis
    using v c ne k check_nodes_ok
    by (intro that [of running r p2]) (fastforce simp: plock_get_sid_def plock_get_id_def)+
qed

end
