(* ===== verification/Agt_Plock_Props.thy ===== *)
theory Agt_Plock_Props
  imports Agt_Plock Cfg_Props
begin

text \<open>
  The properties of the partial-lock and partial-unlock operations (theory \<open>Agt_Plock\<close>) on a reachable state
  of the configuration manager.
\<close>

section \<open>A request on the booted server\<close>

definition sample_select :: val_value where
  "sample_select = Val ((val_data (sample_node obj_host NCX_BT_STRING N_select [] []))
     \<lparr>val_xpathpcb := Some \<lparr>exprstr = ''/system/host'', val_docroot = None\<rparr>\<rparr>) []"

definition sample_request :: rpc_msg_t where
  "sample_request = \<lparr>rpc_input = sample_node obj_system NCX_BT_CONTAINER ''input'' [] [sample_select],
     rpc_user1 = None, rpc_data_type = RPC_DATA_NONE, rpc_dataQ = [], msg_errQ = []\<rparr>"

text \<open>An evaluator that finds the given nodes.\<close>

definition eval_to :: "val_ptr list \<Rightarrow> xpath_pcb_t \<Rightarrow> val_value \<Rightarrow> xpath_result_t option \<times> status_t" where
  "eval_to nodes pcb r = (Some \<lparr>restype = XP_RT_NODESET, isval = True, nodeQ = nodes\<rparr>, NO_ERR)"

text \<open>The control block of session 5 for this request, with address 7 and id 1.\<close>

definition request_plcb :: "val_ptr list \<Rightarrow> plock_cb_t" where
  "request_plcb nodes = \<lparr>plock_addr = 7, plock_id = 1, plock_sesid = 5,
     plock_xpathpcbQ = [\<lparr>exprstr = ''/system/host'', val_docroot = Some []\<rparr>],
     plock_resultQ = [\<lparr>restype = XP_RT_NODESET, isval = True, nodeQ = []\<rparr>],
     plock_final_result = \<lparr>restype = XP_RT_NODESET, isval = False, nodeQ = nodes\<rparr>, plock_time = []\<rparr>"

abbreviation "granted_request nodes \<equiv> sample_request\<lparr>rpc_user1 := Some (request_plcb nodes)\<rparr>"

lemma free_running: "cfg_arr (boot free_config) 0 = Some (boot_slot 0 ''running'' (Some free_config))"
  by (rule boot_slots(1) [OF clone_free_config])

lemma free_fresh: "fresh_lock plcb free_config"
  by (simp add: sample_defs fresh_Val points_to_def)

lemma request_plcb_simps:
  "plock_get_final_result (request_plcb nodes) = \<lparr>restype = XP_RT_NODESET, isval = False, nodeQ = nodes\<rparr>"
  "plock_get_id (request_plcb nodes) = 1" "plock_get_sid (request_plcb nodes) = 5" "plock_addr (request_plcb nodes) = 7"
  by (simp_all add: request_plcb_def plock_get_final_result_def plock_get_id_def plock_get_sid_def)

section \<open>Properties\<close>

lemma ok_lock_sid: "fst (val_ok_to_partial_lock anc 0 lo n) \<noteq> NO_ERR"
  by (cases n) simp

lemma u32_less_next: "(n :: u32) \<noteq> NCX_MAX_UINT \<Longrightarrow> n < n + 1"
proof -
  assume "n \<noteq> NCX_MAX_UINT"
  then have "unat n \<noteq> 4294967295" using word_unat_eq_iff [of n NCX_MAX_UINT] by simp
  then show ?thesis using unsigned_less [of n, where 'a = nat] by (simp add: word_less_nat_alt unat_word_ariths)
qed

lemma ok_to_partial_lock_root: "cfg_ok_to_partial_lock (c\<lparr>root := r\<rparr>) = cfg_ok_to_partial_lock c"
  by (simp add: cfg_ok_to_partial_lock_def)

lemma config_nodes_self: "n \<in> set (config_nodes anc n)"
  by (cases n) simp

lemma invoke_no_mem:
  assumes "rpc_user1 msg = Some plcb" and "cfg_arr db 0 = Some cfg" and "root cfg = Some r"
    and "partial_lock_invoke False gen mem db msg = (res, msg', db')"
  shows "res \<noteq> NO_ERR"
  using assms by (cases rule: invoke_cases) (auto simp: make_reply_def Let_def)

lemma root_upd_same: "root c = r \<Longrightarrow> c\<lparr>root := r\<rparr> = (c :: cfg_template)"
  by (cases c) simp

lemma upd_same: "cfg_arr db i = Some c \<Longrightarrow> f c = c \<Longrightarrow> upd i f db = db"
  by (simp add: upd_def fun_upd_idem)

text \<open>Deleting the lock again ends in the old state, or in the ready state when no other partial lock is active.\<close>

lemma upd_released:
  assumes "cfg_reach db" and "cfg_arr db 0 = Some cfg" and "root cfg = Some r"
  shows "upd 0 (\<lambda>c. c\<lparr>root := Some r, cfg_state := (if plockQ cfg = [] then CFG_ST_READY else CFG_ST_PLOCK)\<rparr>) db =
      (if plockQ cfg = [] then upd 0 (\<lambda>c. c\<lparr>cfg_state := CFG_ST_READY\<rparr>) db else db)"
proof -
  have r: "cfg\<lparr>root := Some r\<rparr> = cfg" using assms(3) by (rule root_upd_same)
  show ?thesis
  proof (cases "plockQ cfg = []")
    case True
    then show ?thesis using assms(2) r by (simp add: upd_def)
  next
    case False
    then have "cfg_state cfg = CFG_ST_PLOCK"
      using cfg_inv_slot [OF cfg_reach_inv [OF assms(1)] assms(2)] by (simp add: slot_ok_def)
    then have "cfg\<lparr>cfg_state := CFG_ST_PLOCK\<rparr> = cfg" by simp
    with False r show ?thesis using assms(2) by (simp add: upd_same)
  qed
qed

text \<open>
  C39: a partial-lock request that fails, at whatever node, when the lock is added or
  while the reply is built, leaves every configuration exactly as it was, overlapping nodes included,
  and returns no data.  Only the state of a running configuration without partial locks may become ready.
\<close>
theorem partial_lock_failure_atomic:
  assumes "cfg_reach db" and "cfg_arr db 0 = Some cfg" and "root cfg = Some r" and "rpc_user1 msg = Some plcb"
    and "fresh_lock plcb r"
    and "\<forall>p \<in> set (plockQ cfg). plock_get_id p \<noteq> plock_get_id plcb \<and> plock_addr p \<noteq> plock_addr plcb"
    and "partial_lock_invoke memid gen mem db msg = (res, msg', db')" and "res \<noteq> NO_ERR"
  shows "(db' = db \<or> plockQ cfg = [] \<and> db' = upd 0 (\<lambda>c. c\<lparr>cfg_state := CFG_ST_READY\<rparr>) db) \<and>
    rpc_dataQ msg' \<in> {rpc_dataQ msg, []}"
proof -
  have r: "cfg\<lparr>root := Some r\<rparr> = cfg" using assms(3) by (rule root_upd_same)
  then have same: "set_root r db = db" using assms(2) by (simp add: upd_same)
  from assms(4,2,3,7) show ?thesis
  proof (cases rule: invoke_cases)
    case (1 v rest)
    with set_loop_backed_out(1) [OF assms(5) 1(1) 1(2)] same show ?thesis by (simp add: agt_record_error_def)
  next
    case (2 v)
    with set_loop_backed_out(2) [OF assms(5) 2(1)] same show ?thesis by (simp add: agt_record_error_def)
  next
    case (3 v)
    with set_loop_backed_out(2) [OF assms(5) 3(1)] delete_added_lock [OF assms(2,6,5)]
      upd_released [OF assms(1,2,3)] show ?thesis by simp
  next
    case (4 v)
    with assms(8) show ?thesis by simp
  qed
qed

theorem partial_lock_failure_atomic_witness:
  "snd (snd (partial_lock_invoke False (\<lambda>_. (NO_ERR, [])) (\<lambda>_. True) (boot free_config) (granted_request [[0], [0, 0]]))) =
     boot free_config"
proof -
  let ?inv = "partial_lock_invoke False (\<lambda>_. (NO_ERR, [])) (\<lambda>_. True) (boot free_config) (granted_request [[0], [0, 0]])"
  obtain a b c where i: "?inv = (a, b, c)" by (metis prod.exhaust)
  have u: "rpc_user1 (granted_request [[0], [0, 0]]) = Some (request_plcb [[0], [0, 0]])" by simp
  have root: "root (boot_slot 0 ''running'' (Some free_config)) = Some free_config" by (simp add: boot_slot_def)
  from invoke_no_mem [OF u free_running root i] have "a \<noteq> NO_ERR" .
  have q: "\<forall>p \<in> set (plockQ (boot_slot 0 ''running'' (Some free_config))).
      plock_get_id p \<noteq> plock_get_id (request_plcb [[0], [0, 0]]) \<and> plock_addr p \<noteq> plock_addr (request_plcb [[0], [0, 0]])"
    by (simp add: boot_slot_def)
  have ready: "upd 0 (\<lambda>c. c\<lparr>cfg_state := CFG_ST_READY\<rparr>) (boot free_config) = boot free_config"
    by (rule upd_same [OF free_running]) (simp add: boot_slot_def)
  from partial_lock_failure_atomic [OF boot_reach free_running root u free_fresh q i \<open>a \<noteq> NO_ERR\<close>]
  have "c = boot free_config" unfolding ready by blast
  then show ?thesis unfolding i by simp
qed

text \<open>Every selected node is configuration data, has a free slot and no lock of another session.\<close>

definition able :: "plock_cb_t \<Rightarrow> val_value \<Rightarrow> val_ptr list \<Rightarrow> bool" where
  "able plcb r S \<longleftrightarrow> (\<forall>p \<in> set S. config_at r p \<and> (\<exists>ss. map_option vplock (val_at r p) = Some ss \<and> None \<in> set ss \<and>
     (\<forall>l. Some l \<in> set ss \<longrightarrow> plock_get_sid l = plock_get_sid plcb)))"

lemma invoke_locks:
  assumes "cfg_arr db 0 = Some cfg" and "root cfg = Some r" and "cfg_ok_to_partial_lock cfg = NO_ERR"
    and "rpc_user1 msg = Some plcb" and "distinct (nodeQ (plock_get_final_result plcb))"
    and "able plcb r (nodeQ (plock_get_final_result plcb))"
    and "\<forall>p \<in> set (nodeQ (plock_get_final_result plcb)). fst (gen p) = NO_ERR \<and> mem p"
  shows "\<exists>msg' r'. partial_lock_invoke True gen mem db msg =
      (NO_ERR, msg', upd 0 (\<lambda>c. c\<lparr>root := Some r', cfg_state := CFG_ST_PLOCK, plockQ := plockQ c @ [plcb]\<rparr>) db) \<and>
    (\<forall>p \<in> set (nodeQ (plock_get_final_result plcb)). \<exists>n. val_at r' p = Some n \<and> list_ex (points_to plcb) (vplock n)) \<and>
    strip plcb r' = strip plcb r \<and>
    rpc_dataQ msg' = rpc_dataQ msg @ Leaf_number N_lock_id (val_get_nsid (rpc_input msg)) (plock_get_id plcb) #
      map (\<lambda>p. Leaf_string N_locked_node (val_get_nsid (rpc_input msg)) (snd (gen p))) (nodeQ (plock_get_final_result plcb))"
proof -
  let ?S = "nodeQ (plock_get_final_result plcb)"
  from set_loop_ok [OF assms(5)] assms(6) obtain w where w: "set_loop plcb r ?S = (NO_ERR, w, [])"
    unfolding able_def by blast
  obtain m where m: "make_reply True gen mem plcb msg = (NO_ERR, m)"
    using reply_nodes_granted [OF assms(7)] unfolding make_reply_def Let_def by (metis prod.collapse)
  from reply_nodes_ok [of gen mem _ ?S] m have reply: "rpc_dataQ m = rpc_dataQ msg @
      Leaf_number N_lock_id (val_get_nsid (rpc_input msg)) (plock_get_id plcb) #
      map (\<lambda>p. Leaf_string N_locked_node (val_get_nsid (rpc_input msg)) (snd (gen p))) ?S"
    by (fastforce simp: make_reply_def Let_def)
  have inv: "partial_lock_invoke True gen mem db msg =
      (NO_ERR, m, upd 0 (\<lambda>c. c\<lparr>root := Some w, cfg_state := CFG_ST_PLOCK, plockQ := plockQ c @ [plcb]\<rparr>) db)"
    using w m assms(1-4) by (simp add: partial_lock_invoke_def cfg_get_root_def MAX_CFGID_def cfg_add_partial_lock_def
        upd_slot Let_def ok_to_partial_lock_root upd_upd comp_def)
  from set_loop_spec [OF w] have st: "strip plcb w = strip plcb r" "\<forall>p \<in> set ?S. 0 < cnt plcb w p"
    by (auto simp: neq0_conv [symmetric] count_list_0_iff simp del: neq0_conv)
  show ?thesis
    unfolding inv using st reply by (intro exI [of _ m] exI [of _ w]) (simp add: cnt_points)
qed


text \<open>The request after its validation: the select parameter has given its expression away.\<close>

definition validated_request :: rpc_msg_t where
  "validated_request = sample_request
     \<lparr>rpc_input := sample_node obj_system NCX_BT_CONTAINER ''input'' []
        [Val ((val_data sample_select)\<lparr>val_xpathpcb := None\<rparr>) []],
      rpc_user1 := Some (request_plcb [[0, 0]])\<rparr>"

lemma select_match: "child_match empty_db (Some M_partial_lock) N_select sample_select"
  by (simp add: child_match_def sample_select_def VAL_IS_DELETED_def val_get_mod_name_def xmlns_get_module_def
      valid_id_def empty_db_fields sample_node_def)

lemma sample_validated:
  "partial_lock_validate empty_db (eval_to [[0, 0]]) False (Some 7) True [] 5 (boot free_config) sample_request 0 =
     (NO_ERR, validated_request, 1)"
proof -
  have f: "val_find_child empty_db (rpc_input sample_request) (Some M_partial_lock) N_select = Some 0"
    using select_match
    by (simp add: sample_request_def val_find_child_def sample_node_def typ_has_children_def next_index_def)
  have new: "new_plcb (Some 7) True [] 5 (boot_slot 0 ''running'' (Some free_config)) 0 =
      (Some ((request_plcb [[0, 0]])\<lparr>plock_xpathpcbQ := [], plock_resultQ := [],
         plock_final_result := xpath_new_result XP_RT_NODESET\<rparr>), NO_ERR, 1)"
    by (simp add: new_plcb_def plock_cb_new_def request_plcb_def)
  have loop: "select_loop empty_db (eval_to [[0, 0]]) free_config 0 (sample_request, (request_plcb [[0, 0]])\<lparr>plock_xpathpcbQ := [], plock_resultQ := [],
         plock_final_result := xpath_new_result XP_RT_NODESET\<rparr>, NO_ERR, NO_ERR) =
      (validated_request\<lparr>rpc_user1 := None\<rparr>, (request_plcb [[0, 0]])\<lparr>plock_resultQ := [\<lparr>restype = XP_RT_NODESET, isval = True, nodeQ = [[0, 0]]\<rparr>],
         plock_final_result := xpath_new_result XP_RT_NODESET\<rparr>, NO_ERR, NO_ERR)"
    by (subst select_loop.simps)
      (simp add: do_select_def sample_request_def validated_request_def sample_select_def eval_select_def eval_to_def
        sample_node_def plock_add_select_def request_plcb_def val_find_next_child_def next_index_def Let_def)
  have final: "plock_make_final_result free_config ((request_plcb [[0, 0]])\<lparr>plock_resultQ := [\<lparr>restype = XP_RT_NODESET, isval = True, nodeQ = [[0, 0]]\<rparr>],
         plock_final_result := xpath_new_result XP_RT_NODESET\<rparr>) = (NO_ERR, request_plcb [[0, 0]])"
    by (simp add: plock_make_final_result_def request_plcb_def xpath_new_result_def xpath_move_nodeset_def
        xpath1_prune_nodeset_def xpath_nodeset_empty_def)
  have check: "check_nodes 5 free_config [[0, 0]] (m, NO_ERR) = (m, NO_ERR)" for m
    using ok_to_partial_lock_walk(1) [of 5 _ 0 "sample_host [None, None, None, None]"]
    by (simp add: sample_simps sample_nodes sample_config_data only_locks_of_def Let_def split_beta)
  have sel: "check_selects empty_db (eval_to [[0, 0]]) False 5 free_config 0 sample_request
      ((request_plcb [[0, 0]])\<lparr>plock_xpathpcbQ := [], plock_resultQ := [],
         plock_final_result := xpath_new_result XP_RT_NODESET\<rparr>) = (NO_ERR, validated_request)"
    unfolding check_selects_def loop Let_def prod.case
    by (simp add: final request_plcb_simps check validated_request_def del: check_nodes.simps)
  have fields: "cfg_ok_to_partial_lock (boot_slot 0 n r) = NO_ERR" "root (boot_slot 0 n r) = r" for n r
    by (simp_all add: cfg_ok_to_partial_lock_def boot_slot_def)
  have v: "val_res (val_data (val_childQ (rpc_input sample_request) ! 0)) = NO_ERR"
    by (simp add: sample_request_def sample_node_def sample_select_def)
  show ?thesis
    unfolding partial_lock_validate_def cfg_get_config_id_def
    by (simp add: free_running MAX_CFGID_def f fields v new sel)
qed


text \<open>
  a granted validation gives the new lock an id that no active lock has, even after the
  32-bit counter has run out: the counter starts again only when no partial lock is active, and otherwise
  the request is refused.
\<close>
theorem partial_lock_fresh_id:
  assumes "cfg_reach db" and "cfg_arr db 0 = Some cfg" and "\<forall>p \<in> set (plockQ cfg). 0 < plock_get_id p \<and> plock_get_id p \<le> last_id"
    and "partial_lock_validate ns eval cc_active mem1 mem2 now sid db msg last_id = (NO_ERR, msg', new_id)"
  shows "0 < new_id \<and> (\<forall>p \<in> set (plockQ cfg). plock_get_id p < new_id)"
proof -
  obtain running where v: "cfg_arr db 0 = Some running"
    "last_id \<noteq> NCX_MAX_UINT \<and> new_id = last_id + 1 \<or> last_id = NCX_MAX_UINT \<and> new_id = 1 \<and> \<not> cfg_is_partial_locked running"
    by (rule validate_ok [OF assms(4)])
  have run: "running = cfg" using v(1) assms(2) by simp
  from v(2) show ?thesis
  proof
    assume c: "last_id \<noteq> NCX_MAX_UINT \<and> new_id = last_id + 1"
    then have "last_id < last_id + 1" by (intro u32_less_next) simp
    with c assms(3) show ?thesis by (auto intro: le_less_trans word_gt_0 [THEN iffD2] dest: order.strict_trans1 [of 0])
  next
    assume c: "last_id = NCX_MAX_UINT \<and> new_id = 1 \<and> \<not> cfg_is_partial_locked running"
    then have "plockQ cfg = []"
      using cfg_inv_slot [OF cfg_reach_inv [OF assms(1)] assms(2)]
      by (auto simp: slot_ok_def cfg_is_partial_locked_def run split: if_splits)
    with c show ?thesis by simp
  qed
qed

theorem partial_lock_fresh_id_witness:
  "0 < snd (snd (partial_lock_validate empty_db (eval_to [[0, 0]]) False (Some 7) True [] 5 (boot free_config) sample_request 0))"
proof -
  have "\<forall>p \<in> set (plockQ (boot_slot 0 ''running'' (Some free_config))). 0 < plock_get_id p \<and> plock_get_id p \<le> 0"
    by (simp add: boot_slot_def)
  from partial_lock_fresh_id [OF boot_reach free_running this sample_validated] show ?thesis
    by (simp add: sample_validated)
qed

text \<open>A granted lock, and the same lock deleted from the queue again.\<close>

lemma invoke_granted:
  assumes "rpc_user1 msg = Some plcb" and "cfg_arr db 0 = Some cfg" and "root cfg = Some r"
    and "partial_lock_invoke memid gen mem db msg = (NO_ERR, msg', db')"
  obtains v where "set_loop plcb r (nodeQ (plock_get_final_result plcb)) = (NO_ERR, v, [])"
    "db' = upd 0 (\<lambda>c. c\<lparr>root := Some v, cfg_state := CFG_ST_PLOCK, plockQ := plockQ c @ [plcb]\<rparr>) db"
  using assms by (cases rule: invoke_cases) auto

lemma delete_granted:
  assumes "cfg_arr db 0 = Some cfg"
    and "\<forall>p \<in> set (plockQ cfg). plock_get_id p \<noteq> plock_get_id plcb \<and> plock_addr p \<noteq> plock_addr plcb"
  shows "cfg_delete_partial_lock 0 (plock_get_id plcb)
       (upd 0 (\<lambda>c. c\<lparr>root := Some v, cfg_state := CFG_ST_PLOCK, plockQ := plockQ c @ [plcb]\<rparr>) db) =
     upd 0 (\<lambda>c. c\<lparr>root := Some (val_clear_partial_lock [] plcb v),
       cfg_state := (if plockQ cfg = [] then CFG_ST_READY else CFG_ST_PLOCK)\<rparr>) db"
proof -
  have "List.find (\<lambda>p. plock_get_id p = plock_get_id plcb) (plockQ cfg) = None"
    using assms(2) by (auto simp: find_None_iff)
  then have find: "List.find (\<lambda>p. plock_get_id p = plock_get_id plcb) (plockQ cfg @ [plcb]) = Some plcb"
    by (simp add: find_append)
  have rem: "remove_first (\<lambda>p. plock_addr p = plock_addr plcb) (plockQ cfg @ [plcb]) = plockQ cfg"
    using assms(2) by (simp add: remove_first_append)
  show ?thesis
    using assms(1)
    by (simp add: cfg_delete_partial_lock_def upd_slot cfg_find_partial_lock_def find Let_def drop_plock_def rem upd_def)
qed

text \<open>The request of session 5 to unlock the lock with id 1.\<close>

definition sample_unlock :: rpc_msg_t where
  "sample_unlock = \<lparr>rpc_input = sample_node obj_system NCX_BT_CONTAINER ''input'' []
       [Val ((val_data (sample_node obj_host NCX_BT_UINT32 N_lock_id [] []))\<lparr>val_uint := 1\<rparr>) []],
     rpc_user1 = None, rpc_data_type = RPC_DATA_NONE, rpc_dataQ = [], msg_errQ = []\<rparr>"

lemma sample_unlock_validate:
  assumes "cfg_arr db 0 = Some cfg" and "plockQ cfg = [request_plcb nodes]"
  shows "partial_unlock_validate empty_db 5 db sample_unlock =
    (NO_ERR, sample_unlock\<lparr>rpc_user1 := Some (request_plcb nodes)\<rparr>)"
proof -
  have "val_find_child empty_db (rpc_input sample_unlock) (Some M_partial_lock) N_lock_id = Some 0"
    by (simp add: sample_unlock_def val_find_child_def sample_node_def typ_has_children_def next_index_def
        child_match_def VAL_IS_DELETED_def val_get_mod_name_def xmlns_get_module_def valid_id_def empty_db_fields)
  then show ?thesis
    using assms
    by (simp add: partial_unlock_validate_def cfg_get_config_id_def MAX_CFGID_def cfg_find_partial_lock_def
        request_plcb_simps sample_unlock_def sample_node_def)
qed

lemma sample_invoked:
  assumes "nodes = [[0, 0]] \<or> nodes = [[0], [0, 0]]" and "rpc_user1 msg = Some (request_plcb nodes)"
  shows "\<exists>msg' r'. partial_lock_invoke True (\<lambda>_. (NO_ERR, [])) (\<lambda>_. True) (boot free_config) msg =
    (NO_ERR, msg', upd 0 (\<lambda>c. c\<lparr>root := Some r', cfg_state := CFG_ST_PLOCK, plockQ := plockQ c @ [request_plcb nodes]\<rparr>) (boot free_config))"
proof -
  have r: "root (boot_slot 0 ''running'' (Some free_config)) = Some free_config" by (simp add: boot_slot_def)
  have ok: "cfg_ok_to_partial_lock (boot_slot 0 ''running'' (Some free_config)) = NO_ERR"
    by (simp add: cfg_ok_to_partial_lock_def boot_slot_def)
  have S: "nodeQ (plock_get_final_result (request_plcb nodes)) = nodes" by (simp add: request_plcb_simps)
  have "able (request_plcb nodes) free_config nodes" "distinct nodes"
    using assms(1) by (auto simp: able_def config_at_def sample_simps sample_config_data)
  then have "distinct (nodeQ (plock_get_final_result (request_plcb nodes)))"
    "able (request_plcb nodes) free_config (nodeQ (plock_get_final_result (request_plcb nodes)))" by (simp_all only: S)
  from invoke_locks [OF free_running r ok assms(2) this, of "\<lambda>_. (NO_ERR, [])" "\<lambda>_. True"] show ?thesis by fastforce
qed

lemma free_queue:
  "\<forall>p \<in> set (plockQ (boot_slot 0 ''running'' r)). plock_get_id p \<noteq> a \<and> plock_addr p \<noteq> b"
  "root (boot_slot 0 ''running'' r) = r" "plockQ (boot_slot 0 ''running'' r) = []"
  by (simp_all add: boot_slot_def)

text \<open>
  when no selected node lies below another one, unlocking undoes locking: the unlock
  request of the session that names the lock leaves every configuration as it was before the lock, and
  the running one without partial locks in the ready state.
\<close>
theorem partial_unlock_restores:
  assumes "cfg_reach db" and "cfg_arr db 0 = Some cfg" and "root cfg = Some r" and "rpc_user1 msg = Some plcb"
    and "fresh_lock plcb r" and "no_overlap (nodeQ (plock_get_final_result plcb))"
    and "\<forall>p \<in> set (nodeQ (plock_get_final_result plcb)). lockable [] r p"
    and "\<forall>p \<in> set (plockQ cfg). plock_get_id p \<noteq> plock_get_id plcb \<and> plock_addr p \<noteq> plock_addr plcb"
    and "partial_lock_invoke memid gen mem db msg = (NO_ERR, msg', db')"
    and "partial_unlock_validate ns sid db' umsg = (NO_ERR, umsg')" and "rpc_user1 umsg' = Some plcb"
  shows "plock_get_sid plcb = sid \<and> partial_unlock_invoke db' umsg' =
    (NO_ERR, if plockQ cfg = [] then upd 0 (\<lambda>c. c\<lparr>cfg_state := CFG_ST_READY\<rparr>) db else db)"
proof -
  obtain v where v: "set_loop plcb r (nodeQ (plock_get_final_result plcb)) = (NO_ERR, v, [])"
    "db' = upd 0 (\<lambda>c. c\<lparr>root := Some v, cfg_state := CFG_ST_PLOCK, plockQ := plockQ c @ [plcb]\<rparr>) db"
    by (rule invoke_granted [OF assms(4,2,3,9)])
  have "val_clear_partial_lock [] plcb v = r"
    unfolding set_loop_lock_all [OF v(1)] by (rule clear_lock_all [OF fresh_absent [OF assms(5)] assms(6,7)])
  then have "partial_unlock_invoke db' umsg' =
      (NO_ERR, if plockQ cfg = [] then upd 0 (\<lambda>c. c\<lparr>cfg_state := CFG_ST_READY\<rparr>) db else db)"
    using delete_granted [OF assms(2,8), of v] upd_released [OF assms(1,2,3)] assms(11)
    by (simp add: partial_unlock_invoke_def v(2))
  moreover have "plock_get_sid plcb = sid"
    using assms(10,11) by (auto simp: partial_unlock_validate_def Let_def split: option.splits if_splits)
  ultimately show ?thesis by simp
qed

theorem partial_unlock_restores_witness:
  "\<exists>msg db. partial_lock_invoke True (\<lambda>_. (NO_ERR, [])) (\<lambda>_. True) (boot free_config) (granted_request [[0, 0]]) = (NO_ERR, msg, db) \<and>
     partial_unlock_invoke db (snd (partial_unlock_validate empty_db 5 db sample_unlock)) =
       (NO_ERR, upd 0 (\<lambda>c. c\<lparr>cfg_state := CFG_ST_READY\<rparr>) (boot free_config))"
proof -
  have u: "rpc_user1 (granted_request [[0, 0]]) = Some (request_plcb [[0, 0]])" by simp
  from sample_invoked [OF _ u] obtain m r where i: "partial_lock_invoke True (\<lambda>_. (NO_ERR, [])) (\<lambda>_. True) (boot free_config)
      (granted_request [[0, 0]]) = (NO_ERR, m, upd 0 (\<lambda>c. c\<lparr>root := Some r, cfg_state := CFG_ST_PLOCK,
        plockQ := plockQ c @ [request_plcb [[0, 0]]]\<rparr>) (boot free_config))" (is "_ = (_, _, ?db)") by auto
  have "cfg_arr ?db 0 = Some ((boot_slot 0 ''running'' (Some free_config))\<lparr>root := Some r, cfg_state := CFG_ST_PLOCK,
      plockQ := [request_plcb [[0, 0]]]\<rparr>)" by (simp add: upd_slot free_running boot_slot_def)
  note val = sample_unlock_validate [OF this, of "[[0, 0]]", simplified]
  have o: "no_overlap (nodeQ (plock_get_final_result (request_plcb [[0, 0]])))"
    by (simp add: request_plcb_simps no_overlap_def)
  have l: "\<forall>p \<in> set (nodeQ (plock_get_final_result (request_plcb [[0, 0]]))). lockable [] free_config p"
    by (simp add: request_plcb_simps sample_simps sample_config_data typ_has_children_def)
  from partial_unlock_restores [OF boot_reach free_running free_queue(2) u free_fresh o l free_queue(1) i val]
  show ?thesis using i val by (intro exI [of _ m] exI [of _ ?db]) (simp add: free_queue(3))
qed

text \<open>
  when a selected node lies below another one, which the missing pruning of the node
  set allows, unlocking forgets it: the search ends at the upper node.  The lock is out of the queue and
  its control block is freed, but the lower node still points to it.
\<close>
theorem partial_unlock_overlap:
  assumes "cfg_arr db 0 = Some cfg" and "root cfg = Some r" and "rpc_user1 msg = Some plcb"
    and "p \<in> set (nodeQ (plock_get_final_result plcb))" and "p @ i # q \<in> set (nodeQ (plock_get_final_result plcb))"
    and "\<forall>l \<in> set (plockQ cfg). plock_get_id l \<noteq> plock_get_id plcb \<and> plock_addr l \<noteq> plock_addr plcb"
    and "partial_lock_invoke memid gen mem db msg = (NO_ERR, msg', db')" and "rpc_user1 umsg = Some plcb"
  defines "db'' \<equiv> snd (partial_unlock_invoke db' umsg)"
  shows "(\<exists>w n. cfg_get_root db'' 0 = Some w \<and> val_at w (p @ i # q) = Some n \<and> list_ex (points_to plcb) (vplock n)) \<and>
    map_option plockQ (cfg_arr db'' 0) = Some (plockQ cfg)"
proof -
  obtain v where v: "set_loop plcb r (nodeQ (plock_get_final_result plcb)) = (NO_ERR, v, [])"
    "db' = upd 0 (\<lambda>c. c\<lparr>root := Some v, cfg_state := CFG_ST_PLOCK, plockQ := plockQ c @ [plcb]\<rparr>) db"
    by (rule invoke_granted [OF assms(3,1,2,7)])
  from set_loop_spec [OF v(1)] assms(4,5) have c: "0 < cnt plcb v p" "0 < cnt plcb v (p @ i # q)"
    by (auto simp: neq0_conv [symmetric] count_list_0_iff simp del: neq0_conv)
  have db: "db'' = upd 0 (\<lambda>c. c\<lparr>root := Some (val_clear_partial_lock [] plcb v),
       cfg_state := (if plockQ cfg = [] then CFG_ST_READY else CFG_ST_PLOCK)\<rparr>) db"
    using delete_granted [OF assms(1,6), of v] assms(8) by (simp add: db''_def partial_unlock_invoke_def v(2))
  have "0 < cnt plcb (val_clear_partial_lock [] plcb v) (p @ i # q)"
    using cnt_clear_below [OF c(1), of "[]" i q] c(2) by simp
  then show ?thesis using assms(1) by (simp add: db cfg_get_root_def upd_slot MAX_CFGID_def cnt_points)
qed

theorem partial_unlock_overlap_witness:
  "\<exists>msg db w n. partial_lock_invoke True (\<lambda>_. (NO_ERR, [])) (\<lambda>_. True) (boot free_config) (granted_request [[0], [0, 0]]) = (NO_ERR, msg, db) \<and>
     cfg_get_root (snd (partial_unlock_invoke db (granted_request [[0], [0, 0]]))) 0 = Some w \<and> val_at w [0, 0] = Some n \<and>
     list_ex (points_to (request_plcb [[0], [0, 0]])) (vplock n)"
proof -
  have u: "rpc_user1 (granted_request [[0], [0, 0]]) = Some (request_plcb [[0], [0, 0]])" by simp
  from sample_invoked [OF _ u] obtain m r where i: "partial_lock_invoke True (\<lambda>_. (NO_ERR, [])) (\<lambda>_. True) (boot free_config)
      (granted_request [[0], [0, 0]]) = (NO_ERR, m, upd 0 (\<lambda>c. c\<lparr>root := Some r, cfg_state := CFG_ST_PLOCK,
        plockQ := plockQ c @ [request_plcb [[0], [0, 0]]]\<rparr>) (boot free_config))" by auto
  have "[0] \<in> set (nodeQ (plock_get_final_result (request_plcb [[0], [0, 0]])))"
    "[0] @ 0 # [] \<in> set (nodeQ (plock_get_final_result (request_plcb [[0], [0, 0]])))"
    by (simp_all add: request_plcb_simps)
  from partial_unlock_overlap [OF free_running free_queue(2) u this free_queue(1) i u] show ?thesis
    using i by auto
qed

end
