(* ===== verification/Ses_Msg.thy ===== *)
theory Ses_Msg
  imports Ncx_Num
begin

text \<open>
  Session buffers and messages (\<^verbatim>\<open>netconf/src/ncx/ses.h\<close>, \<^verbatim>\<open>ses_msg.c\<close>): allocation with the cache of free buffers,
  the ready queues, output buffers and their chunk framing.

  Memory is available or not (\<open>mem\<close>).  The code is built with \<^verbatim>\<open>DEBUG\<close>, so a new buffer is cleared; one from the free
  queue keeps its bytes.  The bytes of a buffer are a function of the position, which also shows writes past its end.
  What is sent is the byte string; the socket is not modelled.
\<close>

section \<open>Constants and types\<close>

definition SES_MSG_BUFFSIZE :: nat where "SES_MSG_BUFFSIZE = 2000"
definition SES_MAX_BUFFERS :: nat where "SES_MAX_BUFFERS = 4096"
definition SES_MAX_FREE_BUFFERS :: nat where "SES_MAX_FREE_BUFFERS = 32"
definition SES_MAX_STARTCHUNK_SIZE :: nat where "SES_MAX_STARTCHUNK_SIZE = 13"
definition SES_MAX_CHUNKNUM_SIZE :: nat where "SES_MAX_CHUNKNUM_SIZE = 10"
definition SES_STARTCHUNK_PAD :: nat where "SES_STARTCHUNK_PAD = 10"
definition SES_ENDCHUNK_PAD :: nat where "SES_ENDCHUNK_PAD = 4"
definition SES_MAX_BUFFSEND :: nat where "SES_MAX_BUFFSEND = 32"
definition SES_MAX_BYTESEND :: nat where "SES_MAX_BYTESEND = 65535"
definition SES_READBUFF_SIZE :: nat where "SES_READBUFF_SIZE = 1000"
definition MAX_FREE_MSGS :: nat where "MAX_FREE_MSGS = 32"

abbreviation LF :: char where "LF \<equiv> CHR 0x0A"
abbreviation NUL :: char where "NUL \<equiv> CHR 0x00"

definition NC_SSH_END :: string where "NC_SSH_END = '']]>]]>''"
definition NC_SSH_END_LEN :: nat where "NC_SSH_END_LEN = 6"
definition NC_SSH_END_CHUNKS :: string where "NC_SSH_END_CHUNKS = [LF, CHR ''#'', CHR ''#'', LF]"
definition NC_SSH_END_CHUNKS_LEN :: nat where "NC_SSH_END_CHUNKS_LEN = 4"

datatype ses_state_t = SES_ST_NONE | SES_ST_INIT | SES_ST_HELLO_WAIT | SES_ST_IDLE | SES_ST_IN_MSG
  | SES_ST_SHUTDOWN_REQ | SES_ST_SHUTDOWN

datatype ses_instate_t = SES_INST_NONE | SES_INST_IDLE | SES_INST_INMSG | SES_INST_INSTART | SES_INST_INBETWEEN
  | SES_INST_INEND

datatype ses_type_t = SES_TYP_NONE | SES_TYP_NETCONF | SES_TYP_NCX | SES_TYP_DUMMY

datatype ses_transport_t = SES_TRANSPORT_NONE | SES_TRANSPORT_SSH | SES_TRANSPORT_BEEP | SES_TRANSPORT_SOAP
  | SES_TRANSPORT_SOAPBEEP | SES_TRANSPORT_TLS | SES_TRANSPORT_TCP | SES_TRANSPORT_TCP_DIRECT

datatype ncx_protocol_t = NCX_PROTO_NONE | NCX_PROTO_NETCONF10 | NCX_PROTO_NETCONF11

record ses_msg_buff_t =
  buffstart :: nat
  bufflen :: nat
  buffpos :: nat
  islast :: bool
  buff :: "nat \<Rightarrow> char"

text \<open>\<open>curbuff\<close> is a position in the queue of buffers.\<close>

record ses_msg_t =
  msg_ready :: bool
  curbuff :: "nat option"
  buffQ :: "ses_msg_buff_t list"
  curchunksize :: u64
  expchunksize :: u64

text \<open>
  A session, with the fields for buffers and framing.  \<open>has_fd\<close>: its \<^verbatim>\<open>fd\<close> is not 0; \<open>fp_stdout\<close>: its \<^verbatim>\<open>fp\<close> is \<^verbatim>\<open>stdout\<close>;
  \<open>has_rdfn\<close>: it has a read function.  At the end the static variables of \<^verbatim>\<open>ses_msg.c\<close>.
\<close>

record ses_cb_t =
  ses_type :: ses_type_t
  ses_sid :: u32
  ses_state :: ses_state_t
  ses_protocol :: ncx_protocol_t
  transport :: ses_transport_t
  has_fd :: bool
  fp_stdout :: bool
  has_rdfn :: bool
  in_bytes :: u32
  out_bytes :: u32
  out_line :: u32
  framing11 :: bool
  stream_output :: bool
  instate :: ses_instate_t
  inendpos :: nat
  startchunk :: "nat \<Rightarrow> char"
  readbuff :: string
  indefer_len :: nat
  buffcnt :: nat
  freecnt :: nat
  freeQ :: "ses_msg_buff_t list"
  msgQ :: "ses_msg_t list"
  outQ :: "ses_msg_buff_t list"
  outbuff :: "ses_msg_buff_t option"
  in_inq :: bool
  out_inq :: bool
  inreadyQ :: "u32 list"
  outreadyQ :: "u32 list"
  msg_freecnt :: nat

definition SES_KILLREQ_SET :: "ses_cb_t \<Rightarrow> bool" where
  "SES_KILLREQ_SET scb \<longleftrightarrow> ses_state scb \<in> {SES_ST_SHUTDOWN_REQ, SES_ST_SHUTDOWN}"

section \<open>Messages and buffers\<close>

definition new_msg :: ses_msg_t where
  "new_msg = \<lparr>msg_ready = False, curbuff = None, buffQ = [], curchunksize = 0, expchunksize = 0\<rparr>"

definition ses_msg_new_msg :: "bool \<Rightarrow> ses_cb_t \<Rightarrow> status_t \<times> ses_msg_t \<times> ses_cb_t" where
  "ses_msg_new_msg mem scb =
     (if msg_freecnt scb > 0 then (NO_ERR, new_msg, scb\<lparr>msg_freecnt := msg_freecnt scb - 1\<rparr>)
      else if mem then (NO_ERR, new_msg, scb)
      else (ERR_INTERNAL_MEM, new_msg, scb))"

definition ses_msg_init_buff :: "bool \<Rightarrow> bool \<Rightarrow> ses_msg_buff_t \<Rightarrow> ses_msg_buff_t" where
  "ses_msg_init_buff f11 out b =
     (let start = (if out \<and> f11 then SES_STARTCHUNK_PAD else 0)
      in b\<lparr>buffpos := 0, islast := False, buffstart := start, bufflen := start\<rparr>)"

definition cleared_buff :: ses_msg_buff_t where
  "cleared_buff = \<lparr>buffstart = 0, bufflen = 0, buffpos = 0, islast = False, buff = (\<lambda>_. NUL)\<rparr>"

text \<open>A wrong count of free buffers is reset.  Without success the buffer is not used.\<close>

definition malloc_buff :: "bool \<Rightarrow> bool \<Rightarrow> ses_cb_t \<Rightarrow> status_t \<times> ses_msg_buff_t \<times> ses_cb_t" where
  "malloc_buff mem out scb =
     (if buffcnt scb + 1 \<ge> SES_MAX_BUFFERS then (ERR_NCX_RESOURCE_DENIED, cleared_buff, scb)
      else if \<not> mem then (ERR_INTERNAL_MEM, cleared_buff, scb)
      else (NO_ERR, ses_msg_init_buff (framing11 scb) out cleared_buff, scb\<lparr>buffcnt := buffcnt scb + 1\<rparr>))"

definition ses_msg_new_buff :: "bool \<Rightarrow> bool \<Rightarrow> ses_cb_t \<Rightarrow> status_t \<times> ses_msg_buff_t \<times> ses_cb_t" where
  "ses_msg_new_buff mem out scb =
     (if freecnt scb \<noteq> 0
      then (case freeQ scb of
              b # bs \<Rightarrow> (NO_ERR, ses_msg_init_buff (framing11 scb) out b, scb\<lparr>freeQ := bs, freecnt := freecnt scb - 1\<rparr>)
            | [] \<Rightarrow> malloc_buff mem out (scb\<lparr>freecnt := 0\<rparr>))
      else malloc_buff mem out scb)"

definition ses_msg_free_buff :: "ses_msg_buff_t \<Rightarrow> ses_cb_t \<Rightarrow> ses_cb_t" where
  "ses_msg_free_buff b scb =
     (if \<not> SES_KILLREQ_SET scb \<and> freecnt scb < SES_MAX_FREE_BUFFERS
      then scb\<lparr>freeQ := freeQ scb @ [b], freecnt := freecnt scb + 1\<rparr>
      else scb\<lparr>buffcnt := buffcnt scb - 1\<rparr>)"

definition ses_msg_free_msg :: "ses_msg_t \<Rightarrow> ses_cb_t \<Rightarrow> ses_cb_t" where
  "ses_msg_free_msg msg scb =
     (let scb = fold ses_msg_free_buff (buffQ msg) scb
      in if msg_freecnt scb < MAX_FREE_MSGS then scb\<lparr>msg_freecnt := msg_freecnt scb + 1\<rparr> else scb)"

section \<open>Ready queues\<close>

definition ses_msg_make_inready :: "ses_cb_t \<Rightarrow> ses_cb_t" where
  "ses_msg_make_inready scb =
     (if \<not> in_inq scb then scb\<lparr>inreadyQ := inreadyQ scb @ [ses_sid scb], in_inq := True\<rparr> else scb)"

definition ses_msg_make_outready :: "ses_cb_t \<Rightarrow> ses_cb_t" where
  "ses_msg_make_outready scb =
     (if \<not> out_inq scb then scb\<lparr>outreadyQ := outreadyQ scb @ [ses_sid scb], out_inq := True\<rparr> else scb)"

section \<open>Output\<close>

definition ses_msg_write_buff :: "bool \<Rightarrow> char \<Rightarrow> ses_msg_buff_t \<Rightarrow> status_t \<times> ses_msg_buff_t" where
  "ses_msg_write_buff f11 ch b =
     (if bufflen b < (if f11 then SES_MSG_BUFFSIZE - SES_ENDCHUNK_PAD else SES_MSG_BUFFSIZE)
      then (NO_ERR, b\<lparr>buff := (buff b)(bufflen b := ch), bufflen := bufflen b + 1\<rparr>)
      else (ERR_BUFF_OVFL, b))"

text \<open>\<open>put_at\<close> copies a string to a position of the buffer.\<close>

fun put_at :: "nat \<Rightarrow> string \<Rightarrow> (nat \<Rightarrow> char) \<Rightarrow> nat \<Rightarrow> char" where
  "put_at p [] a = a"
| "put_at p (c # cs) a = put_at (Suc p) cs (a(p := c))"

text \<open>The chunk header is written into the pad before the data; \<open>bufflen\<close> becomes the length from \<open>buffstart\<close>.\<close>

definition ses_msg_add_framing :: "bool \<Rightarrow> ses_msg_buff_t \<Rightarrow> ses_msg_buff_t" where
  "ses_msg_add_framing f11 b =
     (if \<not> f11 then b
      else (let numbuff = take (SES_MAX_CHUNKNUM_SIZE - 1) (nat_string (bufflen b - SES_STARTCHUNK_PAD));
                numlen = length (nat_string (bufflen b - SES_STARTCHUNK_PAD));
                start = SES_STARTCHUNK_PAD - (numlen + 3);
                b = b\<lparr>buffstart := start, buff := put_at start (LF # CHR ''#'' # numbuff @ [LF]) (buff b)\<rparr>;
                b = (if islast b
                     then b\<lparr>buff := put_at (bufflen b) NC_SSH_END_CHUNKS (buff b),
                            bufflen := bufflen b + NC_SSH_END_CHUNKS_LEN\<rparr>
                     else b)
            in b\<lparr>bufflen := bufflen b - buffstart b\<rparr>))"

definition bytes :: "ses_msg_buff_t \<Rightarrow> nat \<Rightarrow> nat \<Rightarrow> string" where
  "bytes b from n = map (buff b) [from..<from + n]"

text \<open>What goes to the socket.\<close>

definition do_send_buff :: "bool \<Rightarrow> ses_msg_buff_t \<Rightarrow> string \<times> ses_msg_buff_t" where
  "do_send_buff f11 b =
     (if f11
      then (let b = ses_msg_add_framing f11 b
            in (if bufflen b > 0 then bytes b (buffstart b) (bufflen b) else [], b))
      else (if bufflen b > buffstart b then bytes b 0 (bufflen b) else [], b))"

text \<open>The status of the stream case is that of the socket (\<open>io\<close>).\<close>

definition ses_msg_new_output_buff ::
    "bool \<Rightarrow> status_t \<Rightarrow> ses_msg_buff_t \<Rightarrow> ses_cb_t \<Rightarrow> status_t \<times> string \<times> ses_cb_t" where
  "ses_msg_new_output_buff mem io b scb =
     (let b = b\<lparr>buffpos := 0\<rparr>
      in if stream_output scb
         then (if bufflen b > 0
               then (io, fst (do_send_buff (framing11 scb) b),
                     scb\<lparr>outbuff := Some (ses_msg_init_buff (framing11 scb) True (snd (do_send_buff (framing11 scb) b)))\<rparr>)
               else (ERR_INTERNAL_VAL, [], scb\<lparr>outbuff := Some b\<rparr>))
         else (let scb = ses_msg_make_outready (scb\<lparr>outQ := outQ scb @ [b]\<rparr>)
               in case ses_msg_new_buff mem True scb of
                    (res, nb, scb) \<Rightarrow> (res, [], scb\<lparr>outbuff := (if res = NO_ERR then Some nb else None)\<rparr>)))"

definition ses_msg_finish_outmsg :: "bool \<Rightarrow> ses_msg_buff_t \<Rightarrow> ses_cb_t \<Rightarrow> string \<times> ses_cb_t" where
  "ses_msg_finish_outmsg mem b scb =
     (if stream_output scb
      then (fst (do_send_buff (framing11 scb) b),
            scb\<lparr>outbuff := Some (ses_msg_init_buff (framing11 scb) True (snd (do_send_buff (framing11 scb) b)))\<rparr>)
      else (let scb = scb\<lparr>outQ := outQ scb @ [b\<lparr>buffpos := buffstart b\<rparr>]\<rparr>
            in case ses_msg_new_buff mem True scb of
                 (res, nb, scb) \<Rightarrow> ([], ses_msg_make_outready (scb\<lparr>outbuff := (if res = NO_ERR then Some nb else None)\<rparr>))))"

text \<open>
  Sending the queue.  With chunks each of the chosen buffers is sent as a chunk of its own, until a write fails (\<open>io\<close>: the
  results of the writes).  Without chunks they go to one \<^verbatim>\<open>writev\<close>, which takes \<open>written\<close> bytes or fails; what was
  taken is removed from the queue.
\<close>

fun setup_send :: "nat \<Rightarrow> nat \<Rightarrow> ses_msg_buff_t list \<Rightarrow> ses_msg_buff_t list" where
  "setup_send 0 sofar bs = []"
| "setup_send (Suc n) sofar [] = []"
| "setup_send (Suc n) sofar (b # bs) =
     (if sofar + (bufflen b - buffpos b) > SES_MAX_BYTESEND then []
      else b # setup_send n (sofar + (bufflen b - buffpos b)) bs)"

fun send_chunks :: "(nat \<Rightarrow> status_t) \<Rightarrow> nat \<Rightarrow> nat \<Rightarrow> ses_cb_t \<Rightarrow> status_t \<times> string \<times> ses_cb_t" where
  "send_chunks io i 0 scb = (NO_ERR, [], scb)"
| "send_chunks io i (Suc cnt) scb =
     (case outQ scb of
        [] \<Rightarrow> (ERR_INTERNAL_VAL, [], scb)
      | b # bs \<Rightarrow>
          (case do_send_buff (framing11 scb) b of
             (sent, b) \<Rightarrow>
               (let scb = ses_msg_free_buff b (scb\<lparr>outQ := bs\<rparr>)
                in if io i \<noteq> NO_ERR then (io i, [], scb)
                   else case send_chunks io (Suc i) cnt scb of
                          (res, sent', scb) \<Rightarrow> (res, sent @ sent', scb))))"

fun clean_sent :: "nat \<Rightarrow> ses_msg_buff_t list \<Rightarrow> ses_cb_t \<Rightarrow> ses_cb_t" where
  "clean_sent retcnt [] scb = scb\<lparr>outQ := []\<rparr>"
| "clean_sent retcnt (b # bs) scb =
     (if retcnt = 0 then scb\<lparr>outQ := b # bs\<rparr>
      else if retcnt \<ge> bufflen b - buffpos b
      then clean_sent (retcnt - (bufflen b - buffpos b)) bs (ses_msg_free_buff b scb)
      else scb\<lparr>outQ := b\<lparr>buffpos := buffpos b + retcnt\<rparr> # bs\<rparr>)"

definition unsent :: "ses_msg_buff_t \<Rightarrow> string" where
  "unsent b = map (buff b) [buffpos b..<bufflen b]"

definition ses_msg_send_buffs ::
    "(nat \<Rightarrow> status_t) \<Rightarrow> status_t + nat \<Rightarrow> ses_cb_t \<Rightarrow> status_t \<times> string \<times> ses_cb_t" where
  "ses_msg_send_buffs io written scb =
     (let iovs = setup_send SES_MAX_BUFFSEND 0 (outQ scb)
      in if iovs = [] then (ERR_NCX_OPERATION_FAILED, [], scb)
         else if framing11 scb then send_chunks io 0 (length iovs) scb
         else case written of
                Inl err \<Rightarrow> (err, [], scb)
              | Inr retcnt \<Rightarrow> (NO_ERR, take retcnt (concat (map unsent iovs)), clean_sent retcnt (outQ scb) scb))"

end
