(* ===== verification/Agt_Commit.thy ===== *)
theory Agt_Commit
  imports Agt_Load Ses_Msg
begin

text \<open>
  The operations \<^verbatim>\<open>commit\<close>, \<^verbatim>\<open>cancel-commit\<close> and \<^verbatim>\<open>discard-changes\<close> with the confirmed commit of
  \<^verbatim>\<open>netconf/src/agt/agt_ncx.c\<close>: the control block \<^verbatim>\<open>commit_cb\<close>, who may confirm or extend it, the backup file,
  the timeout and the cancellation.  The operations \<^verbatim>\<open>lock\<close> and \<^verbatim>\<open>unlock\<close> are here too, since a
  pending confirmed commit forbids locks.

  A callback's validate and invoke phase are functions on the state; \<open>live\<close> is passed on to the load of the
  backup.  What is recorded for the reply is the status.
\<close>

section \<open>Requests\<close>

record commit_req =
  rq_confirmed :: bool
  rq_timeout :: "u32 option"
  rq_persist :: "string option"
  rq_persist_id :: "string option"

record requester =
  my_sid :: u32
  my_protocol :: ncx_protocol_t

definition NCX_DEF_CONFIRM_TIMEOUT :: u32 where "NCX_DEF_CONFIRM_TIMEOUT = 600"

definition clear_commit_cb :: commit_cb_t where
  "clear_commit_cb = \<lparr>cc_backup_source = None, cc_persist_id = None, cc_start_time = 0, cc_cancel_timeout = 0,
     cc_ses_id = 0, cc_active = False\<rparr>"

definition send_confirmed_commit :: "ncx_confirm_event \<Rightarrow> 'f ncx_state \<Rightarrow> 'f ncx_state" where
  "send_confirmed_commit event s = s\<lparr>cc_events := cc_events s @ [event]\<rparr>"

definition upd_cc :: "(commit_cb_t \<Rightarrow> commit_cb_t) \<Rightarrow> 'f ncx_state \<Rightarrow> 'f ncx_state" where
  "upd_cc f s = s\<lparr>commit_cb := f (commit_cb s)\<rparr>"

definition agt_ncx_cc_active :: "'f ncx_state \<Rightarrow> bool" where
  "agt_ncx_cc_active s = cc_active (commit_cb s)"

definition agt_ncx_cc_ses_id :: "'f ncx_state \<Rightarrow> u32" where
  "agt_ncx_cc_ses_id s = cc_ses_id (commit_cb s)"

definition agt_ncx_clear_cc_ses_id :: "'f ncx_state \<Rightarrow> 'f ncx_state" where
  "agt_ncx_clear_cc_ses_id s = upd_cc (\<lambda>c. c\<lparr>cc_ses_id := 0\<rparr>) s"

definition agt_ncx_cc_persist_id :: "'f ncx_state \<Rightarrow> string option" where
  "agt_ncx_cc_persist_id s = cc_persist_id (commit_cb s)"

section \<open>Cancelling\<close>

definition agt_ncx_cancel_confirmed_commit ::
    "'f ncx_env \<Rightarrow> (u32 \<Rightarrow> bool) \<Rightarrow> ncx_confirm_event \<Rightarrow> 'f ncx_state \<Rightarrow> 'f ncx_state" where
  "agt_ncx_cancel_confirmed_commit env live event s =
     (if \<not> cc_active (commit_cb s) then s
      else (let (res, s) = agt_ncx_load_backup env live (cc_backup_source (commit_cb s)) NCX_CFGID_RUNNING 0 s;
                s = (if res = NO_ERR
                     then s\<lparr>ncx_db := snd (cfg_fill_candidate_from_running (p_mem env) (ncx_db s))\<rparr> else s)
            in (send_confirmed_commit event s)\<lparr>commit_cb := clear_commit_cb\<rparr>))"

definition agt_ncx_check_cc_timeout ::
    "'f ncx_env \<Rightarrow> (u32 \<Rightarrow> bool) \<Rightarrow> int \<Rightarrow> 'f ncx_state \<Rightarrow> 'f ncx_state" where
  "agt_ncx_check_cc_timeout env live timenow s =
     (if \<not> cc_active (commit_cb s) then s
      else if timenow - cc_start_time (commit_cb s) \<ge> int (unat (cc_cancel_timeout (commit_cb s)))
      then agt_ncx_cancel_confirmed_commit env live NCX_CC_EVENT_TIMEOUT s
      else s)"

section \<open>The validate phase of \<open>commit\<close>\<close>

text \<open>The parameters of base:1.1 and the persist ID.\<close>

definition commit_parms_status :: "requester \<Rightarrow> commit_req \<Rightarrow> commit_cb_t \<Rightarrow> status_t" where
  "commit_parms_status me rq cc =
     (if (rq_persist rq \<noteq> None \<or> rq_persist_id rq \<noteq> None) \<and> my_protocol me = NCX_PROTO_NETCONF10
      then ERR_NCX_PROTO11_NOT_ENABLED
      else case rq_persist_id rq of
             None \<Rightarrow> NO_ERR
           | Some pid \<Rightarrow>
               (if \<not> cc_active cc then ERR_NCX_CC_NOT_ACTIVE
                else if cc_persist_id cc \<noteq> Some pid then ERR_NCX_INVALID_VALUE
                else NO_ERR))"

text \<open>An assertion that fails is given as \<^verbatim>\<open>ERR_INTERNAL_VAL\<close>.\<close>

definition commit_validate ::
    "'f ncx_env \<Rightarrow> requester \<Rightarrow> commit_req \<Rightarrow> 'f ncx_state \<Rightarrow>
     status_t \<times> agt_cfg_transaction_t option \<times> 'f ncx_state" where
  "commit_validate env me rq s =
     (if \<not> p_candidate_target env then (ERR_NCX_OPERATION_NOT_SUPPORTED, None, s)
      else case (cfg_arr (ncx_db s) NCX_CFGID_CANDIDATE, cfg_arr (ncx_db s) NCX_CFGID_RUNNING) of
             (Some candidate, Some running) \<Rightarrow>
               (let res = commit_parms_status me rq (commit_cb s);
                    res = (if res = NO_ERR then cfg_ok_to_write candidate (my_sid me) else res);
                    res = (if res = NO_ERR then cfg_ok_to_write running (my_sid me) else res)
                in if res \<noteq> NO_ERR then (res, None, s)
                   else (let (res, txcb, s) = new_transaction env NCX_CFGID_RUNNING False False s
                         in case txcb of
                              None \<Rightarrow> (if res = NO_ERR then ERR_NCX_OPERATION_FAILED else res, None, s)
                            | Some tx \<Rightarrow>
                                (case root candidate of
                                   None \<Rightarrow> (ERR_INTERNAL_VAL, Some (tx\<lparr>commitcheck := False\<rparr>), s)
                                 | Some r \<Rightarrow>
                                     (let res = agt_val_check_commit_edits env (my_sid me) candidate r
                                                  NCX_CFGID_RUNNING (ncx_db s);
                                          (res, s) = (if res = NO_ERR then root_check_in env r s else (res, s));
                                          res = (if res = NO_ERR
                                                 then agt_commit_validate (commit_validators env) (Some r) else res)
                                      in (res, Some (tx\<lparr>commitcheck := False\<rparr>), s)))))
           | _ \<Rightarrow> (ERR_INTERNAL_VAL, None, s))"

section \<open>The invoke phase of \<open>commit\<close>\<close>

definition set_persist :: "bool \<Rightarrow> string option \<Rightarrow> 'f ncx_state \<Rightarrow> status_t \<times> 'f ncx_state" where
  "set_persist mem persist s =
     (case persist of
        None \<Rightarrow> (NO_ERR, s)
      | Some p \<Rightarrow>
          (if mem then (NO_ERR, upd_cc (\<lambda>c. c\<lparr>cc_persist_id := Some p\<rparr>) s)
           else (ERR_INTERNAL_MEM, upd_cc (\<lambda>c. c\<lparr>cc_persist_id := None\<rparr>) s)))"

definition set_timer :: "int \<Rightarrow> commit_req \<Rightarrow> 'f ncx_state \<Rightarrow> 'f ncx_state" where
  "set_timer now rq s =
     upd_cc (\<lambda>c. c\<lparr>cc_start_time := now,
                    cc_cancel_timeout := (case rq_timeout rq of Some t \<Rightarrow> t | None \<Rightarrow> NCX_DEF_CONFIRM_TIMEOUT)\<rparr>) s"

text \<open>A further confirmed commit: the results are the status and whether the timer was extended.\<close>

definition extend_confirmed ::
    "bool \<Rightarrow> int \<Rightarrow> u32 \<Rightarrow> commit_req \<Rightarrow> 'f ncx_state \<Rightarrow> status_t \<times> bool \<times> 'f ncx_state" where
  "extend_confirmed mem now sid rq s =
     (let cc = commit_cb s;
          res = (if rq_persist_id rq \<noteq> None \<and> cc_persist_id cc \<noteq> None \<and> rq_persist_id rq = cc_persist_id cc then NO_ERR
                 else if cc_persist_id cc = None
                 then (if cc_ses_id cc \<noteq> sid then ERR_NCX_IN_USE_COMMIT else NO_ERR)
                 else ERR_NCX_OPERATION_FAILED);
          (res, s) = (if res = NO_ERR then set_persist mem (rq_persist rq) s else (res, s))
      in if res = NO_ERR
         then (res, True, send_confirmed_commit NCX_CC_EVENT_EXTEND (set_timer now rq (upd_cc (\<lambda>c. c\<lparr>cc_ses_id := sid\<rparr>) s)))
         else (res, False, s))"

definition complete_confirmed :: "'f ncx_env \<Rightarrow> u32 \<Rightarrow> commit_req \<Rightarrow> 'f ncx_state \<Rightarrow> status_t \<times> 'f ncx_state" where
  "complete_confirmed env sid rq s =
     (if rq_persist_id rq = None \<and> cc_ses_id (commit_cb s) \<noteq> sid then (ERR_NCX_IN_USE_COMMIT, s)
      else (case agt_ncx_cfg_save env NCX_CFGID_RUNNING s of
              (res, s) \<Rightarrow>
                (if res = NO_ERR
                 then (res, (send_confirmed_commit NCX_CC_EVENT_COMPLETE s)\<lparr>commit_cb := clear_commit_cb\<rparr>)
                 else (res, s))))"

definition start_confirmed ::
    "bool \<Rightarrow> int \<Rightarrow> u32 \<Rightarrow> commit_req \<Rightarrow> 'f ncx_state \<Rightarrow> status_t \<times> 'f ncx_state" where
  "start_confirmed mem now sid rq s =
     (let s = (if cc_ses_id (commit_cb s) = 0 then upd_cc (\<lambda>c. c\<lparr>cc_ses_id := sid\<rparr>) s else s);
          (res, s) = set_persist mem (rq_persist rq) s
      in if res = NO_ERR
         then (res, send_confirmed_commit NCX_CC_EVENT_START (upd_cc (\<lambda>c. c\<lparr>cc_active := True\<rparr>) (set_timer now rq s)))
         else (res, s))"

text \<open>The whole decision: status, \<^verbatim>\<open>save_nvstore\<close>, \<^verbatim>\<open>timeout_extended\<close>.\<close>

definition confirmed_commit ::
    "'f ncx_env \<Rightarrow> int \<Rightarrow> u32 \<Rightarrow> commit_req \<Rightarrow> 'f ncx_state \<Rightarrow> status_t \<times> bool \<times> bool \<times> 'f ncx_state" where
  "confirmed_commit env now sid rq s =
     (if cc_active (commit_cb s)
      then (if rq_confirmed rq
            then (case extend_confirmed (p_mem env) now sid rq s of (res, ext, s) \<Rightarrow> (res, \<not> ext, ext, s))
            else (case complete_confirmed env sid rq s of (res, s) \<Rightarrow> (res, True, False, s)))
      else (if rq_confirmed rq
            then (case start_confirmed (p_mem env) now sid rq s of (res, s) \<Rightarrow> (res, res \<noteq> NO_ERR, False, s))
            else (NO_ERR, True, False, s)))"

text \<open>Finding the name of the backup file.\<close>

definition backup_name :: "'f ncx_env \<Rightarrow> cfg_template \<Rightarrow> 'f ncx_state \<Rightarrow> status_t \<times> 'f ncx_state" where
  "backup_name env running s =
     (if cc_backup_source (commit_cb s) \<noteq> None then (NO_ERR, s)
      else (let (res, fname) = p_find_backup env (files s);
                (res, fname) = (case fname of
                                  Some f \<Rightarrow> (res, fname)
                                | None \<Rightarrow> (case src_url running of Some url \<Rightarrow> p_make_from_src env url | None \<Rightarrow> p_make env))
            in (res, upd_cc (\<lambda>c. c\<lparr>cc_backup_source := fname\<rparr>) s)))"

text \<open>The assertion of the writer that there is a file name is given as \<^verbatim>\<open>ERR_INTERNAL_PTR\<close>.\<close>

definition write_config ::
    "'f ncx_env \<Rightarrow> string option \<Rightarrow> cfg_template \<Rightarrow> 'f ncx_state \<Rightarrow> status_t \<times> 'f ncx_state" where
  "write_config env filespec cfg s =
     (case (root cfg, filespec) of
        (None, _) \<Rightarrow> (ERR_INTERNAL_VAL, s)
      | (_, None) \<Rightarrow> (ERR_INTERNAL_PTR, s)
      | (Some r, Some name) \<Rightarrow> (case xml_wr_check_file env name r (files s) of (res, fs) \<Rightarrow> (res, s\<lparr>files := fs\<rparr>)))"

text \<open>
  The edits.  When they fail and could not be rolled back, the transaction is freed and the backup is loaded.
  The message keeps no transaction then, which is the \<open>None\<close> in the result.
\<close>

definition apply_candidate ::
    "'f ncx_env \<Rightarrow> (u32 \<Rightarrow> bool) \<Rightarrow> u32 \<Rightarrow> bool \<Rightarrow> agt_cfg_transaction_t \<Rightarrow> 'f ncx_state \<Rightarrow>
     status_t \<times> agt_cfg_transaction_t option \<times> 'f ncx_state" where
  "apply_candidate env live sid save_nvstore tx s =
     (case Option.bind (cfg_arr (ncx_db s) NCX_CFGID_CANDIDATE) root of
        None \<Rightarrow> (ERR_INTERNAL_VAL, Some tx, s)
      | Some r \<Rightarrow>
          (let (res, tx, s) = agt_val_apply_commit env sid r NCX_CFGID_RUNNING save_nvstore tx s
           in if res \<noteq> NO_ERR
              then (if tx_rollback_res tx \<noteq> NO_ERR
                    then (let s = s\<lparr>ncx_db := agt_cfg_free_transaction (Some tx) (ncx_db s)\<rparr>;
                              (res2, s) = agt_ncx_load_backup env live (cc_backup_source (commit_cb s)) NCX_CFGID_RUNNING
                                            (cc_ses_id (commit_cb s)) s
                          in (if res2 \<noteq> NO_ERR then res2 else res, None, s))
                    else (res, Some tx, s))
              else (case cfg_fill_candidate_from_running (p_mem env) (ncx_db s) of
                      (res, db) \<Rightarrow> (res, Some tx, s\<lparr>ncx_db := db\<rparr>))))"

definition commit_invoke ::
    "'f ncx_env \<Rightarrow> (u32 \<Rightarrow> bool) \<Rightarrow> int \<Rightarrow> requester \<Rightarrow> commit_req \<Rightarrow> agt_cfg_transaction_t \<Rightarrow> 'f ncx_state \<Rightarrow>
     status_t \<times> agt_cfg_transaction_t option \<times> 'f ncx_state" where
  "commit_invoke env live now me rq tx s =
     (case (cfg_get_config_id (ncx_db s) NCX_CFGID_CANDIDATE, cfg_get_config_id (ncx_db s) NCX_CFGID_RUNNING) of
        (Some candidate, Some running) \<Rightarrow>
          (let rq = (if my_protocol me = NCX_PROTO_NETCONF11 then rq else rq\<lparr>rq_persist := None, rq_persist_id := None\<rparr>);
               (res, save_nvstore, extended, s) = confirmed_commit env now (my_sid me) rq s;
               (res, s) = (if res = NO_ERR then backup_name env running s else (res, s));
               (res, s) = (if res = NO_ERR \<and> \<not> extended
                           then write_config env (cc_backup_source (commit_cb s)) running s else (res, s))
           in if res = NO_ERR then apply_candidate env live (my_sid me) save_nvstore tx s
              else (res, Some tx, s))
      | _ \<Rightarrow> (ERR_INTERNAL_VAL, Some tx, s))"

text \<open>A whole request, from \<^verbatim>\<open>agt_rpc_dispatch\<close>: the phases and the end of the message, which frees the transaction.\<close>

definition free_msg :: "agt_cfg_transaction_t option \<Rightarrow> 'f ncx_state \<Rightarrow> 'f ncx_state" where
  "free_msg txcb s = s\<lparr>ncx_db := agt_cfg_free_transaction txcb (ncx_db s)\<rparr>"

definition commit_rpc ::
    "'f ncx_env \<Rightarrow> (u32 \<Rightarrow> bool) \<Rightarrow> int \<Rightarrow> requester \<Rightarrow> commit_req \<Rightarrow> 'f ncx_state \<Rightarrow> status_t \<times> 'f ncx_state" where
  "commit_rpc env live now me rq s =
     (case commit_validate env me rq s of
        (res, txcb, s) \<Rightarrow>
          (if res \<noteq> NO_ERR then (res, free_msg txcb s)
           else (case commit_invoke env live now me rq (the txcb) s of (res, txcb, s) \<Rightarrow> (res, free_msg txcb s))))"

section \<open>\<open>cancel-commit\<close>, \<open>discard-changes\<close>, \<open>lock\<close> and \<open>unlock\<close>\<close>

definition cancel_commit_validate ::
    "'f ncx_env \<Rightarrow> requester \<Rightarrow> string option \<Rightarrow> 'f ncx_state \<Rightarrow> status_t" where
  "cancel_commit_validate env me persistid s =
     (let res = (if my_protocol me \<noteq> NCX_PROTO_NETCONF11 then ERR_NCX_UNKNOWN_ELEMENT
                 else if \<not> p_candidate_target env then ERR_NCX_OPERATION_NOT_SUPPORTED
                 else if \<not> agt_ncx_cc_active s then ERR_NCX_OPERATION_FAILED
                 else case cfg_get_config_id (ncx_db s) NCX_CFGID_RUNNING of
                        None \<Rightarrow> ERR_INTERNAL_VAL
                      | Some running \<Rightarrow> cfg_ok_to_write running (my_sid me));
          res = (if res = NO_ERR
                 then (case (persistid, agt_ncx_cc_persist_id s) of
                         (None, None) \<Rightarrow> NO_ERR
                       | (None, Some _) \<Rightarrow> ERR_NCX_MISSING_PARM
                       | (Some _, None) \<Rightarrow> ERR_NCX_CC_NOT_ACTIVE
                       | (Some p, Some q) \<Rightarrow> (if p \<noteq> q then ERR_NCX_INVALID_VALUE else NO_ERR))
                 else res)
      in if res = NO_ERR \<and> agt_ncx_cc_persist_id s = None \<and> my_sid me \<noteq> agt_ncx_cc_ses_id s
         then ERR_NCX_OPERATION_FAILED else res)"

definition cancel_commit_invoke :: "'f ncx_env \<Rightarrow> (u32 \<Rightarrow> bool) \<Rightarrow> 'f ncx_state \<Rightarrow> status_t \<times> 'f ncx_state" where
  "cancel_commit_invoke env live s = (NO_ERR, agt_ncx_cancel_confirmed_commit env live NCX_CC_EVENT_CANCEL s)"

definition cancel_commit_rpc ::
    "'f ncx_env \<Rightarrow> (u32 \<Rightarrow> bool) \<Rightarrow> requester \<Rightarrow> string option \<Rightarrow> 'f ncx_state \<Rightarrow> status_t \<times> 'f ncx_state" where
  "cancel_commit_rpc env live me persistid s =
     (let res = cancel_commit_validate env me persistid s
      in if res \<noteq> NO_ERR then (res, s) else cancel_commit_invoke env live s)"

definition discard_changes_validate :: "'f ncx_env \<Rightarrow> u32 \<Rightarrow> 'f ncx_state \<Rightarrow> status_t" where
  "discard_changes_validate env sid s =
     (if \<not> p_candidate_target env then ERR_NCX_OPERATION_NOT_SUPPORTED
      else case cfg_get_config_id (ncx_db s) NCX_CFGID_CANDIDATE of
             None \<Rightarrow> ERR_INTERNAL_VAL
           | Some candidate \<Rightarrow> cfg_ok_to_write candidate sid)"

definition discard_changes_invoke :: "'f ncx_env \<Rightarrow> 'f ncx_state \<Rightarrow> status_t \<times> 'f ncx_state" where
  "discard_changes_invoke env s =
     (case cfg_get_config_id (ncx_db s) NCX_CFGID_CANDIDATE of
        None \<Rightarrow> (ERR_INTERNAL_VAL, s)
      | Some candidate \<Rightarrow>
          (if cfg_get_dirty_flag candidate
           then (case cfg_fill_candidate_from_running (p_mem env) (ncx_db s) of (res, db) \<Rightarrow> (res, s\<lparr>ncx_db := db\<rparr>))
           else (NO_ERR, s)))"

definition discard_changes_rpc :: "'f ncx_env \<Rightarrow> u32 \<Rightarrow> 'f ncx_state \<Rightarrow> status_t \<times> 'f ncx_state" where
  "discard_changes_rpc env sid s =
     (let res = discard_changes_validate env sid s
      in if res \<noteq> NO_ERR then (res, s) else discard_changes_invoke env s)"

text \<open>The target is the index that \<^verbatim>\<open>agt_get_cfg_from_parm\<close> has found.\<close>

definition lock_validate :: "nat \<Rightarrow> 'f ncx_state \<Rightarrow> status_t" where
  "lock_validate i s =
     (case cfg_arr (ncx_db s) i of
        None \<Rightarrow> ERR_NCX_CFG_NOT_FOUND
      | Some cfg \<Rightarrow>
          (let res = cfg_ok_to_lock cfg
           in if res = NO_ERR \<and> cfg_id cfg \<in> {NCX_CFGID_RUNNING, NCX_CFGID_CANDIDATE} \<and> cc_active (commit_cb s)
              then ERR_NCX_IN_USE_COMMIT else res))"

definition lock_rpc :: "'f ncx_env \<Rightarrow> nat \<Rightarrow> u32 \<Rightarrow> 'f ncx_state \<Rightarrow> status_t \<times> 'f ncx_state" where
  "lock_rpc env i sid s =
     (let res = lock_validate i s
      in if res \<noteq> NO_ERR then (res, s)
         else (case cfg_lock (p_time env) i sid CFG_SRC_NETCONF (ncx_db s) of (res, db) \<Rightarrow> (res, s\<lparr>ncx_db := db\<rparr>)))"

definition unlock_validate :: "nat \<Rightarrow> u32 \<Rightarrow> 'f ncx_state \<Rightarrow> status_t" where
  "unlock_validate i sid s =
     (case cfg_arr (ncx_db s) i of None \<Rightarrow> ERR_NCX_CFG_NOT_FOUND | Some cfg \<Rightarrow> cfg_ok_to_unlock cfg sid)"

definition unlock_rpc :: "'f ncx_env \<Rightarrow> nat \<Rightarrow> u32 \<Rightarrow> 'f ncx_state \<Rightarrow> status_t \<times> 'f ncx_state" where
  "unlock_rpc env i sid s =
     (let res = unlock_validate i sid s
      in if res \<noteq> NO_ERR then (res, s)
         else (case cfg_unlock (p_mem env) i sid (ncx_db s) of (res, db) \<Rightarrow> (res, s\<lparr>ncx_db := db\<rparr>)))"

end
