(* ===== verification/Agt_Commit_Props.thy ===== *)
theory Agt_Commit_Props
  imports Agt_Commit
begin

text \<open>
  Properties of the confirmed commit.  Lemmas: which parts of the state each operation leaves alone, loading a backup
  that the engine can read restores it, and what survives while a confirmed commit is pending.
\<close>

section \<open>Loading a backup\<close>

text \<open>
  What the engine promises for a configuration \<open>r\<close> that was written as \<open>t\<close>: the file is read back as \<open>r\<close>, which is
  valid, and replacing the whole running configuration by it makes it \<open>r\<close>.
\<close>

definition restores :: "'f engine \<Rightarrow> val_value \<Rightarrow> 'f \<Rightarrow> bool" where
  "restores e r t \<longleftrightarrow>
     e_open_reader e (Some t) = NO_ERR \<and> e_parse e (Some t) = (NO_ERR, Some r) \<and>
     e_post_psd e NO_ERR (Some r) = (NO_ERR, Some r) \<and> e_order e r = r \<and> e_clean e r = r \<and>
     val_is_config_data [r] \<and> e_dead_nodes e r = (NO_ERR, r) \<and> fst (e_root_check e r) = NO_ERR \<and>
     (\<forall>db. e_validate e OP_EDITOP_REPLACE 0 (Some 0) db r = (NO_ERR, r) \<and>
           e_apply e OP_EDITOP_REPLACE 0 0 r db = (NO_ERR, upd 0 (\<lambda>c. c\<lparr>root := Some r\<rparr>) db) \<and>
           e_commit e OP_EDITOP_REPLACE 0 0 r db = (NO_ERR, db))"

lemma new_transaction_granted:
  assumes "cfg_arr (ncx_db s) 0 = Some c" "cur_txid c = 0" "p_mem env"
  obtains tx txid where "new_transaction env 0 rc v s =
      (NO_ERR, Some tx, s\<lparr>ncx_txid := txid, ncx_db := upd 0 (\<lambda>c. c\<lparr>cur_txid := tx_id tx\<rparr>) (ncx_db s)\<rparr>)"
    and "tx_id tx \<noteq> 0" "tx_cfg_id tx = 0" "tx_rollback_res tx = ERR_NCX_SKIPPED"
proof -
  obtain t st where a: "allocate_txid (fops env) (tx_io env) (ncx_txid s) = (t, st)" by (metis prod.exhaust)
  have t: "t \<noteq> 0" using allocate_txid_nonzero [of "fops env" "tx_io env" "ncx_txid s"] a by simp
  let ?tx = "init_txcb (p_config_bad env) (tx_junk env) t 0 AGT_CFG_EDIT_TYPE_FULL rc v"
  have "new_transaction env 0 rc v s =
      (NO_ERR, Some ?tx, s\<lparr>ncx_txid := st, ncx_db := upd 0 (\<lambda>c. c\<lparr>cur_txid := tx_id ?tx\<rparr>) (ncx_db s)\<rparr>)"
    using assms a by (simp add: new_transaction_def agt_cfg_new_transaction_def cfg_get_config_id_def MAX_CFGID_def)
  then show ?thesis using that t by (metis init_txcb_fields(1-3))
qed

lemma cfg_ok_to_write_txid [simp]: "cfg_ok_to_write (c\<lparr>cur_txid := t\<rparr>) sid = cfg_ok_to_write c sid"
  by (simp add: cfg_ok_to_write_def)

lemma free_transaction_slot:
  "tx_id tx \<noteq> 0 \<Longrightarrow> tx_cfg_id tx = 0 \<Longrightarrow>
   cfg_arr (agt_cfg_free_transaction (Some tx) db) i =
     (if i = 0 then map_option (\<lambda>c. if cur_txid c = tx_id tx then c\<lparr>cur_txid := 0\<rparr> else c) (cfg_arr db 0) else cfg_arr db i)"
  by (auto simp: agt_cfg_free_transaction_def cfg_get_config_id_def MAX_CFGID_def upd_slot split: option.split)

text \<open>The steps after the transaction is open.\<close>

lemma apply_write_restores:
  assumes "restores (eng env) r t" "cfg_arr db 0 = Some c"
  obtains tx' db' c' where "agt_val_apply_write env 0 0 r OP_EDITOP_REPLACE tx db = (NO_ERR, tx', db')"
    and "tx_id tx' = tx_id tx" "tx_cfg_id tx' = tx_cfg_id tx"
    and "cfg_arr db' 0 = Some c'" "root c' = Some r" "cur_txid c' = cur_txid c" "last_txid c' = tx_id tx"
    and "\<And>i. i \<noteq> 0 \<Longrightarrow> cfg_arr db' i = cfg_arr db i"
proof -
  let ?db1 = "upd 0 (\<lambda>c. c\<lparr>root := Some r\<rparr>) db"
  let ?f = "\<lambda>c. cfg_update_last_txid (tx_id tx) (cfg_update_last_ch_time (p_time env) c)"
  have dead: "dead_nodes_in env 0 ?db1 = (NO_ERR, upd 0 (\<lambda>c. c\<lparr>root := Some r\<rparr>) ?db1)"
    using assms by (simp add: dead_nodes_in_def upd_slot restores_def)
  have "agt_val_apply_write env 0 0 r OP_EDITOP_REPLACE tx db =
      (NO_ERR, tx\<lparr>tx_apply_res := NO_ERR, tx_commit_res := NO_ERR\<rparr>,
       cfg_set_dirty_flag 0 (upd 0 ?f (upd 0 (\<lambda>c. c\<lparr>root := Some r\<rparr>) ?db1)))"
    using assms dead by (simp add: agt_val_apply_write_def handle_callback_def attempt_commit_def restores_def)
  then show ?thesis
    by (rule that [where c' = "flags_update (set_bit CFG_FL_DIRTY)
        (c\<lparr>root := Some r, last_ch_time := p_time env, last_txid := tx_id tx\<rparr>)"])
      (use assms(2) in \<open>simp_all add: cfg_set_dirty_flag_def upd_slot cfg_update_last_txid_def cfg_update_last_ch_time_def\<close>)
qed

text \<open>What loads and edits leave alone: the control block, the files and the events sent.\<close>

definition frame :: "'f ncx_state \<Rightarrow> 'f ncx_state \<Rightarrow> bool" where
  "frame s s' \<longleftrightarrow> commit_cb s' = commit_cb s \<and> files s' = files s \<and> cc_events s' = cc_events s"

lemma frame_refl [simp]: "frame s s"
  by (simp add: frame_def)

lemma frame_trans: "frame s s' \<Longrightarrow> frame s' s'' \<Longrightarrow> frame s s''"
  by (simp add: frame_def)

lemma root_check_in_state:
  "root_check_in env r s = (res, s') \<Longrightarrow> ncx_db s' = ncx_db s \<and> frame s s'"
  by (auto simp: root_check_in_def frame_def split: prod.splits)

lemma new_transaction_frame: "new_transaction env i rc v s = (res, tx, s') \<Longrightarrow> frame s s'"
  by (auto simp: new_transaction_def frame_def split: prod.splits)

lemma load_config_validate_frame:
  assumes "load_config_validate env sid i op pe val s = (res, tx, val', s')"
  shows "frame s s'"
proof (cases val)
  case (Some v)
  obtain res1 tx1 s1 where n: "new_transaction env 0 False False s = (res1, tx1, s1)" by (metis prod.exhaust)
  obtain res2 v2 where w: "agt_val_validate_write env sid (Some i) (if pe then e_purge (eng env) v else v) op (ncx_db s1)
      = (res2, v2)" by (metis prod.exhaust)
  define s2 where "s2 = (if res2 \<noteq> NO_ERR then s1\<lparr>load_validate_errors := True\<rparr> else s1)"
  obtain res3 v3 where d: "e_dead_nodes (eng env) v2 = (res3, v3)" by (metis prod.exhaust)
  obtain res4 s4 where c: "root_check_in env v3 s2 = (res4, s4)" by (metis prod.exhaust)
  have "frame s s1" using new_transaction_frame [OF n] .
  moreover have "frame s1 s2" by (simp add: s2_def frame_def)
  moreover have "frame s2 s4" using root_check_in_state [OF c] by simp
  moreover have "s' = s1 \<or> s' = s2 \<or> s' = s4"
    using assms Some unfolding load_config_validate_def
    by (auto simp: n w d c s2_def [symmetric] split: if_splits)
  ultimately show ?thesis using frame_trans by metis
qed (use assms in \<open>simp add: load_config_validate_def\<close>)

lemma load_config_invoke_frame:
  "load_config_invoke env sid i op tx val s = (res, tx', s') \<Longrightarrow> frame s s'"
  by (auto simp: load_config_invoke_def frame_def split: option.splits prod.splits)

lemma load_config_file_frame:
  assumes "load_config_file env live name i isload sid s = (res, s')"
  shows "frame s s'"
proof -
  have end_tx: "frame s (s\<lparr>ncx_db := db\<rparr>)" for s :: "'a ncx_state" and db by (simp add: frame_def)
  have after: "frame s s'" if "(case load_config_validate env sid i op pe val s of
      (res, txcb, val, s) \<Rightarrow> (if res \<noteq> NO_ERR then (res, s\<lparr>ncx_db := agt_cfg_free_transaction txcb (ncx_db s)\<rparr>)
        else (case load_config_invoke env sid i op (the txcb) (map_option (e_order (eng env)) val) s of
                (res, tx, s) \<Rightarrow> (if res \<noteq> NO_ERR then res else rr, s\<lparr>ncx_db := agt_cfg_free_transaction (Some tx) (ncx_db s)\<rparr>))))
      = (res, s')" for op pe val rr
    using that by (auto split: prod.splits if_splits
        intro: frame_trans [OF load_config_validate_frame end_tx]
          frame_trans [OF load_config_validate_frame frame_trans [OF load_config_invoke_frame end_tx]])
  show ?thesis
    using assms after unfolding load_config_file_def Let_def by (auto split: if_splits prod.splits)
qed

lemma load_backup_frame: "agt_ncx_load_backup env live name i sid s = (res, s') \<Longrightarrow> frame s s'"
  by (auto simp: agt_ncx_load_backup_def agt_rpc_load_config_file_def split: option.splits intro: load_config_file_frame)

lemma load_backup_restores:
  assumes e: "restores (eng env) r t" and f: "files s name = Some t" and m: "p_mem env"
    and c: "cfg_arr (ncx_db s) 0 = Some c" "cur_txid c = 0" "cfg_ok_to_write c 0 = NO_ERR"
  obtains s' c' where "agt_ncx_load_backup env live (Some name) 0 0 s = (NO_ERR, s')"
    and "cfg_arr (ncx_db s') 0 = Some c'" "root c' = Some r" "cur_txid c' = 0"
    and "\<And>i. i \<noteq> 0 \<Longrightarrow> cfg_arr (ncx_db s') i = cfg_arr (ncx_db s) i"
    and "commit_cb s' = commit_cb s" "files s' = files s" "cc_events s' = cc_events s"
proof -
  obtain tx txid where n: "new_transaction env 0 False False s =
      (NO_ERR, Some tx, s\<lparr>ncx_txid := txid, ncx_db := upd 0 (\<lambda>c. c\<lparr>cur_txid := tx_id tx\<rparr>) (ncx_db s)\<rparr>)"
    and tx: "tx_id tx \<noteq> 0" "tx_cfg_id tx = 0"
    using new_transaction_granted [OF c(1,2) m] by metis
  define s1 where "s1 = s\<lparr>ncx_txid := txid, ncx_db := upd 0 (\<lambda>c. c\<lparr>cur_txid := tx_id tx\<rparr>) (ncx_db s)\<rparr>"
  have slot1: "cfg_arr (ncx_db s1) 0 = Some (c\<lparr>cur_txid := tx_id tx\<rparr>)" using c by (simp add: s1_def upd_slot)
  obtain s2 where rc: "root_check_in env r s1 = (NO_ERR, s2)"
    using e by (cases "e_root_check (eng env) r") (simp add: root_check_in_def restores_def)
  note s2 = root_check_in_state [OF rc]
  have val: "load_config_validate env 0 0 OP_EDITOP_REPLACE False (Some r) s = (NO_ERR, Some tx, Some r, s2)"
    using e slot1 c(3) rc unfolding load_config_validate_def
    by (simp add: n s1_def [symmetric] agt_val_validate_write_def restores_def)
  have slot2: "cfg_arr (ncx_db s2) 0 = Some (c\<lparr>cur_txid := tx_id tx\<rparr>)" using s2 slot1 by simp
  obtain tx' db' c' where app: "agt_val_apply_write env 0 0 r OP_EDITOP_REPLACE tx (ncx_db s2) = (NO_ERR, tx', db')"
    and tx': "tx_id tx' = tx_id tx" "tx_cfg_id tx' = tx_cfg_id tx"
    and c': "cfg_arr db' 0 = Some c'" "root c' = Some r" "cur_txid c' = tx_id tx"
    and others: "\<And>i. i \<noteq> 0 \<Longrightarrow> cfg_arr db' i = cfg_arr (ncx_db s2) i"
    by (rule apply_write_restores [OF e slot2, of tx]) simp
  define s3 where "s3 = s2\<lparr>ncx_db := clean_root env 0 db'\<rparr>"
  have inv: "load_config_invoke env 0 0 OP_EDITOP_REPLACE tx (Some r) s2 = (NO_ERR, tx', s3)"
    by (simp add: load_config_invoke_def app s3_def)
  define s4 where "s4 = s3\<lparr>ncx_db := agt_cfg_free_transaction (Some tx') (ncx_db s3)\<rparr>"
  have L: "agt_ncx_load_backup env live (Some name) 0 0 s = (NO_ERR, s4)"
    using e m val inv f
    by (simp add: agt_ncx_load_backup_def agt_rpc_load_config_file_def load_config_file_def restores_def NEED_EXIT_def s4_def)
  have S0: "cfg_arr (ncx_db s4) 0 = Some (c'\<lparr>cur_txid := 0\<rparr>)"
    using c' tx tx' e by (simp add: s4_def s3_def free_transaction_slot clean_root_def upd_slot restores_def)
  have others: "cfg_arr (ncx_db s4) i = cfg_arr (ncx_db s) i" if "i \<noteq> 0" for i
    using that tx tx' others [OF that] s2 by (simp add: s4_def s3_def free_transaction_slot clean_root_def upd_slot s1_def frame_def)
  show ?thesis
    by (rule that [OF L S0 _ _ others]) (use s2 c' in \<open>simp_all add: s4_def s3_def s1_def frame_def\<close>)
qed

text \<open>
  A restored configuration replaces the running one, and the candidate becomes its copy; nothing is pending any more.
\<close>

lemma cancel_restores:
  assumes "restores (eng env) r t" "cc_active (commit_cb s)" "cc_backup_source (commit_cb s) = Some name"
    and "files s name = Some t" "p_mem env"
    and "cfg_arr (ncx_db s) 0 = Some c" "cur_txid c = 0" "cfg_ok_to_write c 0 = NO_ERR" "cfg_arr (ncx_db s) 1 = Some d"
    and "val_clone_config_data True [] r = (Some copy, NO_ERR)"
  shows "let s' = agt_ncx_cancel_confirmed_commit env live event s in
    cfg_get_root (ncx_db s') 0 = Some r \<and> cfg_get_root (ncx_db s') 1 = Some copy \<and>
    commit_cb s' = clear_commit_cb \<and> cc_events s' = cc_events s @ [event]"
proof -
  obtain s1 c1 where l: "agt_ncx_load_backup env live (Some name) 0 0 s = (NO_ERR, s1)"
    and c1: "cfg_arr (ncx_db s1) 0 = Some c1" "root c1 = Some r"
    and o: "\<And>i. i \<noteq> 0 \<Longrightarrow> cfg_arr (ncx_db s1) i = cfg_arr (ncx_db s) i"
    and ev: "cc_events s1 = cc_events s"
    using load_backup_restores [OF assms(1,4,5,6,7,8), where live = live] by metis
  have d: "cfg_arr (ncx_db s1) (Suc 0) = Some d" using o [of 1] assms(9) by simp
  have "snd (cfg_fill_candidate_from_running True (ncx_db s1)) =
      upd 1 (fill_candidate (Some copy) (Some (last_txid c1))) (ncx_db s1)"
    using c1 d assms(10) by (simp add: cfg_fill_candidate_from_running_def)
  then show ?thesis
    using assms(2,3,5) l c1 d ev
    by (simp add: agt_ncx_cancel_confirmed_commit_def Let_def send_confirmed_commit_def cfg_get_root_def upd_slot
        MAX_CFGID_def fill_candidate_def)
qed

section \<open>While a confirmed commit is pending\<close>

text \<open>What the backup file holds.\<close>

definition backup :: "'f ncx_state \<Rightarrow> 'f option" where
  "backup s = Option.bind (cc_backup_source (commit_cb s)) (files s)"

text \<open>The startup file is not the backup file.\<close>

definition apart :: "'f ncx_env \<Rightarrow> 'f ncx_state \<Rightarrow> bool" where
  "apart env s \<longleftrightarrow> cc_backup_source (commit_cb s) \<noteq> None \<and>
     snd (agt_get_startup_filespec env (ncx_db s)) \<noteq> cc_backup_source (commit_cb s)"

lemma startup_filespec_urls:
  "agt_get_startup_filespec env db =
     (case map_option src_url (cfg_arr db 0) of
        None \<Rightarrow> (ERR_INTERNAL_VAL, None)
      | Some running \<Rightarrow>
          (case Option.bind (map_option src_url (cfg_arr db 2)) (\<lambda>u. u) of
             Some url \<Rightarrow> (if p_mem env then (NO_ERR, Some url) else (ERR_INTERNAL_MEM, None))
           | None \<Rightarrow>
               (case running of
                  Some url \<Rightarrow> (if p_mem env then (NO_ERR, Some url) else (ERR_INTERNAL_MEM, None))
                | None \<Rightarrow> p_home_startup env)))"
  by (cases "cfg_arr db 2"; cases "cfg_arr db 0")
    (simp_all add: agt_get_startup_filespec_def cfg_get_config_id_def MAX_CFGID_def)

lemma startup_filespec_cong:
  assumes "\<And>i. map_option src_url (cfg_arr db' i) = map_option src_url (cfg_arr db i)"
  shows "agt_get_startup_filespec env db' = agt_get_startup_filespec env db"
  unfolding startup_filespec_urls assms ..

lemma commit_validate_slots:
  assumes "commit_validate env me rq s = (res, tx, s')"
  shows "frame s s' \<and> ((\<forall>c t. g (c\<lparr>cur_txid := t\<rparr>) = g c) \<longrightarrow>
    map_option g (cfg_arr (ncx_db s') i) = map_option g (cfg_arr (ncx_db s) i))"
proof (cases "s' = s")
  case False
  obtain res1 tx1 s1 where n: "new_transaction env 0 False False s = (res1, tx1, s1)" by (metis prod.exhaust)
  then have u: "map_option g (cfg_arr (ncx_db s1) i) = map_option g (cfg_arr (ncx_db s) i)"
    if "\<And>c t. g (c\<lparr>cur_txid := t\<rparr>) = g c"
    using that by (auto simp: new_transaction_def agt_cfg_new_transaction_def upd_slot option.map_comp comp_def
        split: prod.splits option.splits if_splits)
  have "s' = s1 \<or> (\<exists>r res. root_check_in env r s1 = (res, s'))"
    using assms False n unfolding commit_validate_def Let_def
    by (auto split: option.splits if_splits prod.splits)
  then have "frame s1 s'" "ncx_db s' = ncx_db s1" using root_check_in_state by fastforce+
  then show ?thesis using u frame_trans [OF new_transaction_frame [OF n]] by auto
qed simp

lemma commit_validate_frame:
  assumes "commit_validate env me rq s = (res, tx, s')"
  shows "frame s s' \<and> agt_get_startup_filespec env (ncx_db s') = agt_get_startup_filespec env (ncx_db s)"
proof
  show "frame s s'" using commit_validate_slots [OF assms] by blast
  have "map_option src_url (cfg_arr (ncx_db s') i) = map_option src_url (cfg_arr (ncx_db s) i)" for i
    using commit_validate_slots [OF assms, of src_url i] by simp
  then show "agt_get_startup_filespec env (ncx_db s') = agt_get_startup_filespec env (ncx_db s)"
    by (rule startup_filespec_cong)
qed

lemma set_persist_fields:
  "set_persist mem p s = (res, s') \<Longrightarrow>
     files s' = files s \<and> ncx_db s' = ncx_db s \<and> cc_active (commit_cb s') = cc_active (commit_cb s) \<and>
     cc_backup_source (commit_cb s') = cc_backup_source (commit_cb s) \<and> cc_ses_id (commit_cb s') = cc_ses_id (commit_cb s)"
  by (auto simp: set_persist_def upd_cc_def split: option.splits if_splits)

lemma extend_confirmed_fields:
  assumes "extend_confirmed mem now sid rq s = (res, ext, s')"
  shows "files s' = files s \<and> ncx_db s' = ncx_db s \<and> cc_active (commit_cb s') = cc_active (commit_cb s) \<and>
     cc_backup_source (commit_cb s') = cc_backup_source (commit_cb s) \<and> (ext \<longleftrightarrow> res = NO_ERR)"
  using assms set_persist_fields [of mem "rq_persist rq" s]
  by (auto simp: extend_confirmed_def Let_def upd_cc_def set_timer_def send_confirmed_commit_def
      split: prod.splits if_splits)

lemma write_files: "xml_wr_check_file env n v fs = (res, fs') \<Longrightarrow> m \<noteq> n \<Longrightarrow> fs' m = fs m"
  by (auto simp: xml_wr_check_file_def split: if_splits prod.splits)

lemma save_startup_keeps:
  assumes "save_startup_file env r cp s = (res, s')"
  shows "commit_cb s' = commit_cb s \<and> (snd (agt_get_startup_filespec env (ncx_db s)) \<noteq> Some n \<longrightarrow> files s' n = files s n)"
proof -
  obtain res1 name where f: "agt_get_startup_filespec env (ncx_db s) = (res1, name)" by (metis prod.exhaust)
  show ?thesis
  proof (cases "name = None \<or> res1 \<noteq> NO_ERR")
    case True
    then show ?thesis using assms f by (cases name) (auto simp: save_startup_file_def)
  next
    case False
    then obtain m where m: "name = Some m" "res1 = NO_ERR" by auto
    obtain res2 fs where w: "xml_wr_check_file env m r (files s) = (res2, fs)" by (metis prod.exhaust)
    have "files s' = fs" "commit_cb s' = commit_cb s"
      using assms f m w by (auto simp: save_startup_file_def Let_def split: if_splits)
    then show ?thesis using write_files [OF w, of n] m f by auto
  qed
qed

lemma cfg_save_keeps:
  assumes "agt_ncx_cfg_save env i s = (res, s')"
  shows "commit_cb s' = commit_cb s \<and> (snd (agt_get_startup_filespec env (ncx_db s)) \<noteq> Some n \<longrightarrow> files s' n = files s n)"
proof -
  have "s' = s \<or> (\<exists>r cp. save_startup_file env r cp s = (res, s'))"
    using assms by (auto simp: agt_ncx_cfg_save_def split: option.splits if_splits prod.splits)
  then show ?thesis using save_startup_keeps by blast
qed

lemma complete_confirmed_pending:
  assumes "complete_confirmed env sid rq s = (res, s')" "cc_active (commit_cb s')" "apart env s"
  shows "res \<noteq> NO_ERR \<and> commit_cb s' = commit_cb s \<and> backup s' = backup s"
  using assms cfg_save_keeps [of env 0 s]
  by (auto simp: complete_confirmed_def send_confirmed_commit_def clear_commit_cb_def apart_def backup_def
      split: if_splits prod.splits)

lemma apply_commit_frame:
  "agt_val_apply_commit env sid r i False tx s = (res, tx', s') \<Longrightarrow> frame s s'"
  by (auto simp: agt_val_apply_commit_def frame_def Let_def split: prod.splits if_splits)

lemma apply_commit_cc:
  "agt_val_apply_commit env sid r i save tx s = (res, tx', s') \<Longrightarrow> commit_cb s' = commit_cb s"
  using cfg_save_keeps by (fastforce simp: agt_val_apply_commit_def Let_def split: prod.splits if_splits)

lemma apply_candidate_frame:
  assumes "apply_candidate env live sid False tx s = (res, txcb, s')"
  shows "frame s s'"
proof (cases "Option.bind (cfg_arr (ncx_db s) 1) root")
  case (Some r)
  obtain res1 tx1 s1 where a: "agt_val_apply_commit env sid r 0 False tx s = (res1, tx1, s1)" by (metis prod.exhaust)
  define s2 where "s2 = s1\<lparr>ncx_db := agt_cfg_free_transaction (Some tx1) (ncx_db s1)\<rparr>"
  obtain res3 s3 where l: "agt_ncx_load_backup env live (cc_backup_source (commit_cb s2)) 0 (cc_ses_id (commit_cb s2)) s2
      = (res3, s3)" by (metis prod.exhaust)
  have s1: "frame s s1" by (rule apply_commit_frame [OF a])
  have s2: "frame s1 s2" by (simp add: frame_def s2_def)
  have s3: "frame s2 s3" by (rule load_backup_frame [OF l])
  have "s' = s1 \<or> s' = s3 \<or> (\<exists>db. s' = s1\<lparr>ncx_db := db\<rparr>)"
    using assms Some a l unfolding apply_candidate_def
    by (auto simp: s2_def split: if_splits prod.splits)
  moreover have "frame s1 (s1\<lparr>ncx_db := db\<rparr>)" for db by (simp add: frame_def)
  ultimately show ?thesis using s1 s2 s3 frame_trans by metis
qed (use assms in \<open>simp add: apply_candidate_def\<close>)

lemma apply_candidate_cc:
  assumes "apply_candidate env live sid save tx s = (res, txcb, s')"
  shows "commit_cb s' = commit_cb s"
  using assms apply_commit_cc load_backup_frame
  by (fastforce simp: apply_candidate_def frame_def split: option.splits prod.splits if_splits)

lemma backup_name_fields:
  "backup_name env running s = (res, s') \<Longrightarrow>
     files s' = files s \<and> ncx_db s' = ncx_db s \<and> (\<exists>f. commit_cb s' = (commit_cb s)\<lparr>cc_backup_source := f\<rparr>)"
  by (auto simp: backup_name_def upd_cc_def Let_def split: if_splits prod.splits intro: exI [of _ "cc_backup_source (commit_cb s)"])

lemma write_config_fields:
  "write_config env f running s = (res, s') \<Longrightarrow> commit_cb s' = commit_cb s \<and> ncx_db s' = ncx_db s"
  by (auto simp: write_config_def split: option.splits prod.splits)

text \<open>What \<^verbatim>\<open>commit_invoke\<close> does after the decision does not start or end a confirmed commit.\<close>

lemma commit_invoke_active:
  assumes "commit_invoke env live now me rq tx s = (res, txcb, s')"
    and "cfg_get_config_id (ncx_db s) 1 = Some cand" "cfg_get_config_id (ncx_db s) 0 = Some running"
    and "confirmed_commit env now (my_sid me)
      (if my_protocol me = NCX_PROTO_NETCONF11 then rq else rq\<lparr>rq_persist := None, rq_persist_id := None\<rparr>) s
      = (res1, sv, ext, s1)"
  shows "\<exists>f. commit_cb s' = (commit_cb s1)\<lparr>cc_backup_source := f\<rparr>"
proof -
  obtain res2 s2 where b: "(if res1 = NO_ERR then backup_name env running s1 else (res1, s1)) = (res2, s2)"
    by (metis prod.exhaust)
  obtain res3 s3 where w: "(if res2 = NO_ERR \<and> \<not> ext then write_config env (cc_backup_source (commit_cb s2)) running s2
      else (res2, s2)) = (res3, s3)" by (metis prod.exhaust)
  have "\<exists>f. commit_cb s2 = (commit_cb s1)\<lparr>cc_backup_source := f\<rparr>"
    using b backup_name_fields [of env running s1] by (auto split: if_splits intro: exI [of _ "cc_backup_source (commit_cb s1)"])
  moreover have "commit_cb s3 = commit_cb s2" using w write_config_fields [of env "cc_backup_source (commit_cb s2)" running s2 res3 s3] by (auto split: if_splits)
  moreover have "commit_cb s' = commit_cb s3"
    using assms(1) apply_candidate_cc unfolding commit_invoke_def assms(2,3) Let_def assms(4)
    by (auto simp: b w split: if_splits)
  ultimately show ?thesis by simp
qed

lemma backup_frame: "frame s s' \<Longrightarrow> backup s' = backup s"
  by (simp add: frame_def backup_def)

lemma commit_invoke_pending:
  assumes "commit_invoke env live now me rq tx s = (res, txcb, s')"
    and "cc_active (commit_cb s)" "cc_active (commit_cb s')" "apart env s"
  shows "cc_backup_source (commit_cb s') = cc_backup_source (commit_cb s) \<and> backup s' = backup s"
proof (cases "cfg_get_config_id (ncx_db s) 1 = None \<or> cfg_get_config_id (ncx_db s) 0 = None")
  case False
  then obtain cand running where c: "cfg_get_config_id (ncx_db s) 1 = Some cand" "cfg_get_config_id (ncx_db s) 0 = Some running"
    by auto
  define rq' where "rq' = (if my_protocol me = NCX_PROTO_NETCONF11 then rq else rq\<lparr>rq_persist := None, rq_persist_id := None\<rparr>)"
  obtain res1 sv ext s1 where k: "confirmed_commit env now (my_sid me) rq' s = (res1, sv, ext, s1)" by (metis prod.exhaust)
  have src: "cc_backup_source (commit_cb s) \<noteq> None" using assms(4) by (simp add: apart_def)
  show ?thesis
  proof (cases "rq_confirmed rq'")
    case True
    then obtain e: "extend_confirmed (p_mem env) now (my_sid me) rq' s = (res1, ext, s1)" and sv: "sv = (\<not> ext)"
      using k assms(2) by (auto simp: confirmed_commit_def split: prod.splits)
    note f = extend_confirmed_fields [OF e]
    show ?thesis
    proof (cases "res1 = NO_ERR")
      case False
      then have "s' = s1" using assms(1) c k by (auto simp: commit_invoke_def rq'_def [symmetric])
      then show ?thesis using f by (simp add: backup_def)
    next
      case True
      have "backup_name env running s1 = (NO_ERR, s1)" using f src by (simp add: backup_name_def)
      then have "apply_candidate env live (my_sid me) False tx s1 = (res, txcb, s')"
        using assms(1) c k True f sv by (simp add: commit_invoke_def rq'_def [symmetric])
      then have "frame s1 s'" by (rule apply_candidate_frame)
      then show ?thesis using f by (simp add: frame_def backup_def)
    qed
  next
    case nc: False
    then have cpl: "complete_confirmed env (my_sid me) rq' s = (res1, s1)" and ext: "\<not> ext"
      using k assms(2) by (auto simp: confirmed_commit_def split: prod.splits)
    have act: "cc_active (commit_cb s1)" if "res1 \<noteq> NO_ERR"
      using that assms(1,3) c k by (auto simp: commit_invoke_def rq'_def [symmetric])
    show ?thesis
    proof (cases "res1 = NO_ERR")
      case False
      then have "s' = s1" using assms(1) c k by (auto simp: commit_invoke_def rq'_def [symmetric])
      then show ?thesis using complete_confirmed_pending [OF cpl _ assms(4)] assms(3) by simp
    next
      case True
      have in1: "\<not> cc_active (commit_cb s1)"
        using cpl True by (auto simp: complete_confirmed_def clear_commit_cb_def split: if_splits prod.splits)
      obtain f where "commit_cb s' = (commit_cb s1)\<lparr>cc_backup_source := f\<rparr>"
        using commit_invoke_active [OF assms(1) c k [unfolded rq'_def]] by blast
      then have "\<not> cc_active (commit_cb s')" using in1 by simp
      then show ?thesis using assms(3) by simp
    qed
  qed
qed (use assms(1) in \<open>auto simp: commit_invoke_def split: option.splits\<close>)

lemma free_msg_keeps: "commit_cb (free_msg txcb s) = commit_cb s" "backup (free_msg txcb s) = backup s"
  by (simp_all add: free_msg_def backup_def)

lemma commit_rpc_pending:
  assumes "cc_active (commit_cb s)" "cc_active (commit_cb (snd (commit_rpc env live now me rq s)))" "apart env s"
  shows "backup (snd (commit_rpc env live now me rq s)) = backup s"
proof -
  obtain res1 tx1 s1 where v: "commit_validate env me rq s = (res1, tx1, s1)" by (metis prod.exhaust)
  obtain res2 tx2 s2 where i: "commit_invoke env live now me rq (the tx1) s1 = (res2, tx2, s2)" by (metis prod.exhaust)
  have f: "frame s s1" and a: "apart env s1"
    using commit_validate_frame [OF v] assms(3) by (simp_all add: apart_def frame_def)
  have act: "cc_active (commit_cb s1)" using f assms(1) by (simp add: frame_def)
  have "cc_active (commit_cb s2)" if "res1 = NO_ERR"
    using that assms(2) by (simp add: commit_rpc_def v i free_msg_keeps)
  then have "backup s2 = backup s1" if "res1 = NO_ERR"
    using that commit_invoke_pending [OF i act _ a] by simp
  then show ?thesis using backup_frame [OF f] by (simp add: commit_rpc_def v i free_msg_keeps)
qed

section \<open>The commit state machine\<close>

text \<open>What \<^verbatim>\<open>agt_ses_kill_session\<close> does for a session that is going.\<close>

definition cc_session_gone :: "'f ncx_env \<Rightarrow> (u32 \<Rightarrow> bool) \<Rightarrow> u32 \<Rightarrow> 'f ncx_state \<Rightarrow> 'f ncx_state" where
  "cc_session_gone env live sid s =
     (if agt_ncx_cc_active s \<and> agt_ncx_cc_ses_id s = sid
      then (if agt_ncx_cc_persist_id s = None then agt_ncx_cancel_confirmed_commit env live NCX_CC_EVENT_CANCEL s
            else agt_ncx_clear_cc_ses_id s)
      else s)"

text \<open>
  The steps that change the control block or the files, and the changes that other operations make to the
  configurations.
\<close>

inductive ncx_step :: "'f ncx_env \<Rightarrow> 'f ncx_state \<Rightarrow> 'f ncx_state \<Rightarrow> bool" for env where
  commit: "ncx_step env s (snd (commit_rpc env live now me rq s))"
| cancel: "ncx_step env s (snd (cancel_commit_rpc env live me persistid s))"
| timer: "ncx_step env s (agt_ncx_check_cc_timeout env live now s)"
| session_gone: "ncx_step env s (cc_session_gone env live sid s)"
| discard: "ncx_step env s (snd (discard_changes_rpc env sid s))"
| lock: "ncx_step env s (snd (lock_rpc env i sid s))"
| unlock: "ncx_step env s (snd (unlock_rpc env i sid s))"
| edit: "ncx_step env s (s\<lparr>ncx_db := db, ncx_txid := txid\<rparr>)"
| other_file: "Some name \<noteq> cc_backup_source (commit_cb s) \<Longrightarrow> ncx_step env s (s\<lparr>files := (files s)(name := text)\<rparr>)"

inductive_cases ncx_stepE: "ncx_step env s s'"

text \<open>The states that are reached from \<open>s0\<close> without the end of the confirmed commit.\<close>

inductive pending :: "'f ncx_env \<Rightarrow> 'f ncx_state \<Rightarrow> 'f ncx_state \<Rightarrow> bool" for env s0 where
  start: "cc_active (commit_cb s0) \<Longrightarrow> pending env s0 s0"
| step: "pending env s0 s \<Longrightarrow> apart env s \<Longrightarrow> ncx_step env s s' \<Longrightarrow> cc_active (commit_cb s') \<Longrightarrow> pending env s0 s'"

lemma cleared [simp]: "\<not> cc_active clear_commit_cb"
  by (simp add: clear_commit_cb_def)

lemma cancel_inactive [simp]: "\<not> cc_active (commit_cb (agt_ncx_cancel_confirmed_commit env live ev s))"
  by (simp add: agt_ncx_cancel_confirmed_commit_def Let_def split: prod.split)

lemma ncx_step_pending:
  assumes "ncx_step env s s'" "cc_active (commit_cb s)" "cc_active (commit_cb s')" "apart env s"
  shows "backup s' = backup s"
  using assms(1)
proof (cases rule: ncx_step.cases)
  case (commit live now me rq)
  then show ?thesis using commit_rpc_pending [of s env live now me rq] assms by simp
next
  case (cancel live me persistid)
  then show ?thesis using assms
    by (auto simp: cancel_commit_rpc_def cancel_commit_invoke_def Let_def split: if_splits)
next
  case (timer live now)
  then show ?thesis using assms by (auto simp: agt_ncx_check_cc_timeout_def split: if_splits)
next
  case (session_gone live sid)
  then show ?thesis using assms
    by (auto simp: cc_session_gone_def agt_ncx_clear_cc_ses_id_def upd_cc_def backup_def split: if_splits)
next
  case (discard sid)
  then show ?thesis
    by (auto simp: discard_changes_rpc_def discard_changes_invoke_def Let_def backup_def split: option.splits prod.splits)
next
  case (lock i sid)
  then show ?thesis by (auto simp: lock_rpc_def Let_def backup_def split: prod.splits)
next
  case (unlock i sid)
  then show ?thesis by (auto simp: unlock_rpc_def Let_def backup_def split: prod.splits)
qed (auto simp: backup_def split: Option.bind_split)

lemma pending_backup: "pending env s0 s \<Longrightarrow> cc_active (commit_cb s) \<and> backup s = backup s0"
proof (induction rule: pending.induct)
  case (step s s')
  then show ?case using ncx_step_pending [of env s s'] by simp
qed simp

section \<open>The start of a confirmed commit\<close>

lemma start_confirmed_fields:
  "start_confirmed mem now sid rq s = (res, s') \<Longrightarrow> res = NO_ERR \<Longrightarrow>
     cc_active (commit_cb s') \<and> files s' = files s \<and> ncx_db s' = ncx_db s \<and>
     cc_start_time (commit_cb s') = now \<and> cc_ses_id (commit_cb s') = (if cc_ses_id (commit_cb s) = 0 then sid else cc_ses_id (commit_cb s)) \<and>
     cc_cancel_timeout (commit_cb s') = (case rq_timeout rq of Some t \<Rightarrow> t | None \<Rightarrow> NCX_DEF_CONFIRM_TIMEOUT)"
  using set_persist_fields
  by (fastforce simp: start_confirmed_def Let_def upd_cc_def set_timer_def send_confirmed_commit_def
      split: prod.splits if_splits)

lemma write_config_backup:
  assumes "write_config env (cc_backup_source (commit_cb s)) cfg s = (NO_ERR, s')" "root cfg = Some r"
  shows "\<exists>t. e_write (eng env) r = (NO_ERR, t) \<and> backup s' = Some t"
  using assms by (auto simp: write_config_def xml_wr_check_file_def backup_def split: option.splits prod.splits if_splits)

lemma commit_starts:
  assumes "\<not> cc_active (commit_cb s)" "rq_confirmed rq" "commit_rpc env live now me rq s = (NO_ERR, s')"
    and "cfg_get_root (ncx_db s) 0 = Some r"
  shows "cc_active (commit_cb s') \<and> (\<exists>t. e_write (eng env) r = (NO_ERR, t) \<and> backup s' = Some t)"
proof -
  obtain res1 tx1 s1 where v: "commit_validate env me rq s = (res1, tx1, s1)" by (metis prod.exhaust)
  obtain res2 tx2 s2 where i: "commit_invoke env live now me rq (the tx1) s1 = (res2, tx2, s2)" by (metis prod.exhaust)
  have ok: "res1 = NO_ERR" "res2 = NO_ERR" "s' = free_msg tx2 s2"
    using assms(3) by (auto simp: commit_rpc_def v i split: if_splits)
  have f: "frame s s1" using commit_validate_frame [OF v] by simp
  have "map_option root (cfg_arr (ncx_db s1) 0) = map_option root (cfg_arr (ncx_db s) 0)"
    using commit_validate_slots [OF v, of root] by simp
  then have r: "cfg_get_root (ncx_db s1) 0 = Some r"
    using assms(4) by (cases "cfg_arr (ncx_db s) 0") (auto simp: cfg_get_root_def)
  obtain cand where c: "cfg_get_config_id (ncx_db s1) 1 = Some cand"
    using i ok by (cases "cfg_get_config_id (ncx_db s1) 1") (auto simp: commit_invoke_def)
  obtain running where run: "cfg_get_config_id (ncx_db s1) 0 = Some running" "root running = Some r"
    using r by (auto simp: cfg_get_root_def cfg_get_config_id_def bind_eq_Some_conv)
  define rq' where "rq' = (if my_protocol me = NCX_PROTO_NETCONF11 then rq else rq\<lparr>rq_persist := None, rq_persist_id := None\<rparr>)"
  obtain res3 s3 where k: "start_confirmed (p_mem env) now (my_sid me) rq' s1 = (res3, s3)" by (metis prod.exhaust)
  have cc: "confirmed_commit env now (my_sid me) rq' s1 = (res3, res3 \<noteq> NO_ERR, False, s3)"
    using assms(1,2) f k by (simp add: confirmed_commit_def frame_def rq'_def)
  have res3: "res3 = NO_ERR"
    using i ok c run cc by (auto simp: commit_invoke_def rq'_def [symmetric] split: if_splits prod.splits)
  obtain res4 s4 where b: "backup_name env running s3 = (res4, s4)" by (metis prod.exhaust)
  obtain res5 s5 where w: "write_config env (cc_backup_source (commit_cb s4)) running s4 = (res5, s5)" by (metis prod.exhaust)
  have nres: "res4 = NO_ERR" "res5 = NO_ERR"
    using i ok c run cc res3 b w by (auto simp: commit_invoke_def rq'_def [symmetric] split: if_splits prod.splits)
  have a: "apply_candidate env live (my_sid me) False (the tx1) s5 = (res2, tx2, s2)"
    using i c run cc res3 b w nres by (simp add: commit_invoke_def rq'_def [symmetric])
  have "cc_active (commit_cb s5)"
    using start_confirmed_fields [OF k res3] backup_name_fields [OF b] write_config_fields [OF w] by auto
  then have "cc_active (commit_cb s2)" using apply_candidate_cc [OF a] by simp
  moreover have "\<exists>t. e_write (eng env) r = (NO_ERR, t) \<and> backup s5 = Some t"
    using w nres run(2) write_config_backup by blast
  moreover have "backup s2 = backup s5" by (rule backup_frame [OF apply_candidate_frame [OF a]])
  ultimately show ?thesis by (simp add: ok(3) free_msg_keeps)
qed

section \<open>Requests that are refused\<close>

text \<open>Who may confirm or extend: with the persist ID any session, without it the owner, who extends only if there is none.\<close>

definition may_commit :: "u32 \<Rightarrow> commit_req \<Rightarrow> commit_cb_t \<Rightarrow> bool" where
  "may_commit sid rq cc \<longleftrightarrow>
     (case rq_persist_id rq of
        Some pid \<Rightarrow> cc_persist_id cc = Some pid
      | None \<Rightarrow> cc_ses_id cc = sid \<and> (rq_confirmed rq \<longrightarrow> cc_persist_id cc = None))"

lemma free_new_transaction:
  assumes "new_transaction env 0 rc v s = (res, txcb, s')" "txcb = Some tx'"
  shows "agt_cfg_free_transaction (Some tx') (ncx_db s') = ncx_db s"
proof -
  obtain c where c: "cfg_arr (ncx_db s) 0 = Some c" "cur_txid c = 0"
    using assms(1,2) by (auto simp: new_transaction_def agt_cfg_new_transaction_def cfg_get_config_id_def
        split: prod.splits option.splits if_splits)
  have "agt_cfg_free_transaction (Some tx') (ncx_db s') = ncx_db s" and "p_mem env"
  proof -
    show m: "p_mem env" using assms(1,2)
      by (auto simp: new_transaction_def agt_cfg_new_transaction_def split: prod.splits option.splits if_splits)
    obtain tx0 txid where n: "new_transaction env 0 rc v s =
        (NO_ERR, Some tx0, s\<lparr>ncx_txid := txid, ncx_db := upd 0 (\<lambda>c. c\<lparr>cur_txid := tx_id tx0\<rparr>) (ncx_db s)\<rparr>)"
      and t: "tx_id tx0 \<noteq> 0" "tx_cfg_id tx0 = 0" using new_transaction_granted [OF c m] by metis
    have "c\<lparr>cur_txid := 0\<rparr> = c" using c(2) by simp
    then have "(cfg_arr (ncx_db s))(0 := Some (c\<lparr>cur_txid := 0\<rparr>)) = cfg_arr (ncx_db s)"
      using c(1) by (simp add: fun_upd_idem)
    then show "agt_cfg_free_transaction (Some tx') (ncx_db s') = ncx_db s"
      using assms(1,2) n t c
      by (auto simp: agt_cfg_free_transaction_def cfg_get_config_id_def MAX_CFGID_def upd_def)
  qed
  then show ?thesis by simp
qed

lemma free_commitcheck [simp]:
  "agt_cfg_free_transaction (Some (tx\<lparr>commitcheck := b\<rparr>)) db = agt_cfg_free_transaction (Some tx) db"
  by (simp add: agt_cfg_free_transaction_def split: option.split)

lemma commit_validate_db:
  assumes "commit_validate env me rq s = (res, txcb, s')"
  shows "agt_cfg_free_transaction txcb (ncx_db s') = ncx_db s"
proof (cases txcb)
  case None
  have "new_transaction env 0 False False s = (r, None, s1) \<Longrightarrow> ncx_db s1 = ncx_db s" for r s1
    by (auto simp: new_transaction_def agt_cfg_new_transaction_def split: prod.splits option.splits if_splits)
  then show ?thesis using assms None
    by (auto simp: agt_cfg_free_transaction_def commit_validate_def Let_def split: option.splits prod.splits if_splits)
next
  case (Some tx)
  obtain res1 tx1 s1 where n: "new_transaction env 0 False False s = (res1, tx1, s1)" by (metis prod.exhaust)
  obtain tx' where tx: "tx1 = Some tx'" "tx = tx'\<lparr>commitcheck := False\<rparr>"
    and s': "s' = s1 \<or> (\<exists>r res. root_check_in env r s1 = (res, s'))"
    using assms n Some unfolding commit_validate_def Let_def
    by (auto split: option.splits if_splits prod.splits)
  have "ncx_db s' = ncx_db s1" using s' root_check_in_state by blast
  then show ?thesis using free_new_transaction [OF n tx(1)] by (simp add: Some tx(2))
qed

lemma refused_decision:
  assumes "cc_active (commit_cb s)" "\<not> may_commit sid rq (commit_cb s)"
    and "commit_parms_status me rq (commit_cb s) = NO_ERR"
    and "rq' = rq \<or> rq' = rq\<lparr>rq_persist := None, rq_persist_id := None\<rparr>"
  shows "\<exists>res sv ext. confirmed_commit env now sid rq' s = (res, sv, ext, s) \<and> res \<noteq> NO_ERR"
proof -
  have none: "rq_persist_id rq = None"
    using assms(2,3) by (auto simp: may_commit_def commit_parms_status_def split: option.splits if_splits)
  then have "rq_persist_id rq' = None" "rq_confirmed rq' = rq_confirmed rq" using assms(4) by auto
  then show ?thesis
    using none assms(1,2) by (auto simp: confirmed_commit_def may_commit_def extend_confirmed_def complete_confirmed_def Let_def)
qed

lemma commit_refused:
  assumes "cc_active (commit_cb s)" "\<not> may_commit (my_sid me) rq (commit_cb s)"
  shows "\<exists>res s'. commit_rpc env live now me rq s = (res, s') \<and> res \<noteq> NO_ERR \<and> ncx_db s' = ncx_db s \<and> frame s s'"
proof -
  obtain res1 tx1 s1 where v: "commit_validate env me rq s = (res1, tx1, s1)" by (metis prod.exhaust)
  obtain res2 tx2 s2 where i: "commit_invoke env live now me rq (the tx1) s1 = (res2, tx2, s2)" by (metis prod.exhaust)
  have f: "frame s s1" using commit_validate_frame [OF v] by simp
  have d: "agt_cfg_free_transaction tx1 (ncx_db s1) = ncx_db s" by (rule commit_validate_db [OF v])
  have done_msg: "ncx_db (free_msg tx1 s1) = ncx_db s \<and> frame s (free_msg tx1 s1)"
    using f d by (simp add: free_msg_def frame_def)
  show ?thesis
  proof (cases "res1 = NO_ERR")
    case True
    have parms: "commit_parms_status me rq (commit_cb s) = NO_ERR"
      using v True by (auto simp: commit_validate_def Let_def split: option.splits if_splits prod.splits)
    have act1: "cc_active (commit_cb s1)" and np1: "\<not> may_commit (my_sid me) rq (commit_cb s1)"
      and parms1: "commit_parms_status me rq (commit_cb s1) = NO_ERR"
      using f assms parms by (simp_all add: frame_def)
    have tx1: "tx1 \<noteq> None"
      using v True by (auto simp: commit_validate_def Let_def split: option.splits if_splits prod.splits)
    have "s2 = s1 \<and> tx2 = Some (the tx1) \<and> res2 \<noteq> NO_ERR"
    proof (cases "cfg_get_config_id (ncx_db s1) 1 = None \<or> cfg_get_config_id (ncx_db s1) 0 = None")
      case True
      then show ?thesis using i by (auto simp: commit_invoke_def split: option.splits)
    next
      case False
      then obtain cand running where c: "cfg_get_config_id (ncx_db s1) 1 = Some cand" "cfg_get_config_id (ncx_db s1) 0 = Some running"
        by auto
      have sent: "(if my_protocol me = NCX_PROTO_NETCONF11 then rq else rq\<lparr>rq_persist := None, rq_persist_id := None\<rparr>) = rq \<or>
          (if my_protocol me = NCX_PROTO_NETCONF11 then rq else rq\<lparr>rq_persist := None, rq_persist_id := None\<rparr>)
            = rq\<lparr>rq_persist := None, rq_persist_id := None\<rparr>" by simp
      obtain res sv ext where "confirmed_commit env now (my_sid me)
          (if my_protocol me = NCX_PROTO_NETCONF11 then rq else rq\<lparr>rq_persist := None, rq_persist_id := None\<rparr>) s1
          = (res, sv, ext, s1)" "res \<noteq> NO_ERR"
        using refused_decision [OF act1 np1 parms1 sent] by blast
      then show ?thesis using i c by (auto simp: commit_invoke_def)
    qed
    then show ?thesis using done_msg True i v tx1 by (auto simp: commit_rpc_def)
  qed (use done_msg v in \<open>simp add: commit_rpc_def\<close>)
qed

section \<open>A locked running configuration\<close>

lemma bind_root_upd: "(\<And>c. root (f c) = root c) \<Longrightarrow> Option.bind (map_option f x) root = Option.bind x root"
  by (cases x) simp_all

lemma new_transaction_root:
  "new_transaction env i rc v s = (res, tx, s') \<Longrightarrow> cfg_get_root (ncx_db s') j = cfg_get_root (ncx_db s) j \<and>
     map_option (\<lambda>c. cfg_ok_to_write c sid) (cfg_arr (ncx_db s') j) = map_option (\<lambda>c. cfg_ok_to_write c sid) (cfg_arr (ncx_db s) j)"
  by (auto simp: new_transaction_def agt_cfg_new_transaction_def cfg_get_root_def upd_slot option.map_comp comp_def
      bind_root_upd split: prod.splits option.splits if_splits)

lemma free_transaction_root: "cfg_get_root (agt_cfg_free_transaction tx db) j = cfg_get_root db j"
  by (auto simp: agt_cfg_free_transaction_def cfg_get_root_def upd_slot bind_root_upd split: option.split)

lemma load_validate_blocked:
  assumes "cfg_arr (ncx_db s) 0 = Some c" "cfg_ok_to_write c 0 \<noteq> NO_ERR" "p_startup_error env"
    and "load_config_validate env 0 0 op pe val s = (res, tx, val', s')"
  shows "res \<noteq> NO_ERR \<and> cfg_get_root (ncx_db s') j = cfg_get_root (ncx_db s) j"
proof (cases val)
  case (Some v)
  obtain res1 tx1 s1 where n: "new_transaction env 0 False False s = (res1, tx1, s1)" by (metis prod.exhaust)
  obtain c1 where c1: "cfg_arr (ncx_db s1) 0 = Some c1" "cfg_ok_to_write c1 0 \<noteq> NO_ERR"
    using new_transaction_root [OF n, of 0 0] assms(1,2) by (cases "cfg_arr (ncx_db s1) 0") auto
  have "cfg_get_root (ncx_db s1) j = cfg_get_root (ncx_db s) j" using new_transaction_root [OF n] by blast
  then show ?thesis
    using assms(3,4) c1 unfolding Some load_config_validate_def
    by (auto simp: n agt_val_validate_write_def Let_def split: if_splits)
qed (use assms(4) in \<open>simp add: load_config_validate_def\<close>)

lemma load_blocked:
  assumes "cfg_arr (ncx_db s) 0 = Some c" "cfg_ok_to_write c 0 \<noteq> NO_ERR" "p_startup_error env"
    and "load_config_file env live name 0 isload 0 s = (res, s')"
  shows "res \<noteq> NO_ERR \<and> cfg_get_root (ncx_db s') j = cfg_get_root (ncx_db s) j"
  using assms(4) load_validate_blocked [OF assms(1-3)] assms(3)
  unfolding load_config_file_def Let_def
  by (auto simp: free_transaction_root split: if_splits prod.splits)

section \<open>A concrete agent\<close>

text \<open>An engine that stores trees as they are, for the witnesses.\<close>

definition plain_engine :: "val_value engine" where
  "plain_engine = \<lparr>e_validate = (\<lambda>op sid target db v. (NO_ERR, v)),
     e_apply = (\<lambda>op sid i v db. (NO_ERR, upd i (\<lambda>c. c\<lparr>root := Some v\<rparr>) db)),
     e_commit = (\<lambda>op sid i v db. (NO_ERR, db)), e_rollback = (\<lambda>op sid i v db. (NO_ERR, db)),
     e_dead_nodes = (\<lambda>v. (NO_ERR, v)), e_root_check = (\<lambda>v. (NO_ERR, False, False)), e_clean = (\<lambda>v. v),
     e_purge = (\<lambda>v. v), e_order = (\<lambda>v. v), e_write = (\<lambda>v. (NO_ERR, v)),
     e_open_reader = (\<lambda>f. if f = None then ERR_FIL_OPEN else NO_ERR), e_parse = (\<lambda>f. (NO_ERR, f)),
     e_post_psd = (\<lambda>res v. (res, v))\<rparr>"

definition plain_env :: "val_value ncx_env" where
  "plain_env = \<lparr>eng = plain_engine, fops = no_float, tx_io = io_fine, tx_junk = junk_tx, p_mem = True,
     p_candidate_target = True, p_has_startup = False, p_startup_error = True, p_running_error = True,
     p_config_bad = False, p_time = [], p_can_open = (\<lambda>_. True),
     p_find_backup = (\<lambda>fs. (NO_ERR, Some ''backup-cfg.xml'')), p_make_from_src = (\<lambda>url. (ERR_NCX_NOT_FOUND, None)),
     p_make = (ERR_NCX_NOT_FOUND, None), p_home_startup = (NO_ERR, Some ''startup-cfg.xml''),
     commit_validators = [], commit_completers = []\<rparr>"

definition agent :: "cfg_db \<Rightarrow> val_value ncx_state" where
  "agent db = \<lparr>ncx_db = db, commit_cb = clear_commit_cb, ncx_txid = \<lparr>agt_cfg_txid = 7, txid_file = None\<rparr>, files = (\<lambda>_. None),
     cc_events = [], load_validate_errors = False, load_rootcheck_errors = False, load_top_rootcheck_errors = False,
     load_apply_errors = False\<rparr>"

lemma plain_env_sel [simp]:
  "eng plain_env = plain_engine" "p_mem plain_env" "p_candidate_target plain_env" "p_startup_error plain_env"
  "commit_validators plain_env = []" "commit_completers plain_env = []" "p_can_open plain_env n"
  "p_find_backup plain_env fs = (NO_ERR, Some ''backup-cfg.xml'')" "fops plain_env = no_float" "tx_io plain_env = io_fine"
  "\<not> p_has_startup plain_env" "p_home_startup plain_env = (NO_ERR, Some ''startup-cfg.xml'')"
  by (simp_all add: plain_env_def)

lemma agent_sel [simp]:
  "ncx_db (agent db) = db" "commit_cb (agent db) = clear_commit_cb" "cc_events (agent db) = []" "files (agent db) n = None"
  by (simp_all add: agent_def)

abbreviation "starting \<equiv> \<lparr>rq_confirmed = True, rq_timeout = Some 60, rq_persist = None, rq_persist_id = None\<rparr>"
abbreviation "session sid \<equiv> \<lparr>my_sid = sid, my_protocol = NCX_PROTO_NETCONF11\<rparr>"

lemma free_config_data: "val_is_config_data [free_config]"
  using sample_config_data by (simp add: sample_config_def)

lemma plain_restores: "restores plain_engine free_config free_config"
  by (simp add: restores_def plain_engine_def free_config_data)

text \<open>The agent after session 3 has started a confirmed commit of its clean candidate.\<close>

definition committed :: "val_value ncx_state" where
  "committed = snd (commit_rpc plain_env (\<lambda>_. True) 1000 (session 3) starting (agent (boot free_config)))"

lemma committed_ok:
  "fst (commit_rpc plain_env (\<lambda>_. True) 1000 (session 3) starting (agent (boot free_config))) = NO_ERR"
  "\<exists>c. cfg_arr (ncx_db committed) 0 = Some c \<and> cur_txid c = 0 \<and> cfg_state c = CFG_ST_READY \<and> cfg_id c = 0 \<and>
     root c = Some free_config"
  "\<exists>d. cfg_arr (ncx_db committed) 1 = Some d"
  "commit_cb committed = \<lparr>cc_backup_source = Some ''backup-cfg.xml'', cc_persist_id = None, cc_start_time = 1000,
     cc_cancel_timeout = 60, cc_ses_id = 3, cc_active = True\<rparr>"
proof -
  let ?s = "agent (boot free_config)"
  let ?free = "boot_slot 0 ''running'' (Some free_config)"
  have slot: "cfg_arr (ncx_db ?s) 0 = Some ?free" by (simp add: boot_free)
  have txid0: "cur_txid ?free = 0" by (simp add: boot_slot_def)
  obtain tx txid where n: "new_transaction plain_env 0 False False ?s =
      (NO_ERR, Some tx, ?s\<lparr>ncx_txid := txid, ncx_db := upd 0 (\<lambda>c. c\<lparr>cur_txid := tx_id tx\<rparr>) (ncx_db ?s)\<rparr>)"
    and tx: "tx_id tx \<noteq> 0" "tx_cfg_id tx = 0"
    using new_transaction_granted [OF slot txid0, of plain_env] by (metis plain_env_sel(2))
  define s1 where "s1 = ?s\<lparr>ncx_txid := txid, ncx_db := upd 0 (\<lambda>c. c\<lparr>cur_txid := tx_id tx\<rparr>) (boot free_config)\<rparr>"
  have n1: "new_transaction plain_env 0 False False ?s = (NO_ERR, Some tx, s1)" using n by (simp add: s1_def)
  have rc: "root_check_in plain_env free_config s1 = (NO_ERR, s1)"
    by (simp add: root_check_in_def plain_engine_def s1_def agent_def)
  have v: "commit_validate plain_env (session 3) starting ?s = (NO_ERR, Some (tx\<lparr>commitcheck := False\<rparr>), s1)"
    using n1 rc
    by (simp add: commit_validate_def boot_free boot_slot_def commit_parms_status_def cfg_ok_to_write_def
        agt_val_check_commit_edits_def cfg_get_dirty_flag_def)
  have wr: "xml_wr_check_file plain_env n free_config fs = (NO_ERR, fs(n \<mapsto> free_config))" for n fs
    by (simp add: xml_wr_check_file_def plain_engine_def)
  have ap: "agt_val_apply_commit plain_env 3 free_config 0 False tx s = (NO_ERR, tx\<lparr>tx_apply_res := NO_ERR, tx_commit_res := NO_ERR\<rparr>,
      s\<lparr>ncx_db := cfg_set_dirty_flag 0 (upd 0 (\<lambda>c. cfg_update_last_txid (tx_id tx) (cfg_update_last_ch_time [] c))
        (upd 0 (\<lambda>c. c\<lparr>root := Some free_config\<rparr>) (ncx_db s)))\<rparr>)" for tx and s :: "val_value ncx_state"
    by (simp add: agt_val_apply_commit_def handle_callback_def free_config_data attempt_commit_def plain_engine_def plain_env_def)
  define db where "db = upd (Suc 0) (fill_candidate (Some free_config) (Some (tx_id tx)))
      (upd 0 (flags_update (set_bit (Suc 0))) (upd 0 (\<lambda>c. c\<lparr>last_ch_time := [], last_txid := tx_id tx\<rparr>)
        (upd 0 (\<lambda>c. c\<lparr>root := Some free_config\<rparr>) (upd 0 (\<lambda>c. c\<lparr>cur_txid := tx_id tx\<rparr>) (boot free_config)))))"
  define cc where "cc = \<lparr>cc_backup_source = Some ''backup-cfg.xml'', cc_persist_id = None, cc_start_time = 1000,
     cc_cancel_timeout = (60 :: u32), cc_ses_id = (3 :: u32), cc_active = True\<rparr>"
  define tx' where "tx' = tx\<lparr>commitcheck := False, tx_apply_res := NO_ERR, tx_commit_res := NO_ERR\<rparr>"
  have c: "commit_rpc plain_env (\<lambda>_. True) 1000 (session 3) starting ?s =
      (NO_ERR, free_msg (Some tx') (?s\<lparr>ncx_txid := txid, cc_events := [NCX_CC_EVENT_START], commit_cb := cc,
         files := (files ?s)(''backup-cfg.xml'' \<mapsto> free_config), ncx_db := db\<rparr>))"
    by (simp add: commit_rpc_def v commit_invoke_def s1_def upd_slot boot_free cfg_get_config_id_def MAX_CFGID_def
        confirmed_commit_def clear_commit_cb_def start_confirmed_def set_persist_def upd_cc_def set_timer_def
        send_confirmed_commit_def backup_name_def write_config_def boot_slot_def wr apply_candidate_def ap
        cfg_set_dirty_flag_def cfg_fill_candidate_from_running_def clone_free_config cfg_update_last_txid_def
        cfg_update_last_ch_time_def db_def cc_def tx'_def)
  have t: "tx_id tx' = tx_id tx" "tx_cfg_id tx' = 0" using tx by (simp_all add: tx'_def)
  have d: "ncx_db committed = agt_cfg_free_transaction (Some tx') db" and cc: "commit_cb committed = cc"
    by (simp_all add: committed_def c free_msg_def)
  show "fst (commit_rpc plain_env (\<lambda>_. True) 1000 (session 3) starting ?s) = NO_ERR" by (simp add: c)
  show "\<exists>c. cfg_arr (ncx_db committed) 0 = Some c \<and> cur_txid c = 0 \<and> cfg_state c = CFG_ST_READY \<and> cfg_id c = 0 \<and>
     root c = Some free_config"
    using tx t by (simp add: d free_transaction_slot db_def upd_slot boot_free boot_slot_def)
  show "\<exists>d. cfg_arr (ncx_db committed) 1 = Some d"
    using tx t by (simp add: d free_transaction_slot db_def upd_slot boot_free boot_slot_def)
  show "commit_cb committed = \<lparr>cc_backup_source = Some ''backup-cfg.xml'', cc_persist_id = None, cc_start_time = 1000,
     cc_cancel_timeout = 60, cc_ses_id = 3, cc_active = True\<rparr>"
    by (simp add: cc cc_def)
qed

section \<open>Properties\<close>



text \<open>
  C8: while a confirmed commit is pending, a commit that comes neither with its persist ID nor from
  the session that owns it is refused with an error and changes neither a configuration nor a file nor the pending
  confirmed commit; so is a further confirmed commit of the owner that leaves out the persist ID.
\<close>
theorem commit_needs_owner:
  assumes "cc_active (commit_cb s)" "\<not> may_commit (my_sid me) rq (commit_cb s)"
  shows "\<exists>res s'. commit_rpc env live now me rq s = (res, s') \<and> res \<noteq> NO_ERR \<and> ncx_db s' = ncx_db s \<and>
    commit_cb s' = commit_cb s \<and> files s' = files s \<and> cc_events s' = cc_events s"
  using commit_refused [OF assms] by (simp add: frame_def)

theorem commit_needs_owner_witness:
  "\<exists>res s'. commit_rpc plain_env (\<lambda>_. True) 1010 (session 4) (starting\<lparr>rq_confirmed := False\<rparr>) committed = (res, s') \<and>
     res \<noteq> NO_ERR \<and> ncx_db s' = ncx_db committed"
  using commit_needs_owner [of committed "session 4" "starting\<lparr>rq_confirmed := False\<rparr>" plain_env "\<lambda>_. True" 1010]
  by (auto simp: committed_ok(4) may_commit_def)

text \<open>
  C12: with the default of the server to stop on errors of the startup configuration, a global lock
  on the running configuration defeats the confirmed commit: whatever the backup holds, cancelling it changes no
  configuration and only forgets it, so that what was to be confirmed stays.  The owner of the lock may be the
  very session whose end cancels the confirmed commit, since its locks are released later.
\<close>
theorem lock_blocks_restore:
  assumes "cc_active (commit_cb s)" "p_startup_error env"
    and "cfg_arr (ncx_db s) NCX_CFGID_RUNNING = Some c" "cfg_is_global_locked c" "locked_by c \<noteq> 0"
  shows "let s' = agt_ncx_cancel_confirmed_commit env live event s in
    commit_cb s' = clear_commit_cb \<and> (\<forall>i. cfg_get_root (ncx_db s') i = cfg_get_root (ncx_db s) i)"
proof -
  have denied: "cfg_ok_to_write c 0 \<noteq> NO_ERR"
    using assms(4,5) by (simp add: cfg_ok_to_write_def cfg_is_global_locked_def)
  obtain res s1 where l: "agt_ncx_load_backup env live (cc_backup_source (commit_cb s)) 0 0 s = (res, s1)"
    by (metis prod.exhaust)
  have "res \<noteq> NO_ERR \<and> cfg_get_root (ncx_db s1) i = cfg_get_root (ncx_db s) i" for i
    using l load_blocked [OF assms(3) denied assms(2), of live _ False res s1 i]
    by (auto simp: agt_ncx_load_backup_def agt_rpc_load_config_file_def split: option.splits)
  then show ?thesis
    using assms(1) l by (simp add: agt_ncx_cancel_confirmed_commit_def send_confirmed_commit_def)
qed

theorem lock_blocks_restore_witness:
  "let s = committed\<lparr>ncx_db := snd (cfg_lock [] 0 3 CFG_SRC_NETCONF (boot free_config))\<rparr> in
     commit_cb (agt_ncx_cancel_confirmed_commit plain_env (\<lambda>_. True) NCX_CC_EVENT_TIMEOUT s) = clear_commit_cb"
  using lock_blocks_restore [of "committed\<lparr>ncx_db := snd (cfg_lock [] 0 3 CFG_SRC_NETCONF (boot free_config))\<rparr>" plain_env
      _ "\<lambda>_. True" NCX_CC_EVENT_TIMEOUT]
  by (simp add: committed_ok(4) boot_lock upd_slot boot_free(1) cfg_is_global_locked_def Let_def)

text \<open>
  when the backup cannot be written, the commit that starts a confirmed commit is refused and
  the running configuration is not changed, but the confirmed commit is left active, and the backup file holds what
  it held before: at the timeout the server will replace the running configuration by that.
\<close>
theorem failed_backup_pending:
  assumes "\<not> cc_active (commit_cb s)" "rq_confirmed rq" "p_mem env"
    and "commit_validate env me rq s = (NO_ERR, Some tx, s1)"
    and "cc_backup_source (commit_cb s) = Some name" "\<not> p_can_open env name"
    and "cfg_get_root (ncx_db s) NCX_CFGID_RUNNING \<noteq> None"
  shows "\<exists>s'. commit_rpc env live now me rq s = (ERR_FIL_OPEN, s') \<and> ncx_db s' = ncx_db s \<and>
    cc_active (commit_cb s') \<and> cc_backup_source (commit_cb s') = Some name \<and> files s' = files s"
proof -
  have f: "frame s s1" using commit_validate_frame [OF assms(4)] by simp
  have "map_option root (cfg_arr (ncx_db s1) 0) = map_option root (cfg_arr (ncx_db s) 0)"
    using commit_validate_slots [OF assms(4), of root] by simp
  then obtain running r where run: "cfg_get_config_id (ncx_db s1) 0 = Some running" "root running = Some r"
    using assms(7) by (cases "cfg_arr (ncx_db s) 0") (auto simp: cfg_get_root_def cfg_get_config_id_def)
  have "map_option cfg_id (cfg_arr (ncx_db s1) 1) = map_option cfg_id (cfg_arr (ncx_db s) 1)"
    using commit_validate_slots [OF assms(4), of cfg_id] by simp
  moreover have "cfg_arr (ncx_db s) 1 \<noteq> None"
    using assms(4) by (auto simp: commit_validate_def split: if_splits option.splits)
  ultimately obtain cand where c: "cfg_get_config_id (ncx_db s1) (Suc 0) = Some cand"
    by (auto simp: cfg_get_config_id_def MAX_CFGID_def)
  define rq' where "rq' = (if my_protocol me = NCX_PROTO_NETCONF11 then rq else rq\<lparr>rq_persist := None, rq_persist_id := None\<rparr>)"
  obtain res3 s3 where k: "start_confirmed (p_mem env) now (my_sid me) rq' s1 = (res3, s3)" by (metis prod.exhaust)
  have res3: "res3 = NO_ERR" "cc_backup_source (commit_cb s3) = cc_backup_source (commit_cb s1)"
    using k assms(3) by (auto simp: start_confirmed_def set_persist_def Let_def upd_cc_def set_timer_def
        send_confirmed_commit_def split: option.splits)
  note st = start_confirmed_fields [OF k res3(1)]
  have "confirmed_commit env now (my_sid me) rq' s1 = (NO_ERR, False, False, s3)"
    using assms(1,2) f k res3 by (simp add: confirmed_commit_def frame_def rq'_def)
  then have "commit_rpc env live now me rq s = (ERR_FIL_OPEN, free_msg (Some tx) (s3\<lparr>files := files s\<rparr>))"
    using assms(4-6) c run f res3 st
    by (simp add: commit_rpc_def commit_invoke_def rq'_def [symmetric] backup_name_def write_config_def
        xml_wr_check_file_def frame_def)
  then show ?thesis
    using st f res3 assms(5) commit_validate_db [OF assms(4)] by (simp add: free_msg_def frame_def)
qed

theorem failed_backup_pending_witness:
  "\<exists>s'. commit_rpc (plain_env\<lparr>p_can_open := (\<lambda>_. False)\<rparr>) (\<lambda>_. True) 1000 (session 3) starting
       ((agent (boot free_config))\<lparr>commit_cb := clear_commit_cb\<lparr>cc_backup_source := Some ''b''\<rparr>\<rparr>) = (ERR_FIL_OPEN, s') \<and>
     cc_active (commit_cb s')"
proof -
  let ?env = "plain_env\<lparr>p_can_open := (\<lambda>_. False)\<rparr>"
  let ?s = "(agent (boot free_config))\<lparr>commit_cb := clear_commit_cb\<lparr>cc_backup_source := Some ''b''\<rparr>\<rparr>"
  have slot: "cfg_arr (ncx_db ?s) 0 = Some (boot_slot 0 ''running'' (Some free_config))" by (simp add: boot_free)
  obtain tx txid where n: "new_transaction ?env 0 False False ?s =
      (NO_ERR, Some tx, ?s\<lparr>ncx_txid := txid, ncx_db := upd 0 (\<lambda>c. c\<lparr>cur_txid := tx_id tx\<rparr>) (ncx_db ?s)\<rparr>)"
    by (rule new_transaction_granted [OF slot, of ?env False False]) (simp_all add: boot_slot_def)
  have "\<exists>s1. commit_validate ?env (session 3) starting ?s = (NO_ERR, Some (tx\<lparr>commitcheck := False\<rparr>), s1)"
    using n by (simp add: commit_validate_def boot_free boot_slot_def commit_parms_status_def cfg_ok_to_write_def
        agt_val_check_commit_edits_def cfg_get_dirty_flag_def root_check_in_def plain_engine_def)
  then obtain s1 where v: "commit_validate ?env (session 3) starting ?s = (NO_ERR, Some (tx\<lparr>commitcheck := False\<rparr>), s1)" ..
  from failed_backup_pending [OF _ _ _ v, of "''b''" "\<lambda>_. True" 1000] show ?thesis
    by (auto simp: clear_commit_cb_def cfg_get_root_def boot_free boot_slot_def)
qed



end
