(* ===== verification/Ses.thy ===== *)
theory Ses
  imports Ses_Msg
begin

text \<open>
  The byte stream of a session (\<^verbatim>\<open>netconf/src/ncx/ses.c\<close>): the two functions that split the input into messages, by the
  end marker of base:1.0 and by the chunks of base:1.1, the function that reads the socket, and the
  output functions.

  The current message is the last one of the queue and the current buffer its last one, unless the code has set the
  pointer to null, which the loops carry as flags.  The result \<open>None\<close> means that the process dies: the code follows a
  null pointer or an assertion fails.
\<close>

section \<open>The current message and buffer\<close>

definition upd_last :: "('a \<Rightarrow> 'a) \<Rightarrow> 'a list \<Rightarrow> 'a list" where
  "upd_last f xs = (if xs = [] then [] else butlast xs @ [f (last xs)])"

definition upd_msg :: "(ses_msg_t \<Rightarrow> ses_msg_t) \<Rightarrow> ses_cb_t \<Rightarrow> ses_cb_t" where
  "upd_msg f scb = scb\<lparr>msgQ := upd_last f (msgQ scb)\<rparr>"

definition upd_buff :: "(ses_msg_buff_t \<Rightarrow> ses_msg_buff_t) \<Rightarrow> ses_cb_t \<Rightarrow> ses_cb_t" where
  "upd_buff f scb = upd_msg (\<lambda>m. m\<lparr>buffQ := upd_last f (buffQ m)\<rparr>) scb"

abbreviation cur_msg :: "ses_cb_t \<Rightarrow> ses_msg_t" where "cur_msg scb \<equiv> last (msgQ scb)"
abbreviation cur_buff :: "ses_cb_t \<Rightarrow> ses_msg_buff_t" where "cur_buff scb \<equiv> last (buffQ (cur_msg scb))"

definition add_msg :: "bool \<Rightarrow> ses_cb_t \<Rightarrow> status_t \<times> ses_cb_t" where
  "add_msg mem scb =
     (case ses_msg_new_msg mem scb of
        (res, msg, scb) \<Rightarrow> (if res = NO_ERR then (res, scb\<lparr>msgQ := msgQ scb @ [msg]\<rparr>) else (res, scb)))"

definition add_buff :: "bool \<Rightarrow> ses_cb_t \<Rightarrow> status_t \<times> ses_cb_t" where
  "add_buff mem scb =
     (case ses_msg_new_buff mem False scb of
        (res, b, scb) \<Rightarrow>
          (if res = NO_ERR then (res, upd_msg (\<lambda>m. m\<lparr>buffQ := buffQ m @ [b]\<rparr>) scb) else (res, scb)))"

text \<open>At the start of both functions: a message that is not ready and a buffer that is not full.\<close>

definition start_msg :: "bool \<Rightarrow> ses_cb_t \<Rightarrow> status_t \<times> ses_cb_t" where
  "start_msg mem scb =
     (case (if msgQ scb = [] \<or> msg_ready (cur_msg scb) then add_msg mem scb else (NO_ERR, scb)) of
        (res, scb) \<Rightarrow>
          (if res \<noteq> NO_ERR then (res, scb)
           else if buffQ (cur_msg scb) = [] \<or> bufflen (cur_buff scb) = SES_MSG_BUFFSIZE then add_buff mem scb
           else (NO_ERR, scb)))"

text \<open>In the loops: a first buffer, or a new one in place of a full one.\<close>

definition close_full :: "ses_msg_buff_t \<Rightarrow> ses_msg_buff_t" where
  "close_full b = b\<lparr>buffpos := 0, bufflen := SES_MSG_BUFFSIZE\<rparr>"

definition next_buff :: "bool \<Rightarrow> bool \<Rightarrow> ses_cb_t \<Rightarrow> status_t \<times> ses_cb_t" where
  "next_buff mem nobuff scb =
     (if nobuff then add_buff mem scb
      else if buffpos (cur_buff scb) = SES_MSG_BUFFSIZE then add_buff mem (upd_buff close_full scb)
      else (NO_ERR, scb))"

section \<open>Input with the end marker of base:1.0\<close>

definition put_char :: "char \<Rightarrow> ses_msg_buff_t \<Rightarrow> ses_msg_buff_t" where
  "put_char ch b = b\<lparr>buff := (buff b)(buffpos b := ch), buffpos := buffpos b + 1\<rparr>"

text \<open>
  The end of a message: the marker is cut off.  When the current buffer holds nothing but a part of the marker, it is freed
  and the rest of the marker is cut off the buffer before it.
\<close>

definition cut_marker :: "ses_cb_t \<Rightarrow> ses_cb_t option" where
  "cut_marker scb =
     (let b = cur_buff scb
      in if buffpos b > NC_SSH_END_LEN
         then Some (upd_buff (\<lambda>b. b\<lparr>bufflen := buffpos b - NC_SSH_END_LEN\<rparr>) scb)
         else (let rem_len = NC_SSH_END_LEN - buffpos b;
                   scb = ses_msg_free_buff b (upd_msg (\<lambda>m. m\<lparr>buffQ := butlast (buffQ m)\<rparr>) scb)
               in if buffQ (cur_msg scb) = [] then None
                  else Some (upd_buff (\<lambda>b. b\<lparr>bufflen := bufflen b - rem_len\<rparr>) scb)))"

definition end_msg_v10 :: "ses_cb_t \<Rightarrow> ses_cb_t option" where
  "end_msg_v10 scb =
     map_option (\<lambda>scb.
       (ses_msg_make_inready
          (upd_msg (\<lambda>m. m\<lparr>curbuff := None, msg_ready := True\<rparr>) (upd_buff (\<lambda>b. b\<lparr>buffpos := 0, islast := True\<rparr>) scb)))
       \<lparr>instate := SES_INST_IDLE, inendpos := 0\<rparr>)
     (cut_marker scb)"

text \<open>One character in a state: the session and whether the marker is complete.\<close>

definition match_v10 :: "char \<Rightarrow> ses_cb_t \<Rightarrow> (ses_cb_t \<times> bool) option" where
  "match_v10 ch scb =
     (case instate scb of
        SES_INST_IDLE \<Rightarrow>
          Some (if ch = hd NC_SSH_END then scb\<lparr>instate := SES_INST_INEND, inendpos := 1\<rparr>
                else scb\<lparr>instate := SES_INST_INMSG\<rparr>, False)
      | SES_INST_INMSG \<Rightarrow>
          Some (if ch = hd NC_SSH_END then scb\<lparr>instate := SES_INST_INEND, inendpos := 1\<rparr> else scb, False)
      | SES_INST_INEND \<Rightarrow>
          (if ch = NC_SSH_END ! inendpos scb
           then Some (scb\<lparr>inendpos := inendpos scb + 1\<rparr>, inendpos scb + 1 = NC_SSH_END_LEN)
           else Some (scb\<lparr>instate := SES_INST_INMSG, inendpos := 0\<rparr>, False))
      | _ \<Rightarrow> None)"

text \<open>
  The loop.  \<open>p11\<close>: base:1.1 is enabled (\<^verbatim>\<open>ncx_protocol_enabled\<close>); then what follows the first message of a session is
  kept in the read buffer until the hello has been handled.
\<close>

fun v10_loop :: "bool \<Rightarrow> bool \<Rightarrow> string \<Rightarrow> bool \<Rightarrow> bool \<Rightarrow> ses_cb_t \<Rightarrow> (status_t \<times> ses_cb_t) option" where
  "v10_loop mem p11 [] nomsg nobuff scb = Some (NO_ERR, scb)"
| "v10_loop mem p11 (ch # rest) nomsg nobuff scb =
     (case (if nomsg then add_msg mem scb else (NO_ERR, scb)) of
        (res, scb) \<Rightarrow>
          (if res \<noteq> NO_ERR then Some (res, scb)
           else case next_buff mem nobuff scb of
                  (res, scb) \<Rightarrow>
                    (if res \<noteq> NO_ERR then Some (res, scb)
                     else case match_v10 ch (upd_buff (put_char ch) scb) of
                            None \<Rightarrow> Some (ERR_INTERNAL_VAL, upd_buff (put_char ch) scb)
                          | Some (scb, False) \<Rightarrow> v10_loop mem p11 rest False False scb
                          | Some (scb, True) \<Rightarrow>
                              (case end_msg_v10 scb of
                                 None \<Rightarrow> None
                               | Some scb \<Rightarrow>
                                   (if ses_protocol scb = NCX_PROTO_NONE \<and> p11
                                    then (if length (msgQ scb) \<noteq> 1 then None
                                          else Some (NO_ERR, scb\<lparr>indefer_len := length rest, readbuff := rest\<rparr>))
                                    else v10_loop mem p11 rest True True scb)))))"

definition accept_buffer_ssh_v10 :: "bool \<Rightarrow> bool \<Rightarrow> string \<Rightarrow> ses_cb_t \<Rightarrow> (status_t \<times> ses_cb_t) option" where
  "accept_buffer_ssh_v10 mem p11 input scb =
     (case start_msg mem scb of
        (res, scb) \<Rightarrow> (if res \<noteq> NO_ERR then Some (res, scb) else v10_loop mem p11 input False False scb))"

section \<open>Input with the chunks of base:1.1\<close>

text \<open>\<^verbatim>\<open>xml_strncpy\<close> stops after a NUL and adds one after \<open>n\<close> characters.\<close>

fun xml_strncpy :: "nat \<Rightarrow> string \<Rightarrow> nat \<Rightarrow> (nat \<Rightarrow> char) \<Rightarrow> nat \<Rightarrow> char" where
  "xml_strncpy p src 0 a = a(p := NUL)"
| "xml_strncpy p [] (Suc n) a = a(p := NUL)"
| "xml_strncpy p (c # cs) (Suc n) a = (if c = NUL then a(p := NUL) else xml_strncpy (Suc p) cs n (a(p := c)))"

text \<open>The part of the input that does not fit in the current buffer goes to as many new ones as it needs.\<close>

function copy_rest :: "bool \<Rightarrow> string \<Rightarrow> ses_cb_t \<Rightarrow> status_t \<times> ses_cb_t" where
  "copy_rest mem src scb =
     (if src = [] then (NO_ERR, scb)
      else case add_buff mem scb of
             (res, scb) \<Rightarrow>
               (if res \<noteq> NO_ERR then (res, scb)
                else (let n = min SES_MSG_BUFFSIZE (length src)
                      in copy_rest mem (drop n src)
                           (upd_buff (\<lambda>b. b\<lparr>buff := xml_strncpy (buffpos b) src n (buff b), buffpos := buffpos b + n, bufflen := n\<rparr>) scb))))"
  by pat_completeness auto

termination copy_rest
  by (relation "measure (\<lambda>(mem, src, scb). length src)") (auto simp: SES_MSG_BUFFSIZE_def min_def)

declare copy_rest.simps [simp del]

text \<open>Data of a chunk: as much of the input as the chunk still wants.  The result has what is left of the input.\<close>

definition copy_chunk :: "bool \<Rightarrow> string \<Rightarrow> ses_cb_t \<Rightarrow> status_t \<times> string \<times> ses_cb_t" where
  "copy_chunk mem input scb =
     (let chunkleft = expchunksize (cur_msg scb) - curchunksize (cur_msg scb);
          copylen = min (length input) (unat chunkleft);
          scb = upd_msg (\<lambda>m. m\<lparr>curchunksize := curchunksize m + of_nat copylen\<rparr>) scb;
          scb = (if curchunksize (cur_msg scb) = expchunksize (cur_msg scb)
                 then scb\<lparr>inendpos := 0, instate := SES_INST_INBETWEEN\<rparr> else scb);
          outbuffleft = SES_MSG_BUFFSIZE - buffpos (cur_buff scb)
      in if outbuffleft \<ge> copylen
         then (NO_ERR, drop copylen input,
               upd_buff (\<lambda>b. b\<lparr>buff := xml_strncpy (buffpos b) input copylen (buff b), buffpos := buffpos b + copylen\<rparr>) scb)
         else (case copy_rest mem (drop outbuffleft (take copylen input))
                      (upd_buff (\<lambda>b. close_full (b\<lparr>buff := xml_strncpy (buffpos b) input outbuffleft (buff b)\<rparr>)) scb) of
                 (res, scb) \<Rightarrow> (res, drop copylen input, scb)))"

text \<open>The string of the chunk size: the array up to the NUL that is put after the last digit.\<close>

definition chunk_number :: "ses_cb_t \<Rightarrow> string" where
  "chunk_number scb = map (startchunk scb) [0..<inendpos scb - 2]"

definition zero_float_ops :: float_ops where
  "zero_float_ops = \<lparr>f_lt = (\<lambda>_ _. False), f_eq = (\<lambda>_ _. False), f_strtod = (\<lambda>_. (0, 0)), f_of_int = (\<lambda>_. 0),
     f_lrint = (\<lambda>x. x), f_floor = (\<lambda>x. x), f_ceil = (\<lambda>x. x), f_round = (\<lambda>x. x), f_inf = (\<lambda>_. 0), f_printf = (\<lambda>_. [])\<rparr>"

text \<open>The conversion of an unsigned number uses no floating point operation.\<close>

definition end_chunk_size :: "ses_cb_t \<Rightarrow> status_t \<times> ses_cb_t" where
  "end_chunk_size scb =
     (let scb = scb\<lparr>startchunk := (startchunk scb)(inendpos scb - 2 := NUL)\<rparr>;
          numstr = chunk_number scb;
          scb = scb\<lparr>inendpos := 0\<rparr>
      in case ncx_convert_num zero_float_ops numstr NCX_NF_DEC NCX_BT_UINT32 (ncx_init_num zero_num) of
           (res, num) \<Rightarrow>
             (if res = NO_ERR
              then (NO_ERR, (upd_msg (\<lambda>m. m\<lparr>expchunksize := ucast (num_u num), curchunksize := 0\<rparr>) scb)
                              \<lparr>instate := SES_INST_INMSG\<rparr>)
              else (ERR_NCX_INVALID_FRAMING, scb)))"

definition is_digit1 :: "char \<Rightarrow> bool" where
  "is_digit1 ch \<longleftrightarrow> 49 \<le> (of_char ch :: nat) \<and> (of_char ch :: nat) \<le> 57"

text \<open>The start of a chunk after its line feed.\<close>

definition chunk_start :: "char \<Rightarrow> ses_cb_t \<Rightarrow> status_t \<times> ses_cb_t" where
  "chunk_start ch scb =
     (if inendpos scb = 1
      then (if ch = CHR ''#'' then (NO_ERR, scb\<lparr>inendpos := 2\<rparr>) else (ERR_NCX_INVALID_FRAMING, scb))
      else if inendpos scb = 2
      then (if is_digit1 ch then (NO_ERR, scb\<lparr>startchunk := (startchunk scb)(0 := ch), inendpos := 3\<rparr>)
            else (ERR_NCX_INVALID_FRAMING, scb))
      else if inendpos scb = SES_MAX_STARTCHUNK_SIZE then (ERR_NCX_INVALID_FRAMING, scb)
      else if ch = LF then end_chunk_size scb
      else if isdigit ch
      then (NO_ERR, scb\<lparr>startchunk := (startchunk scb)(inendpos scb - 2 := ch), inendpos := inendpos scb + 1\<rparr>)
      else (ERR_NCX_INVALID_FRAMING, scb))"

text \<open>After the data of a chunk.  The flag says that the character is looked at again, as the start of a chunk.\<close>

definition chunk_between :: "char \<Rightarrow> ses_cb_t \<Rightarrow> status_t \<times> bool \<times> ses_cb_t" where
  "chunk_between ch scb =
     (if inendpos scb = 0
      then (if ch = LF then (NO_ERR, False, scb\<lparr>inendpos := 1\<rparr>) else (ERR_NCX_INVALID_FRAMING, False, scb))
      else if inendpos scb = 1
      then (if ch = CHR ''#'' then (NO_ERR, False, scb\<lparr>inendpos := 2\<rparr>) else (ERR_NCX_INVALID_FRAMING, False, scb))
      else if ch = CHR ''#'' then (NO_ERR, False, scb\<lparr>inendpos := inendpos scb + 1, instate := SES_INST_INEND\<rparr>)
      else if is_digit1 ch then (NO_ERR, True, scb\<lparr>instate := SES_INST_INSTART\<rparr>)
      else (ERR_NCX_INVALID_FRAMING, False, scb))"

text \<open>The end of a message; a trailing buffer that is empty is removed.\<close>

definition end_msg_v11 :: "ses_cb_t \<Rightarrow> ses_cb_t" where
  "end_msg_v11 scb =
     (let scb = (ses_msg_make_inready (upd_msg (\<lambda>m. m\<lparr>curbuff := None, msg_ready := True\<rparr>) scb))
                  \<lparr>instate := SES_INST_IDLE, inendpos := 0\<rparr>;
          b = cur_buff scb
      in if buffpos b = 0
         then ses_msg_free_buff b (upd_msg (\<lambda>m. m\<lparr>buffQ := butlast (buffQ m)\<rparr>) scb)
         else upd_buff (\<lambda>b. b\<lparr>bufflen := buffpos b, buffpos := 0\<rparr>) scb)"

text \<open>A further message is only started when there is more input.\<close>

definition next_msg_v11 :: "bool \<Rightarrow> string \<Rightarrow> ses_cb_t \<Rightarrow> status_t \<times> ses_cb_t" where
  "next_msg_v11 mem rest scb =
     (if rest = [] then (NO_ERR, scb)
      else case add_msg mem scb of
             (res, scb) \<Rightarrow> (if res \<noteq> NO_ERR then (res, scb) else add_buff mem scb))"

text \<open>The fields for the framing do not change with the buffers.\<close>

lemma upd_framing [simp]:
  "instate (upd_msg f scb) = instate scb" "inendpos (upd_msg f scb) = inendpos scb" "startchunk (upd_msg f scb) = startchunk scb"
  "ses_protocol (upd_msg f scb) = ses_protocol scb" "framing11 (upd_msg f scb) = framing11 scb"
  "instate (upd_buff g scb) = instate scb" "inendpos (upd_buff g scb) = inendpos scb" "startchunk (upd_buff g scb) = startchunk scb"
  "ses_protocol (upd_buff g scb) = ses_protocol scb" "framing11 (upd_buff g scb) = framing11 scb"
  by (simp_all add: upd_msg_def upd_buff_def)

lemma new_buff_framing:
  "ses_msg_new_buff mem out scb = (res, b, scb') \<Longrightarrow> instate scb' = instate scb \<and> inendpos scb' = inendpos scb \<and>
     startchunk scb' = startchunk scb \<and> ses_protocol scb' = ses_protocol scb \<and> msgQ scb' = msgQ scb"
  by (auto simp: ses_msg_new_buff_def malloc_buff_def split: if_splits list.splits)

lemma add_buff_framing:
  "add_buff mem scb = (res, scb') \<Longrightarrow> instate scb' = instate scb \<and> inendpos scb' = inendpos scb \<and>
     startchunk scb' = startchunk scb \<and> ses_protocol scb' = ses_protocol scb"
  using new_buff_framing by (fastforce simp: add_buff_def split: prod.splits if_splits)

lemma next_buff_framing:
  "next_buff mem nobuff scb = (res, scb') \<Longrightarrow> instate scb' = instate scb \<and> inendpos scb' = inendpos scb \<and>
     startchunk scb' = startchunk scb \<and> ses_protocol scb' = ses_protocol scb"
  using add_buff_framing by (fastforce simp: next_buff_def split: if_splits)

text \<open>A step in the data of a chunk either takes input or ends a chunk of which nothing is left.\<close>

lemma copy_chunk_progress:
  assumes "copy_chunk mem input scb = (res, left, scb')" "input \<noteq> []"
  shows "length left < length input \<or> left = input \<and> instate scb' = SES_INST_INBETWEEN"
proof -
  define chunkleft where "chunkleft = expchunksize (cur_msg scb) - curchunksize (cur_msg scb)"
  define copylen where "copylen = min (length input) (unat chunkleft)"
  have l: "left = drop copylen input"
    using assms(1) by (auto simp: copy_chunk_def Let_def chunkleft_def copylen_def split: if_splits prod.splits)
  show ?thesis
  proof (cases "copylen = 0")
    case True
    then have "chunkleft = 0" using assms(2) by (simp add: copylen_def min_def unat_eq_0 split: if_splits)
    then have "instate scb' = SES_INST_INBETWEEN"
      using assms(1) True
      by (auto simp: copy_chunk_def Let_def chunkleft_def upd_msg_def upd_last_def split: if_splits)
    with True l show ?thesis by simp
  next
    case False
    with l assms(2) show ?thesis by (cases input) (auto simp: copylen_def)
  qed
qed

fun instate_rank :: "ses_instate_t \<Rightarrow> nat" where
  "instate_rank SES_INST_INMSG = 2"
| "instate_rank SES_INST_INBETWEEN = 1"
| "instate_rank _ = 0"

function v11_loop :: "bool \<Rightarrow> string \<Rightarrow> ses_cb_t \<Rightarrow> status_t \<times> ses_cb_t" where
  "v11_loop mem input scb =
     (if input = [] then (NO_ERR, scb)
      else case next_buff mem False scb of
             (res, scb) \<Rightarrow>
               (if res \<noteq> NO_ERR then (res, scb)
                else (let ch = hd input; rest = tl input
                      in if instate scb = SES_INST_IDLE
                         then (if ch = LF then v11_loop mem rest (scb\<lparr>instate := SES_INST_INSTART, inendpos := 1\<rparr>)
                               else (ERR_NCX_INVALID_FRAMING, scb))
                         else if instate scb = SES_INST_INSTART
                         then (case chunk_start ch scb of
                                 (res, scb) \<Rightarrow> (if res \<noteq> NO_ERR then (res, scb) else v11_loop mem rest scb))
                         else if instate scb = SES_INST_INMSG
                         then (case copy_chunk mem input scb of
                                 (res, left, scb') \<Rightarrow>
                                   (if res \<noteq> NO_ERR then (res, scb') else v11_loop mem left scb'))
                         else if instate scb = SES_INST_INBETWEEN
                         then (case chunk_between ch scb of
                                 (res, again, scb) \<Rightarrow>
                                   (if res \<noteq> NO_ERR then (res, scb)
                                    else v11_loop mem (if again then input else rest) scb))
                         else if instate scb = SES_INST_INEND
                         then (if inendpos scb = 2
                               then (if ch = CHR ''#'' then v11_loop mem rest (scb\<lparr>inendpos := 3\<rparr>)
                                     else (ERR_NCX_INVALID_FRAMING, scb))
                               else if inendpos scb = 3
                               then (if ch = LF
                                     then (case next_msg_v11 mem rest (end_msg_v11 scb) of
                                             (res, scb) \<Rightarrow> (if res \<noteq> NO_ERR then (res, scb) else v11_loop mem rest scb))
                                     else (ERR_NCX_INVALID_FRAMING, scb))
                               else (ERR_INTERNAL_VAL, scb))
                         else (ERR_INTERNAL_VAL, scb))))"
  by pat_completeness auto

termination v11_loop
proof (relation "measures [\<lambda>(mem, input, scb). length input, \<lambda>(mem, input, scb). instate_rank (instate scb)]", goal_cases)
  case 1
  then show ?case by simp
qed (auto dest!: copy_chunk_progress [OF sym] next_buff_framing [OF sym] simp: chunk_between_def split: if_splits)

declare v11_loop.simps [simp del]

definition accept_buffer_ssh_v11 :: "bool \<Rightarrow> string \<Rightarrow> ses_cb_t \<Rightarrow> status_t \<times> ses_cb_t" where
  "accept_buffer_ssh_v11 mem input scb =
     (case start_msg mem scb of (res, scb) \<Rightarrow> (if res \<noteq> NO_ERR then (res, scb) else v11_loop mem input scb))"

section \<open>Reading the socket\<close>

definition MAX_READ_TRIES :: nat where "MAX_READ_TRIES = 500"

text \<open>What a read returns: at most a read buffer of bytes (none when the peer has closed), \<^verbatim>\<open>EAGAIN\<close>, or an error.\<close>

datatype read_result = Got string | Again | Failed

text \<open>The reads that follow are a list; beyond its end there is nothing to read.\<close>

fun read_tries :: "nat \<Rightarrow> read_result list \<Rightarrow> status_t \<times> string \<times> read_result list" where
  "read_tries 0 reads = (ERR_NCX_SKIPPED, [], reads)"
| "read_tries (Suc n) [] = (ERR_NCX_SKIPPED, [], [])"
| "read_tries (Suc n) (Again # reads) = read_tries n reads"
| "read_tries (Suc n) (Failed # reads) = (ERR_NCX_READ_FAILED, [], reads)"
| "read_tries (Suc n) (Got s # reads) = (NO_ERR, s, reads)"

text \<open>A read buffer goes to one of the framing functions.\<close>

definition accept_buffer :: "bool \<Rightarrow> bool \<Rightarrow> string \<Rightarrow> ses_cb_t \<Rightarrow> (status_t \<times> ses_cb_t) option" where
  "accept_buffer mem p11 input scb =
     (if ses_protocol scb = NCX_PROTO_NETCONF11 then Some (accept_buffer_ssh_v11 mem input scb)
      else accept_buffer_ssh_v10 mem p11 input scb)"

text \<open>One zero byte at the end of what was read is dropped.\<close>

definition drop_zero :: "string \<Rightarrow> string" where
  "drop_zero s = (if last s = NUL then butlast s else s)"

lemma read_tries_less:
  "read_tries n reads = (res, s, reads') \<Longrightarrow> length reads' \<le> length reads \<and> (res = NO_ERR \<longrightarrow> length reads' < length reads)"
  by (induction n reads rule: read_tries.induct) auto

text \<open>Input that was put off is taken first.\<close>

function ses_accept_input ::
    "bool \<Rightarrow> bool \<Rightarrow> read_result list \<Rightarrow> ses_cb_t \<Rightarrow> (status_t \<times> read_result list \<times> ses_cb_t) option" where
  "ses_accept_input mem p11 reads scb =
     (if SES_KILLREQ_SET scb then Some (ERR_NCX_SESSION_CLOSED, reads, scb)
      else case (if indefer_len scb = 0 then read_tries MAX_READ_TRIES reads else (NO_ERR, [], reads)) of
             (res, got, reads) \<Rightarrow>
               (if res = ERR_NCX_SKIPPED then Some (NO_ERR, reads, scb)
                else if res \<noteq> NO_ERR then Some (res, reads, scb)
                else if indefer_len scb > 0
                then map_option (\<lambda>(res, scb). (res, reads, scb))
                       (accept_buffer mem p11 (take (indefer_len scb) (readbuff scb)) (scb\<lparr>indefer_len := 0\<rparr>))
                else if got = [] then Some (ERR_NCX_SESSION_CLOSED, reads, scb)
                else case accept_buffer mem p11 (drop_zero got)
                            (scb\<lparr>readbuff := got, in_bytes := in_bytes scb + of_nat (length got)\<rparr>) of
                       None \<Rightarrow> None
                     | Some (res, scb) \<Rightarrow>
                         (if res \<noteq> NO_ERR \<or> length (drop_zero got) < SES_READBUFF_SIZE \<or> \<not> has_rdfn scb \<or> indefer_len scb > 0
                          then Some (res, reads, scb)
                          else ses_accept_input mem p11 reads scb)))"
  by pat_completeness auto

termination ses_accept_input
  by (relation "measure (\<lambda>(mem, p11, reads, scb). length reads)") (auto dest!: read_tries_less [OF sym] split: if_splits)

declare ses_accept_input.simps [simp del]

section \<open>Output\<close>

text \<open>
  One character.  The first result is what is written at once, to the socket when the session streams its output and to the
  file when there is no socket (\<open>io\<close> is the result of writing to the socket).
\<close>

definition need_outbuff :: "bool \<Rightarrow> ses_cb_t \<Rightarrow> ses_cb_t" where
  "need_outbuff mem scb =
     (case outbuff scb of
        Some b \<Rightarrow> scb
      | None \<Rightarrow> (case ses_msg_new_buff mem True scb of
                  (res, b, scb) \<Rightarrow> (if res = NO_ERR then scb\<lparr>outbuff := Some b\<rparr> else scb)))"

definition put_outbuff :: "char \<Rightarrow> ses_cb_t \<Rightarrow> status_t \<times> ses_cb_t" where
  "put_outbuff ch scb =
     (case outbuff scb of
        None \<Rightarrow> (ERR_NCX_OPERATION_FAILED, scb)
      | Some b \<Rightarrow> (case ses_msg_write_buff (framing11 scb) ch b of (res, b) \<Rightarrow> (res, scb\<lparr>outbuff := Some b\<rparr>)))"

definition ses_putchar :: "bool \<Rightarrow> status_t \<Rightarrow> char \<Rightarrow> ses_cb_t \<Rightarrow> string \<times> ses_cb_t" where
  "ses_putchar mem io ch scb =
     (let (out, scb) =
        (if has_fd scb
         then (case put_outbuff ch (need_outbuff mem scb) of
                 (res, scb) \<Rightarrow>
                   (case (if res = ERR_BUFF_OVFL
                          then (case ses_msg_new_output_buff mem io (the (outbuff scb)) scb of
                                  (res, out, scb) \<Rightarrow>
                                    (if res = NO_ERR then case put_outbuff ch scb of (res, scb) \<Rightarrow> (res, out, scb)
                                     else (res, out, scb)))
                          else (res, [], scb)) of
                      (res, out, scb) \<Rightarrow> (out, if res = NO_ERR then scb\<lparr>out_bytes := out_bytes scb + 1\<rparr> else scb)))
         else ([ch], scb))
      in (out, scb\<lparr>out_line := (if ch = LF then 0 else out_line scb + 1)\<rparr>))"

fun ses_putstr :: "bool \<Rightarrow> status_t \<Rightarrow> string \<Rightarrow> ses_cb_t \<Rightarrow> string \<times> ses_cb_t" where
  "ses_putstr mem io [] scb = ([], scb)"
| "ses_putstr mem io (ch # str) scb =
     (case ses_putchar mem io ch scb of
        (out, scb) \<Rightarrow> (case ses_putstr mem io str scb of (out', scb) \<Rightarrow> (out @ out', scb)))"

text \<open>The end of a message; the process dies where there is no output buffer.\<close>

definition ses_finish_msg :: "bool \<Rightarrow> status_t \<Rightarrow> ses_cb_t \<Rightarrow> (string \<times> ses_cb_t) option" where
  "ses_finish_msg mem io scb =
     (if transport scb \<in> {SES_TRANSPORT_SSH, SES_TRANSPORT_TCP} \<and> framing11 scb \<and> outbuff scb = None then None
      else (let (out1, scb) =
              (if transport scb \<in> {SES_TRANSPORT_SSH, SES_TRANSPORT_TCP}
               then (if framing11 scb then ([], scb\<lparr>outbuff := map_option (\<lambda>b. b\<lparr>islast := True\<rparr>) (outbuff scb)\<rparr>)
                     else ses_putstr mem io NC_SSH_END scb)
               else ([], scb));
                (out2, scb) =
              (if \<not> has_fd scb \<and> \<not> fp_stdout scb then ses_putchar mem io LF scb else ([], scb))
            in if ses_type scb = SES_TYP_DUMMY then Some (out1 @ out2, scb)
               else case outbuff scb of
                      None \<Rightarrow> None
                    | Some b \<Rightarrow> (case ses_msg_finish_outmsg mem b scb of
                                  (out3, scb) \<Rightarrow> Some (out1 @ out2 @ out3, scb))))"

definition ses_set_protocol :: "ncx_protocol_t \<Rightarrow> ses_cb_t \<Rightarrow> status_t \<times> ses_cb_t" where
  "ses_set_protocol proto scb =
     (if proto = NCX_PROTO_NONE then (ERR_NCX_INVALID_VALUE, scb)
      else if ses_protocol scb \<noteq> NCX_PROTO_NONE then (ERR_NCX_DUP_ENTRY, scb)
      else (let scb = scb\<lparr>ses_protocol := proto\<rparr>;
                scb = (if transport scb = SES_TRANSPORT_SSH \<and> proto = NCX_PROTO_NETCONF11
                       then scb\<lparr>framing11 := True\<rparr> else scb)
            in (NO_ERR,
                if framing11 scb
                then scb\<lparr>outbuff := map_option (ses_msg_init_buff (framing11 scb) True) (outbuff scb)\<rparr> else scb)))"

section \<open>New sessions and their end\<close>

text \<open>The fields are those of cleared memory.\<close>

definition ses_new_scb :: ses_cb_t where
  "ses_new_scb = \<lparr>ses_type = SES_TYP_NONE, ses_sid = 0, ses_state = SES_ST_NONE, ses_protocol = NCX_PROTO_NONE,
     transport = SES_TRANSPORT_NONE, has_fd = False, fp_stdout = False, has_rdfn = False, in_bytes = 0, out_bytes = 0,
     out_line = 0, framing11 = False, stream_output = False, instate = SES_INST_NONE, inendpos = 0,
     startchunk = (\<lambda>_. NUL), readbuff = [], indefer_len = 0, buffcnt = 0, freecnt = 0, freeQ = [], msgQ = [], outQ = [],
     outbuff = None, in_inq = False, out_inq = False, inreadyQ = [], outreadyQ = [], msg_freecnt = 0\<rparr>"

definition ses_new_dummy_scb :: ses_cb_t where
  "ses_new_dummy_scb = ses_new_scb\<lparr>ses_type := SES_TYP_DUMMY, ses_state := SES_ST_IDLE, ses_sid := 0\<rparr>"

text \<open>
  A free buffer is freed like the others: unless the session has been shut down, it goes back to the free queue as long as
  the count of free buffers, which does not go down here, is below its limit.
\<close>

function free_freeQ :: "ses_cb_t \<Rightarrow> ses_cb_t" where
  "free_freeQ scb =
     (case freeQ scb of [] \<Rightarrow> scb | b # bs \<Rightarrow> free_freeQ (ses_msg_free_buff b (scb\<lparr>freeQ := bs\<rparr>)))"
  by pat_completeness auto

termination free_freeQ
  by (relation "measure (\<lambda>scb. length (freeQ scb) + (SES_MAX_FREE_BUFFERS - freecnt scb))")
    (auto simp: ses_msg_free_buff_def SES_KILLREQ_SET_def)

declare free_freeQ.simps [simp del]

text \<open>The session at the end of its life; what is left in \<open>buffcnt\<close> would be reported as lost.\<close>

definition ses_free_scb :: "ses_cb_t \<Rightarrow> ses_cb_t" where
  "ses_free_scb scb =
     (let scb = fold ses_msg_free_msg (msgQ scb) (scb\<lparr>msgQ := []\<rparr>);
          scb = (case outbuff scb of None \<Rightarrow> scb | Some b \<Rightarrow> ses_msg_free_buff b scb);
          scb = fold ses_msg_free_buff (outQ scb) (scb\<lparr>outQ := []\<rparr>)
      in free_freeQ scb)"

end
