(* ===== verification/Dlq.thy ===== *)
theory Dlq
  imports Yuma_Prelude "HOL-Library.Monad_Syntax"
begin

text \<open>
  The double linked queues of \<^verbatim>\<open>netconf/src/ncx/dlq.c\<close> on an explicit heap.  An entry of a queue starts with a
  \<^verbatim>\<open>dlq_hdr_t\<close>, so that an address stands both for the entry and for its links.  A pointer is \<open>None\<close> for \<^verbatim>\<open>NULL\<close>, and
  an operation whose code would write through \<^verbatim>\<open>NULL\<close> gives \<open>None\<close>.  \<^verbatim>\<open>CPP_ICHK\<close> is not defined, so there
  are no checks, and \<^verbatim>\<open>CPP_NO_MACROS\<close> is not either, so the readers are the macros of \<^verbatim>\<open>dlq.h\<close>.

  The relation \<open>queue h q xs\<close> says that the header at \<open>q\<close> holds the entries \<open>xs\<close>; the lemmas show that each
  operation does on the heap what its name says on the list.
\<close>

section \<open>The heap\<close>

datatype dlq_typ = DLQ_NULL_NODE | DLQ_SHDR_NODE | DLQ_DHDR_NODE | DLQ_DATA_NODE | DLQ_DEL_NODE | DLQ_DEL_DHDR

record 'a dlq_hdrT =
  hdr_typ :: dlq_typ
  prev :: "'a option"
  "next" :: "'a option"

type_synonym 'a dlq_heap = "'a \<Rightarrow> 'a dlq_hdrT"

definition set_typ :: "'a \<Rightarrow> dlq_typ \<Rightarrow> 'a dlq_heap \<Rightarrow> 'a dlq_heap" where
  "set_typ p t h = h(p := (h p)\<lparr>hdr_typ := t\<rparr>)"

definition set_next :: "'a \<Rightarrow> 'a option \<Rightarrow> 'a dlq_heap \<Rightarrow> 'a dlq_heap" where
  "set_next p n h = h(p := (h p)\<lparr>next := n\<rparr>)"

definition set_prev :: "'a \<Rightarrow> 'a option \<Rightarrow> 'a dlq_heap \<Rightarrow> 'a dlq_heap" where
  "set_prev p n h = h(p := (h p)\<lparr>prev := n\<rparr>)"

text \<open>A write through a pointer that was read from the heap.\<close>

definition via :: "'a option \<Rightarrow> ('a \<Rightarrow> 'a dlq_heap \<Rightarrow> 'a dlq_heap) \<Rightarrow> 'a dlq_heap \<Rightarrow> 'a dlq_heap option" where
  "via p f h = map_option (\<lambda>a. f a h) p"

lemma via_Some [simp]: "via (Some a) f h = Some (f a h)" "via None f h = None"
  by (simp_all add: via_def)

lemma set_sel [simp]:
  "next (set_next p n h a) = (if a = p then n else next (h a))" "prev (set_next p n h a) = prev (h a)"
  "hdr_typ (set_next p n h a) = hdr_typ (h a)"
  "prev (set_prev p n h a) = (if a = p then n else prev (h a))" "next (set_prev p n h a) = next (h a)"
  "hdr_typ (set_prev p n h a) = hdr_typ (h a)"
  "hdr_typ (set_typ p t h a) = (if a = p then t else hdr_typ (h a))" "next (set_typ p t h a) = next (h a)"
  "prev (set_typ p t h a) = prev (h a)"
  by (simp_all add: set_next_def set_prev_def set_typ_def)

section \<open>Operations\<close>

definition dlq_createSQue :: "'a \<Rightarrow> 'a dlq_heap \<Rightarrow> 'a dlq_heap" where
  "dlq_createSQue q h = set_next q (Some q) (set_prev q (Some q) (set_typ q DLQ_SHDR_NODE h))"

definition dlq_createQue :: "'a option \<Rightarrow> 'a dlq_heap \<Rightarrow> 'a option \<times> 'a dlq_heap" where
  "dlq_createQue mem h =
     (case mem of
        None \<Rightarrow> (None, h)
      | Some q \<Rightarrow> (Some q, set_next q (Some q) (set_prev q (Some q) (set_typ q DLQ_DHDR_NODE h))))"

definition data_node :: "'a dlq_heap \<Rightarrow> 'a \<Rightarrow> bool" where
  "data_node h p \<longleftrightarrow> hdr_typ (h p) = DLQ_DATA_NODE"

text \<open>The readers.  The first two read the type of the neighbour.\<close>

definition dlq_nextEntry :: "'a \<Rightarrow> 'a dlq_heap \<Rightarrow> 'a option option" where
  "dlq_nextEntry p h = map_option (\<lambda>n. if data_node h n then Some n else None) (next (h p))"

definition dlq_prevEntry :: "'a \<Rightarrow> 'a dlq_heap \<Rightarrow> 'a option option" where
  "dlq_prevEntry p h = map_option (\<lambda>n. if data_node h n then Some n else None) (prev (h p))"

definition dlq_firstEntry :: "'a \<Rightarrow> 'a dlq_heap \<Rightarrow> 'a option" where
  "dlq_firstEntry q h = (if next (h q) \<noteq> Some q then next (h q) else None)"

definition dlq_lastEntry :: "'a \<Rightarrow> 'a dlq_heap \<Rightarrow> 'a option" where
  "dlq_lastEntry q h = (if next (h q) \<noteq> Some q then prev (h q) else None)"

definition dlq_empty :: "'a \<Rightarrow> 'a dlq_heap \<Rightarrow> bool" where
  "dlq_empty q h \<longleftrightarrow> next (h q) = Some q"

definition dlq_insertAhead :: "'a \<Rightarrow> 'a \<Rightarrow> 'a dlq_heap \<Rightarrow> 'a dlq_heap option" where
  "dlq_insertAhead new node h =
     (let h = set_next new (Some node) (set_typ new DLQ_DATA_NODE h);
          h = set_prev new (prev (h node)) h
      in do { h \<leftarrow> via (next (h new)) (\<lambda>a. set_prev a (Some new)) h;
              via (prev (h new)) (\<lambda>a. set_next a (Some new)) h })"

text \<open>The same statements, written out once more in the code.\<close>

definition dlq_enque :: "'a \<Rightarrow> 'a \<Rightarrow> 'a dlq_heap \<Rightarrow> 'a dlq_heap option" where
  "dlq_enque new q h = dlq_insertAhead new q h"

definition dlq_insertAfter :: "'a \<Rightarrow> 'a \<Rightarrow> 'a dlq_heap \<Rightarrow> 'a dlq_heap option" where
  "dlq_insertAfter new node h =
     (let h = set_prev new (Some node) (set_typ new DLQ_DATA_NODE h);
          h = set_next new (next (h node)) h
      in do { h \<leftarrow> via (next (h new)) (\<lambda>a. set_prev a (Some new)) h;
              via (prev (h new)) (\<lambda>a. set_next a (Some new)) h })"

definition dlq_remove :: "'a \<Rightarrow> 'a dlq_heap \<Rightarrow> 'a dlq_heap option" where
  "dlq_remove node h =
     do { h \<leftarrow> via (prev (h node)) (\<lambda>a. set_next a (next (h node))) h;
          h \<leftarrow> via (next (h node)) (\<lambda>a. set_prev a (prev (h node))) h;
          Some (set_next node None (set_prev node None (set_typ node DLQ_DEL_NODE h))) }"

text \<open>The removed entry is the result; the copied statements of \<^verbatim>\<open>dlq_remove\<close> follow.\<close>

definition dlq_deque :: "'a \<Rightarrow> 'a dlq_heap \<Rightarrow> ('a option \<times> 'a dlq_heap) option" where
  "dlq_deque q h =
     (if next (h q) = Some q then Some (None, h)
      else do { node \<leftarrow> next (h q); h \<leftarrow> dlq_remove node h; Some (Some node, h) })"

definition dlq_swap :: "'a \<Rightarrow> 'a \<Rightarrow> 'a dlq_heap \<Rightarrow> 'a dlq_heap option" where
  "dlq_swap new cur h =
     do { h \<leftarrow> via (prev (h cur)) (\<lambda>a. set_next a (Some new)) h;
          let h = set_prev cur None (set_prev new (prev (h cur)) h);
          h \<leftarrow> via (next (h cur)) (\<lambda>a. set_prev a (Some new)) h;
          let h = set_next cur None (set_next new (next (h cur)) h);
          Some (set_typ cur DLQ_DEL_NODE (set_typ new DLQ_DATA_NODE h)) }"

text \<open>The list from \<open>sf\<close> to \<open>sl\<close> goes between \<open>d1\<close> and \<open>d2\<close>.\<close>

definition link_between :: "'a \<Rightarrow> 'a \<Rightarrow> 'a \<Rightarrow> 'a \<Rightarrow> 'a dlq_heap \<Rightarrow> 'a dlq_heap" where
  "link_between d1 sf sl d2 h =
     set_next sl (Some d2) (set_prev d2 (Some sl) (set_prev sf (Some d1) (set_next d1 (Some sf) h)))"

definition make_empty :: "'a \<Rightarrow> 'a dlq_heap \<Rightarrow> 'a dlq_heap" where
  "make_empty q h = set_prev q (Some q) (set_next q (Some q) h)"

definition dlq_block_enque :: "'a \<Rightarrow> 'a \<Rightarrow> 'a dlq_heap \<Rightarrow> 'a dlq_heap option" where
  "dlq_block_enque src dst h =
     (if dlq_empty src h then Some h
      else if dlq_empty dst h
      then (let h = set_next dst (next (h src)) h;
                h = set_prev dst (prev (h src)) h
            in do { h \<leftarrow> via (next (h dst)) (\<lambda>a. set_prev a (Some dst)) h;
                    h \<leftarrow> via (prev (h dst)) (\<lambda>a. set_next a (Some dst)) h;
                    Some (make_empty src h) })
      else do { sf \<leftarrow> next (h src); sl \<leftarrow> prev (h src); dl \<leftarrow> prev (h dst);
                Some (make_empty src (link_between dl sf sl dst h)) })"

definition dlq_block_insertAhead :: "'a \<Rightarrow> 'a \<Rightarrow> 'a dlq_heap \<Rightarrow> 'a dlq_heap option" where
  "dlq_block_insertAhead src dst h =
     (if dlq_empty src h then Some h
      else do { sf \<leftarrow> next (h src); sl \<leftarrow> prev (h src); d1 \<leftarrow> prev (h dst);
                Some (make_empty src (link_between d1 sf sl dst h)) })"

definition dlq_block_insertAfter :: "'a \<Rightarrow> 'a \<Rightarrow> 'a dlq_heap \<Rightarrow> 'a dlq_heap option" where
  "dlq_block_insertAfter src dst h =
     (if dlq_empty src h then Some h
      else do { sf \<leftarrow> next (h src); sl \<leftarrow> prev (h src); d2 \<leftarrow> next (h dst);
                Some (make_empty src (link_between dst sf sl d2 h)) })"

text \<open>\<open>tmp\<close> is the address of the local header.\<close>

definition dlq_block_move :: "'a \<Rightarrow> 'a \<Rightarrow> 'a \<Rightarrow> 'a \<Rightarrow> 'a dlq_heap \<Rightarrow> 'a dlq_heap option" where
  "dlq_block_move tmp srcq sf dstq h =
     (if dlq_empty srcq h then Some h
      else do { h \<leftarrow> via (prev (h sf)) (\<lambda>a. set_next a (Some srcq)) h;
                sl \<leftarrow> prev (h srcq);
                let h = set_prev srcq (prev (h sf)) h;
                let h = set_prev sf (Some tmp) (set_next tmp (Some sf) (dlq_createSQue tmp h));
                let h = set_next sl (Some tmp) (set_prev tmp (Some sl) h);
                dlq_block_enque tmp dstq h })"

partial_function (option) count_loop :: "'a dlq_heap \<Rightarrow> 'a option \<Rightarrow> u32 \<Rightarrow> u32 option" where
  "count_loop h p cnt =
     (case p of None \<Rightarrow> Some cnt | Some a \<Rightarrow> do { n \<leftarrow> dlq_nextEntry a h; count_loop h n (cnt + 1) })"

definition dlq_count :: "'a \<Rightarrow> 'a dlq_heap \<Rightarrow> u32 option" where
  "dlq_count q h = count_loop h (dlq_firstEntry q h) 0"

section \<open>Links\<close>

fun links :: "'a dlq_heap \<Rightarrow> 'a list \<Rightarrow> bool" where
  "links h (a # b # xs) \<longleftrightarrow> next (h a) = Some b \<and> prev (h b) = Some a \<and> links h (b # xs)"
| "links h xs \<longleftrightarrow> True"

lemma links_append:
  "links h (xs @ ys) \<longleftrightarrow> links h xs \<and> links h ys \<and>
     (xs = [] \<or> ys = [] \<or> next (h (last xs)) = Some (hd ys) \<and> prev (h (hd ys)) = Some (last xs))"
proof (induction xs rule: induct_list012)
  case 1 then show ?case by simp
next
  case (2 x) then show ?case by (cases ys) auto
next
  case (3 x y zs) then show ?case by auto
qed

lemma links_cong:
  assumes "\<And>a. a \<in> set (butlast xs) \<Longrightarrow> next (h' a) = next (h a)" "\<And>a. a \<in> set (tl xs) \<Longrightarrow> prev (h' a) = prev (h a)"
  shows "links h' xs \<longleftrightarrow> links h xs"
  using assms
proof (induction xs rule: induct_list012)
  case (3 x y zs)
  have "links h' (y # zs) = links h (y # zs)"
    using 3(3,4) by (intro 3(2)) auto
  then show ?case using 3(3,4) by auto
qed simp_all

definition queue :: "'a dlq_heap \<Rightarrow> 'a \<Rightarrow> 'a list \<Rightarrow> bool" where
  "queue h q xs \<longleftrightarrow> distinct (q # xs) \<and> hdr_typ (h q) \<in> {DLQ_SHDR_NODE, DLQ_DHDR_NODE} \<and>
     (\<forall>x \<in> set xs. data_node h x) \<and> links h (q # xs @ [q])"

lemma last_notin_butlast: "distinct xs \<Longrightarrow> xs \<noteq> [] \<Longrightarrow> last xs \<notin> set (butlast xs)"
  by (induction xs rule: rev_induct) auto

lemma hd_notin_tl: "distinct xs \<Longrightarrow> xs \<noteq> [] \<Longrightarrow> hd xs \<notin> set (tl xs)"
  by (cases xs) auto

lemma last_apart: "distinct (q # as @ bs) \<Longrightarrow> last (q # as) \<notin> set bs"
  using last_in_set [of "q # as"] by auto

text \<open>The same queue on a heap that agrees on its cells.\<close>

lemma queue_frame: "queue h q xs \<Longrightarrow> (\<And>a. a \<in> set (q # xs) \<Longrightarrow> h' a = h a) \<Longrightarrow> queue h' q xs"
proof -
  assume q: "queue h q xs" and same: "\<And>a. a \<in> set (q # xs) \<Longrightarrow> h' a = h a"
  have "links h' (q # xs @ [q]) = links h (q # xs @ [q])"
    using same by (intro links_cong) (auto simp: butlast_append split: if_splits)
  then show ?thesis using q same by (auto simp: queue_def data_node_def)
qed

lemma queue_neighbours:
  assumes "queue h q (as @ bs)"
  shows "next (h (last (q # as))) = Some (hd (bs @ [q]))" "prev (h (hd (bs @ [q]))) = Some (last (q # as))"
  using assms links_append [of h "q # as" "bs @ [q]"] by (simp_all add: queue_def)

text \<open>A chain \<open>cs\<close> is put between \<open>as\<close> and \<open>bs\<close>.\<close>

lemma queue_splice:
  assumes q: "queue h q (as @ bs)" and cs: "links h cs" "cs \<noteq> []" "distinct cs" "set cs \<inter> set (q # as @ bs) = {}"
    and data: "\<forall>x \<in> set cs. data_node h' x"
    and ds: "d1 = last (q # as)" "d2 = hd (bs @ [q])" "sf = hd cs" "sl = last cs"
    and join': "next (h' d1) = Some sf" "prev (h' sf) = Some d1" "next (h' sl) = Some d2" "prev (h' d2) = Some sl"
    and nx': "\<And>a. a \<in> set (q # as @ bs @ cs) \<Longrightarrow> a \<noteq> d1 \<Longrightarrow> a \<noteq> sl \<Longrightarrow> next (h' a) = next (h a)"
    and pv': "\<And>a. a \<in> set (q # as @ bs @ cs) \<Longrightarrow> a \<noteq> d2 \<Longrightarrow> a \<noteq> sf \<Longrightarrow> prev (h' a) = prev (h a)"
    and ty: "\<And>a. a \<in> set (q # as @ bs) \<Longrightarrow> hdr_typ (h' a) = hdr_typ (h a)"
  shows "queue h' q (as @ cs @ bs)"
proof -
  note join = join' [unfolded ds] and nx = nx' [unfolded ds] and pv = pv' [unfolded ds]
  have l: "links h (q # as)" "links h (bs @ [q])" and d: "distinct (q # as @ bs)"
    using q links_append [of h "q # as" "bs @ [q]"] by (simp_all add: queue_def)
  have da: "last (q # as) \<notin> set (butlast (q # as))" "hd (bs @ [q]) \<notin> set (tl (bs @ [q]))"
    using d by (intro last_notin_butlast hd_notin_tl; auto)+
  have dc: "last cs \<notin> set (butlast cs)" "hd cs \<notin> set (tl cs)"
    using cs by (simp_all add: last_notin_butlast hd_notin_tl)
  have ends: "last cs \<in> set cs" "hd cs \<in> set cs" using cs(2) by simp_all
  have "links h' (q # as)"
  proof (subst links_cong [of _ h' h])
    fix a
    show "a \<in> set (butlast (q # as)) \<Longrightarrow> next (h' a) = next (h a)"
      using da(1) cs(4) ends by (intro nx) (auto dest: in_set_butlastD split: if_splits)
    assume "a \<in> set (tl (q # as))"
    moreover from this have "a \<noteq> hd (bs @ [q])" using d by (cases bs) auto
    ultimately show "prev (h' a) = prev (h a)" using cs(4) ends by (intro pv) auto
  qed (fact l(1))
  moreover have "links h' (bs @ [q])"
  proof (subst links_cong [of _ h' h])
    fix a
    assume a: "a \<in> set (butlast (bs @ [q]))"
    moreover from this have "a \<noteq> last (q # as)" using last_apart [OF d] by auto
    ultimately show "next (h' a) = next (h a)" using cs(4) ends by (intro nx) auto
  next
    fix a
    assume a: "a \<in> set (tl (bs @ [q]))"
    then have "a \<in> set (q # bs)" by (cases bs) auto
    then show "prev (h' a) = prev (h a)" using a da(2) cs(4) ends by (intro pv) auto
  qed (fact l(2))
  moreover have "links h' cs"
  proof (subst links_cong [of _ h' h])
    fix a
    show "a \<in> set (butlast cs) \<Longrightarrow> next (h' a) = next (h a)"
      using dc(1) cs(4) ends by (intro nx) (auto dest: in_set_butlastD split: if_splits)
    assume "a \<in> set (tl cs)"
    moreover from this have "a \<in> set cs" using cs(2) by (cases cs) auto
    moreover from this have "a \<noteq> hd (bs @ [q])" using cs(4) by (cases bs) auto
    ultimately show "prev (h' a) = prev (h a)" using dc(2) by (intro pv) auto
  qed (fact cs(1))
  ultimately have "links h' ((q # as) @ cs @ (bs @ [q]))"
    unfolding links_append using join cs(2) by simp
  then show ?thesis
    using q cs(3,4) data ty by (auto simp: queue_def data_node_def)
qed


text \<open>The chain \<open>cs\<close> is taken out.\<close>

lemma queue_cut:
  assumes q: "queue h q (as @ cs @ bs)"
    and ds: "d1 = last (q # as)" "d2 = hd (bs @ [q])"
    and join': "next (h' d1) = Some d2" "prev (h' d2) = Some d1"
    and nx': "\<And>a. a \<in> set (q # as @ bs) \<Longrightarrow> a \<noteq> d1 \<Longrightarrow> next (h' a) = next (h a)"
    and pv': "\<And>a. a \<in> set (q # as @ bs) \<Longrightarrow> a \<noteq> d2 \<Longrightarrow> prev (h' a) = prev (h a)"
    and ty: "\<And>a. a \<in> set (q # as @ bs) \<Longrightarrow> hdr_typ (h' a) = hdr_typ (h a)"
  shows "queue h' q (as @ bs)"
proof -
  note join = join' [unfolded ds] and nx = nx' [unfolded ds] and pv = pv' [unfolded ds]
  have l: "links h (q # as)" "links h (bs @ [q])" and d: "distinct (q # as @ bs)"
    using q links_append [of h "q # as" "cs @ bs @ [q]"] links_append [of h cs "bs @ [q]"] by (auto simp: queue_def)
  have da: "last (q # as) \<notin> set (butlast (q # as))" "hd (bs @ [q]) \<notin> set (tl (bs @ [q]))"
    using d by (intro last_notin_butlast hd_notin_tl; auto)+
  have "links h' (q # as)"
  proof (subst links_cong [of _ h' h])
    fix a
    show "a \<in> set (butlast (q # as)) \<Longrightarrow> next (h' a) = next (h a)"
      using da(1) by (intro nx) (auto dest: in_set_butlastD split: if_splits)
    assume "a \<in> set (tl (q # as))"
    moreover from this have "a \<noteq> hd (bs @ [q])" using d by (cases bs) auto
    ultimately show "prev (h' a) = prev (h a)" by (intro pv) auto
  qed (fact l(1))
  moreover have "links h' (bs @ [q])"
  proof (subst links_cong [of _ h' h])
    fix a
    assume a: "a \<in> set (butlast (bs @ [q]))"
    moreover from this have "a \<noteq> last (q # as)" using last_apart [OF d] by auto
    ultimately show "next (h' a) = next (h a)" by (intro nx) auto
  next
    fix a
    assume a: "a \<in> set (tl (bs @ [q]))"
    then have "a \<in> set (q # bs)" by (cases bs) auto
    then show "prev (h' a) = prev (h a)" using a da(2) by (intro pv) auto
  qed (fact l(2))
  ultimately have "links h' ((q # as) @ (bs @ [q]))"
    unfolding links_append using join by simp
  then show ?thesis
    using q ty by (auto simp: queue_def data_node_def)
qed

section \<open>The operations on the list\<close>

lemma queue_new: "queue (dlq_createSQue q h) q []"
  by (simp add: dlq_createSQue_def queue_def)

lemma queue_empty: "queue h q xs \<Longrightarrow> dlq_empty q h \<longleftrightarrow> xs = []"
  by (cases xs) (auto simp: queue_def dlq_empty_def)

lemma queue_first: "queue h q xs \<Longrightarrow> dlq_firstEntry q h = (case xs of [] \<Rightarrow> None | x # _ \<Rightarrow> Some x)"
  by (cases xs) (auto simp: queue_def dlq_firstEntry_def)

lemma queue_last: "queue h q xs \<Longrightarrow> dlq_lastEntry q h = (if xs = [] then None else Some (last xs))"
  using queue_neighbours(2) [of h q xs "[]"] queue_empty [of h q xs]
  by (auto simp: dlq_lastEntry_def dlq_empty_def)

lemma queue_header_not_data: "queue h q xs \<Longrightarrow> \<not> data_node h q"
  by (auto simp: queue_def data_node_def)

lemma queue_next:
  assumes "queue h q (as @ x # bs)"
  shows "dlq_nextEntry x h = Some (case bs of [] \<Rightarrow> None | b # _ \<Rightarrow> Some b)"
proof -
  have "next (h x) = Some (hd (bs @ [q]))" using queue_neighbours(1) [of h q "as @ [x]" bs] assms by simp
  then show ?thesis
    using assms queue_header_not_data [OF assms] by (cases bs) (auto simp: dlq_nextEntry_def queue_def)
qed

lemma queue_prev:
  assumes "queue h q (as @ x # bs)"
  shows "dlq_prevEntry x h = Some (if as = [] then None else Some (last as))"
proof -
  have "prev (h x) = Some (last (q # as))" using queue_neighbours(2) [of h q as "x # bs"] assms by simp
  moreover have "as \<noteq> [] \<Longrightarrow> data_node h (last as)" using assms by (auto simp: queue_def)
  ultimately show ?thesis
    using queue_header_not_data [OF assms] by (auto simp: dlq_prevEntry_def)
qed

lemma count_loop_queue:
  "queue h q (as @ bs) \<Longrightarrow> count_loop h (case bs of [] \<Rightarrow> None | b # _ \<Rightarrow> Some b) n = Some (n + of_nat (length bs))"
proof (induction bs arbitrary: as n)
  case Nil
  then show ?case by (simp add: count_loop.simps)
next
  case (Cons b bs)
  then have "queue h q ((as @ [b]) @ bs)" by simp
  from Cons.IH [OF this] show ?case
    using queue_next [OF Cons.prems] by (subst count_loop.simps) (simp add: algebra_simps)
qed

lemma queue_count: "queue h q xs \<Longrightarrow> dlq_count q h = Some (of_nat (length xs))"
  using count_loop_queue [of h q "[]" xs 0] queue_first [of h q xs] by (simp add: dlq_count_def)

text \<open>\<open>same_off h' h A\<close>: nothing but the cells of \<open>A\<close> has changed.\<close>

definition same_off :: "'a dlq_heap \<Rightarrow> 'a dlq_heap \<Rightarrow> 'a set \<Rightarrow> bool" where
  "same_off h' h A \<longleftrightarrow> (\<forall>a. a \<notin> A \<longrightarrow> h' a = h a)"

lemma same_off_refl [simp]: "same_off h h A"
  by (simp add: same_off_def)

lemma same_off_set [intro]:
  "same_off h' h A \<Longrightarrow> p \<in> A \<Longrightarrow> same_off (set_next p n h') h A"
  "same_off h' h A \<Longrightarrow> p \<in> A \<Longrightarrow> same_off (set_prev p n h') h A"
  "same_off h' h A \<Longrightarrow> p \<in> A \<Longrightarrow> same_off (set_typ p t h') h A"
  by (auto simp: same_off_def set_next_def set_prev_def set_typ_def)

lemma same_off_trans: "same_off h'' h' A \<Longrightarrow> same_off h' h A \<Longrightarrow> same_off h'' h A"
  by (simp add: same_off_def)

lemma other_queue: "queue h p ys \<Longrightarrow> same_off h' h A \<Longrightarrow> A \<inter> set (p # ys) = {} \<Longrightarrow> queue h' p ys"
  by (erule queue_frame) (auto simp: same_off_def)

text \<open>The cells before and after a position.\<close>

lemma queue_position:
  assumes "queue h q (as @ bs)"
  obtains d1 d2 where "d1 = last (q # as)" "d2 = hd (bs @ [q])" "next (h d1) = Some d2" "prev (h d2) = Some d1"
    "d1 \<in> set (q # as)" "d2 \<in> set (q # bs)"
proof (rule that)
  show "last (q # as) \<in> set (q # as)" by (rule last_in_set) simp
  show "hd (bs @ [q]) \<in> set (q # bs)" by (cases bs) simp_all
qed (use queue_neighbours [OF assms] in simp_all)

lemma queue_insert_ahead:
  assumes q: "queue h q (as @ bs)" and n: "n \<notin> set (q # as @ bs)"
  obtains h' where "dlq_insertAhead n (hd (bs @ [q])) h = Some h'" "queue h' q (as @ n # bs)"
    "same_off h' h (set (n # q # as @ bs))"
proof -
  obtain d1 d2 where d: "d1 = last (q # as)" "d2 = hd (bs @ [q])" "next (h d1) = Some d2" "prev (h d2) = Some d1"
    and m: "d1 \<in> set (q # as)" "d2 \<in> set (q # bs)"
    by (rule queue_position [OF q])
  have nd: "n \<noteq> d1" "n \<noteq> d2" using n m by auto
  define h' where "h' = set_next d1 (Some n) (set_prev d2 (Some n) (set_prev n (Some d1)
      (set_next n (Some d2) (set_typ n DLQ_DATA_NODE h))))"
  have "dlq_insertAhead n d2 h = Some h'"
    using d nd by (simp add: dlq_insertAhead_def h'_def Let_def)
  moreover have "queue h' q (as @ [n] @ bs)"
    using n nd by (intro queue_splice [where cs = "[n]" and sf = n and sl = n, OF q _ _ _ _ _ d(1,2)]) (auto simp: h'_def data_node_def)
  moreover have "same_off h' h (set (n # q # as @ bs))"
    using m unfolding h'_def by (intro same_off_set same_off_refl) auto
  ultimately show ?thesis using that d(2) by simp
qed


lemma queue_enque:
  assumes "queue h q xs" "n \<notin> set (q # xs)"
  obtains h' where "dlq_enque n q h = Some h'" "queue h' q (xs @ [n])" "same_off h' h (set (n # q # xs))"
  using queue_insert_ahead [of h q xs "[]" n] assms by (force simp: dlq_enque_def)

lemma queue_insert_after:
  assumes q: "queue h q (as @ bs)" and n: "n \<notin> set (q # as @ bs)"
  obtains h' where "dlq_insertAfter n (last (q # as)) h = Some h'" "queue h' q (as @ n # bs)"
    "same_off h' h (set (n # q # as @ bs))"
proof -
  obtain d1 d2 where d: "d1 = last (q # as)" "d2 = hd (bs @ [q])" "next (h d1) = Some d2" "prev (h d2) = Some d1"
    and m: "d1 \<in> set (q # as)" "d2 \<in> set (q # bs)"
    by (rule queue_position [OF q])
  have nd: "n \<noteq> d1" "n \<noteq> d2" using n m by auto
  define h' where "h' = set_next d1 (Some n) (set_prev d2 (Some n) (set_next n (Some d2)
      (set_prev n (Some d1) (set_typ n DLQ_DATA_NODE h))))"
  have "dlq_insertAfter n d1 h = Some h'"
    using d nd by (simp add: dlq_insertAfter_def h'_def Let_def)
  moreover have "queue h' q (as @ [n] @ bs)"
    using n nd by (intro queue_splice [where cs = "[n]" and sf = n and sl = n, OF q _ _ _ _ _ d(1,2)]) (auto simp: h'_def data_node_def)
  moreover have "same_off h' h (set (n # q # as @ bs))"
    using m unfolding h'_def by (intro same_off_set same_off_refl) auto
  ultimately show ?thesis using that d(1) by simp
qed

text \<open>What a removed entry looks like.\<close>

definition unlinked :: "'a dlq_heap \<Rightarrow> 'a \<Rightarrow> bool" where
  "unlinked h x \<longleftrightarrow> h x = \<lparr>hdr_typ = DLQ_DEL_NODE, prev = None, next = None\<rparr>"

lemma queue_remove:
  assumes q: "queue h q (as @ x # bs)"
  obtains h' where "dlq_remove x h = Some h'" "queue h' q (as @ bs)" "unlinked h' x"
    "same_off h' h (set (q # as @ x # bs))"
proof -
  obtain d1 where d1: "d1 = last (q # as)" "prev (h x) = Some d1" "d1 \<in> set (q # as)"
    by (rule queue_position [OF q]) simp
  have "queue h q ((as @ [x]) @ bs)" using q by simp
  then obtain d2 where d2: "d2 = hd (bs @ [q])" "next (h x) = Some d2" "d2 \<in> set (q # bs)"
    by (rule queue_position) simp
  have x: "x \<notin> set (q # as @ bs)" using q by (auto simp: queue_def)
  then have nx: "x \<noteq> d1" "x \<noteq> d2" using d1(3) d2(3) by auto
  define h' where "h' = set_next x None (set_prev x None (set_typ x DLQ_DEL_NODE
      (set_prev d2 (Some d1) (set_next d1 (Some d2) h))))"
  have "dlq_remove x h = Some h'" using d1 d2 nx by (simp add: dlq_remove_def h'_def)
  moreover have "queue h q (as @ [x] @ bs)" using q by simp
  then have "queue h' q (as @ bs)"
    using x nx by (intro queue_cut [where cs = "[x]", OF _ d1(1) d2(1)]) (auto simp: h'_def)
  moreover have "unlinked h' x"
    using nx by (simp add: unlinked_def h'_def set_next_def set_prev_def set_typ_def)
  moreover have "same_off h' h (set (q # as @ x # bs))"
    using d1(3) d2(3) unfolding h'_def by (intro same_off_set same_off_refl) auto
  ultimately show ?thesis using that by simp
qed

lemma queue_deque:
  assumes "queue h q (x # xs)"
  obtains h' where "dlq_deque q h = Some (Some x, h')" "queue h' q xs" "unlinked h' x" "same_off h' h (set (q # x # xs))"
proof -
  obtain h' where h': "dlq_remove x h = Some h'" "queue h' q xs" "unlinked h' x" "same_off h' h (set (q # x # xs))"
    using queue_remove [of h q "[]" x xs] assms by auto
  have "next (h q) = Some x" "x \<noteq> q" using assms by (auto simp: queue_def)
  then have "dlq_deque q h = Some (Some x, h')" using h'(1) by (simp add: dlq_deque_def)
  then show ?thesis using that h' by blast
qed

lemma queue_deque_empty: "queue h q [] \<Longrightarrow> dlq_deque q h = Some (None, h)"
  by (simp add: queue_def dlq_deque_def)


lemma queue_swap:
  assumes q: "queue h q (as @ x # bs)" and n: "n \<notin> set (q # as @ x # bs)"
  obtains h' where "dlq_swap n x h = Some h'" "queue h' q (as @ n # bs)" "unlinked h' x"
    "same_off h' h (set (n # q # as @ x # bs))"
proof -
  obtain d1 where d1: "d1 = last (q # as)" "prev (h x) = Some d1" "d1 \<in> set (q # as)"
    by (rule queue_position [OF q]) simp
  have "queue h q ((as @ [x]) @ bs)" using q by simp
  then obtain d2 where d2: "d2 = hd (bs @ [q])" "next (h x) = Some d2" "d2 \<in> set (q # bs)"
    by (rule queue_position) simp
  have x: "x \<notin> set (q # as @ bs)" using q by (auto simp: queue_def)
  then have nx: "x \<noteq> d1" "x \<noteq> d2" "n \<noteq> d1" "n \<noteq> d2" "n \<noteq> x" using d1(3) d2(3) n by auto
  define h' where "h' = set_typ x DLQ_DEL_NODE (set_typ n DLQ_DATA_NODE (set_next x None (set_next n (Some d2)
      (set_prev d2 (Some n) (set_prev x None (set_prev n (Some d1) (set_next d1 (Some n) h)))))))"
  have "dlq_swap n x h = Some h'" using d1 d2 nx by (simp add: dlq_swap_def h'_def Let_def)
  moreover have "queue h' q (as @ [n] @ bs)"
  proof -
    define g where "g = set_prev d2 (Some d1) (set_next d1 (Some d2) h)"
    have "queue h q (as @ [x] @ bs)" using q by simp
    then have g: "queue g q (as @ bs)"
      by (intro queue_cut [where cs = "[x]", OF _ d1(1) d2(1)]) (auto simp: g_def)
    show ?thesis
      using n nx x by (intro queue_splice [where cs = "[n]" and sf = n and sl = n, OF g _ _ _ _ _ d1(1) d2(1)])
        (auto simp: h'_def g_def data_node_def)
  qed
  moreover have "unlinked h' x"
    using nx by (simp add: unlinked_def h'_def set_next_def set_prev_def set_typ_def)
  moreover have "same_off h' h (set (n # q # as @ x # bs))"
    using d1(3) d2(3) unfolding h'_def by (intro same_off_set same_off_refl) auto
  ultimately show ?thesis using that by simp
qed

section \<open>Moving whole queues\<close>

text \<open>A chain that has its own header put between two cells of another queue.\<close>

lemma queue_move_block:
  assumes s: "queue h src cs" "cs \<noteq> []" and q: "queue h q (as @ bs)" and apart: "set (src # cs) \<inter> set (q # as @ bs) = {}"
    and ds: "d1 = last (q # as)" "d2 = hd (bs @ [q])" "sf = hd cs" "sl = last cs"
  defines "h' \<equiv> make_empty src (link_between d1 sf sl d2 h)"
  shows "queue h' q (as @ cs @ bs)" "queue h' src []" "same_off h' h (set (src # cs @ q # as @ bs))"
proof -
  have m: "d1 \<in> set (q # as)" "d2 \<in> set (q # bs)"
    unfolding ds by (rule last_in_set; simp) (cases bs; simp)
  have ends: "sf \<in> set cs" "sl \<in> set cs" using s(2) ds by simp_all
  have ne: "sf \<noteq> src" "sl \<noteq> src" "d1 \<noteq> src" "d2 \<noteq> src" "sf \<noteq> d2" "sl \<noteq> d1" "sf \<noteq> d1" "sl \<noteq> d2"
    using ends m apart s(1) by (auto simp: queue_def)
  have lcs: "links h cs" and d: "distinct (src # cs)" and ty: "\<forall>x \<in> set cs. data_node h x"
    using s(1) links_append [of h "[src]" "cs @ [src]"] links_append [of h cs "[src]"] by (auto simp: queue_def)
  show "queue h' q (as @ cs @ bs)"
    using d apart ty ne lcs
    by (intro queue_splice [OF q _ s(2) _ _ _ ds]) (auto simp: h'_def make_empty_def link_between_def data_node_def)
  show "queue h' src []"
    using s(1) by (simp add: queue_def h'_def make_empty_def link_between_def)
  show "same_off h' h (set (src # cs @ q # as @ bs))"
    using ends m unfolding h'_def make_empty_def link_between_def by (intro same_off_set same_off_refl) auto
qed

lemma queue_ends:
  assumes "queue h q xs" "xs \<noteq> []"
  shows "next (h q) = Some (hd xs)" "prev (h q) = Some (last xs)"
  using assms queue_neighbours(1) [of h q "[]" xs] queue_neighbours(2) [of h q xs "[]"] by simp_all

lemma queue_block_insert_ahead:
  assumes "queue h src cs" "queue h q (as @ x # bs)" "set (src # cs) \<inter> set (q # as @ x # bs) = {}"
  obtains h' where "dlq_block_insertAhead src x h = Some h'" "queue h' q (as @ cs @ x # bs)" "queue h' src []"
    "same_off h' h (set (src # cs @ q # as @ x # bs))"
proof (cases "cs = []")
  case True
  then have "dlq_block_insertAhead src x h = Some h" "queue h q (as @ cs @ x # bs)" "queue h src []"
    using assms queue_empty [of h src cs] by (simp_all add: dlq_block_insertAhead_def)
  then show ?thesis by (rule that) simp
next
  case False
  let ?h' = "make_empty src (link_between (last (q # as)) (hd cs) (last cs) (hd ((x # bs) @ [q])) h)"
  have "dlq_block_insertAhead src x h = Some ?h'"
    using queue_ends [OF assms(1) False] queue_neighbours(2) [OF assms(2)] queue_empty [OF assms(1)] False
    by (simp add: dlq_block_insertAhead_def)
  then show ?thesis
    using queue_move_block [OF assms(1) False assms(2,3) refl refl refl refl] by (rule that)
qed

lemma queue_block_insert_after:
  assumes "queue h src cs" "queue h q ((as @ [x]) @ bs)" "set (src # cs) \<inter> set (q # (as @ [x]) @ bs) = {}"
  obtains h' where "dlq_block_insertAfter src x h = Some h'" "queue h' q ((as @ [x]) @ cs @ bs)" "queue h' src []"
    "same_off h' h (set (src # cs @ q # (as @ [x]) @ bs))"
proof (cases "cs = []")
  case True
  then have "dlq_block_insertAfter src x h = Some h" "queue h q ((as @ [x]) @ cs @ bs)" "queue h src []"
    using assms queue_empty [of h src cs] by (simp_all add: dlq_block_insertAfter_def)
  then show ?thesis by (rule that) simp
next
  case False
  let ?h' = "make_empty src (link_between (last (q # as @ [x])) (hd cs) (last cs) (hd (bs @ [q])) h)"
  have "dlq_block_insertAfter src x h = Some ?h'"
    using queue_ends [OF assms(1) False] queue_neighbours(1) [OF assms(2)] queue_empty [OF assms(1)] False
    by (simp add: dlq_block_insertAfter_def)
  then show ?thesis
    using queue_move_block [OF assms(1) False assms(2,3) refl refl refl refl] by (rule that)
qed


lemma set_twist:
  "a \<noteq> b \<Longrightarrow> set_prev a x (set_prev b y h) = set_prev b y (set_prev a x h)"
  "set_prev a x (set_next b y h) = set_next b y (set_prev a x h)"
  by (auto simp: set_prev_def set_next_def fun_eq_iff)

lemma queue_block_enque:
  assumes "queue h src cs" "queue h dst xs" "set (src # cs) \<inter> set (dst # xs) = {}"
  obtains h' where "dlq_block_enque src dst h = Some h'" "queue h' dst (xs @ cs)" "queue h' src []"
    "same_off h' h (set (src # cs @ dst # xs))"
proof (cases "cs = []")
  case True
  then have "dlq_block_enque src dst h = Some h" "queue h dst (xs @ cs)" "queue h src []"
    using assms queue_empty [of h src cs] by (simp_all add: dlq_block_enque_def)
  then show ?thesis by (rule that) simp
next
  case False
  let ?h' = "make_empty src (link_between (last (dst # xs)) (hd cs) (last cs) dst h)"
  note e = queue_ends [OF assms(1) False]
  have ne: "hd cs \<noteq> dst" "last cs \<noteq> dst" "src \<noteq> dst" using assms(3) False by (cases cs; auto)+
  have "dlq_block_enque src dst h = Some ?h'"
  proof (cases "xs = []")
    case True
    then show ?thesis
      using e ne queue_empty [OF assms(1)] queue_empty [OF assms(2)] False
      by (simp add: dlq_block_enque_def link_between_def Let_def set_twist)
  next
    case xs: False
    then show ?thesis
      using e queue_ends(2) [OF assms(2) xs] queue_empty [OF assms(1)] queue_empty [OF assms(2)] False
      by (simp add: dlq_block_enque_def)
  qed
  then show ?thesis
    using queue_move_block [of h src cs dst xs "[]", OF assms(1) False _ _ refl refl refl refl] assms(2,3)
    by (intro that) simp_all
qed

lemma queue_split_off:
  assumes q: "queue h q (as @ cs)" and cs: "cs \<noteq> []" and t: "tmp \<notin> set (q # as @ cs)"
    and ds: "d1 = last (q # as)" "sf = hd cs" "sl = last cs"
  defines "h' \<equiv> set_next sl (Some tmp) (set_prev tmp (Some sl) (set_prev sf (Some tmp) (set_next tmp (Some sf)
      (dlq_createSQue tmp (set_prev q (Some d1) (set_next d1 (Some q) h))))))"
  shows "queue h' q as" "queue h' tmp cs" "same_off h' h (set (tmp # q # as @ cs))"
proof -
  have m: "d1 \<in> set (q # as)" "sf \<in> set cs" "sl \<in> set cs"
    unfolding ds using cs by (auto intro: last_in_set)
  have d: "distinct (q # as @ cs)" "links h cs" "\<forall>x \<in> set cs. data_node h x"
    using q links_append [of h "q # as" "cs @ [q]"] links_append [of h cs "[q]"] by (auto simp: queue_def)
  have ne: "d1 \<noteq> tmp" "sf \<noteq> tmp" "sl \<noteq> tmp" "sf \<noteq> q" "sl \<noteq> q" "sf \<noteq> d1" "sl \<noteq> d1" "q \<noteq> tmp"
    using m t d(1) by auto
  have "queue h q (as @ cs @ [])" using q by simp
  then have "queue h' q (as @ [])"
    using t ne d(1) m by (intro queue_cut [where cs = cs and bs = "[]" and ?d2.0 = q, OF _ ds(1)]) (auto simp: h'_def dlq_createSQue_def)
  then show "queue h' q as" by simp
  define g where "g = dlq_createSQue tmp h"
  have "queue g tmp ([] @ [])" unfolding g_def by (simp add: queue_new)
  moreover have "links g cs"
    using d(2) t by (subst links_cong [of _ g h]) (auto simp: g_def dlq_createSQue_def dest: in_set_butlastD list.set_sel(2) [OF cs])
  ultimately have "queue h' tmp ([] @ cs @ [])"
    using t ne d m cs
    by (intro queue_splice [where ?d1.0 = tmp and ?d2.0 = tmp and bs = "[]", OF _ _ cs _ _ _ _ _ ds(2,3)])
      (auto simp: h'_def g_def dlq_createSQue_def data_node_def)
  then show "queue h' tmp cs" by simp
  show "same_off h' h (set (tmp # q # as @ cs))"
    using m unfolding h'_def dlq_createSQue_def by (intro same_off_set same_off_refl) auto
qed

lemma queue_block_move:
  assumes q: "queue h src (as @ x # bs)" "queue h dst ys" and apart: "set (src # as @ x # bs) \<inter> set (dst # ys) = {}"
    and t: "tmp \<notin> set (src # as @ x # bs) \<union> set (dst # ys)"
  obtains h' where "dlq_block_move tmp src x dst h = Some h'" "queue h' src as" "queue h' dst (ys @ x # bs)"
    "same_off h' h (set (tmp # src # as @ x # bs @ dst # ys))"
proof -
  let ?cs = "x # bs"
  let ?d1 = "last (src # as)"
  let ?g = "set_next (last ?cs) (Some tmp) (set_prev tmp (Some (last ?cs)) (set_prev (hd ?cs) (Some tmp) (set_next tmp (Some (hd ?cs))
      (dlq_createSQue tmp (set_prev src (Some ?d1) (set_next ?d1 (Some src) h))))))"
  have t': "tmp \<notin> set (src # as @ ?cs)" using t by auto
  note g = queue_split_off [OF q(1) _ t' refl refl refl, simplified list.distinct]
  have gd: "queue ?g dst ys" by (rule other_queue [OF q(2) g(3)]) (use apart t in auto)
  have "set (tmp # ?cs) \<inter> set (dst # ys) = {}" using apart t by auto
  then obtain h' where h': "dlq_block_enque tmp dst ?g = Some h'" "queue h' dst (ys @ ?cs)" "same_off h' ?g (set (tmp # ?cs @ dst # ys))"
    using queue_block_enque [OF g(2) gd] by auto
  have "prev (h x) = Some ?d1" using queue_neighbours(2) [OF q(1)] by simp
  moreover have "prev (h src) = Some (last ?cs)" using queue_ends(2) [OF q(1)] by simp
  moreover have "x \<noteq> src" using q(1) by (auto simp: queue_def)
  ultimately have "dlq_block_move tmp src x dst h = Some h'"
    using h'(1) queue_empty [OF q(1)] by (simp add: dlq_block_move_def Let_def)
  moreover have "queue h' src as" by (rule other_queue [OF g(1) h'(3)]) (use apart t' q(1) in \<open>auto simp: queue_def\<close>)
  moreover have "same_off h' h (set (tmp # src # as @ x # bs @ dst # ys))"
    using h'(3) g(3) by (auto simp: same_off_def)
  ultimately show ?thesis using that h'(2) by blast
qed

section \<open>Taking an entry for a queue\<close>

text \<open>
  \<^verbatim>\<open>dlq_deque\<close> on an entry instead of a header takes out the entry that follows it.  After the last entry that
  is the header itself, which is left with \<^verbatim>\<open>NULL\<close> links.
\<close>

lemma deque_entry_takes_next:
  assumes "queue h q (as @ x # y # bs)"
  obtains h' where "dlq_deque x h = Some (Some y, h')" "queue h' q (as @ x # bs)" "unlinked h' y"
proof -
  have q: "queue h q ((as @ [x]) @ y # bs)" using assms by simp
  then obtain h' where h': "dlq_remove y h = Some h'" "queue h' q ((as @ [x]) @ bs)" "unlinked h' y"
    by (rule queue_remove) blast
  have "next (h x) = Some y" "x \<noteq> y" using queue_neighbours(1) [OF q] assms by (simp_all add: queue_def)
  then have "dlq_deque x h = Some (Some y, h')" using h'(1) by (simp add: dlq_deque_def)
  then show ?thesis using that h' by simp
qed

lemma deque_last_breaks_queue:
  assumes "queue h q (as @ [x])"
  obtains h' where "dlq_deque x h = Some (Some q, h')" "unlinked h' q" "\<And>n. n \<noteq> q \<Longrightarrow> dlq_enque n q h' = None"
    "dlq_deque q h' = None"
proof -
  have n: "next (h x) = Some q" "x \<noteq> q" "prev (h q) = Some x"
    using queue_neighbours [of h q "as @ [x]" "[]"] assms by (auto simp: queue_def)
  obtain f where f: "next (h q) = Some f" "f \<noteq> q" using queue_ends(1) [OF assms] assms
    by (cases as) (auto simp: queue_def)
  define h' where "h' = set_next q None (set_prev q None (set_typ q DLQ_DEL_NODE
      (set_prev f (Some x) (set_next x (Some f) h))))"
  have "dlq_remove q h = Some h'" using n f by (simp add: dlq_remove_def h'_def)
  then have d: "dlq_deque x h = Some (Some q, h')" using n by (simp add: dlq_deque_def)
  have u: "unlinked h' q" using f n by (simp add: unlinked_def h'_def set_next_def set_prev_def set_typ_def)
  have "dlq_enque m q h' = None" if "m \<noteq> q" for m
    using u that by (simp add: dlq_enque_def dlq_insertAhead_def unlinked_def Let_def)
  moreover have "dlq_deque q h' = None" using u by (simp add: dlq_deque_def unlinked_def)
  ultimately show ?thesis using that d u by blast
qed

end
