(* ===== verification/Agt_Ses.thy ===== *)
theory Agt_Ses
  imports Agt_Commit Agt_Commit_Props Ses Dlq
begin

text \<open>
  The sessions of the agent: the session table of \<^verbatim>\<open>netconf/src/agt/agt_ses.c\<close> with the queue of sessions that have
  a message (\<^verbatim>\<open>ses_msg.c\<close>), the dispatcher \<^verbatim>\<open>agt_top.c\<close>, and what the handlers of \<^verbatim>\<open>agt_connect.c\<close>,
  \<^verbatim>\<open>agt_hello.c\<close> and \<^verbatim>\<open>agt_rpc.c\<close> do to the session, with the operations \<^verbatim>\<open>close-session\<close> and
  \<^verbatim>\<open>kill-session\<close> of \<^verbatim>\<open>agt_ncx.c\<close>.

  A session control block lies in a memory of blocks, and the functions get its address as they get the pointer in the
  code.  Reading or writing through an address without a block gives \<open>None\<close>: so does a function that
  uses a session that has been freed.  The queue of ready sessions is on the heap of theory \<open>Dlq\<close>, where the cell of a
  session is the header that is embedded in its block.
\<close>

section \<open>State\<close>

datatype ses_term_reason_t = SES_TR_NONE | SES_TR_CLOSED | SES_TR_KILLED | SES_TR_DROPPED | SES_TR_TIMEOUT
  | SES_TR_OTHER | SES_TR_BAD_START | SES_TR_BAD_HELLO

text \<open>The fields for buffers and framing, the type, the ID and the state are in \<open>io\<close>, theory \<open>Ses_Msg\<close>.\<close>

record agt_scb =
  io :: ses_cb_t
  ses_fd :: int
  killedbysid :: u32
  termreason :: ses_term_reason_t
  rollback_sid :: u32
  hello_time :: int
  last_rpc_time :: int
  username :: "string option"
  peeraddr :: "string option"
  ses_active :: bool
  notif_active :: bool
  inBadRpcs :: u32

datatype ready_cell = Ready_head | Ready_of nat

text \<open>
  The state of the agent: \<open>ncx\<close> is that of theory \<open>Agt_Commit\<close>, \<open>blocks\<close> the memory with \<open>next_block\<close> the
  next address, \<open>ready\<close> the heap of the ready queue, \<open>fd_map\<close> the registry of theory \<open>Def_Reg\<close>, the counters
  are those of \<^verbatim>\<open>ses_total_stats_t\<close>, and \<open>session_ends\<close> are the notifications about ended sessions.
\<close>

record 'f agt_world =
  ncx :: "'f ncx_state"
  blocks :: "nat \<Rightarrow> agt_scb option"
  next_block :: nat
  agtses :: "u32 \<Rightarrow> nat option"
  next_sesid :: u32
  fd_map :: def_reg
  ready :: "ready_cell dlq_heap"
  last_timeout_check :: int
  active_sessions :: u32
  closed_sessions :: u32
  failed_sessions :: u32
  inBadHellos :: u32
  inSessions :: u32
  droppedSessions :: u32
  total_inBadRpcs :: u32
  session_ends :: "(u32 \<times> ses_term_reason_t \<times> u32) list"

record 'f agt_env =
  nenv :: "'f ncx_env"
  max_sessions :: u32
  idle_timeout :: u32
  hello_timeout :: u32
  stream_out :: bool
  ssh_ports :: "nat list"
  proto10 :: bool
  proto11 :: bool

definition AGT_SES_TIMEOUT_INTERVAL :: int where "AGT_SES_TIMEOUT_INTERVAL = 1"

abbreviation "sid_of scb \<equiv> ses_sid (io scb)"
abbreviation "state_of scb \<equiv> ses_state (io scb)"
abbreviation "type_of scb \<equiv> ses_type (io scb)"

definition upd_scb :: "nat \<Rightarrow> (agt_scb \<Rightarrow> agt_scb) \<Rightarrow> 'f agt_world \<Rightarrow> 'f agt_world option" where
  "upd_scb a f w = map_option (\<lambda>scb. w\<lparr>blocks := (blocks w)(a \<mapsto> f scb)\<rparr>) (blocks w a)"

definition set_state :: "ses_state_t \<Rightarrow> agt_scb \<Rightarrow> agt_scb" where
  "set_state st scb = scb\<lparr>io := (io scb)\<lparr>ses_state := st\<rparr>\<rparr>"

definition set_inq :: "bool \<Rightarrow> agt_scb \<Rightarrow> agt_scb" where
  "set_inq b scb = scb\<lparr>io := (io scb)\<lparr>in_inq := b\<rparr>\<rparr>"

text \<open>Which session IDs are in use; slot 0 holds the dummy session that a load creates.\<close>

definition live :: "'f agt_world \<Rightarrow> u32 \<Rightarrow> bool" where
  "live w sid \<longleftrightarrow> sid = 0 \<or> agtses w sid \<noteq> None"

section \<open>The ready queue\<close>

definition make_inready :: "nat \<Rightarrow> 'f agt_world \<Rightarrow> 'f agt_world option" where
  "make_inready a w =
     do { scb \<leftarrow> blocks w a;
          if in_inq (io scb) then Some w
          else do { h \<leftarrow> dlq_enque (Ready_of a) Ready_head (ready w); upd_scb a (set_inq True) (w\<lparr>ready := h\<rparr>) } }"

text \<open>The header of the session is given to \<^verbatim>\<open>dlq_deque\<close>.\<close>

definition ses_msg_unmake_inready :: "nat \<Rightarrow> 'f agt_world \<Rightarrow> 'f agt_world option" where
  "ses_msg_unmake_inready a w =
     do { scb \<leftarrow> blocks w a;
          if in_inq (io scb)
          then do { (_, h) \<leftarrow> dlq_deque (Ready_of a) (ready w); upd_scb a (set_inq False) (w\<lparr>ready := h\<rparr>) }
          else Some w }"

text \<open>The result is the address of the block that the entry is embedded in.\<close>

definition ses_msg_get_first_inready :: "'f agt_world \<Rightarrow> (nat option \<times> 'f agt_world) option" where
  "ses_msg_get_first_inready w =
     do { (c, h) \<leftarrow> dlq_deque Ready_head (ready w);
          case c of
            None \<Rightarrow> Some (None, w)
          | Some Ready_head \<Rightarrow> None
          | Some (Ready_of a) \<Rightarrow> do { w \<leftarrow> upd_scb a (set_inq False) (w\<lparr>ready := h\<rparr>); Some (Some a, w) } }"

section \<open>The session table\<close>

text \<open>The first free slot in the range of the loop.\<close>

definition free_slot :: "'f agt_env \<Rightarrow> 'f agt_world \<Rightarrow> u32" where
  "free_slot env w =
     (case find (\<lambda>i. agtses w (of_nat i) = None) [1..<unat (max_sessions env)] of Some i \<Rightarrow> of_nat i | None \<Rightarrow> 0)"

definition agt_ses_free_dummy_session :: "nat \<Rightarrow> 'f agt_world \<Rightarrow> 'f agt_world option" where
  "agt_ses_free_dummy_session a w =
     do { _ \<leftarrow> blocks w a; _ \<leftarrow> agtses w 0;
          Some (w\<lparr>blocks := (blocks w)(a := None), agtses := (agtses w)(0 := None)\<rparr>) }"

text \<open>
  The subscription of the session and its entry in the state data are other components; the access control cache
  is part of the block.  The queue for output is treated as the one for input and left out here.
\<close>

definition agt_ses_free_session :: "'f agt_env \<Rightarrow> nat \<Rightarrow> 'f agt_world \<Rightarrow> 'f agt_world option" where
  "agt_ses_free_session env a w =
     do { scb \<leftarrow> blocks w a;
          if type_of scb = SES_TYP_DUMMY then agt_ses_free_dummy_session a w
          else do {
            let slot = sid_of scb;
            let w = (if ses_fd scb \<noteq> 0 then w\<lparr>fd_map := def_reg_del_scb (ses_fd scb) (fd_map w)\<rparr> else w);
            let w = w\<lparr>ncx := (ncx w)\<lparr>ncx_db := cfg_release_locks (p_mem (nenv env)) slot (ncx_db (ncx w))\<rparr>\<rparr>;
            let w = w\<lparr>active_sessions := active_sessions w - 1\<rparr>;
            let w = (if ses_active scb then w\<lparr>closed_sessions := closed_sessions w + 1\<rparr>
                     else w\<lparr>failed_sessions := failed_sessions w + 1\<rparr>);
            w \<leftarrow> ses_msg_unmake_inready a w;
            Some (w\<lparr>blocks := (blocks w)(a := None), agtses := (agtses w)(slot := None)\<rparr>) } }"

text \<open>
  \<open>mem\<close>: the allocation of the control block succeeds; \<open>memb\<close>: that of the output buffer; \<open>memr1\<close>, \<open>memr2\<close>: those of the
  registry.
\<close>

definition init_scb :: "'f agt_env \<Rightarrow> ses_transport_t \<Rightarrow> int \<Rightarrow> u32 \<Rightarrow> agt_scb" where
  "init_scb env tr fd slot =
     \<lparr>io = ses_new_scb\<lparr>ses_type := SES_TYP_NETCONF, transport := tr, ses_state := SES_ST_INIT, ses_sid := slot,
        has_fd := (fd \<noteq> 0), instate := SES_INST_IDLE, stream_output := True\<rparr>,
      ses_fd = fd, killedbysid = 0, termreason = SES_TR_NONE, rollback_sid = 0, hello_time = 0, last_rpc_time = 0,
      username = None, peeraddr = None, ses_active = False, notif_active = False, inBadRpcs = 0\<rparr>"

definition agt_ses_new_session ::
    "'f agt_env \<Rightarrow> bool \<Rightarrow> bool \<Rightarrow> bool \<Rightarrow> bool \<Rightarrow> ses_transport_t \<Rightarrow> int \<Rightarrow> 'f agt_world \<Rightarrow>
     (nat option \<times> 'f agt_world) option" where
  "agt_ses_new_session env mem memb memr1 memr2 tr fd w =
     (let slot = (if next_sesid w = 0 then free_slot env w else next_sesid w)
      in if slot = 0 \<or> \<not> mem then Some (None, w)
         else (let a = next_block w;
                   scb = init_scb env tr fd slot;
                   (res, b, s) = ses_msg_new_buff memb True (io scb);
                   s = (if res = NO_ERR then s\<lparr>outbuff := Some b\<rparr> else s);
                   w = w\<lparr>next_block := a + 1, blocks := (blocks w)(a \<mapsto> scb\<lparr>io := s\<rparr>)\<rparr>;
                   (res, m) = (if res = NO_ERR then def_reg_add_scb memr1 memr2 fd a (fd_map w) else (res, fd_map w));
                   w = w\<lparr>fd_map := m\<rparr>
               in if res = NO_ERR
                  then Some (Some a, w\<lparr>agtses := (agtses w)(slot \<mapsto> a),
                         next_sesid := (if next_sesid w = 0 then 0
                                        else if next_sesid w + 1 = max_sessions env then 0 else next_sesid w + 1),
                         inSessions := inSessions w + 1, active_sessions := active_sessions w + 1\<rparr>)
                  else do { w \<leftarrow> agt_ses_free_session env a w; Some (None, w) }))"

definition agt_ses_session_id_valid :: "'f agt_env \<Rightarrow> u32 \<Rightarrow> 'f agt_world \<Rightarrow> bool" where
  "agt_ses_session_id_valid env sid w \<longleftrightarrow> sid < max_sessions env \<and> agtses w sid \<noteq> None"

definition agt_ses_get_session_for_id :: "'f agt_env \<Rightarrow> u32 \<Rightarrow> 'f agt_world \<Rightarrow> nat option" where
  "agt_ses_get_session_for_id env sid w = (if sid > 0 \<and> sid < max_sessions env then agtses w sid else None)"

definition agt_ses_new_dummy_session :: "bool \<Rightarrow> 'f agt_world \<Rightarrow> nat option \<times> 'f agt_world" where
  "agt_ses_new_dummy_session mem w =
     (if agtses w 0 \<noteq> None \<or> \<not> mem then (None, w)
      else (let a = next_block w;
                scb = \<lparr>io = ses_new_dummy_scb, ses_fd = 0, killedbysid = 0, termreason = SES_TR_NONE, rollback_sid = 0,
                       hello_time = 0, last_rpc_time = 0, username = Some ''superuser'', peeraddr = None,
                       ses_active = False, notif_active = False, inBadRpcs = 0\<rparr>
            in (Some a, w\<lparr>next_block := a + 1, blocks := (blocks w)(a \<mapsto> scb), agtses := (agtses w)(0 \<mapsto> a)\<rparr>)))"

definition agt_ses_kill_session ::
    "'f agt_env \<Rightarrow> nat option \<Rightarrow> u32 \<Rightarrow> ses_term_reason_t \<Rightarrow> 'f agt_world \<Rightarrow> 'f agt_world option" where
  "agt_ses_kill_session env p killedby reason w =
     (case p of
        None \<Rightarrow> Some w
      | Some a \<Rightarrow>
          do { scb \<leftarrow> blocks w a;
               if type_of scb = SES_TYP_DUMMY then Some w
               else do {
                 let w = w\<lparr>ncx := cc_session_gone (nenv env) (live w) (sid_of scb) (ncx w)\<rparr>;
                 let w = w\<lparr>session_ends := session_ends w @ [(sid_of scb, reason, killedby)]\<rparr>;
                 agt_ses_free_session env a w } })"

definition agt_ses_request_close ::
    "'f agt_env \<Rightarrow> nat option \<Rightarrow> u32 \<Rightarrow> ses_term_reason_t \<Rightarrow> 'f agt_world \<Rightarrow> 'f agt_world option" where
  "agt_ses_request_close env p killedby reason w =
     (case p of
        None \<Rightarrow> Some w
      | Some a \<Rightarrow>
          do { scb \<leftarrow> blocks w a;
               if type_of scb = SES_TYP_DUMMY then Some w
               else do {
                 w \<leftarrow> upd_scb a (\<lambda>s. s\<lparr>killedbysid := killedby, termreason := reason\<rparr>) w;
                 if state_of scb \<in> {SES_ST_IDLE, SES_ST_SHUTDOWN, SES_ST_SHUTDOWN_REQ}
                 then agt_ses_kill_session env (Some a) killedby reason w
                 else if state_of scb \<in> {SES_ST_IN_MSG, SES_ST_HELLO_WAIT}
                 then upd_scb a (set_state SES_ST_SHUTDOWN_REQ) w
                 else if outQ (io scb) = [] then agt_ses_kill_session env (Some a) killedby reason w
                 else upd_scb a (set_state SES_ST_SHUTDOWN_REQ) w } })"


definition agt_ses_set_dummy_session_acm ::
    "bool \<Rightarrow> bool \<Rightarrow> nat \<Rightarrow> u32 \<Rightarrow> 'f agt_world \<Rightarrow> (status_t \<times> 'f agt_world) option" where
  "agt_ses_set_dummy_session_acm mem1 mem2 d use_sid w =
     (case agtses w use_sid of
        None \<Rightarrow> Some (ERR_NCX_INVALID_VALUE, w)
      | Some a \<Rightarrow>
          do { w \<leftarrow> upd_scb d (\<lambda>s. s\<lparr>rollback_sid := use_sid, io := (io s)\<lparr>ses_sid := use_sid\<rparr>\<rparr>) w;
               scb \<leftarrow> blocks w a;
               if a = d then Some (NO_ERR, w)
               else if username scb \<noteq> None \<and> \<not> mem1
               then do { w \<leftarrow> upd_scb d (\<lambda>s. s\<lparr>username := None\<rparr>) w; Some (ERR_INTERNAL_MEM, w) }
               else do {
                 w \<leftarrow> upd_scb d (\<lambda>s. if username scb \<noteq> None then s\<lparr>username := username scb\<rparr> else s) w;
                 if peeraddr scb \<noteq> None \<and> \<not> mem2
                 then do { w \<leftarrow> upd_scb d (\<lambda>s. s\<lparr>peeraddr := None\<rparr>) w; Some (ERR_INTERNAL_MEM, w) }
                 else do { w \<leftarrow> upd_scb d (\<lambda>s. if peeraddr scb \<noteq> None then s\<lparr>peeraddr := peeraddr scb\<rparr> else s) w;
                           Some (NO_ERR, w) } } })"

text \<open>The loop of \<^verbatim>\<open>agt_ses_cleanup\<close>.\<close>

fun free_slots :: "'f agt_env \<Rightarrow> u32 list \<Rightarrow> 'f agt_world \<Rightarrow> 'f agt_world option" where
  "free_slots env [] w = Some w"
| "free_slots env (i # is) w =
     (case agtses w i of
        None \<Rightarrow> free_slots env is w
      | Some a \<Rightarrow> do { w \<leftarrow> agt_ses_free_session env a w; free_slots env is w })"

definition agt_ses_cleanup :: "'f agt_env \<Rightarrow> 'f agt_world \<Rightarrow> 'f agt_world option" where
  "agt_ses_cleanup env w =
     do { w \<leftarrow> free_slots env (map of_nat [0..<unat (max_sessions env)]) w; Some (w\<lparr>next_sesid := 0\<rparr>) }"

section \<open>Timeouts\<close>

definition hello_expired :: "'f agt_env \<Rightarrow> int \<Rightarrow> agt_scb \<Rightarrow> bool" where
  "hello_expired env now scb \<longleftrightarrow> hello_timeout env > 0 \<and> state_of scb = SES_ST_HELLO_WAIT \<and>
     now - hello_time scb \<ge> int (unat (hello_timeout env))"

definition idle_expired :: "'f agt_env \<Rightarrow> int \<Rightarrow> agt_scb \<Rightarrow> bool" where
  "idle_expired env now scb \<longleftrightarrow> idle_timeout env > 0 \<and> ses_active scb \<and> \<not> notif_active scb \<and>
     peeraddr scb \<noteq> Some ''127.0.0.1'' \<and> now - last_rpc_time scb \<ge> int (unat (idle_timeout env))"

fun timeout_loop :: "'f agt_env \<Rightarrow> int \<Rightarrow> u32 list \<Rightarrow> 'f agt_world \<Rightarrow> 'f agt_world option" where
  "timeout_loop env now [] w = Some w"
| "timeout_loop env now (i # is) w =
     (case agtses w i of
        None \<Rightarrow> timeout_loop env now is w
      | Some a \<Rightarrow>
          do { scb \<leftarrow> blocks w a;
               w \<leftarrow> (if hello_expired env now scb \<or> idle_expired env now scb
                    then agt_ses_kill_session env (Some a) 0 SES_TR_TIMEOUT w else Some w);
               timeout_loop env now is w })"

definition agt_ses_check_timeouts :: "'f agt_env \<Rightarrow> int \<Rightarrow> 'f agt_world \<Rightarrow> 'f agt_world option" where
  "agt_ses_check_timeouts env now w =
     (if idle_timeout env = 0 \<and> hello_timeout env = 0 \<and> \<not> agt_ncx_cc_active (ncx w) then Some w
      else if now - last_timeout_check w < AGT_SES_TIMEOUT_INTERVAL then Some w
      else (let w = w\<lparr>last_timeout_check := now\<rparr>;
                last = (if idle_timeout env = 0 \<and> hello_timeout env = 0 then 0
                        else if next_sesid w = 0 then max_sessions env else next_sesid w)
            in do { w \<leftarrow> timeout_loop env now (map of_nat [1..<unat last]) w;
                    Some (w\<lparr>ncx := agt_ncx_check_cc_timeout (nenv env) (live w) now (ncx w)\<rparr>) }))"

section \<open>The handlers\<close>

datatype xml_nodetyp_t = XML_NT_NONE | XML_NT_EMPTY | XML_NT_START | XML_NT_END | XML_NT_STRING

definition NCX_SERVER_VERSION :: u32 where "NCX_SERVER_VERSION = 1"
definition NCX_SERVER_MAGIC :: string where
  "NCX_SERVER_MAGIC = ''x56o8937ab17eg922z34rwhobskdbyswfehkpsqq3i55a0an960ccw24a4ek864aOpal1t2p''"
definition NCX_NCSSH_PORT :: nat where "NCX_NCSSH_PORT = 830"
definition CAP_BASE_URN :: string where "CAP_BASE_URN = ''urn:ietf:params:netconf:base:1.0''"
definition CAP_BASE_URN11 :: string where "CAP_BASE_URN11 = ''urn:ietf:params:netconf:base:1.1''"

definition agt_ses_ssh_port_allowed :: "'f agt_env \<Rightarrow> nat \<Rightarrow> bool" where
  "agt_ses_ssh_port_allowed env port \<longleftrightarrow>
     (if port = 0 then False
      else if ssh_ports env \<noteq> [] \<and> hd (ssh_ports env) \<noteq> 0 then port \<in> set (ssh_ports env)
      else port = NCX_NCSSH_PORT)"

text \<open>The checks of the message \<open>ncx-connect\<close> up to the user name.\<close>

definition attr_num :: "'f agt_env \<Rightarrow> ncx_btype_t \<Rightarrow> string option \<Rightarrow> status_t \<times> u32" where
  "attr_num env btyp v =
     (case v of
        None \<Rightarrow> (ERR_NCX_MISSING_ATTR, 0)
      | Some t \<Rightarrow> (case ncx_convert_num (fops (nenv env)) t NCX_NF_DEC btyp zero_num of (res, n) \<Rightarrow> (res, num_u n)))"

definition check_version :: "'f agt_env \<Rightarrow> (string \<Rightarrow> string option) \<Rightarrow> status_t" where
  "check_version env attr =
     (case attr_num env NCX_BT_UINT32 (attr ''version'') of
        (res, n) \<Rightarrow> (if res = NO_ERR \<and> n \<noteq> NCX_SERVER_VERSION then ERR_NCX_WRONG_VERSION else res))"

definition check_magic :: "(string \<Rightarrow> string option) \<Rightarrow> status_t" where
  "check_magic attr =
     (case attr ''magic'' of
        None \<Rightarrow> ERR_NCX_MISSING_ATTR
      | Some m \<Rightarrow> (if m \<noteq> NCX_SERVER_MAGIC then ERR_NCX_ACCESS_DENIED else NO_ERR))"

definition check_transport :: "'f agt_env \<Rightarrow> (string \<Rightarrow> string option) \<Rightarrow> status_t" where
  "check_transport env attr =
     (case attr ''transport'' of
        None \<Rightarrow> ERR_NCX_MISSING_ATTR
      | Some t \<Rightarrow>
          (if t = ''ssh''
           then (case attr_num env NCX_BT_UINT16 (attr ''port'') of
                   (res, n) \<Rightarrow> (if res = NO_ERR \<and> \<not> agt_ses_ssh_port_allowed env (unat n mod 2 ^ 16)
                               then ERR_NCX_ACCESS_DENIED else res))
           else if t \<noteq> ''local'' then ERR_NCX_ACCESS_DENIED
           else NO_ERR))"

text \<open>
  \<open>memu\<close>, \<open>mema\<close>: the copies of the two strings succeed; \<open>added\<close>, \<open>sent\<close>: the results of \<^verbatim>\<open>agt_state_add_session\<close> and
  \<^verbatim>\<open>agt_hello_send\<close>, which starts the hello timer.
\<close>

definition agt_connect_dispatch ::
    "'f agt_env \<Rightarrow> int \<Rightarrow> xml_nodetyp_t \<Rightarrow> (string \<Rightarrow> string option) \<Rightarrow> bool \<Rightarrow> bool \<Rightarrow> status_t \<Rightarrow> status_t \<Rightarrow> nat \<Rightarrow>
     'f agt_world \<Rightarrow> 'f agt_world option" where
  "agt_connect_dispatch env now nt attr memu mema added sent a w =
     do { scb \<leftarrow> blocks w a;
          let res = (if nt \<noteq> XML_NT_EMPTY then ERR_NCX_WRONG_NODETYP else NO_ERR);
          (res, w) \<leftarrow> (if res = NO_ERR \<and> state_of scb \<noteq> SES_ST_INIT then Some (ERR_NCX_NO_ACCESS_STATE, w)
                       else do { w \<leftarrow> upd_scb a (set_state SES_ST_IN_MSG) w; Some (res, w) });
          let res = (if res = NO_ERR then check_version env attr else res);
          let res = (if res = NO_ERR then check_magic attr else res);
          let res = (if res = NO_ERR then check_transport env attr else res);
          (res, w) \<leftarrow> (if res \<noteq> NO_ERR then Some (res, w)
                       else case attr ''user'' of
                              None \<Rightarrow> Some (ERR_NCX_MISSING_ATTR, w)
                            | Some u \<Rightarrow> (if memu then do { w \<leftarrow> upd_scb a (\<lambda>s. s\<lparr>username := Some u\<rparr>) w; Some (NO_ERR, w) }
                                        else Some (ERR_INTERNAL_MEM, w)));
          (res, w) \<leftarrow> (if res \<noteq> NO_ERR then Some (res, w)
                       else case attr ''address'' of
                              None \<Rightarrow> Some (ERR_NCX_MISSING_ATTR, w)
                            | Some u \<Rightarrow> (if mema then do { w \<leftarrow> upd_scb a (\<lambda>s. s\<lparr>peeraddr := Some u\<rparr>) w; Some (NO_ERR, w) }
                                        else Some (ERR_INTERNAL_MEM, w)));
          (res, w) \<leftarrow> (if res \<noteq> NO_ERR then Some (res, w)
                       else if added \<noteq> NO_ERR then Some (added, w)
                       else do { w \<leftarrow> upd_scb a (\<lambda>s. s\<lparr>hello_time := now\<rparr>) w; Some (sent, w) });
          w \<leftarrow> (if res = NO_ERR then upd_scb a (set_state SES_ST_HELLO_WAIT) w else Some w);
          if res \<noteq> NO_ERR then agt_ses_request_close env (Some a) (sid_of scb) SES_TR_BAD_START w else Some w }"

text \<open>\<open>caps\<close> are the capabilities of the client that were parsed without error.\<close>

definition check_manager_hello ::
    "'f agt_env \<Rightarrow> string list option \<Rightarrow> nat \<Rightarrow> 'f agt_world \<Rightarrow> (status_t \<times> 'f agt_world) option" where
  "check_manager_hello env caps a w =
     (case caps of
        None \<Rightarrow> Some (ERR_NCX_MISSING_PARM, w)
      | Some cs \<Rightarrow>
          (if proto11 env \<and> CAP_BASE_URN11 \<in> set cs
           then do { w \<leftarrow> upd_scb a (\<lambda>s. s\<lparr>io := snd (ses_set_protocol NCX_PROTO_NETCONF11 (io s))\<rparr>) w; Some (NO_ERR, w) }
           else if proto10 env \<and> CAP_BASE_URN \<in> set cs
           then do { w \<leftarrow> upd_scb a (\<lambda>s. s\<lparr>io := snd (ses_set_protocol NCX_PROTO_NETCONF10 (io s))\<rparr>) w; Some (NO_ERR, w) }
           else Some (ERR_NCX_MISSING_PARM, w)))"

text \<open>\<open>parsed\<close>: the result of the allocation, the search for the type and the parser.\<close>

definition agt_hello_dispatch ::
    "'f agt_env \<Rightarrow> int \<Rightarrow> status_t \<Rightarrow> string list option \<Rightarrow> nat \<Rightarrow> 'f agt_world \<Rightarrow> 'f agt_world option" where
  "agt_hello_dispatch env now parsed caps a w =
     do { scb \<leftarrow> blocks w a;
          let bad = (\<lambda>w. agt_ses_request_close env (Some a) (sid_of scb) SES_TR_BAD_HELLO
                          (w\<lparr>inBadHellos := inBadHellos w + 1, droppedSessions := droppedSessions w + 1\<rparr>));
          if state_of scb \<noteq> SES_ST_HELLO_WAIT then bad w
          else do {
            (res, w) \<leftarrow> (if parsed = NO_ERR then check_manager_hello env caps a w else Some (parsed, w));
            if res \<noteq> NO_ERR then bad w
            else upd_scb a (\<lambda>s. (set_state SES_ST_IDLE s)\<lparr>ses_active := True, last_rpc_time := now\<rparr>) w } }"

text \<open>
  A request: what becomes of it before its operation is known, or the result of parsing its input and the operation.
\<close>

datatype 'f rpc_op = Close_session | Kill_session u32 | On_ncx "u32 \<Rightarrow> 'f ncx_state \<Rightarrow> 'f ncx_state"

datatype 'f rpc_request = is_no_mem: Rpc_no_mem | Rpc_bad_header | Rpc_bad_node | Rpc_bad_method | Rpc_call status_t "'f rpc_op"

definition close_session_invoke :: "'f agt_env \<Rightarrow> nat \<Rightarrow> 'f agt_world \<Rightarrow> 'f agt_world option" where
  "close_session_invoke env a w =
     do { scb \<leftarrow> blocks w a; agt_ses_request_close env (Some a) (sid_of scb) SES_TR_CLOSED w }"

definition kill_session_validate :: "'f agt_env \<Rightarrow> u32 \<Rightarrow> u32 \<Rightarrow> 'f agt_world \<Rightarrow> status_t" where
  "kill_session_validate env mysid sid w =
     (if sid = mysid \<or> \<not> agt_ses_session_id_valid env sid w then ERR_NCX_INVALID_VALUE else NO_ERR)"

definition kill_session_invoke :: "'f agt_env \<Rightarrow> u32 \<Rightarrow> u32 \<Rightarrow> 'f agt_world \<Rightarrow> 'f agt_world option" where
  "kill_session_invoke env mysid sid w =
     agt_ses_kill_session env (agt_ses_get_session_for_id env sid w) mysid SES_TR_KILLED w"

definition run_op :: "'f agt_env \<Rightarrow> nat \<Rightarrow> 'f rpc_op \<Rightarrow> 'f agt_world \<Rightarrow> 'f agt_world option" where
  "run_op env a rop w =
     do { scb \<leftarrow> blocks w a;
          case rop of
            Close_session \<Rightarrow> close_session_invoke env a w
          | Kill_session sid \<Rightarrow>
              (if kill_session_validate env (sid_of scb) sid w = NO_ERR then kill_session_invoke env (sid_of scb) sid w
               else Some w)
          | On_ncx f \<Rightarrow> Some (w\<lparr>ncx := f (sid_of scb) (ncx w)\<rparr>) }"

definition bad_rpc :: "'f agt_world \<Rightarrow> 'f agt_world" where
  "bad_rpc w = w\<lparr>total_inBadRpcs := total_inBadRpcs w + 1, droppedSessions := droppedSessions w + 1\<rparr>"

definition agt_rpc_dispatch ::
    "'f agt_env \<Rightarrow> int \<Rightarrow> xml_nodetyp_t \<Rightarrow> 'f rpc_request \<Rightarrow> nat \<Rightarrow> 'f agt_world \<Rightarrow> 'f agt_world option" where
  "agt_rpc_dispatch env now nt rq a w =
     do { scb \<leftarrow> blocks w a;
          if type_of scb \<noteq> SES_TYP_DUMMY \<and> state_of scb \<noteq> SES_ST_IDLE
          then agt_ses_request_close env (Some a) (sid_of scb) SES_TR_DROPPED (bad_rpc w)
          else if is_no_mem rq
          then agt_ses_request_close env (Some a) (sid_of scb) SES_TR_DROPPED (w\<lparr>droppedSessions := droppedSessions w + 1\<rparr>)
          else if nt \<noteq> XML_NT_START
          then do { w \<leftarrow> upd_scb a (\<lambda>s. s\<lparr>inBadRpcs := inBadRpcs s + 1\<rparr>) (bad_rpc w);
                    agt_ses_request_close env (Some a) (sid_of scb) SES_TR_OTHER w }
          else case rq of
                 Rpc_bad_method \<Rightarrow> upd_scb a (\<lambda>s. s\<lparr>last_rpc_time := now\<rparr>) w
               | Rpc_call res rop \<Rightarrow>
                   do { w \<leftarrow> upd_scb a (\<lambda>s. set_state SES_ST_IN_MSG (s\<lparr>last_rpc_time := now\<rparr>)) w;
                        w \<leftarrow> (if res = NO_ERR then run_op env a rop w else Some w);
                        scb \<leftarrow> blocks w a;
                        if state_of scb = SES_ST_IN_MSG then upd_scb a (set_state SES_ST_IDLE) w else Some w }
               | _ \<Rightarrow> Some w }"

section \<open>The dispatcher\<close>

text \<open>The first node of a message and what its handler needs.\<close>

datatype 'f top_handler =
    Top_connect "string \<Rightarrow> string option" bool bool status_t status_t
  | Top_hello status_t "string list option"
  | Top_rpc "'f rpc_request"

record 'f ses_input =
  m_reader :: status_t
  m_parse :: status_t
  m_nodetyp :: xml_nodetyp_t
  m_handler :: "'f top_handler option"

fun run_handler :: "'f agt_env \<Rightarrow> int \<Rightarrow> xml_nodetyp_t \<Rightarrow> 'f top_handler \<Rightarrow> nat \<Rightarrow> 'f agt_world \<Rightarrow> 'f agt_world option" where
  "run_handler env now nt (Top_connect attr memu mema added sent) a w =
     agt_connect_dispatch env now nt attr memu mema added sent a w"
| "run_handler env now nt (Top_hello parsed caps) a w = agt_hello_dispatch env now parsed caps a w"
| "run_handler env now nt (Top_rpc rq) a w = agt_rpc_dispatch env now nt rq a w"

definition bad_msg :: "'f agt_env \<Rightarrow> nat \<Rightarrow> 'f agt_world \<Rightarrow> (nat option \<times> 'f agt_world) option" where
  "bad_msg env a w =
     do { w \<leftarrow> upd_scb a (\<lambda>s. s\<lparr>inBadRpcs := inBadRpcs s + 1\<rparr>) (bad_rpc w);
          w \<leftarrow> agt_ses_free_session env a w; Some (None, w) }"

definition agt_top_dispatch_msg ::
    "'f agt_env \<Rightarrow> int \<Rightarrow> 'f ses_input \<Rightarrow> nat \<Rightarrow> 'f agt_world \<Rightarrow> (nat option \<times> 'f agt_world) option" where
  "agt_top_dispatch_msg env now m a w =
     (if m_parse m \<noteq> NO_ERR \<or> m_nodetyp m \<notin> {XML_NT_START, XML_NT_EMPTY} then bad_msg env a w
      else case m_handler m of
             None \<Rightarrow> bad_msg env a w
           | Some hdl \<Rightarrow>
               do { w \<leftarrow> run_handler env now (m_nodetyp m) hdl a w;
                    if stream_out env
                    then do { scb \<leftarrow> blocks w a;
                              if state_of scb = SES_ST_SHUTDOWN_REQ
                              then do { w \<leftarrow> agt_ses_kill_session env (Some a) (killedbysid scb) (termreason scb) w;
                                        Some (None, w) }
                              else Some (Some a, w) }
                    else Some (Some a, w) })"

text \<open>The message that was processed is freed; another complete one makes the session ready again.\<close>

definition finish_message :: "nat \<Rightarrow> 'f agt_world \<Rightarrow> 'f agt_world option" where
  "finish_message a w =
     do { w \<leftarrow> upd_scb a (\<lambda>s. s\<lparr>io := (case msgQ (io s) of [] \<Rightarrow> io s | x # xs \<Rightarrow> ses_msg_free_msg x ((io s)\<lparr>msgQ := xs\<rparr>))\<rparr>) w;
          scb \<leftarrow> blocks w a;
          case msgQ (io scb) of [] \<Rightarrow> Some w | x # _ \<Rightarrow> (if msg_ready x then make_inready a w else Some w) }"

definition agt_ses_process_first_ready ::
    "'f agt_env \<Rightarrow> int \<Rightarrow> 'f ses_input \<Rightarrow> 'f agt_world \<Rightarrow> (bool \<times> 'f agt_world) option" where
  "agt_ses_process_first_ready env now m w =
     do { (p, w) \<leftarrow> ses_msg_get_first_inready w;
          case p of
            None \<Rightarrow> Some (False, w)
          | Some r \<Rightarrow>
              do { rscb \<leftarrow> blocks w r;
                   case agtses w (sid_of rscb) of
                     None \<Rightarrow> Some (False, w)
                   | Some a \<Rightarrow>
                       do { scb \<leftarrow> blocks w a;
                            if state_of scb \<in> {SES_ST_SHUTDOWN_REQ, SES_ST_SHUTDOWN} then Some (True, w)
                            else case msgQ (io scb) of
                                   [] \<Rightarrow> Some (False, w)
                                 | x # _ \<Rightarrow>
                                     (if \<not> msg_ready x then Some (False, w)
                                      else if m_reader m \<noteq> NO_ERR
                                      then do { w \<leftarrow> agt_ses_kill_session env (Some a) 0 SES_TR_OTHER w; Some (True, w) }
                                      else do { (q, w) \<leftarrow> agt_top_dispatch_msg env now m a w;
                                                case q of
                                                  None \<Rightarrow> Some (True, w)
                                                | Some a \<Rightarrow> do { w \<leftarrow> finish_message a w; Some (True, w) } }) } } }"

end
