(* ===== verification/Agt_Ses_Props.thy ===== *)
theory Agt_Ses_Props
  imports Agt_Ses
begin

text \<open>
  What holds of the session table: its consistency over every sequence of steps, what the end of a session leaves behind,
  and the messages that make the agent use a session it has freed.
\<close>

section \<open>The invariant\<close>

text \<open>
  The table and the memory name each other, the sessions ahead of \<^verbatim>\<open>next_sesid\<close> are unused, the registry finds exactly the
  open sessions by their file descriptors, the ready queue holds those that are marked, and the counters agree.
\<close>

definition table_ok :: "'f agt_env \<Rightarrow> 'f agt_world \<Rightarrow> bool" where
  "table_ok env w \<longleftrightarrow>
     (\<forall>slot a. agtses w slot = Some a \<longrightarrow> (\<exists>scb. blocks w a = Some scb \<and> sid_of scb = slot) \<and> slot \<noteq> 0 \<and> slot < max_sessions env) \<and>
     (\<forall>a scb. blocks w a = Some scb \<longrightarrow> agtses w (sid_of scb) = Some a \<and> a < next_block w \<and> type_of scb = SES_TYP_NETCONF) \<and>
     (next_sesid w \<noteq> 0 \<longrightarrow> next_sesid w < max_sessions env \<and> (\<forall>slot \<ge> next_sesid w. agtses w slot = None))"

definition fds_ok :: "'f agt_world \<Rightarrow> bool" where
  "fds_ok w \<longleftrightarrow> reg_ok (fd_map w) \<and>
     (\<forall>fd a. def_reg_find_scb fd (fd_map w) = Some a \<longleftrightarrow> (\<exists>scb. blocks w a = Some scb \<and> ses_fd scb = fd)) \<and>
     (\<forall>a scb. blocks w a = Some scb \<longrightarrow> ses_fd scb \<noteq> 0)"

definition ready_ok :: "'f agt_world \<Rightarrow> bool" where
  "ready_ok w \<longleftrightarrow> (\<exists>xs. queue (ready w) Ready_head (map Ready_of xs) \<and>
     (\<forall>a. a \<in> set xs \<longleftrightarrow> (\<exists>scb. blocks w a = Some scb \<and> in_inq (io scb))))"

definition counts_ok :: "'f agt_world \<Rightarrow> bool" where
  "counts_ok w \<longleftrightarrow> active_sessions w = of_nat (card {slot. agtses w slot \<noteq> None}) \<and>
     inSessions w = active_sessions w + closed_sessions w + failed_sessions w"

definition agt_ok :: "'f agt_env \<Rightarrow> 'f agt_world \<Rightarrow> bool" where
  "agt_ok env w \<longleftrightarrow> table_ok env w \<and> fds_ok w \<and> ready_ok w \<and> counts_ok w"

text \<open>\<open>w'\<close> has the same sessions as \<open>w\<close> as far as the invariant is concerned.\<close>

definition same_table :: "'f agt_world \<Rightarrow> 'f agt_world \<Rightarrow> bool" where
  "same_table w w' \<longleftrightarrow> agtses w' = agtses w \<and> next_block w' = next_block w \<and> next_sesid w' = next_sesid w \<and>
     fd_map w' = fd_map w \<and> ready w' = ready w \<and> active_sessions w' = active_sessions w \<and>
     closed_sessions w' = closed_sessions w \<and> failed_sessions w' = failed_sessions w \<and> inSessions w' = inSessions w"

definition mild :: "(agt_scb \<Rightarrow> agt_scb) \<Rightarrow> bool" where
  "mild f \<longleftrightarrow> (\<forall>s. sid_of (f s) = sid_of s \<and> type_of (f s) = type_of s \<and> in_inq (io (f s)) = in_inq (io s) \<and> ses_fd (f s) = ses_fd s)"

definition alike :: "agt_scb \<Rightarrow> agt_scb \<Rightarrow> bool" where
  "alike s s' \<longleftrightarrow> sid_of s' = sid_of s \<and> type_of s' = type_of s \<and> in_inq (io s') = in_inq (io s) \<and> ses_fd s' = ses_fd s"

definition alike_blocks :: "'f agt_world \<Rightarrow> 'f agt_world \<Rightarrow> bool" where
  "alike_blocks w w' \<longleftrightarrow> (\<forall>a. rel_option alike (blocks w a) (blocks w' a))"

lemma alike_someD:
  "alike_blocks w w' \<Longrightarrow> blocks w a = Some s \<Longrightarrow> \<exists>s'. blocks w' a = Some s' \<and> alike s s'"
  "alike_blocks w w' \<Longrightarrow> blocks w' a = Some s' \<Longrightarrow> \<exists>s. blocks w a = Some s \<and> alike s s'"
  unfolding alike_blocks_def by (metis option_rel_Some1, metis option_rel_Some2)

lemma alike_ok:
  assumes "alike_blocks w w'" "same_table w w'" "agt_ok env w"
  shows "agt_ok env w'"
proof -
  have any: "(\<exists>s. blocks w' a = Some s \<and> P s) \<longleftrightarrow> (\<exists>s. blocks w a = Some s \<and> P s)"
    if "\<And>s s'. alike s s' \<Longrightarrow> P s' = P s" for P a
    using alike_someD [OF assms(1), of a] that by blast
  have ex: "(\<exists>s. blocks w' a = Some s \<and> sid_of s = slot) \<longleftrightarrow> (\<exists>s. blocks w a = Some s \<and> sid_of s = slot)"
      "(\<exists>s. blocks w' a = Some s \<and> ses_fd s = fd) \<longleftrightarrow> (\<exists>s. blocks w a = Some s \<and> ses_fd s = fd)"
      "(\<exists>s. blocks w' a = Some s \<and> in_inq (io s)) \<longleftrightarrow> (\<exists>s. blocks w a = Some s \<and> in_inq (io s))" for a slot fd
    by (rule any; simp add: alike_def)+
  have prior: "blocks w' a = Some s' \<Longrightarrow> \<exists>s. blocks w a = Some s \<and> alike s s'" for a s'
    by (rule alike_someD(2) [OF assms(1)])
  note same = assms(2) [unfolded same_table_def]
  have "agtses w' (sid_of s') = Some a \<and> a < next_block w' \<and> type_of s' = SES_TYP_NETCONF"
    if s': "blocks w' a = Some s'" for a s'
  proof -
    obtain s where "blocks w a = Some s" "alike s s'" using prior [OF s'] by blast
    then show ?thesis using assms(3) same by (simp add: alike_def agt_ok_def table_ok_def)
  qed
  then have "table_ok env w'"
    using assms(3) same by (simp add: agt_ok_def table_ok_def ex)
  moreover have "ses_fd s' \<noteq> 0" if s': "blocks w' a = Some s'" for a s'
  proof -
    obtain s where "blocks w a = Some s" "alike s s'" using prior [OF s'] by blast
    then show ?thesis using assms(3) same by (auto simp: alike_def agt_ok_def fds_ok_def)
  qed
  then have "fds_ok w'"
    using assms(3) same by (simp add: agt_ok_def fds_ok_def ex)
  moreover have "ready_ok w'" "counts_ok w'"
    using assms(2,3) by (simp_all add: agt_ok_def ready_ok_def counts_ok_def same_table_def ex)
  ultimately show ?thesis by (simp add: agt_ok_def)
qed

lemma table_at:
  "agt_ok env w \<Longrightarrow> blocks w a = Some s \<Longrightarrow>
     agtses w (sid_of s) = Some a \<and> a < next_block w \<and> type_of s = SES_TYP_NETCONF"
  by (simp add: agt_ok_def table_ok_def)

lemma table_slot:
  "agt_ok env w \<Longrightarrow> agtses w slot = Some a \<Longrightarrow>
     (\<exists>s. blocks w a = Some s \<and> sid_of s = slot) \<and> slot \<noteq> 0 \<and> slot < max_sessions env"
  by (simp add: agt_ok_def table_ok_def)

section \<open>Fine steps\<close>

text \<open>
  A step is fine when it keeps the invariant, opens no session and puts none on the ready queue.
\<close>

definition quiet :: "'f agt_world \<Rightarrow> 'f agt_world \<Rightarrow> bool" where
  "quiet w w' \<longleftrightarrow> (\<forall>a s'. blocks w' a = Some s' \<longrightarrow> (\<exists>s. blocks w a = Some s \<and> alike s s'))"

definition fine :: "'f agt_env \<Rightarrow> 'f agt_world \<Rightarrow> 'f agt_world \<Rightarrow> bool" where
  "fine env w w' \<longleftrightarrow> (agt_ok env w \<longrightarrow> agt_ok env w') \<and> quiet w w'"

definition unqueued :: "nat \<Rightarrow> 'f agt_world \<Rightarrow> bool" where
  "unqueued a w \<longleftrightarrow> (\<forall>s. blocks w a = Some s \<longrightarrow> \<not> in_inq (io s))"

lemma alike_refl [simp]: "alike s s"
  by (simp add: alike_def)

lemma fine_refl [simp]: "fine env w w"
  by (auto simp: fine_def quiet_def)

lemma alike_trans: "alike s s' \<Longrightarrow> alike s' s'' \<Longrightarrow> alike s s''"
  by (simp add: alike_def)

lemma fine_trans: "fine env w w' \<Longrightarrow> fine env w' w'' \<Longrightarrow> fine env w w''"
  unfolding fine_def quiet_def using alike_trans by blast

lemma fine_unqueued: "fine env w w' \<Longrightarrow> unqueued a w \<Longrightarrow> unqueued a w'"
  unfolding fine_def quiet_def unqueued_def alike_def by metis

lemma alike_fine: "alike_blocks w w' \<Longrightarrow> same_table w w' \<Longrightarrow> fine env w w'"
  unfolding fine_def quiet_def using alike_ok alike_someD(2) by blast

lemma fine_same: "blocks w' = blocks w \<Longrightarrow> same_table w w' \<Longrightarrow> fine env w w'"
  by (rule alike_fine) (simp_all add: alike_blocks_def option.rel_refl)

lemma fine_upd: "mild f \<Longrightarrow> upd_scb a f w = Some w' \<Longrightarrow> fine env w w'"
  by (rule alike_fine)
    (auto simp: alike_blocks_def upd_scb_def mild_def alike_def same_table_def option.rel_refl intro!: option.rel_refl)

text \<open>The same for the partial functions of the code.\<close>

definition steps_fine :: "'f agt_env \<Rightarrow> 'f agt_world \<Rightarrow> 'f agt_world option \<Rightarrow> bool" where
  "steps_fine env w m \<longleftrightarrow> (\<forall>w'. m = Some w' \<longrightarrow> fine env w w')"

definition steps_fine2 :: "'f agt_env \<Rightarrow> 'f agt_world \<Rightarrow> ('a \<times> 'f agt_world) option \<Rightarrow> bool" where
  "steps_fine2 env w m \<longleftrightarrow> (\<forall>r w'. m = Some (r, w') \<longrightarrow> fine env w w')"

lemma steps_fineD: "steps_fine env w m \<Longrightarrow> m = Some w' \<Longrightarrow> fine env w w'"
  by (simp add: steps_fine_def)

lemma steps_fine_simps [simp]:
  "steps_fine env w None" "steps_fine env w (Some w') \<longleftrightarrow> fine env w w'"
  "steps_fine2 env w None" "steps_fine2 env w (Some (r, w')) \<longleftrightarrow> fine env w w'"
  by (simp_all add: steps_fine_def steps_fine2_def)

lemma steps_fine_bind:
  "steps_fine env w0 m \<Longrightarrow> (\<And>w1. fine env w0 w1 \<Longrightarrow> steps_fine env w0 (f w1)) \<Longrightarrow> steps_fine env w0 (Option.bind m f)"
  "steps_fine env w0 m \<Longrightarrow> (\<And>w1. fine env w0 w1 \<Longrightarrow> steps_fine2 env w0 (g w1)) \<Longrightarrow> steps_fine2 env w0 (Option.bind m g)"
  unfolding steps_fine_def steps_fine2_def by (auto simp: bind_eq_Some_conv)

lemma steps_fine2_bind:
  "steps_fine2 env w0 m \<Longrightarrow> (\<And>r w1. fine env w0 w1 \<Longrightarrow> steps_fine env w0 (f (r, w1))) \<Longrightarrow> steps_fine env w0 (Option.bind m f)"
  "steps_fine2 env w0 m \<Longrightarrow> (\<And>r w1. fine env w0 w1 \<Longrightarrow> steps_fine2 env w0 (g (r, w1))) \<Longrightarrow> steps_fine2 env w0 (Option.bind m g)"
  unfolding steps_fine_def steps_fine2_def by (auto simp: bind_eq_Some_conv)

lemma steps_fine_read:
  "(\<And>x. blocks w a = Some x \<Longrightarrow> steps_fine env w0 (f x)) \<Longrightarrow> steps_fine env w0 (Option.bind (blocks w a) f)"
  "(\<And>x. blocks w a = Some x \<Longrightarrow> steps_fine2 env w0 (g x)) \<Longrightarrow> steps_fine2 env w0 (Option.bind (blocks w a) g)"
  unfolding steps_fine_def steps_fine2_def by (auto simp: bind_eq_Some_conv)

lemma steps_fine_upd: "fine env w0 w \<Longrightarrow> mild f \<Longrightarrow> steps_fine env w0 (upd_scb a f w)"
  unfolding steps_fine_def using fine_upd fine_trans by blast

lemma steps_fine_set:
  "fine env w0 w \<Longrightarrow> mild f \<Longrightarrow> (\<And>w1. fine env w0 w1 \<Longrightarrow> steps_fine env w0 (g w1)) \<Longrightarrow>
     steps_fine env w0 (Option.bind (upd_scb a f w) g)"
  "fine env w0 w \<Longrightarrow> mild f \<Longrightarrow> (\<And>w1. fine env w0 w1 \<Longrightarrow> steps_fine2 env w0 (h w1)) \<Longrightarrow>
     steps_fine2 env w0 (Option.bind (upd_scb a f w) h)"
  by (simp_all add: steps_fine_bind steps_fine_upd)

lemma steps_fine_after: "fine env w w1 \<Longrightarrow> steps_fine env w1 m \<Longrightarrow> steps_fine env w m"
  unfolding steps_fine_def using fine_trans by blast

section \<open>The end of a session\<close>

text \<open>What freeing a session that is not on the ready queue gives.\<close>

definition without :: "'f agt_env \<Rightarrow> nat \<Rightarrow> agt_scb \<Rightarrow> 'f agt_world \<Rightarrow> 'f agt_world" where
  "without env a scb w =
     w\<lparr>fd_map := (if ses_fd scb \<noteq> 0 then def_reg_del_scb (ses_fd scb) (fd_map w) else fd_map w),
       ncx := (ncx w)\<lparr>ncx_db := cfg_release_locks (p_mem (nenv env)) (sid_of scb) (ncx_db (ncx w))\<rparr>,
       active_sessions := active_sessions w - 1,
       closed_sessions := (if ses_active scb then closed_sessions w + 1 else closed_sessions w),
       failed_sessions := (if ses_active scb then failed_sessions w else failed_sessions w + 1),
       blocks := (blocks w)(a := None), agtses := (agtses w)(sid_of scb := None)\<rparr>"

lemma without_blocks: "blocks (without env a scb w) = (blocks w)(a := None)" "agtses (without env a scb w) = (agtses w)(sid_of scb := None)"
  by (simp_all add: without_def)

lemma free_session_eq:
  "blocks w a = Some scb \<Longrightarrow> type_of scb \<noteq> SES_TYP_DUMMY \<Longrightarrow> \<not> in_inq (io scb) \<Longrightarrow>
     agt_ses_free_session env a w = Some (without env a scb w)"
  by (simp add: agt_ses_free_session_def ses_msg_unmake_inready_def without_def Let_def)

lemma card_remove_slot:
  fixes t :: "u32 \<Rightarrow> nat option"
  assumes "t slot \<noteq> None"
  shows "(of_nat (card {i. (t(slot := None)) i \<noteq> None}) :: u32) = of_nat (card {i. t i \<noteq> None}) - 1"
proof -
  have "{i. (t(slot := None)) i \<noteq> None} = {i. t i \<noteq> None} - {slot}" by auto
  moreover have "card ({i. t i \<noteq> None} - {slot}) + 1 = card {i. t i \<noteq> None}"
    using assms card_Suc_Diff1 [of "{i. t i \<noteq> None}" slot] by simp
  ultimately have "(of_nat (card {i. (t(slot := None)) i \<noteq> None} + 1) :: u32) = of_nat (card {i. t i \<noteq> None})" by presburger
  then show ?thesis by (simp add: algebra_simps)
qed

lemma without_ok:
  assumes ok: "agt_ok env w" and a: "blocks w a = Some scb" "\<not> in_inq (io scb)"
  shows "agt_ok env (without env a scb w)"
proof -
  have t: "agtses w (sid_of scb) = Some a" using table_at [OF ok a(1)] by simp
  have "table_ok env (without env a scb w)"
    unfolding table_ok_def
  proof (intro conjI allI impI)
    fix slot b
    assume "agtses (without env a scb w) slot = Some b"
    then have b: "agtses w slot = Some b" "slot \<noteq> sid_of scb" by (auto simp: without_def split: if_splits)
    moreover from this have "b \<noteq> a" using table_slot [OF ok b(1)] a(1) by auto
    ultimately show "\<exists>s. blocks (without env a scb w) b = Some s \<and> sid_of s = slot" "slot \<noteq> 0" "slot < max_sessions env"
      using ok by (auto simp: agt_ok_def table_ok_def without_def)
  next
    fix b s
    assume "blocks (without env a scb w) b = Some s"
    then have b: "blocks w b = Some s" "b \<noteq> a" by (auto simp: without_def split: if_splits)
    moreover from this have "sid_of s \<noteq> sid_of scb" using table_at [OF ok b(1)] t by auto
    ultimately show "agtses (without env a scb w) (sid_of s) = Some b" "b < next_block (without env a scb w)"
        "type_of s = SES_TYP_NETCONF"
      using ok by (auto simp: agt_ok_def table_ok_def without_def)
  qed (use ok in \<open>auto simp: agt_ok_def table_ok_def without_def\<close>)
  moreover have "fds_ok (without env a scb w)"
  proof -
    have f: "reg_ok (fd_map w)" "ses_fd scb \<noteq> 0" "def_reg_find_scb (ses_fd scb) (fd_map w) = Some a"
      using ok a(1) by (auto simp: agt_ok_def fds_ok_def)
    have "ses_fd s \<noteq> ses_fd scb" if "blocks w b = Some s" "b \<noteq> a" for b s
      using ok f(3) that unfolding agt_ok_def fds_ok_def by (metis option.inject)
    moreover have "b \<noteq> a" if "def_reg_find_scb fd (fd_map w) = Some b" "fd \<noteq> ses_fd scb" for fd b
      using ok a(1) that by (auto simp: agt_ok_def fds_ok_def)
    ultimately show ?thesis
      using ok a(1) f(1,2) fdreg.inv_del [OF f(1)]
      by (auto simp: agt_ok_def fds_ok_def without_def fdreg.find_del)
  qed
  moreover have "ready_ok (without env a scb w)"
    using ok a by (auto simp: agt_ok_def ready_ok_def without_def)
  moreover have "counts_ok (without env a scb w)"
    using ok card_remove_slot [of "agtses w" "sid_of scb"] t
    by (auto simp: agt_ok_def counts_ok_def without_def)
  ultimately show ?thesis by (simp add: agt_ok_def)
qed

lemma fine_without:
  "blocks w a = Some scb \<Longrightarrow> \<not> in_inq (io scb) \<Longrightarrow> fine env w (without env a scb w)"
  unfolding fine_def quiet_def using without_ok by (auto simp: without_blocks split: if_splits)

lemma fine_other [intro!]:
  "fine env w0 w \<Longrightarrow> fine env w0 (w\<lparr>ncx := n\<rparr>)" "fine env w0 w \<Longrightarrow> fine env w0 (w\<lparr>session_ends := es\<rparr>)"
  "fine env w0 w \<Longrightarrow> fine env w0 (w\<lparr>last_timeout_check := t\<rparr>)" "fine env w0 w \<Longrightarrow> fine env w0 (w\<lparr>inBadHellos := b\<rparr>)"
  "fine env w0 w \<Longrightarrow> fine env w0 (w\<lparr>droppedSessions := b\<rparr>)" "fine env w0 w \<Longrightarrow> fine env w0 (w\<lparr>total_inBadRpcs := b\<rparr>)"
  by (erule fine_trans; rule fine_same; simp add: same_table_def)+

lemma steps_fine_free:
  assumes "unqueued a w" "agt_ok env w"
  shows "steps_fine env w (agt_ses_free_session env a w)"
proof (cases "blocks w a")
  case None
  then show ?thesis by (simp add: agt_ses_free_session_def)
next
  case (Some scb)
  then have "type_of scb \<noteq> SES_TYP_DUMMY" using assms(2) by (auto simp: agt_ok_def table_ok_def)
  then show ?thesis using Some assms(1) by (simp add: free_session_eq fine_without unqueued_def)
qed

lemma fine_ok: "fine env w w' \<Longrightarrow> agt_ok env w \<Longrightarrow> agt_ok env w'"
  by (simp add: fine_def)

definition calm :: "'f agt_env \<Rightarrow> nat \<Rightarrow> 'f agt_world \<Rightarrow> bool" where
  "calm env a w \<longleftrightarrow> unqueued a w \<and> agt_ok env w"

lemma fine_calm: "fine env w w' \<Longrightarrow> calm env a w \<Longrightarrow> calm env a w'"
  using fine_unqueued fine_ok unfolding calm_def by blast

lemma steps_fine_end: "calm env a w0 \<Longrightarrow> fine env w0 w \<Longrightarrow> steps_fine env w0 (agt_ses_free_session env a w)"
  using steps_fine_free fine_calm steps_fine_after unfolding calm_def by blast

lemma steps_fine_kill:
  "calm env a w0 \<Longrightarrow> fine env w0 w \<Longrightarrow> steps_fine env w0 (agt_ses_kill_session env (Some a) k r w)"
  unfolding agt_ses_kill_session_def by (auto simp: Let_def intro!: steps_fine_read steps_fine_end)

section \<open>The handlers\<close>

lemma mild_simps [simp]:
  "mild (set_state st)" "mild (\<lambda>s. s\<lparr>killedbysid := k, termreason := r\<rparr>)" "mild (\<lambda>s. s\<lparr>username := u\<rparr>)"
  "mild (\<lambda>s. s\<lparr>peeraddr := u\<rparr>)" "mild (\<lambda>s. s\<lparr>hello_time := t\<rparr>)" "mild (\<lambda>s. s\<lparr>last_rpc_time := t\<rparr>)"
  "mild (\<lambda>s. s\<lparr>inBadRpcs := inBadRpcs s + 1\<rparr>)" "mild (\<lambda>s. set_state st (s\<lparr>last_rpc_time := t\<rparr>))"
  "mild (\<lambda>s. (set_state st s)\<lparr>ses_active := b, last_rpc_time := t\<rparr>)"
  by (simp_all add: mild_def set_state_def)

lemma mild_protocol [simp]: "mild (\<lambda>s. s\<lparr>io := snd (ses_set_protocol p (io s))\<rparr>)"
  by (simp add: mild_def ses_set_protocol_def Let_def)

lemma steps_fine_close:
  "calm env a w0 \<Longrightarrow> fine env w0 w \<Longrightarrow> steps_fine env w0 (agt_ses_request_close env (Some a) k r w)"
  unfolding agt_ses_request_close_def
  by (auto intro!: steps_fine_read steps_fine_set steps_fine_upd steps_fine_kill)

lemma fine_bad_rpc [intro!]: "fine env w0 w \<Longrightarrow> fine env w0 (bad_rpc w)"
  unfolding bad_rpc_def by auto

lemmas step_intros = steps_fine_read steps_fine_set steps_fine_upd steps_fine_kill steps_fine_close steps_fine_end

lemma steps_fine_connect:
  assumes "calm env a w0" "fine env w0 w"
  shows "steps_fine env w0 (agt_connect_dispatch env now nt attr memu mema added sent a w)"
  unfolding agt_connect_dispatch_def Let_def
  by (intro steps_fine_read(1) steps_fine2_bind(1) steps_fine_bind(1))
    (auto intro!: step_intros assms split: option.splits)

lemma steps_fine_hello:
  assumes "calm env a w0" "fine env w0 w"
  shows "steps_fine env w0 (agt_hello_dispatch env now parsed caps a w)"
proof -
  have "steps_fine2 env w0 (check_manager_hello env caps a w)"
    unfolding check_manager_hello_def using assms by (auto intro!: step_intros split: option.splits)
  then show ?thesis
    unfolding agt_hello_dispatch_def Let_def using assms
    by (auto intro!: step_intros steps_fine2_bind(1))
qed

text \<open>The session that a request kills must not be on the ready queue.\<close>

fun calm_op :: "'f agt_env \<Rightarrow> 'f rpc_op \<Rightarrow> 'f agt_world \<Rightarrow> bool" where
  "calm_op env (Kill_session sid) w \<longleftrightarrow> (\<forall>a. agtses w sid = Some a \<longrightarrow> unqueued a w)"
| "calm_op env _ w \<longleftrightarrow> True"


lemma calm_target:
  assumes "calm env a w0" "fine env w0 w" "calm_op env (Kill_session sid) w0" "agtses w sid = Some b"
  shows "calm env b w0"
proof -
  have ok: "agt_ok env w0" "agt_ok env w" using assms(1,2) fine_calm by (auto simp: calm_def)
  obtain s' where "blocks w b = Some s'" "sid_of s' = sid" using table_slot [OF ok(2) assms(4)] by blast
  then obtain s where "blocks w0 b = Some s" "sid_of s = sid"
    using assms(2) unfolding fine_def quiet_def alike_def by metis
  then have "agtses w0 sid = Some b" using table_at [OF ok(1)] by auto
  then show ?thesis using assms(3) ok(1) by (simp add: calm_def)
qed

lemma steps_fine_op:
  assumes "calm env a w0" "fine env w0 w" "calm_op env rop w0"
  shows "steps_fine env w0 (run_op env a rop w)"
proof (cases rop)
  case (Kill_session sid)
  have "steps_fine env w0 (kill_session_invoke env mysid sid w)" for mysid
    using calm_target [OF assms(1,2) assms(3) [unfolded Kill_session]] assms(2)
    by (cases "agt_ses_get_session_for_id env sid w")
      (auto simp: kill_session_invoke_def agt_ses_get_session_for_id_def agt_ses_kill_session_def [of env None]
        intro!: steps_fine_kill split: if_splits)
  then show ?thesis using Kill_session assms by (auto simp: run_op_def intro!: steps_fine_read)
qed (use assms in \<open>auto simp: run_op_def close_session_invoke_def intro!: step_intros\<close>)

lemma steps_fine_rpc:
  assumes "calm env a w0" "fine env w0 w" "\<And>res rop. rq = Rpc_call res rop \<Longrightarrow> calm_op env rop w0"
  shows "steps_fine env w0 (agt_rpc_dispatch env now nt rq a w)"
proof (cases rq)
  case (Rpc_call res rop)
  have run: "steps_fine env w0 (run_op env a rop w1)" if "fine env w0 w1" for w1
    using steps_fine_op [OF assms(1) that assms(3) [OF Rpc_call]] .
  show ?thesis
    unfolding agt_rpc_dispatch_def Rpc_call
    by (auto intro!: step_intros assms run steps_fine_bind(1))
qed (use assms in \<open>auto simp: agt_rpc_dispatch_def intro!: step_intros\<close>)

definition calm_input :: "'f agt_env \<Rightarrow> 'f ses_input \<Rightarrow> 'f agt_world \<Rightarrow> bool" where
  "calm_input env m w \<longleftrightarrow> (\<forall>res rop. m_handler m = Some (Top_rpc (Rpc_call res rop)) \<longrightarrow> calm_op env rop w)"

lemma steps_fine_handler:
  assumes "calm env a w0" "fine env w0 w" "calm_input env m w0" "m_handler m = Some hdl"
  shows "steps_fine env w0 (run_handler env now nt hdl a w)"
  using assms by (cases hdl) (auto simp: calm_input_def intro!: steps_fine_connect steps_fine_hello steps_fine_rpc)

lemma steps_fine_bad_msg: "calm env a w0 \<Longrightarrow> fine env w0 w \<Longrightarrow> steps_fine2 env w0 (bad_msg env a w)"
  unfolding bad_msg_def by (auto intro!: step_intros steps_fine_bind(2))

lemma steps_fine_dispatch:
  assumes "calm env a w" "calm_input env m w"
  shows "steps_fine2 env w (agt_top_dispatch_msg env now m a w)"
  unfolding agt_top_dispatch_msg_def using assms
  by (auto intro!: step_intros steps_fine_bind(2) steps_fine_handler [OF _ _ assms(2)] steps_fine_bad_msg split: option.splits)

section \<open>The ready queue\<close>

lemma marked_ok:
  assumes ok: "agt_ok env w" and a: "blocks w a = Some scb"
    and w'_def: "w' = w\<lparr>ready := h', blocks := (blocks w)(a \<mapsto> set_inq b scb)\<rparr>"
    and r: "ready_ok w'"
  shows "agt_ok env w'"
proof -
  have sel: "sid_of (set_inq b scb) = sid_of scb" "ses_fd (set_inq b scb) = ses_fd scb" "type_of (set_inq b scb) = type_of scb"
    by (simp_all add: set_inq_def)
  have "\<exists>s. blocks w' c = Some s \<and> sid_of s = slot" if "agtses w slot = Some c" for slot c
    using table_slot [OF ok that] a sel(1) by (cases "c = a") (auto simp: w'_def)
  moreover have "agtses w (sid_of s) = Some c \<and> c < next_block w \<and> type_of s = SES_TYP_NETCONF" if "blocks w' c = Some s" for c s
    using that table_at [OF ok] a sel by (auto simp: w'_def split: if_splits)
  ultimately have "table_ok env w'"
    using ok by (auto simp: w'_def agt_ok_def table_ok_def)
  moreover have "(\<exists>s. blocks w' c = Some s \<and> ses_fd s = fd) \<longleftrightarrow> (\<exists>s. blocks w c = Some s \<and> ses_fd s = fd)" for c fd
    using a sel by (auto simp: w'_def)
  then have "fds_ok w'"
    using ok a sel by (auto simp: w'_def agt_ok_def fds_ok_def)
  moreover have "counts_ok w'" using ok by (simp add: w'_def agt_ok_def counts_ok_def)
  ultimately show ?thesis using r by (simp add: agt_ok_def)
qed

lemma make_inready_ok:
  assumes "agt_ok env w" "make_inready a w = Some w'"
  shows "agt_ok env w'"
proof -
  obtain scb where a: "blocks w a = Some scb" using assms(2) by (auto simp: make_inready_def bind_eq_Some_conv)
  show ?thesis
  proof (cases "in_inq (io scb)")
    case True
    then show ?thesis using assms a by (simp add: make_inready_def)
  next
    case False
    obtain xs where q: "queue (ready w) Ready_head (map Ready_of xs)"
        "\<And>b. b \<in> set xs \<longleftrightarrow> (\<exists>s. blocks w b = Some s \<and> in_inq (io s))"
      using assms(1) by (auto simp: agt_ok_def ready_ok_def)
    then have "Ready_of a \<notin> set (Ready_head # map Ready_of xs)" using a False by auto
    then obtain h' where h': "dlq_enque (Ready_of a) Ready_head (ready w) = Some h'"
        "queue h' Ready_head (map Ready_of xs @ [Ready_of a])"
      by (rule queue_enque [OF q(1)])
    then have w': "w' = w\<lparr>ready := h', blocks := (blocks w)(a \<mapsto> set_inq True scb)\<rparr>"
      using assms(2) a False by (simp add: make_inready_def upd_scb_def)
    have "queue h' Ready_head (map Ready_of (xs @ [a]))" using h'(2) by simp
    moreover have "b \<in> set (xs @ [a]) \<longleftrightarrow> (\<exists>s. blocks w' b = Some s \<and> in_inq (io s))" for b
      using q(2) a by (auto simp: w' set_inq_def)
    ultimately have "ready_ok w'" unfolding ready_ok_def w' by (intro exI [of _ "xs @ [a]"]) (simp add: w')
    then show ?thesis using marked_ok [OF assms(1) a w'] by simp
  qed
qed

lemma get_first_ok:
  assumes "agt_ok env w" "ses_msg_get_first_inready w = Some (p, w')"
  shows "agt_ok env w' \<and> (\<forall>a. p = Some a \<longrightarrow> calm env a w')"
proof -
  obtain xs where q: "queue (ready w) Ready_head (map Ready_of xs)"
      "\<And>b. b \<in> set xs \<longleftrightarrow> (\<exists>s. blocks w b = Some s \<and> in_inq (io s))"
    using assms(1) by (auto simp: agt_ok_def ready_ok_def)
  show ?thesis
  proof (cases xs)
    case Nil
    then show ?thesis
      using assms q(1) queue_deque_empty [of "ready w" Ready_head] by (auto simp: ses_msg_get_first_inready_def)
  next
    case (Cons a ys)
    then have "queue (ready w) Ready_head (Ready_of a # map Ready_of ys)" using q(1) by simp
    then obtain h' where h': "dlq_deque Ready_head (ready w) = Some (Some (Ready_of a), h')"
        "queue h' Ready_head (map Ready_of ys)"
      by (rule queue_deque)
    obtain scb where a: "blocks w a = Some scb" using q(2) [of a] Cons by auto
    have w': "p = Some a" "w' = w\<lparr>ready := h', blocks := (blocks w)(a \<mapsto> set_inq False scb)\<rparr>"
      using assms(2) h'(1) a by (auto simp: ses_msg_get_first_inready_def upd_scb_def)
    have "a \<notin> set ys" using q(1) Cons by (auto simp: queue_def)
    then have "b \<in> set ys \<longleftrightarrow> (\<exists>s. blocks w' b = Some s \<and> in_inq (io s))" for b
      using q(2) [of b] Cons a by (auto simp: w' set_inq_def)
    then have "ready_ok w'" using h'(2) unfolding ready_ok_def by (intro exI [of _ ys]) (simp add: w')
    then have "agt_ok env w'" using marked_ok [OF assms(1) a w'(2)] by simp
    then show ?thesis by (simp add: w' calm_def unqueued_def set_inq_def)
  qed
qed


lemma get_first_cases:
  assumes "ses_msg_get_first_inready w = Some (p, w')"
  obtains "p = None" "w' = w"
    | a h scb where "p = Some a" "blocks w a = Some scb" "w' = w\<lparr>ready := h, blocks := (blocks w)(a \<mapsto> set_inq False scb)\<rparr>"
proof -
  obtain c h where d: "dlq_deque Ready_head (ready w) = Some (c, h)"
    using assms by (auto simp: ses_msg_get_first_inready_def bind_eq_Some_conv)
  show ?thesis
  proof (cases c)
    case None
    then show ?thesis using assms d that(1) by (simp add: ses_msg_get_first_inready_def)
  next
    case (Some x)
    then show ?thesis using assms d that(2)
      by (cases x) (auto simp: ses_msg_get_first_inready_def bind_eq_Some_conv upd_scb_def)
  qed
qed

lemma get_first_calm:
  assumes "ses_msg_get_first_inready w = Some (p, w')" "calm_input env m w"
  shows "calm_input env m w'"
proof -
  have t: "agtses w' = agtses w" "\<And>b. unqueued b w \<Longrightarrow> unqueued b w'"
    by (rule get_first_cases [OF assms(1)]; auto simp: unqueued_def set_inq_def split: if_splits)+
  have "calm_op env rop w'" if "calm_op env rop w" for rop
    using that t by (cases rop) auto
  then show ?thesis using assms(2) by (auto simp: calm_input_def)
qed

lemma free_buffs_keep:
  "ses_sid (ses_msg_free_buff b s) = ses_sid s" "ses_type (ses_msg_free_buff b s) = ses_type s"
  "in_inq (ses_msg_free_buff b s) = in_inq s"
  by (simp_all add: ses_msg_free_buff_def)

lemma free_msg_keeps_session:
  "ses_sid (ses_msg_free_msg x s) = ses_sid s \<and> ses_type (ses_msg_free_msg x s) = ses_type s \<and> in_inq (ses_msg_free_msg x s) = in_inq s"
proof -
  have "ses_sid (fold ses_msg_free_buff bs s) = ses_sid s \<and> ses_type (fold ses_msg_free_buff bs s) = ses_type s \<and>
      in_inq (fold ses_msg_free_buff bs s) = in_inq s" for bs
    by (induction bs arbitrary: s) (simp_all add: free_buffs_keep)
  then show ?thesis by (simp add: ses_msg_free_msg_def Let_def)
qed

lemma mild_free_msg [simp]:
  "mild (\<lambda>s. s\<lparr>io := (case msgQ (io s) of [] \<Rightarrow> io s | x # xs \<Rightarrow> ses_msg_free_msg x ((io s)\<lparr>msgQ := xs\<rparr>))\<rparr>)"
  by (auto simp: mild_def free_msg_keeps_session split: list.split)

lemma finish_message_ok:
  assumes "agt_ok env w" "finish_message a w = Some w'"
  shows "agt_ok env w'"
proof -
  obtain w1 where w1: "upd_scb a (\<lambda>s. s\<lparr>io := (case msgQ (io s) of [] \<Rightarrow> io s | x # xs \<Rightarrow> ses_msg_free_msg x ((io s)\<lparr>msgQ := xs\<rparr>))\<rparr>) w = Some w1"
      "do { scb \<leftarrow> blocks w1 a;
            case msgQ (io scb) of [] \<Rightarrow> Some w1 | x # _ \<Rightarrow> (if msg_ready x then make_inready a w1 else Some w1) } = Some w'"
    using assms(2) unfolding finish_message_def by (rule bind_eq_Some_conv [THEN iffD1, THEN exE]) blast
  from w1(2) obtain scb :: agt_scb where
      "(case msgQ (io scb) of [] \<Rightarrow> Some w1 | x # _ \<Rightarrow> (if msg_ready x then make_inready a w1 else Some w1)) = Some w'"
    by (rule bind_eq_Some_conv [THEN iffD1, THEN exE]) blast
  then have "w' = w1 \<or> make_inready a w1 = Some w'" by (cases "msgQ (io scb)") (auto split: if_splits)
  have "agt_ok env w1" using fine_ok [OF fine_upd [OF mild_free_msg w1(1)] assms(1)] .
  then show ?thesis using \<open>w' = w1 \<or> _\<close> make_inready_ok by blast
qed

lemma process_ok:
  assumes ok: "agt_ok env w" and m: "calm_input env m w" and p: "agt_ses_process_first_ready env now m w = Some (b, w')"
  shows "agt_ok env w'"
proof -
  obtain q w1 where g: "ses_msg_get_first_inready w = Some (q, w1)"
    using p by (auto simp: agt_ses_process_first_ready_def bind_eq_Some_conv)
  have m1: "calm_input env m w1" using get_first_calm [OF g m] .
  have ok1: "agt_ok env w1" using get_first_ok [OF ok g] by simp
  show ?thesis
  proof (cases q)
    case None
    then show ?thesis using p g ok1 by (simp add: agt_ses_process_first_ready_def)
  next
    case (Some r)
    then have c: "calm env r w1" using get_first_ok [OF ok g] by simp
    obtain rscb where r: "blocks w1 r = Some rscb" using p g Some by (auto simp: agt_ses_process_first_ready_def bind_eq_Some_conv)
    have t: "agtses w1 (sid_of rscb) = Some r" using table_at [OF ok1 r] by simp
    have kill: "agt_ok env w2" if "agt_ses_kill_session env (Some r) 0 SES_TR_OTHER w1 = Some w2" for w2
      using steps_fine_kill [OF c fine_refl] that ok1 fine_ok unfolding steps_fine_def by blast
    have disp: "agt_ok env w2" if "agt_top_dispatch_msg env now m r w1 = Some (x, w2)" for x w2
      using steps_fine_dispatch [OF c m1] that ok1 fine_ok unfolding steps_fine2_def by blast
    show ?thesis
      using p g Some r t ok1 kill disp finish_message_ok
      by (auto simp: agt_ses_process_first_ready_def bind_eq_Some_conv split: if_splits list.splits option.splits)
  qed
qed

section \<open>Timeouts and new sessions\<close>

lemma timeout_loop_fine:
  assumes "\<And>a. unqueued a w0" "agt_ok env w0" "fine env w0 w"
  shows "steps_fine env w0 (timeout_loop env now is w)"
  using assms(3)
proof (induction "is" arbitrary: w)
  case (Cons i "is")
  have "steps_fine env w0 (agt_ses_kill_session env (Some a) 0 SES_TR_TIMEOUT w)" for a
    using assms(1,2) Cons.prems by (auto intro: steps_fine_kill simp: calm_def)
  then show ?case
    using Cons by (auto intro!: steps_fine_read steps_fine_bind(1) split: option.splits)
qed simp

lemma timeouts_ok:
  assumes "\<And>a. unqueued a w" "agt_ok env w" "agt_ses_check_timeouts env now w = Some w'"
  shows "agt_ok env w'"
proof -
  have "steps_fine env w (agt_ses_check_timeouts env now w)"
    unfolding agt_ses_check_timeouts_def Let_def
    by (auto intro!: steps_fine_bind(1) timeout_loop_fine assms)
  then show ?thesis using assms(2,3) fine_ok unfolding steps_fine_def by blast
qed

lemma free_slot_free:
  assumes "free_slot env w \<noteq> 0"
  shows "agtses w (free_slot env w) = None" "free_slot env w < max_sessions env"
proof -
  obtain i where i: "find (\<lambda>i. agtses w (of_nat i) = None) [1..<unat (max_sessions env)] = Some i" "free_slot env w = of_nat i"
    using assms by (auto simp: free_slot_def split: option.splits)
  from i(1) have p: "agtses w (of_nat i) = None" "i < unat (max_sessions env)"
    by (auto simp: find_Some_iff nth_append) 
  then show "agtses w (free_slot env w) = None" using i(2) by simp
  have "i < 2 ^ 32" using p(2) unsigned_less [of "max_sessions env", where 'a = nat] by simp
  then have "unat (of_nat i :: u32) = i" by (simp add: unat_of_nat)
  then show "free_slot env w < max_sessions env" using p(2) i(2) by (simp add: word_less_nat_alt)
qed


lemma new_session_eq:
  assumes ok: "agt_ok env w" and fd: "fd \<noteq> 0" "def_reg_find_scb fd (fd_map w) = None"
    and slot: "slot = (if next_sesid w = 0 then free_slot env w else next_sesid w)" "slot \<noteq> 0"
  obtains scb w' where "agt_ses_new_session env True True True True tr fd w = Some (Some (next_block w), w')"
    "blocks w' = (blocks w)(next_block w \<mapsto> scb)" "agtses w' = (agtses w)(slot \<mapsto> next_block w)"
    "next_block w' = next_block w + 1" "fd_map w' = snd (def_reg_add_scb True True fd (next_block w) (fd_map w))"
    "next_sesid w' = (if next_sesid w = 0 then 0 else if next_sesid w + 1 = max_sessions env then 0 else next_sesid w + 1)"
    "ready w' = ready w" "active_sessions w' = active_sessions w + 1" "inSessions w' = inSessions w + 1"
    "closed_sessions w' = closed_sessions w" "failed_sessions w' = failed_sessions w" "ncx w' = ncx w"
    "sid_of scb = slot" "type_of scb = SES_TYP_NETCONF" "state_of scb = SES_ST_INIT" "\<not> in_inq (io scb)" "ses_fd scb = fd"
    "outQ (io scb) = []"
proof -
  obtain b s where b: "ses_msg_new_buff True True (io (init_scb env tr fd slot)) = (NO_ERR, b, s)"
      "ses_sid s = slot" "ses_type s = SES_TYP_NETCONF" "ses_state s = SES_ST_INIT" "\<not> in_inq s" "outQ s = []"
    by (auto simp: ses_msg_new_buff_def malloc_buff_def init_scb_def ses_new_scb_def SES_MAX_BUFFERS_def)
  have "reg_ok (fd_map w)" using ok by (simp add: agt_ok_def fds_ok_def)
  then obtain m where m: "def_reg_add_scb True True fd (next_block w) (fd_map w) = (NO_ERR, m)"
    using fdreg.add_ok [OF _ _ fd(2)] by (metis prod.collapse)
  show ?thesis
    using that slot b m by (simp add: agt_ses_new_session_def init_scb_def Let_def)
qed

lemma card_add_slot:
  fixes t :: "u32 \<Rightarrow> nat option"
  assumes "t slot = None"
  shows "card {i. (t(slot \<mapsto> a)) i \<noteq> None} = card {i. t i \<noteq> None} + 1"
proof -
  have "{i. (t(slot \<mapsto> a)) i \<noteq> None} = insert slot {i. t i \<noteq> None}" by auto
  then show ?thesis using assms by simp
qed

lemma next_slot_free:
  assumes ok: "agt_ok env w" and slot: "slot = (if next_sesid w = 0 then free_slot env w else next_sesid w)" "slot \<noteq> 0"
  shows "agtses w slot = None" "slot < max_sessions env"
  using assms free_slot_free [of env w] by (auto simp: agt_ok_def table_ok_def split: if_splits)

lemma new_session_ok:
  assumes ok: "agt_ok env w" and fd: "fd \<noteq> 0" "def_reg_find_scb fd (fd_map w) = None"
    and new: "agt_ses_new_session env mem True True True tr fd w = Some (p, w')"
  shows "agt_ok env w'"
proof (cases "(if next_sesid w = 0 then free_slot env w else next_sesid w) = 0 \<or> \<not> mem")
  case True
  then show ?thesis using new ok by (simp add: agt_ses_new_session_def split: if_splits)
next
  case False
  let ?slot = "if next_sesid w = 0 then free_slot env w else next_sesid w" and ?a = "next_block w"
  have s: "?slot \<noteq> 0" and mem using False by simp_all
  obtain scb w1 where n: "agt_ses_new_session env True True True True tr fd w = Some (Some ?a, w1)"
    "blocks w1 = (blocks w)(?a \<mapsto> scb)" "agtses w1 = (agtses w)(?slot \<mapsto> ?a)" "next_block w1 = ?a + 1"
    "fd_map w1 = snd (def_reg_add_scb True True fd ?a (fd_map w))"
    "next_sesid w1 = (if next_sesid w = 0 then 0 else if next_sesid w + 1 = max_sessions env then 0 else next_sesid w + 1)"
    "ready w1 = ready w" "active_sessions w1 = active_sessions w + 1" "inSessions w1 = inSessions w + 1"
    "closed_sessions w1 = closed_sessions w" "failed_sessions w1 = failed_sessions w"
    "sid_of scb = ?slot" "type_of scb = SES_TYP_NETCONF" "\<not> in_inq (io scb)" "ses_fd scb = fd"
    by (rule new_session_eq [OF ok fd refl s]) blast
  have w': "w' = w1" using new n(1) \<open>mem\<close> by simp
  note free = next_slot_free [OF ok refl s]
  have fresh: "blocks w ?a = None" using table_at [OF ok] by (cases "blocks w ?a") auto
  have "table_ok env w1"
    unfolding table_ok_def
  proof (intro conjI allI impI)
    fix i b
    assume "agtses w1 i = Some b"
    then consider "i = ?slot" "b = ?a" | "i \<noteq> ?slot" "agtses w i = Some b" unfolding n(3) by (auto split: if_splits)
    then show "\<exists>s. blocks w1 b = Some s \<and> sid_of s = i" "i \<noteq> 0" "i < max_sessions env"
      using table_slot [OF ok, of i b] fresh n(2,12) s free(2) by (cases; auto)+
  next
    fix b x
    assume "blocks w1 b = Some x"
    then consider "b = ?a" "x = scb" | "b \<noteq> ?a" "blocks w b = Some x" unfolding n(2) by (auto split: if_splits)
    then show "agtses w1 (sid_of x) = Some b" "b < next_block w1" "type_of x = SES_TYP_NETCONF"
      using table_at [OF ok, of b x] n(3,4,12,13) free(1) by (cases; auto)+
  next
    assume ns: "next_sesid w1 \<noteq> 0"
    then have p: "next_sesid w \<noteq> 0" "next_sesid w1 = next_sesid w + 1" "next_sesid w + 1 \<noteq> max_sessions env"
      using n(6) by (auto split: if_splits)
    have lt: "next_sesid w < max_sessions env" using ok p(1) by (simp add: agt_ok_def table_ok_def)
    then have u: "unat (next_sesid w + 1) = unat (next_sesid w) + 1"
      using unsigned_less [of "max_sessions env", where 'a = nat] by (simp add: unat_word_ariths word_less_nat_alt)
    show "next_sesid w1 < max_sessions env" using lt p(2,3) u by (simp add: word_less_nat_alt word_unat_eq_iff)
    fix i
    assume "next_sesid w1 \<le> i"
    then have "next_sesid w \<le> i" "i \<noteq> next_sesid w" using p(2) u by (auto simp: word_le_nat_alt)
    then show "agtses w1 i = None" using ok p(1) n(3) by (auto simp: agt_ok_def table_ok_def)
  qed
  moreover have "fds_ok w1"
  proof -
    have r: "reg_ok (fd_map w)" using ok by (simp add: agt_ok_def fds_ok_def)
    have "def_reg_find_scb k (fd_map w1) = (if k = fd then Some ?a else def_reg_find_scb k (fd_map w))" for k
      unfolding n(5) by (rule fdreg.find_add [OF r _ fd(2)]) simp
    moreover have "ses_fd x \<noteq> fd" if "blocks w b = Some x" for b x
      using ok fd(2) that unfolding agt_ok_def fds_ok_def by (metis option.distinct(1))
    ultimately show ?thesis
      using ok fd(1) fresh fdreg.inv_add [OF r] n(2,5,15) by (auto simp: agt_ok_def fds_ok_def)
  qed
  moreover have "ready_ok w1"
  proof -
    have "(\<exists>s. blocks w1 b = Some s \<and> in_inq (io s)) \<longleftrightarrow> (\<exists>s. blocks w b = Some s \<and> in_inq (io s))" for b
      using fresh n(2,14) by auto
    then show ?thesis using ok by (simp add: agt_ok_def ready_ok_def n(7))
  qed
  moreover have "counts_ok w1"
    using ok card_add_slot [of "agtses w", OF free(1)] unfolding agt_ok_def counts_ok_def n(3,8-11) by simp
  ultimately show ?thesis by (simp add: agt_ok_def w')
qed

end
