(* ===== verification/Agt_Ses_Main.thy ===== *)
theory Agt_Ses_Main
  imports Agt_Ses_Props
begin

text \<open>The properties of the sessions.\<close>

section \<open>Steps of the agent\<close>

text \<open>
  \<open>data\<close> stands for what arrives on a socket or is written to it.  A session that is ended must not be on the ready
  queue, and the timeouts are checked when no session is on it.
\<close>

inductive agt_step :: "'f agt_env \<Rightarrow> 'f agt_world \<Rightarrow> 'f agt_world \<Rightarrow> bool" for env where
  accept: "fd \<noteq> 0 \<Longrightarrow> def_reg_find_scb fd (fd_map w) = None \<Longrightarrow>
     agt_ses_new_session env mem True True True tr fd w = Some (p, w') \<Longrightarrow> agt_step env w w'"
| data: "mild f \<Longrightarrow> upd_scb a f w = Some w' \<Longrightarrow> agt_step env w w'"
| ready: "make_inready a w = Some w' \<Longrightarrow> agt_step env w w'"
| process: "calm_input env m w \<Longrightarrow> agt_ses_process_first_ready env now m w = Some (b, w') \<Longrightarrow> agt_step env w w'"
| timeouts: "(\<And>a. unqueued a w) \<Longrightarrow> agt_ses_check_timeouts env now w = Some w' \<Longrightarrow> agt_step env w w'"
| drop: "unqueued a w \<Longrightarrow> agt_ses_kill_session env (Some a) k r w = Some w' \<Longrightarrow> agt_step env w w'"
| other: "agt_step env w (w\<lparr>ncx := n\<rparr>)"

definition agt_start :: "'f ncx_state \<Rightarrow> 'f agt_world" where
  "agt_start n = \<lparr>ncx = n, blocks = (\<lambda>_. None), next_block = 0, agtses = (\<lambda>_. None), next_sesid = 1,
     fd_map = def_reg_init \<lparr>topht = (\<lambda>_. []), def_reg_init_done = False\<rparr>,
     ready = dlq_createSQue Ready_head (\<lambda>_. \<lparr>hdr_typ = DLQ_NULL_NODE, prev = None, next = None\<rparr>),
     last_timeout_check = 0, active_sessions = 0, closed_sessions = 0, failed_sessions = 0, inBadHellos = 0,
     inSessions = 0, droppedSessions = 0, total_inBadRpcs = 0, session_ends = []\<rparr>"

inductive agt_reach :: "'f agt_env \<Rightarrow> 'f agt_world \<Rightarrow> bool" for env where
  start: "agt_reach env (agt_start n)"
| step: "agt_reach env w \<Longrightarrow> agt_step env w w' \<Longrightarrow> agt_reach env w'"


lemma start_ok: "agt_ok env (agt_start n)" if "1 < max_sessions env"
proof -
  have r: "reg_ok (fd_map (agt_start n))" by (simp add: agt_start_def reg_ok_init)
  then have "def_reg_find_scb fd (fd_map (agt_start n)) = None" for fd
    by (simp add: find_scb_None) (simp add: agt_start_def find_init)
  then have "fds_ok (agt_start n)" using r by (simp add: fds_ok_def) (simp add: agt_start_def)
  moreover have "ready_ok (agt_start n)"
    unfolding ready_ok_def by (intro exI [of _ "[]"]) (simp add: agt_start_def queue_new)
  ultimately show ?thesis using that by (simp add: agt_ok_def table_ok_def counts_ok_def agt_start_def)
qed

section \<open>Sessions that are freed too early\<close>

lemma upd_scb_some [simp]: "blocks w a = Some s \<Longrightarrow> upd_scb a f w = Some (w\<lparr>blocks := (blocks w)(a \<mapsto> f s)\<rparr>)"
  by (simp add: upd_scb_def)

lemma state_set_state [simp]:
  "state_of (set_state st s) = st" "type_of (set_state st s) = type_of s" "sid_of (set_state st s) = sid_of s"
  "outQ (io (set_state st s)) = outQ (io s)"
  by (simp_all add: set_state_def)

text \<open>A partial step that goes through and leaves the session or frees it.\<close>

definition ends_with :: "nat \<Rightarrow> bool \<Rightarrow> 'f agt_world option \<Rightarrow> bool" where
  "ends_with a freed m \<longleftrightarrow> (\<exists>w. m = Some w \<and> (blocks w a = None) = freed)"

lemma ends_with_Some [simp]: "ends_with a freed (Some w) \<longleftrightarrow> (blocks w a = None) = freed"
  by (simp add: ends_with_def)

lemma kill_frees:
  assumes "calm env a w" "blocks w a = Some s"
  shows "ends_with a True (agt_ses_kill_session env (Some a) k r w)"
proof -
  have t: "type_of s = SES_TYP_NETCONF" "\<not> in_inq (io s)"
    using assms table_at [of env w a s] by (auto simp: calm_def unqueued_def)
  have "agt_ses_free_session env a (w\<lparr>ncx := n, session_ends := es\<rparr>) = Some (without env a s (w\<lparr>ncx := n, session_ends := es\<rparr>))" for n es
    using assms(2) t by (intro free_session_eq) simp_all
  then show ?thesis using assms(2) t by (simp add: agt_ses_kill_session_def without_blocks Let_def)
qed

lemma calm_upd: "calm env a w \<Longrightarrow> blocks w a = Some s \<Longrightarrow> mild f \<Longrightarrow> calm env a (w\<lparr>blocks := (blocks w)(a \<mapsto> f s)\<rparr>)"
  using fine_calm fine_upd upd_scb_some by blast

lemma close_ends:
  assumes "calm env a w" "blocks w a = Some s" "outQ (io s) = []"
  shows "ends_with a (state_of s \<notin> {SES_ST_IN_MSG, SES_ST_HELLO_WAIT}) (agt_ses_request_close env (Some a) k r w)"
proof -
  have t: "type_of s \<noteq> SES_TYP_DUMMY" using assms(1,2) table_at [of env w a s] by (auto simp: calm_def)
  let ?w1 = "w\<lparr>blocks := (blocks w)(a \<mapsto> s\<lparr>killedbysid := k, termreason := r\<rparr>)\<rparr>"
  have "calm env a ?w1" using calm_upd [OF assms(1,2) mild_simps(2) [of r k]] by simp
  then have "ends_with a True (agt_ses_kill_session env (Some a) k r ?w1)" by (intro kill_frees) auto
  then show ?thesis using assms(2,3) t by (auto simp: agt_ses_request_close_def)
qed

fun frees_early :: "ses_state_t \<Rightarrow> xml_nodetyp_t \<Rightarrow> 'f top_handler \<Rightarrow> bool" where
  "frees_early st nt (Top_hello _ _) \<longleftrightarrow> st \<in> {SES_ST_INIT, SES_ST_IDLE}"
| "frees_early st nt (Top_connect _ _ _ _ _) \<longleftrightarrow> st = SES_ST_IDLE \<and> nt = XML_NT_EMPTY"
| "frees_early st nt (Top_rpc rq) \<longleftrightarrow> st = SES_ST_INIT \<or> st = SES_ST_IDLE \<and> (is_no_mem rq \<or> nt \<noteq> XML_NT_START)"

lemma calm_counted [simp]:
  "calm env a (w\<lparr>droppedSessions := d\<rparr>) = calm env a w" "calm env a (w\<lparr>inBadHellos := b\<rparr>) = calm env a w"
  "calm env a (bad_rpc w) = calm env a w" "blocks (bad_rpc w) = blocks w"
  by (simp_all add: bad_rpc_def calm_def unqueued_def agt_ok_def table_ok_def fds_ok_def ready_ok_def counts_ok_def)

lemma check_hello_some:
  assumes "blocks w a = Some s"
  obtains res w1 where "check_manager_hello env caps a w = Some (res, w1)"
    "w1 = w \<or> (\<exists>p. w1 = w\<lparr>blocks := (blocks w)(a \<mapsto> s\<lparr>io := snd (ses_set_protocol p (io s))\<rparr>)\<rparr>)"
proof (cases "check_manager_hello env caps a w")
  case None
  then show ?thesis using assms by (auto simp: check_manager_hello_def split: option.splits if_splits)
next
  case (Some x)
  then show ?thesis
    using assms by (intro that [of "fst x" "snd x"]) (auto simp: check_manager_hello_def split: option.splits if_splits)
qed

lemma hello_ends:
  assumes c: "calm env a w" "blocks w a = Some s" "outQ (io s) = []" "state_of s \<in> {SES_ST_INIT, SES_ST_HELLO_WAIT, SES_ST_IDLE}"
  shows "ends_with a (state_of s \<noteq> SES_ST_HELLO_WAIT) (agt_hello_dispatch env now parsed caps a w)"
proof (cases "state_of s = SES_ST_HELLO_WAIT")
  case False
  then show ?thesis
    using close_ends [of env a "w\<lparr>inBadHellos := inBadHellos w + 1, droppedSessions := droppedSessions w + 1\<rparr>" s] c
    by (auto simp: agt_hello_dispatch_def)
next
  case True
  obtain res w1 s1 where k: "(if parsed = NO_ERR then check_manager_hello env caps a w else Some (parsed, w)) = Some (res, w1)"
      "blocks w1 a = Some s1" "state_of s1 = SES_ST_HELLO_WAIT" "outQ (io s1) = []" "calm env a w1"
  proof (cases "parsed = NO_ERR")
    case False
    then show ?thesis using that c True by simp
  next
    case parsed: True
    obtain res w1 where h: "check_manager_hello env caps a w = Some (res, w1)"
        "w1 = w \<or> (\<exists>p. w1 = w\<lparr>blocks := (blocks w)(a \<mapsto> s\<lparr>io := snd (ses_set_protocol p (io s))\<rparr>)\<rparr>)"
      by (rule check_hello_some [OF c(2)])
    have "ses_state (snd (ses_set_protocol p (io s))) = ses_state (io s)" "outQ (snd (ses_set_protocol p (io s))) = outQ (io s)" for p
      by (simp_all add: ses_set_protocol_def Let_def)
    then show ?thesis using h c True parsed that [of res w1] calm_upd [OF c(1,2) mild_protocol] by auto
  qed
  have "ends_with a False (agt_ses_request_close env (Some a) (sid_of s) SES_TR_BAD_HELLO
      (w1\<lparr>inBadHellos := inBadHellos w1 + 1, droppedSessions := droppedSessions w1 + 1\<rparr>))"
    using close_ends [of env a "w1\<lparr>inBadHellos := inBadHellos w1 + 1, droppedSessions := droppedSessions w1 + 1\<rparr>" s1] k by simp
  then show ?thesis using True c(2) k(1,2) by (simp add: agt_hello_dispatch_def)
qed

lemma close_stays:
  assumes "blocks w a = Some s" "state_of s \<in> {SES_ST_IN_MSG, SES_ST_HELLO_WAIT}"
  shows "ends_with a False (agt_ses_request_close env (Some a) k r w)"
  using assms by (auto simp: agt_ses_request_close_def)

text \<open>A step of \<^verbatim>\<open>agt_connect_dispatch\<close> that leaves the session in the middle of its message.\<close>

definition in_msg :: "nat \<Rightarrow> (status_t \<times> 'f agt_world) option \<Rightarrow> bool" where
  "in_msg a m \<longleftrightarrow> (\<exists>r w s. m = Some (r, w) \<and> blocks w a = Some s \<and> state_of s = SES_ST_IN_MSG)"

lemma in_msg_Some [simp]: "in_msg a (Some (r, w)) \<longleftrightarrow> (\<exists>s. blocks w a = Some s \<and> state_of s = SES_ST_IN_MSG)"
  by (simp add: in_msg_def)

lemma in_msg_bind:
  "in_msg a m \<Longrightarrow> (\<And>r w s. blocks w a = Some s \<Longrightarrow> state_of s = SES_ST_IN_MSG \<Longrightarrow> ends_with a False (f (r, w))) \<Longrightarrow>
     ends_with a False (Option.bind m f)"
  unfolding in_msg_def by auto

lemma connect_ends:
  assumes c: "calm env a w" "blocks w a = Some s" "outQ (io s) = []" "state_of s \<in> {SES_ST_INIT, SES_ST_HELLO_WAIT, SES_ST_IDLE}"
  shows "ends_with a (state_of s = SES_ST_IDLE \<and> nt = XML_NT_EMPTY)
    (agt_connect_dispatch env now nt attr memu mema added sent a w)"
proof (cases "nt = XML_NT_EMPTY \<and> state_of s \<noteq> SES_ST_INIT")
  case True
  then show ?thesis using close_ends [OF c(1-3)] c(2,4) by (auto simp: agt_connect_dispatch_def Let_def)
next
  case False
  have "ends_with a False (agt_connect_dispatch env now nt attr memu mema added sent a w)"
    unfolding agt_connect_dispatch_def Let_def
    apply (simp only: c(2) bind.bind_lunit)
    apply (rule in_msg_bind)
    subgoal using False c(2) by auto
    apply (simp only: prod.case)
    apply (rule in_msg_bind)
    subgoal by (simp split: option.split)
    apply (simp only: prod.case)
    apply (rule in_msg_bind)
    subgoal by (simp split: option.split)
    apply (simp only: prod.case)
    apply (rule in_msg_bind)
    subgoal by simp
    subgoal for r1 w1 s1 r2 w2 s2 r3 w3 s3 r4 w4 s4
      by (cases "r4 = NO_ERR") (simp_all add: close_stays)
    done
  then show ?thesis using False by auto
qed

lemma op_stays:
  assumes ok: "calm env a w" "blocks w a = Some s" "calm_op env rop w" "state_of s = SES_ST_IN_MSG"
  shows "ends_with a False (run_op env a rop w)"
proof (cases rop)
  case Close_session
  then show ?thesis using assms by (simp add: run_op_def close_session_invoke_def close_stays)
next
  case (Kill_session sid)
  show ?thesis
  proof (cases "kill_session_validate env (sid_of s) sid w = NO_ERR \<and> sid > 0")
    case True
    then have v: "sid \<noteq> sid_of s" "agtses w sid \<noteq> None" "sid < max_sessions env"
      by (auto simp: kill_session_validate_def agt_ses_session_id_valid_def split: if_splits)
    then obtain b t where b: "agtses w sid = Some b" "blocks w b = Some t" "sid_of t = sid"
      using table_slot [of env w sid] ok(1) by (auto simp: calm_def)
    then have ne: "b \<noteq> a" using v ok(2) by auto
    have t: "type_of t = SES_TYP_NETCONF" "\<not> in_inq (io t)"
      using b ok(1,3) Kill_session table_at [of env w b t] by (auto simp: calm_def unqueued_def)
    have "agt_ses_free_session env b (w\<lparr>ncx := n, session_ends := es\<rparr>) = Some (without env b t (w\<lparr>ncx := n, session_ends := es\<rparr>))" for n es
      using b t by (intro free_session_eq) simp_all
    then have "ends_with a False (agt_ses_kill_session env (Some b) k r w)" for k r
      using b t ne ok(2) by (simp add: agt_ses_kill_session_def without_blocks Let_def)
    then show ?thesis using True Kill_session ok(2) b v
      by (simp add: run_op_def kill_session_invoke_def agt_ses_get_session_for_id_def)
  next
    case False
    then show ?thesis
      using Kill_session ok(2)
      by (auto simp: run_op_def kill_session_invoke_def agt_ses_get_session_for_id_def agt_ses_kill_session_def)
  qed
next
  case (On_ncx f)
  then show ?thesis using ok(2) by (simp add: run_op_def)
qed

lemma rpc_ends:
  assumes c: "calm env a w" "blocks w a = Some s" "outQ (io s) = []" "state_of s \<in> {SES_ST_INIT, SES_ST_HELLO_WAIT, SES_ST_IDLE}"
    and q: "\<And>res rop. rq = Rpc_call res rop \<Longrightarrow> calm_op env rop w"
  shows "ends_with a (state_of s = SES_ST_INIT \<or> state_of s = SES_ST_IDLE \<and> (is_no_mem rq \<or> nt \<noteq> XML_NT_START))
    (agt_rpc_dispatch env now nt rq a w)"
proof (cases "state_of s = SES_ST_IDLE \<and> \<not> is_no_mem rq")
  case False
  have t: "type_of s \<noteq> SES_TYP_DUMMY" using c(1,2) table_at [of env w a s] by (auto simp: calm_def)
  show ?thesis
    using False t c close_ends [of env a "bad_rpc w" s] close_ends [of env a "w\<lparr>droppedSessions := droppedSessions w + 1\<rparr>" s]
    by (auto simp: agt_rpc_dispatch_def)
next
  case idle: True
  show ?thesis
  proof (cases "nt = XML_NT_START")
    case False
    let ?w = "(bad_rpc w)\<lparr>blocks := (blocks w)(a \<mapsto> s\<lparr>inBadRpcs := inBadRpcs s + 1\<rparr>)\<rparr>"
    have "calm env a ?w" using calm_upd [of env a "bad_rpc w" s, OF _ _ mild_simps(7)] c by simp
    then have "ends_with a True (agt_ses_request_close env (Some a) (sid_of s) SES_TR_OTHER ?w)"
      using close_ends [of env a ?w "s\<lparr>inBadRpcs := inBadRpcs s + 1\<rparr>"] c idle by simp
    then show ?thesis using False idle c(2) by (simp add: agt_rpc_dispatch_def)
  next
    case start: True
    show ?thesis
    proof (cases rq)
      case (Rpc_call res rop)
      let ?s = "set_state SES_ST_IN_MSG (s\<lparr>last_rpc_time := now\<rparr>)"
      let ?w = "w\<lparr>blocks := (blocks w)(a \<mapsto> ?s)\<rparr>"
      have "calm_op env rop w" using q [OF Rpc_call] .
      then have "calm_op env rop ?w" using c(1,2) by (cases rop) (auto simp: unqueued_def calm_def set_state_def)
      moreover have "calm env a ?w" using calm_upd [OF c(1,2) mild_simps(8) [of SES_ST_IN_MSG now]] .
      moreover have "blocks ?w a = Some ?s" by simp
      ultimately have "ends_with a False (run_op env a rop ?w)" using op_stays [of env a ?w ?s rop] state_set_state(1) by blast
      then have "ends_with a False (if res = NO_ERR then run_op env a rop ?w else Some ?w)" by simp
      then obtain w1 s1 where "(if res = NO_ERR then run_op env a rop ?w else Some ?w) = Some w1" "blocks w1 a = Some s1"
        by (auto simp: ends_with_def)
      then show ?thesis using start idle c(2) Rpc_call by (simp add: agt_rpc_dispatch_def)
    qed (use start idle c(2) in \<open>simp_all add: agt_rpc_dispatch_def\<close>)
  qed
qed

lemma handler_ends:
  assumes "calm env a w" "blocks w a = Some s" "outQ (io s) = []" "state_of s \<in> {SES_ST_INIT, SES_ST_HELLO_WAIT, SES_ST_IDLE}"
    "calm_input env m w" "m_handler m = Some hdl"
  shows "ends_with a (frees_early (state_of s) (m_nodetyp m) hdl) (run_handler env now (m_nodetyp m) hdl a w)"
proof (cases hdl)
  case Top_connect
  then show ?thesis using connect_ends [OF assms(1-4)] by simp
next
  case Top_hello
  then show ?thesis using hello_ends [OF assms(1-4)] assms(4) by (auto simp: ends_with_def)
next
  case (Top_rpc rq)
  then show ?thesis using rpc_ends [OF assms(1-4), of rq] assms(5,6) by (simp add: calm_input_def)
qed

lemma make_inready_some:
  assumes "agt_ok env w" "blocks w a = Some s"
  shows "\<exists>w'. make_inready a w = Some w'"
proof (cases "in_inq (io s)")
  case True
  then show ?thesis using assms(2) by (simp add: make_inready_def)
next
  case False
  obtain xs where q: "queue (ready w) Ready_head (map Ready_of xs)"
      "\<And>b. b \<in> set xs \<longleftrightarrow> (\<exists>s. blocks w b = Some s \<and> in_inq (io s))"
    using assms(1) by (auto simp: agt_ok_def ready_ok_def)
  then have "Ready_of a \<notin> set (Ready_head # map Ready_of xs)" using assms(2) False by auto
  then obtain h' where "dlq_enque (Ready_of a) Ready_head (ready w) = Some h'"
    by (rule queue_enque [OF q(1)])
  then show ?thesis using False assms(2) by (simp add: make_inready_def)
qed

lemma finish_message_some:
  assumes "agt_ok env w" "blocks w a = Some s"
  shows "\<exists>w'. finish_message a w = Some w'"
proof -
  let ?f = "\<lambda>s :: agt_scb. s\<lparr>io := (case msgQ (io s) of [] \<Rightarrow> io s | x # xs \<Rightarrow> ses_msg_free_msg x ((io s)\<lparr>msgQ := xs\<rparr>))\<rparr>"
  let ?w = "w\<lparr>blocks := (blocks w)(a \<mapsto> ?f s)\<rparr>"
  have "agt_ok env ?w" using fine_ok [OF fine_upd [OF mild_free_msg upd_scb_some [OF assms(2)]] assms(1)] .
  then obtain w' where "make_inready a ?w = Some w'" using make_inready_some [of env ?w a "?f s"] by auto
  then show ?thesis using assms(2) unfolding finish_message_def by (auto split: list.split)
qed

text \<open>The part of \<^verbatim>\<open>agt_ses_process_first_ready\<close> that follows the reader.\<close>

definition dispatch_and_finish :: "'f agt_env \<Rightarrow> int \<Rightarrow> 'f ses_input \<Rightarrow> nat \<Rightarrow> 'f agt_world \<Rightarrow> 'f agt_world option" where
  "dispatch_and_finish env now m a w =
     do { (q, w) \<leftarrow> agt_top_dispatch_msg env now m a w; case q of None \<Rightarrow> Some w | Some a \<Rightarrow> finish_message a w }"

section \<open>An agent with one session\<close>

definition sample_env :: "val_value agt_env" where
  "sample_env = \<lparr>nenv = plain_env, max_sessions = 1024, idle_timeout = 3600, hello_timeout = 600, stream_out = True,
     ssh_ports = [], proto10 = True, proto11 = True\<rparr>"

definition sample_world :: "val_value ncx_state \<Rightarrow> val_value agt_world" where
  "sample_world n = snd (the (agt_ses_new_session sample_env True True True True SES_TRANSPORT_SSH 7 (agt_start n)))"

lemma sample_env_sel [simp]: "max_sessions sample_env = 1024" "stream_out sample_env" "nenv sample_env = plain_env"
  by (simp_all add: sample_env_def)

lemma agt_start_sel [simp]:
  "next_sesid (agt_start n) = 1" "blocks (agt_start n) a = None" "agtses (agt_start n) s = None" "next_block (agt_start n) = 0"
  "ncx (agt_start n) = n" "ready (agt_start n) = dlq_createSQue Ready_head (\<lambda>_. \<lparr>hdr_typ = DLQ_NULL_NODE, prev = None, next = None\<rparr>)"
  by (simp_all add: agt_start_def)

lemma start_fd: "def_reg_find_scb fd (fd_map (agt_start n)) = None" for n :: "val_value ncx_state"
  using start_ok [of sample_env n] by (simp add: agt_ok_def fds_ok_def)

lemma sample_world:
  obtains s where "agt_ok sample_env (sample_world n)" "blocks (sample_world n) 0 = Some s" "sid_of s = 1" "state_of s = SES_ST_INIT"
    "\<not> in_inq (io s)" "type_of s = SES_TYP_NETCONF" "ncx (sample_world n) = n"
    "queue (ready (sample_world n)) Ready_head (map Ready_of [])" "outQ (io s) = []"
    "agt_ses_new_session sample_env True True True True SES_TRANSPORT_SSH 7 (agt_start n) = Some (Some 0, sample_world n)"
proof -
  have ok: "agt_ok sample_env (agt_start n)" by (simp add: start_ok)
  have slot: "(1 :: u32) = (if next_sesid (agt_start n) = 0 then free_slot sample_env (agt_start n) else next_sesid (agt_start n))"
    by simp
  obtain s :: agt_scb and w' where n: "agt_ses_new_session sample_env True True True True SES_TRANSPORT_SSH 7 (agt_start n) =
      Some (Some (next_block (agt_start n)), w')" "blocks w' = (blocks (agt_start n))(next_block (agt_start n) \<mapsto> s)"
      "ready w' = ready (agt_start n)" "ncx w' = ncx (agt_start n)" "sid_of s = 1" "type_of s = SES_TYP_NETCONF"
      "state_of s = SES_ST_INIT" "\<not> in_inq (io s)" "outQ (io s) = []"
    by (rule new_session_eq [OF ok _ start_fd slot, of 7 SES_TRANSPORT_SSH]) auto
  then have w': "sample_world n = w'" by (simp add: sample_world_def)
  have "agt_ok sample_env w'" using new_session_ok [OF ok _ start_fd n(1)] by simp
  moreover have "queue (ready w') Ready_head (map Ready_of [])" using n(3) queue_new by (simp add: agt_start_def)
  ultimately show ?thesis using that n w' by simp
qed

lemma links_unique:
  assumes "links h (x # xs @ [q])" "links h (x # ys @ [q])" "q \<notin> set xs" "q \<notin> set ys"
  shows "xs = ys"
  using assms
proof (induction xs arbitrary: x ys)
  case Nil
  then show ?case by (cases ys) auto
next
  case (Cons a xs)
  then show ?case by (cases ys) auto
qed

lemma queue_unique: "queue h q xs \<Longrightarrow> queue h q ys \<Longrightarrow> xs = ys"
  unfolding queue_def using links_unique [of h q xs q ys] by simp

section \<open>Properties\<close>

text \<open>
  C1: whatever connections come and go and whatever messages are dispatched, the session table stays
  consistent.  The table and the sessions in memory name each other, the ID of a session is its slot and neither 0 nor beyond
  the limit, the IDs that have not been used are free, the registry finds a session exactly by the file descriptor of an open
  one, the ready queue is a proper queue of exactly the sessions that are marked, and the number of active
  sessions is the number of used slots, which with the closed and the failed ones makes all that were accepted.  It is
  assumed that memory does not run out while a session is created and that a session that is ended is not
  on the ready queue.
\<close>
theorem sessions_consistent:
  assumes "agt_reach env w" "1 < max_sessions env"
  shows "agt_ok env w"
  using assms(1)
proof induction
  case (start n)
  then show ?case using start_ok [OF assms(2)] .
next
  case (step w w')
  from step.hyps(2) show ?case
  proof cases
    case (accept fd mem tr p)
    then show ?thesis using new_session_ok step.IH by blast
  next
    case (data f a)
    then show ?thesis using fine_ok fine_upd step.IH by blast
  next
    case (ready a)
    then show ?thesis using make_inready_ok step.IH by blast
  next
    case (process m now b)
    then show ?thesis using process_ok step.IH by blast
  next
    case (timeouts now)
    then show ?thesis using timeouts_ok step.IH by blast
  next
    case (drop a k r)
    then have "steps_fine env w (agt_ses_kill_session env (Some a) k r w)"
      using step.IH by (intro steps_fine_kill) (simp_all add: calm_def)
    then show ?thesis using drop step.IH fine_ok unfolding steps_fine_def by blast
  next
    case (other n)
    then show ?thesis using fine_ok [OF fine_other(1) [OF fine_refl] step.IH] by simp
  qed
qed

text \<open>
  C25: while one of the IDs below the limit is free, a new connection gets a session with a nonzero
  ID that no other session has, in the initial state, known by its file descriptor, and no other session is
  touched; otherwise it is refused and nothing changes.
\<close>
theorem new_session_gets_fresh_id:
  assumes ok: "agt_ok env w" and fd: "fd \<noteq> 0" "def_reg_find_scb fd (fd_map w) = None"
  defines "full \<equiv> next_sesid w = 0 \<and> (\<forall>sid. 0 < sid \<longrightarrow> sid < max_sessions env \<longrightarrow> agtses w sid \<noteq> None)"
  shows "if full then agt_ses_new_session env True True True True tr fd w = Some (None, w)
    else \<exists>a w' sid scb. agt_ses_new_session env True True True True tr fd w = Some (Some a, w') \<and>
      0 < sid \<and> sid < max_sessions env \<and> agtses w sid = None \<and> agtses w' = (agtses w)(sid \<mapsto> a) \<and>
      blocks w a = None \<and> blocks w' = (blocks w)(a \<mapsto> scb) \<and> sid_of scb = sid \<and> state_of scb = SES_ST_INIT \<and>
      def_reg_find_scb fd (fd_map w') = Some a"
proof (cases "(if next_sesid w = 0 then free_slot env w else next_sesid w) = 0")
  case True
  then have z: "next_sesid w = 0" "free_slot env w = 0" by (auto split: if_splits)
  have "agtses w sid \<noteq> None" if "0 < sid" "sid < max_sessions env" for sid
  proof
    assume n: "agtses w sid = None"
    have u: "unat sid \<in> set [1..<unat (max_sessions env)]" using that by (auto simp: word_less_nat_alt)
    moreover have "agtses w (of_nat (unat sid)) = None" using n by simp
    ultimately obtain i where f: "find (\<lambda>i. agtses w (of_nat i) = None) [1..<unat (max_sessions env)] = Some i"
      by (cases "find (\<lambda>i. agtses w (of_nat i) = None) [1..<unat (max_sessions env)]") (auto simp: find_None_iff)
    then have "0 < i" "i < unat (max_sessions env)" by (auto simp: find_Some_iff nth_append)
    moreover from this have "i < 2 ^ 32" using unsigned_less [of "max_sessions env", where 'a = nat] by simp
    ultimately have "(of_nat i :: u32) \<noteq> 0" by (simp add: word_unat_eq_iff unat_of_nat)
    then show False using z(2) f by (simp add: free_slot_def)
  qed
  then show ?thesis using z by (simp add: full_def agt_ses_new_session_def)
next
  case False
  let ?slot = "if next_sesid w = 0 then free_slot env w else next_sesid w"
  note free = next_slot_free [OF ok refl False]
  have nf: "\<not> full" using free False unfolding full_def by (cases "next_sesid w = 0") (auto simp: word_gt_0)
  obtain scb w' where n: "agt_ses_new_session env True True True True tr fd w = Some (Some (next_block w), w')"
    "blocks w' = (blocks w)(next_block w \<mapsto> scb)" "agtses w' = (agtses w)(?slot \<mapsto> next_block w)"
    "fd_map w' = snd (def_reg_add_scb True True fd (next_block w) (fd_map w))" "sid_of scb = ?slot" "state_of scb = SES_ST_INIT"
    by (rule new_session_eq [OF ok fd refl False]) blast
  moreover have "blocks w (next_block w) = None" using table_at [OF ok] by (cases "blocks w (next_block w)") auto
  moreover have "def_reg_find_scb fd (fd_map w') = Some (next_block w)"
    unfolding n(4) using ok fd(2) by (subst fdreg.find_add) (simp_all add: agt_ok_def fds_ok_def)
  moreover have "0 < ?slot" using False by (simp add: word_gt_0)
  ultimately have "\<exists>a w' sid scb. agt_ses_new_session env True True True True tr fd w = Some (Some a, w') \<and>
      0 < sid \<and> sid < max_sessions env \<and> agtses w sid = None \<and> agtses w' = (agtses w)(sid \<mapsto> a) \<and>
      blocks w a = None \<and> blocks w' = (blocks w)(a \<mapsto> scb) \<and> sid_of scb = sid \<and> state_of scb = SES_ST_INIT \<and>
      def_reg_find_scb fd (fd_map w') = Some a"
    using free by (intro exI [of _ "next_block w"] exI [of _ w'] exI [of _ ?slot] exI [of _ scb]) blast
  then show ?thesis using nf by simp
qed




text \<open>
  C27: a session that has a message waiting can be ended by another one, by a timeout or
  by its own connection.  \<^verbatim>\<open>ses_msg_unmake_inready\<close> then gives the header of the session to \<^verbatim>\<open>dlq_deque\<close>, which
  removes what follows it.  When it is the last of the ready queue this is the queue itself: the session is freed
  while it is still linked, and neither can a session be taken from the queue any more nor can one become ready.
\<close>
theorem killing_ready_session_breaks_queue:
  assumes ok: "agt_ok env w" and a: "blocks w a = Some s"
    and q: "queue (ready w) Ready_head (map Ready_of (xs @ [a]))"
  shows "\<exists>w'. agt_ses_kill_session env (Some a) k r w = Some w' \<and> blocks w' a = None \<and>
    ses_msg_get_first_inready w' = None \<and>
    (\<forall>b t. blocks w' b = Some t \<longrightarrow> \<not> in_inq (io t) \<longrightarrow> make_inready b w' = None)"
proof -
  obtain ys where y: "queue (ready w) Ready_head (map Ready_of ys)"
      "\<And>b. b \<in> set ys \<longleftrightarrow> (\<exists>s. blocks w b = Some s \<and> in_inq (io s))"
    using ok by (auto simp: agt_ok_def ready_ok_def)
  have "Ready_of a \<in> set (map Ready_of ys)" using queue_unique [OF y(1) q] by simp
  then have "a \<in> set ys" by auto
  then have inq: "in_inq (io s)" using y(2) [of a] a by auto
  have t: "type_of s \<noteq> SES_TYP_DUMMY" using table_at [OF ok a] by simp
  obtain h' where h': "dlq_deque (Ready_of a) (ready w) = Some (Some Ready_head, h')"
      "\<And>n. n \<noteq> Ready_head \<Longrightarrow> dlq_enque n Ready_head h' = None" "dlq_deque Ready_head h' = None"
    using deque_last_breaks_queue [of "ready w" Ready_head "map Ready_of xs" "Ready_of a"] q by auto
  have "\<exists>w'. agt_ses_kill_session env (Some a) k r w = Some w' \<and> blocks w' a = None \<and> ready w' = h'"
    using a t inq h'(1)
    by (simp add: agt_ses_kill_session_def agt_ses_free_session_def ses_msg_unmake_inready_def upd_scb_def Let_def)
  then show ?thesis using h' by (auto simp: ses_msg_get_first_inready_def make_inready_def)
qed

theorem killing_ready_session_breaks_queue_witness:
  "\<exists>w'. agt_ses_kill_session sample_env (Some 0) 2 SES_TR_KILLED (the (make_inready 0 (sample_world (agent (boot free_config))))) =
     Some w' \<and> ses_msg_get_first_inready w' = None"
proof -
  obtain s where s: "agt_ok sample_env (sample_world (agent (boot free_config)))"
      "blocks (sample_world (agent (boot free_config))) 0 = Some s" "\<not> in_inq (io s)"
      "queue (ready (sample_world (agent (boot free_config)))) Ready_head (map Ready_of [])"
    by (rule sample_world)
  obtain h' where h': "dlq_enque (Ready_of 0) Ready_head (ready (sample_world (agent (boot free_config)))) = Some h'"
      "queue h' Ready_head (map Ready_of [] @ [Ready_of 0])"
    by (rule queue_enque [OF s(4), of "Ready_of 0"]) simp
  obtain w where w: "make_inready 0 (sample_world (agent (boot free_config))) = Some w" "ready w = h'" "blocks w 0 = Some (set_inq True s)"
    using s h'(1) by (auto simp: make_inready_def)
  have "queue (ready w) Ready_head (map Ready_of ([] @ [0]))" using w(2) h'(2) by simp
  from killing_ready_session_breaks_queue [OF make_inready_ok [OF s(1) w(1)] w(3) this, of 2 SES_TR_KILLED] show ?thesis
    using w(1) by auto
qed

text \<open>
  C30: a session that sends something that is not XML or an unknown element is freed without being
  killed.  Its end is not announced and a confirmed commit that only it could confirm is not cancelled, unlike when it is killed:
  it stays active with a session that is gone until its timeout.
\<close>
theorem unparsable_message_keeps_commit:
  assumes c: "calm env a w" "blocks w a = Some s" and m: "m_parse m \<noteq> NO_ERR \<or> m_nodetyp m \<in> {XML_NT_START, XML_NT_EMPTY} \<and> m_handler m = None"
    and cc: "cc_active (commit_cb (ncx w))" "cc_ses_id (commit_cb (ncx w)) = sid_of s" "cc_persist_id (commit_cb (ncx w)) = None"
  shows "\<exists>w'. agt_top_dispatch_msg env now m a w = Some (None, w') \<and> blocks w' a = None \<and> agtses w' (sid_of s) = None \<and>
      session_ends w' = session_ends w \<and> cc_active (commit_cb (ncx w')) \<and> cc_ses_id (commit_cb (ncx w')) = sid_of s"
proof -
  let ?s = "s\<lparr>inBadRpcs := inBadRpcs s + 1\<rparr>"
  let ?w = "(bad_rpc w)\<lparr>blocks := (blocks w)(a \<mapsto> ?s)\<rparr>"
  have "agt_ses_free_session env a ?w = Some (without env a ?s ?w)"
    using c table_at [of env w a s] by (intro free_session_eq) (auto simp: calm_def unqueued_def)
  then have "bad_msg env a w = Some (None, without env a ?s ?w)" using c(2) by (simp add: bad_msg_def)
  then have "agt_top_dispatch_msg env now m a w = Some (None, without env a ?s ?w)" using m by (auto simp: agt_top_dispatch_msg_def)
  then show ?thesis using cc by (simp add: without_def bad_rpc_def)
qed

theorem unparsable_message_keeps_commit_witness:
  "\<exists>w'. agt_top_dispatch_msg sample_env 0 \<lparr>m_reader = NO_ERR, m_parse = ERR_XML_READER_EOF, m_nodetyp = XML_NT_NONE, m_handler = None\<rparr>
      0 (sample_world (upd_cc (\<lambda>c. c\<lparr>cc_active := True, cc_ses_id := 1\<rparr>) (agent (boot free_config)))) = Some (None, w') \<and>
    agtses w' 1 = None \<and> cc_active (commit_cb (ncx w')) \<and> cc_ses_id (commit_cb (ncx w')) = 1"
proof -
  let ?n = "upd_cc (\<lambda>c. c\<lparr>cc_active := True, cc_ses_id := 1\<rparr>) (agent (boot free_config))"
  let ?m = "\<lparr>m_reader = NO_ERR, m_parse = ERR_XML_READER_EOF, m_nodetyp = XML_NT_NONE, m_handler = None\<rparr> :: val_value ses_input"
  obtain s where s: "agt_ok sample_env (sample_world ?n)" "blocks (sample_world ?n) 0 = Some s" "\<not> in_inq (io s)" "sid_of s = 1"
      "ncx (sample_world ?n) = ?n"
    by (rule sample_world [of ?n])
  then have "calm sample_env 0 (sample_world ?n)" by (simp add: calm_def unqueued_def)
  from unparsable_message_keeps_commit [OF this s(2), of ?m 0] show ?thesis
    using s by (auto simp: upd_cc_def clear_commit_cb_def)
qed


theorem new_session_gets_fresh_id_witness:
  "\<exists>a w'. agt_ses_new_session sample_env True True True True SES_TRANSPORT_SSH 7 (agt_start (agent (boot free_config))) = Some (Some a, w')"
proof -
  have "agt_ok sample_env (agt_start (agent (boot free_config)))" by (simp add: start_ok)
  from new_session_gets_fresh_id [OF this _ start_fd, of 7 SES_TRANSPORT_SSH] show ?thesis
    by (simp split: if_splits) blast
qed

theorem sessions_consistent_witness: "agt_ok sample_env (sample_world (agent (boot free_config)))"
proof -
  have "agt_reach sample_env (sample_world (agent (boot free_config)))"
  proof (rule sample_world [of "agent (boot free_config)"])
    assume "agt_ses_new_session sample_env True True True True SES_TRANSPORT_SSH 7 (agt_start (agent (boot free_config))) =
      Some (Some 0, sample_world (agent (boot free_config)))"
    then show ?thesis by (intro agt_reach.step [OF agt_reach.start] agt_step.accept) (simp_all add: start_fd)
  qed
  from sessions_consistent [OF this] show ?thesis by simp
qed

end
