(* ===== verification/Line_Wrap.thy ===== *)
theory Line_Wrap
  imports Yuma_Prelude
begin

text \<open>
  The character writer that \<^verbatim>\<open>b64_encode\<close> and \<^verbatim>\<open>hex_string_encode\<close> share: it copies characters and adds
  a carriage return and a newline after every \<open>linesize\<close> of them.  Lemmas: what it writes apart from
  the breaks, and how much it writes.
\<close>

text \<open>
  The inner loop over one block: it writes the characters and a line break after every
  \<open>linesize\<close> of them; \<open>wrapindex\<close> is carried from block to block.
\<close>

fun put_block :: "u32 \<Rightarrow> u32 \<Rightarrow> u8 list \<Rightarrow> u8 list \<times> u32" where
  "put_block linesize wrapindex [] = ([], wrapindex)"
| "put_block linesize wrapindex (c # cs) =
     (if linesize \<noteq> 0 \<and> wrapindex + 1 = linesize
      then (let (out, w) = put_block linesize 0 cs in (c # 13 # 10 # out, w))
      else (let (out, w) = put_block linesize (if linesize \<noteq> 0 then wrapindex + 1 else wrapindex) cs
            in (c # out, w)))"

lemma put_block_filter:
  "filter (\<lambda>c. c \<noteq> 13 \<and> c \<noteq> 10) (fst (put_block ls w cs)) = filter (\<lambda>c. c \<noteq> 13 \<and> c \<noteq> 10) cs"
  by (induction ls w cs rule: put_block.induct) (auto split: prod.splits)

lemma put_block_0: "put_block 0 w cs = (cs, w)"
  by (induction cs) auto

lemma unat_Suc32: "(w :: u32) < v \<Longrightarrow> unat (w + 1) = Suc (unat w)"
  using unsigned_less [of v, where 'a=nat] by (simp add: word_less_nat_alt unat_word_ariths)

lemma put_block_length:
  "ls \<noteq> 0 \<Longrightarrow> w < ls \<Longrightarrow>
     length (fst (put_block ls w cs)) = length cs + 2 * ((unat w + length cs) div unat ls) \<and>
     unat (snd (put_block ls w cs)) = (unat w + length cs) mod unat ls \<and>
     snd (put_block ls w cs) < ls"
proof (induction cs arbitrary: w)
  case Nil
  then show ?case by (simp add: word_less_nat_alt)
next
  case (Cons c cs)
  have u: "unat (w + 1) = Suc (unat w)" using Cons.prems(2) by (rule unat_Suc32)
  have pos: "0 < ls" using Cons.prems(1) by (simp add: word_gt_0)
  show ?case
  proof (cases "w + 1 = ls")
    case True
    then have l: "unat ls = Suc (unat w)" using u by simp
    have a: "(Suc (unat w) + length cs) div Suc (unat w) = Suc (length cs div Suc (unat w))"
      "(Suc (unat w) + length cs) mod Suc (unat w) = length cs mod Suc (unat w)"
      using div_add_self1 [of "Suc (unat w)" "length cs"] mod_add_self1 [of "Suc (unat w)" "length cs"]
      by simp_all
    show ?thesis
      using Cons.IH [OF Cons.prems(1) pos] True Cons.prems(1) a unfolding l
      by (simp add: split_beta)
  next
    case False
    then have "Suc (unat w) \<noteq> unat ls" using u by (metis word_unat_eq_iff)
    then have "w + 1 < ls" using Cons.prems(2) u by (simp add: word_less_nat_alt)
    from Cons.IH [OF Cons.prems(1) this] False Cons.prems(1) u show ?thesis
      by (simp add: split_beta)
  qed
qed

end
