(* ===== verification/B64.thy ===== *)
theory B64
  imports Line_Wrap
begin

text \<open>
  The base64 codec of \<^verbatim>\<open>netconf/src/ncx/b64.c\<close>, used for the YANG \<^verbatim>\<open>binary\<close> type.  Buffers are byte
  lists; the output buffer of a call is the list of bytes the call writes from its start, so
  that a write past the buffer's length is visible in the model.
\<close>

section \<open>Tables and character classes\<close>

definition encode_character_table :: "u8 list" where
  "encode_character_table = map of_char
     (''ABCDEFGHIJKLMNOPQRSTUVWXYZ'' @ ''abcdefghijklmnopqrstuvwxyz'' @ ''0123456789+/'')"

text \<open>The entry \<open>-1\<close> of the C table is a signed char; only its low eight bits are ever stored.\<close>

definition decode_character_table :: "u8 list" where
  "decode_character_table =
     replicate 43 (-1) @ [62, -1, -1, -1, 63] @ map of_nat [52..<62] @ replicate 7 (-1) @
     map of_nat [0..<26] @ replicate 6 (-1) @ map of_nat [26..<52] @ replicate 133 (-1)"

definition is_base64 :: "u8 \<Rightarrow> bool" where
  "is_base64 c \<longleftrightarrow>
     (48 \<le> c \<and> c \<le> 57 \<or> 65 \<le> c \<and> c \<le> 90 \<or> 97 \<le> c \<and> c \<le> 122) \<or> c = 43 \<or> c = 47"

fun get_num_valid_characters :: "u8 list \<Rightarrow> u32" where
  "get_num_valid_characters [] = 0"
| "get_num_valid_characters (c # cs) =
     (if is_base64 c then 1 + get_num_valid_characters cs
      else if c = 13 \<or> c = 10 then get_num_valid_characters cs
      else 0)"

abbreviation enc_char :: "u8 \<Rightarrow> u8" where
  "enc_char i \<equiv> encode_character_table ! unat i"

abbreviation dec_char :: "u8 \<Rightarrow> u8" where
  "dec_char c \<equiv> decode_character_table ! unat c"

section \<open>Blocks\<close>

definition decode_bytes :: "u8 list \<Rightarrow> nat \<Rightarrow> u8 list" where
  "decode_bytes b64 n =
     (let d0 = push_bit 2 (dec_char (b64 ! 0)) + drop_bit 4 (dec_char (b64 ! 1) AND 0x30);
          d1 = push_bit 4 (dec_char (b64 ! 1) AND 0xf) + drop_bit 2 (dec_char (b64 ! 2) AND 0x3c);
          d2 = push_bit 6 (dec_char (b64 ! 2) AND 0x3) + dec_char (b64 ! 3)
      in if n = 1 then [d0] else if n = 2 then [d0, d1] else [d0, d1, d2])"

definition encode_3bytes :: "u8 list \<Rightarrow> u8 list" where
  "encode_3bytes data =
     [enc_char (drop_bit 2 (data ! 0 AND 0xfc)),
      enc_char (push_bit 4 (data ! 0 AND 0x03) + drop_bit 4 (data ! 1 AND 0xf0)),
      enc_char (push_bit 2 (data ! 1 AND 0x0f) + drop_bit 6 (data ! 2 AND 0xc0)),
      enc_char (data ! 2 AND 0x3f)]"

definition encode_last_2bytes :: "u8 list \<Rightarrow> u8 list" where
  "encode_last_2bytes data =
     [enc_char (drop_bit 2 (data ! 0 AND 0xfc)),
      enc_char (push_bit 4 (data ! 0 AND 0x03) + drop_bit 4 (data ! 1 AND 0xf0)),
      enc_char (push_bit 2 (data ! 1 AND 0x0f)),
      61]"

definition encode_last_1byte :: "u8 list \<Rightarrow> u8 list" where
  "encode_last_1byte data =
     [enc_char (drop_bit 2 (data ! 0 AND 0xfc)),
      enc_char (push_bit 4 (data ! 0 AND 0x03)),
      61,
      61]"

section \<open>Buffer sizes\<close>

definition b64_get_encoded_str_len :: "u32 \<Rightarrow> u32 \<Rightarrow> u32" where
  "b64_get_encoded_str_len inbufflen linesize =
     (let outbufflen = (if inbufflen mod 3 \<noteq> 0 then 4 * (1 + inbufflen div 3)
                        else 4 * (inbufflen div 3));
          outbufflen = (if linesize \<noteq> 0 then outbufflen + 2 * (inbufflen div linesize)
                        else outbufflen)
      in outbufflen + 1)"

definition b64_get_decoded_str_len :: "u8 list \<Rightarrow> u32" where
  "b64_get_decoded_str_len inbuff =
     (let valid_char_count = get_num_valid_characters inbuff;
          required_buf_len = 3 * (valid_char_count div 4);
          rem = valid_char_count mod 4
      in if rem \<noteq> 0 then required_buf_len + (rem - 1) else required_buf_len)"

section \<open>Encoding\<close>

definition encode_block :: "u8 list \<Rightarrow> u8 list" where
  "encode_block rest =
     (if length rest = 1 then encode_last_1byte rest
      else if length rest = 2 then encode_last_2bytes rest
      else encode_3bytes rest)"

fun b64_encode_loop :: "nat \<Rightarrow> u8 list \<Rightarrow> u32 \<Rightarrow> u32 \<Rightarrow> u8 list" where
  "b64_encode_loop 0 rest linesize wrapindex = []"
| "b64_encode_loop (Suc k) rest linesize wrapindex =
     (let (out, w) = put_block linesize wrapindex (encode_block rest)
      in out @ b64_encode_loop k (drop 3 rest) linesize w)"

text \<open>
  The result is the status, the bytes written to \<open>outbuff\<close> (the terminating NUL included) and
  \<open>*retlen\<close>.
\<close>

definition b64_encode :: "u8 list \<Rightarrow> u32 \<Rightarrow> u32 \<Rightarrow> status_t \<times> u8 list \<times> nat" where
  "b64_encode inbuff outbufflen linesize =
     (let inbufflen = (of_nat (length inbuff) :: u32)
      in if b64_get_encoded_str_len inbufflen linesize > outbufflen
         then (ERR_BUFF_OVFL, [], 0)
         else (let out = b64_encode_loop (unat ((inbufflen + 2) div 3)) inbuff linesize 0
               in (NO_ERR, out @ [0], length out)))"

section \<open>Decoding\<close>

text \<open>
  The loop state is \<open>(b64_4, padding, out)\<close>: the characters of the current block
  (\<open>b64_byte_index\<close> is their number), the number of pad characters of the last block and the bytes
  written so far (\<open>*retlen\<close> is their number).  A step either returns (\<open>Inl\<close>, with the status and the
  bytes written) or goes on (\<open>Inr\<close>).
\<close>

type_synonym b64_state = "u8 list \<times> nat \<times> u8 list"

fun b64_flush :: "u32 \<Rightarrow> b64_state \<Rightarrow> (status_t \<times> u8 list) + b64_state" where
  "b64_flush outbufflen (b64_4, padding, out) =
     (if length b64_4 = 4
      then (if length out + 3 - padding > unat outbufflen then Inl (ERR_BUFF_OVFL, out)
            else Inr ([], padding, out @ decode_bytes b64_4 (3 - padding)))
      else Inr (b64_4, padding, out))"

fun b64_decode_step :: "u32 \<Rightarrow> u8 \<Rightarrow> b64_state \<Rightarrow> (status_t \<times> u8 list) + b64_state" where
  "b64_decode_step outbufflen c (b64_4, padding, out) =
     (if is_base64 c \<and> padding = 0 then b64_flush outbufflen (b64_4 @ [c], padding, out)
      else if c = 13 \<or> c = 10 then b64_flush outbufflen (b64_4, padding, out)
      else if c = 61 \<and> length b64_4 \<ge> 2
      then b64_flush outbufflen
             (b64_4 @ [c], if padding = 0 then 4 - length b64_4 else padding, out)
      else Inl (ERR_NCX_WRONG_TKVAL, out))"

fun b64_decode_loop :: "u32 \<Rightarrow> u8 list \<Rightarrow> b64_state \<Rightarrow> status_t \<times> u8 list" where
  "b64_decode_loop outbufflen [] (b64_4, padding, out) =
     (if b64_4 \<noteq> [] then (ERR_NCX_WRONG_TKVAL, out) else (NO_ERR, out))"
| "b64_decode_loop outbufflen (c # cs) st =
     (case b64_decode_step outbufflen c st of
        Inl result \<Rightarrow> result
      | Inr st' \<Rightarrow> b64_decode_loop outbufflen cs st')"

definition b64_decode :: "u8 list \<Rightarrow> u32 \<Rightarrow> status_t \<times> u8 list" where
  "b64_decode inbuff outbufflen = b64_decode_loop outbufflen inbuff ([], 0, [])"

section \<open>Tables invert each other\<close>


lemma encode_table_eq:
  "encode_character_table = map of_nat ([65..<91] @ [97..<123] @ [48..<58] @ [43, 47])"
  by code_simp

lemma table_nat:
  assumes "n < 64"
  shows "decode_character_table ! unat (encode_character_table ! n) = of_nat n
      \<and> is_base64 (encode_character_table ! n)"
proof -
  consider "n < 26" | "26 \<le> n" "n < 52" | "52 \<le> n" "n < 62" | "n = 62" | "n = 63"
    using assms by linarith
  then show ?thesis
  proof cases
    case 1
    then have "encode_character_table ! n = of_nat (65 + n)"
      by (simp add: encode_table_eq nth_append del: upt_rec_numeral)
    with 1 show ?thesis
      by (simp add: decode_character_table_def nth_append is_base64_def unat_of_nat word_le_nat_alt
          del: of_nat_add upt_rec_numeral)
  next
    case 2
    then have "n - 26 < 26" by arith
    with 2 have "encode_character_table ! n = of_nat (71 + n)"
      by (simp add: encode_table_eq nth_append del: of_nat_add of_nat_diff upt_rec_numeral)
    moreover have "n - 26 < 26" "\<not> n - 20 < 6" using 2 by arith+
    ultimately show ?thesis using 2
      by (simp add: decode_character_table_def nth_append is_base64_def unat_of_nat word_le_nat_alt
          del: of_nat_add of_nat_diff upt_rec_numeral)
  next
    case 3
    then have d: "n - 52 < 10" "\<not> n - 26 < 26" "\<not> n - 4 < 43" "n - 4 \<le> 57" "48 \<le> n - 4" by arith+
    with 3 have "encode_character_table ! n = of_nat (n - 4)"
      by (simp add: encode_table_eq nth_append del: of_nat_add of_nat_diff upt_rec_numeral)
    with 3 d show ?thesis
      by (simp add: decode_character_table_def nth_append is_base64_def unat_of_nat word_le_nat_alt
          del: of_nat_add of_nat_diff upt_rec_numeral)
  next
    case 4
    then have "encode_character_table ! n = of_nat 43"
      by (simp add: encode_table_eq nth_append del: upt_rec_numeral)
    with 4 show ?thesis
      by (simp add: decode_character_table_def nth_append is_base64_def del: upt_rec_numeral)
  next
    case 5
    then have "encode_character_table ! n = of_nat 47"
      by (simp add: encode_table_eq nth_append del: upt_rec_numeral)
    with 5 show ?thesis
      by (simp add: decode_character_table_def nth_append is_base64_def del: upt_rec_numeral)
  qed
qed

lemma dec_enc_char:
  assumes "i < 64"
  shows "dec_char (enc_char i) = i" and "is_base64 (enc_char i)"
  using assms table_nat [of "unat i"] by (simp_all add: word_less_nat_alt)

section \<open>Regrouping sextets\<close>

lemma unat_masked:
  fixes x :: u8
  shows "unat (drop_bit 2 (x AND 0xfc)) = unat x div 4"
    and "unat (drop_bit 4 (x AND 0xf0)) = unat x div 16"
    and "unat (drop_bit 6 (x AND 0xc0)) = unat x div 64"
    and "unat (drop_bit 4 (x AND 0x30)) = unat x div 16 mod 4"
    and "unat (drop_bit 2 (x AND 0x3c)) = unat x div 4 mod 16"
  using u8_lt [of x] by (simp_all add: drop_bit_and and_masks unat_bits)

lemma sextets:
  fixes x y z :: u8
  defines "i0 \<equiv> drop_bit 2 (x AND 0xfc)"
    and "i1 \<equiv> push_bit 4 (x AND 0x03) + drop_bit 4 (y AND 0xf0)"
    and "i2 \<equiv> push_bit 2 (y AND 0x0f) + drop_bit 6 (z AND 0xc0)"
  shows "unat i0 = unat x div 4"
    and "unat i1 = unat x mod 4 * 16 + unat y div 16"
    and "unat i2 = unat y mod 16 * 4 + unat z div 64"
proof -
  show "unat i0 = unat x div 4" by (simp only: i0_def unat_masked)
  have "unat x mod 4 * 16 + unat y div 16 < 256" using u8_lt [of y] by simp
  moreover have "unat y div 16 < 16" using u8_lt [of y] by simp
  ultimately show "unat i1 = unat x mod 4 * 16 + unat y div 16"
    unfolding i1_def by (subst unat_add8) (simp_all add: and_masks unat_bits unat_masked)
  have "unat y mod 16 * 4 + unat z div 64 < 256" using u8_lt [of z] by simp
  moreover have "unat z div 64 < 4" using u8_lt [of z] by simp
  ultimately show "unat i2 = unat y mod 16 * 4 + unat z div 64"
    unfolding i2_def by (subst unat_add8) (simp_all add: and_masks unat_bits unat_masked)
qed

lemma sextet_lt:
  fixes x y z :: u8
  shows "drop_bit 2 (x AND 0xfc) < 64"
    and "push_bit 4 (x AND 0x03) + drop_bit 4 (y AND 0xf0) < 64"
    and "push_bit 2 (y AND 0x0f) + drop_bit 6 (z AND 0xc0) < 64"
    and "z AND 0x3f < 64"
    and "push_bit 4 (x AND 0x03) < 64"
    and "push_bit 2 (y AND 0x0f) < 64"
proof -
  show "drop_bit 2 (x AND 0xfc) < 64"
    using u8_lt [of x] unfolding word_less_nat_alt sextets by simp
  show "push_bit 4 (x AND 0x03) + drop_bit 4 (y AND 0xf0) < 64"
    using u8_lt [of y] unfolding word_less_nat_alt sextets by simp
  show "push_bit 2 (y AND 0x0f) + drop_bit 6 (z AND 0xc0) < 64"
    using u8_lt [of z] unfolding word_less_nat_alt sextets by simp
qed (simp_all add: word_less_nat_alt and_masks unat_bits)

lemma regroup:
  fixes x y z :: u8
  shows "push_bit 2 (drop_bit 2 (x AND 0xfc)) +
      drop_bit 4 ((push_bit 4 (x AND 0x03) + drop_bit 4 (y AND 0xf0)) AND 0x30) = x"
    and "push_bit 4 ((push_bit 4 (x AND 0x03) + drop_bit 4 (y AND 0xf0)) AND 0x0f) +
      drop_bit 2 ((push_bit 2 (y AND 0x0f) + drop_bit 6 (z AND 0xc0)) AND 0x3c) = y"
    and "push_bit 6 ((push_bit 2 (y AND 0x0f) + drop_bit 6 (z AND 0xc0)) AND 0x03) + (z AND 0x3f) = z"
    and "push_bit 2 (drop_bit 2 (x AND 0xfc)) + drop_bit 4 (push_bit 4 (x AND 0x03) AND 0x30) = x"
    and "push_bit 4 ((push_bit 4 (x AND 0x03) + drop_bit 4 (y AND 0xf0)) AND 0x0f) +
      drop_bit 2 (push_bit 2 (y AND 0x0f) AND 0x3c) = y"
proof -
  note lt = u8_lt [of x] u8_lt [of y] u8_lt [of z]
  note u = and_masks unat_bits unat_masked(4,5) sextets
  have px: "unat (push_bit 2 (drop_bit 2 (x AND 0xfc))) = unat x div 4 * 4"
    using lt by (simp only: unat_bits(3) unat_masked(1)) simp
  have q: "unat y div 16 < 16" "unat z div 64 < 4" using lt by simp_all
  have a: "(unat x mod 4 * 16 + unat y div 16) div 16 mod 4 = unat x mod 4"
    "(unat x mod 4 * 16 + unat y div 16) mod 16 = unat y div 16"
    "(unat y mod 16 * 4 + unat z div 64) div 4 mod 16 = unat y mod 16"
    "(unat y mod 16 * 4 + unat z div 64) mod 4 = unat z div 64"
    using q by simp_all
  have y16: "unat y div 16 * 16 mod 256 = unat y div 16 * 16" using lt by simp
  have z64: "unat z div 64 * 64 mod 256 = unat z div 64 * 64" using lt by simp
  show "push_bit 2 (drop_bit 2 (x AND 0xfc)) +
      drop_bit 4 ((push_bit 4 (x AND 0x03) + drop_bit 4 (y AND 0xf0)) AND 0x30) = x"
    by (rule join8) (simp only: px unat_masked(4) sextets a, simp)
  show "push_bit 4 ((push_bit 4 (x AND 0x03) + drop_bit 4 (y AND 0xf0)) AND 0x0f) +
      drop_bit 2 ((push_bit 2 (y AND 0x0f) + drop_bit 6 (z AND 0xc0)) AND 0x3c) = y"
    by (rule join8) (simp only: and_masks(2) [of "_ + _"] unat_bits(2,3) unat_masked(5) sextets a, simp add: a y16 q)
  show "push_bit 6 ((push_bit 2 (y AND 0x0f) + drop_bit 6 (z AND 0xc0)) AND 0x03) + (z AND 0x3f) = z"
    by (rule join8) (simp only: and_masks(1) [of "_ + _"] and_masks(3) unat_bits sextets a, simp add: a z64 q)
  show "push_bit 2 (drop_bit 2 (x AND 0xfc)) + drop_bit 4 (push_bit 4 (x AND 0x03) AND 0x30) = x"
  proof (rule join8)
    have "unat (drop_bit 4 (push_bit 4 (x AND 0x03) AND 0x30)) = unat x mod 4"
      by (simp only: unat_masked(4) and_masks(1) unat_bits(2,3)) simp
    then show "unat (push_bit 2 (drop_bit 2 (x AND 0xfc))) +
        unat (drop_bit 4 (push_bit 4 (x AND 0x03) AND 0x30)) = unat x"
      by (simp only: px) simp
  qed
  show "push_bit 4 ((push_bit 4 (x AND 0x03) + drop_bit 4 (y AND 0xf0)) AND 0x0f) +
      drop_bit 2 (push_bit 2 (y AND 0x0f) AND 0x3c) = y"
    by (rule join8) (simp only: and_masks(2) unat_bits(2,3) unat_masked(5) sextets a, simp add: a y16 q)
qed

section \<open>Decoding one encoded block\<close>

lemma is_base64_neq: "is_base64 c \<Longrightarrow> c \<noteq> 13 \<and> c \<noteq> 10 \<and> c \<noteq> 61"
  by (auto simp: is_base64_def)

lemma enc_char_class:
  assumes "i < 64"
  shows "is_base64 (enc_char i)" "enc_char i \<noteq> 13" "enc_char i \<noteq> 10" "enc_char i \<noteq> 61"
  using dec_enc_char(2) [OF assms] is_base64_neq by auto

lemma not_base64_61 [simp]: "\<not> is_base64 61"
  by (simp add: is_base64_def)

lemma decode_bytes_sextets3:
  assumes "i < 64" "j < 64" "k < 64" "l < 64"
  shows "decode_bytes [enc_char i, enc_char j, enc_char k, enc_char l] 3 =
      [push_bit 2 i + drop_bit 4 (j AND 0x30), push_bit 4 (j AND 0x0f) + drop_bit 2 (k AND 0x3c),
       push_bit 6 (k AND 0x03) + l]"
  using assms by (simp add: decode_bytes_def dec_enc_char)

lemma decode_bytes_sextets2:
  assumes "i < 64" "j < 64" "k < 64"
  shows "decode_bytes [enc_char i, enc_char j, enc_char k, c] 2 =
      [push_bit 2 i + drop_bit 4 (j AND 0x30), push_bit 4 (j AND 0x0f) + drop_bit 2 (k AND 0x3c)]"
  using assms by (simp add: decode_bytes_def dec_enc_char)

lemma decode_bytes_sextets1:
  assumes "i < 64" "j < 64"
  shows "decode_bytes [enc_char i, enc_char j, c, d] 1 = [push_bit 2 i + drop_bit 4 (j AND 0x30)]"
  using assms by (simp add: decode_bytes_def dec_enc_char)

lemma decode_loop_sextets3:
  assumes "i < 64" "j < 64" "k < 64" "l < 64"
  shows "b64_decode_loop obl ([enc_char i, enc_char j, enc_char k, enc_char l] @ cs) ([], 0, out) =
      (if length out + 3 > unat obl then (ERR_BUFF_OVFL, out)
       else b64_decode_loop obl cs
         ([], 0, out @ decode_bytes [enc_char i, enc_char j, enc_char k, enc_char l] 3))"
  using assms enc_char_class by simp

lemma decode_loop_sextets2:
  assumes "i < 64" "j < 64" "k < 64"
  shows "b64_decode_loop obl [enc_char i, enc_char j, enc_char k, 61] ([], 0, out) =
      (if length out + 2 > unat obl then (ERR_BUFF_OVFL, out)
       else (NO_ERR, out @ decode_bytes [enc_char i, enc_char j, enc_char k, 61] 2))"
  using assms enc_char_class by simp

lemma decode_loop_sextets1:
  assumes "i < 64" "j < 64"
  shows "b64_decode_loop obl [enc_char i, enc_char j, 61, 61] ([], 0, out) =
      (if length out + 1 > unat obl then (ERR_BUFF_OVFL, out)
       else (NO_ERR, out @ decode_bytes [enc_char i, enc_char j, 61, 61] 1))"
  using assms enc_char_class by simp

lemmas decode_sextets = decode_bytes_sextets3 decode_bytes_sextets2 decode_bytes_sextets1
  decode_loop_sextets3 decode_loop_sextets2 decode_loop_sextets1

lemma encode_block_eq:
  "encode_block (x # y # z # r) =
     [enc_char (drop_bit 2 (x AND 0xfc)),
      enc_char (push_bit 4 (x AND 0x03) + drop_bit 4 (y AND 0xf0)),
      enc_char (push_bit 2 (y AND 0x0f) + drop_bit 6 (z AND 0xc0)),
      enc_char (z AND 0x3f)]"
  "encode_block [x, y] =
     [enc_char (drop_bit 2 (x AND 0xfc)),
      enc_char (push_bit 4 (x AND 0x03) + drop_bit 4 (y AND 0xf0)),
      enc_char (push_bit 2 (y AND 0x0f)), 61]"
  "encode_block [x] =
     [enc_char (drop_bit 2 (x AND 0xfc)), enc_char (push_bit 4 (x AND 0x03)), 61, 61]"
  by (simp_all add: encode_block_def encode_3bytes_def encode_last_2bytes_def encode_last_1byte_def)

lemma decode_full_block:
  "b64_decode_loop obl (encode_block (x # y # z # r) @ cs) ([], 0, out) =
     (if length out + 3 > unat obl then (ERR_BUFF_OVFL, out)
      else b64_decode_loop obl cs ([], 0, out @ [x, y, z]))"
  by (simp only: encode_block_eq decode_sextets regroup sextet_lt)

lemma decode_last_block:
  "b64_decode_loop obl (encode_block [x, y]) ([], 0, out) =
     (if length out + 2 > unat obl then (ERR_BUFF_OVFL, out) else (NO_ERR, out @ [x, y]))"
  "b64_decode_loop obl (encode_block [x]) ([], 0, out) =
     (if length out + 1 > unat obl then (ERR_BUFF_OVFL, out) else (NO_ERR, out @ [x]))"
  by (simp_all only: encode_block_eq decode_sextets regroup sextet_lt)

section \<open>The decoder's invariant; line breaks are skipped\<close>

text \<open>What every step keeps: a partial block, at most two pad characters, no write past the buffer.\<close>

fun decode_inv :: "u32 \<Rightarrow> b64_state \<Rightarrow> bool" where
  "decode_inv obl (b, p, out) \<longleftrightarrow> length b < 4 \<and> p \<le> 2 \<and> length out \<le> unat obl"

lemma length_decode_bytes: "n \<in> {1, 2, 3} \<Longrightarrow> length (decode_bytes b n) = n"
  by (auto simp: decode_bytes_def)

lemma decode_flush_inv:
  assumes "length b \<le> 4" "p \<le> 2" "length out \<le> unat obl"
  shows "(case b64_flush obl (b, p, out) of
           Inl (res, out') \<Rightarrow> out' = out | Inr st' \<Rightarrow> decode_inv obl st')"
proof -
  have "length (decode_bytes b (3 - p)) = 3 - p"
    using assms(2) by (intro length_decode_bytes) auto
  with assms show ?thesis by simp
qed

lemma decode_step_inv:
  assumes "decode_inv obl st"
  shows "(case b64_decode_step obl c st of
           Inl (res, out') \<Rightarrow> length out' \<le> unat obl | Inr st' \<Rightarrow> decode_inv obl st')"
proof -
  obtain b p out where st: "st = (b, p, out)" by (cases st)
  with assms have inv: "length b < 4" "p \<le> 2" "length out \<le> unat obl" by auto
  have fl: "case b64_flush obl (b', p', out) of
      Inl (res, out') \<Rightarrow> length out' \<le> unat obl | Inr st' \<Rightarrow> decode_inv obl st'"
    if "length b' \<le> 4" "p' \<le> 2" for b' p'
    using decode_flush_inv [OF that inv(3)] inv(3) by (auto split: sum.splits prod.splits)
  show ?thesis
    unfolding st b64_decode_step.simps
    using inv fl [of "b @ [c]" p] fl [of b p] fl [of "b @ [c]" "if p = 0 then 4 - length b else p"]
    by (auto simp del: b64_flush.simps)
qed

lemma decode_loop_bounded:
  "decode_inv obl st \<Longrightarrow> length (snd (b64_decode_loop obl ts st)) \<le> unat obl"
proof (induction ts arbitrary: st)
  case Nil
  then show ?case by (cases st) auto
next
  case (Cons c ts)
  with decode_step_inv [OF Cons.prems, of c] show ?case
    by (auto split: sum.splits prod.splits simp del: b64_decode_step.simps)
qed

lemma decode_step_break:
  assumes "decode_inv obl st" "c = 13 \<or> c = 10"
  shows "b64_decode_step obl c st = Inr st"
  using assms is_base64_neq [of c] by (cases st) auto

lemma decode_breaks:
  "decode_inv obl st \<Longrightarrow>
     b64_decode_loop obl ts st = b64_decode_loop obl (filter (\<lambda>c. c \<noteq> 13 \<and> c \<noteq> 10) ts) st"
proof (induction ts arbitrary: st)
  case (Cons c ts)
  show ?case
  proof (cases "c = 13 \<or> c = 10")
    case True
    with Cons show ?thesis by (auto simp: decode_step_break)
  next
    case False
    with Cons decode_step_inv [OF Cons.prems, of c] show ?thesis
      by (auto split: sum.splits prod.splits simp del: b64_decode_step.simps)
  qed
qed simp

section \<open>The text of a whole buffer\<close>

lemma filter_enc_char:
  "i < 64 \<Longrightarrow> filter (\<lambda>c. c \<noteq> 13 \<and> c \<noteq> 10) (enc_char i # cs) =
     enc_char i # filter (\<lambda>c. c \<noteq> 13 \<and> c \<noteq> 10) cs"
  using enc_char_class by simp

lemma filter_encode_block:
  assumes "xs \<noteq> []"
  shows "filter (\<lambda>c. c \<noteq> 13 \<and> c \<noteq> 10) (encode_block xs) = encode_block xs"
proof -
  have "filter (\<lambda>c. c \<noteq> 13 \<and> c \<noteq> 10) [61] = [61 :: u8]"
    "filter (\<lambda>c. c \<noteq> 13 \<and> c \<noteq> 10) [61, 61] = [61, 61 :: u8]" by simp_all
  note * = this
  consider x where "xs = [x]" | x y where "xs = [x, y]" | x y z r where "xs = x # y # z # r"
    using assms by (metis list.exhaust)
  then show ?thesis
    by cases (simp_all only: encode_block_eq filter_enc_char sextet_lt * filter.simps(1))
qed

fun blocks :: "u8 list \<Rightarrow> u8 list" where
  "blocks [] = []"
| "blocks [x] = encode_block [x]"
| "blocks [x, y] = encode_block [x, y]"
| "blocks (x # y # z # r) = encode_block (x # y # z # r) @ blocks r"

lemma encode_loop_step:
  assumes "xs \<noteq> []"
  shows "\<exists>w'. filter (\<lambda>c. c \<noteq> 13 \<and> c \<noteq> 10) (b64_encode_loop (Suc k) xs ls w) =
     encode_block xs @ filter (\<lambda>c. c \<noteq> 13 \<and> c \<noteq> 10) (b64_encode_loop k (drop 3 xs) ls w')"
proof -
  obtain o' w' where p: "put_block ls w (encode_block xs) = (o', w')"
    by (cases "put_block ls w (encode_block xs)")
  then have "filter (\<lambda>c. c \<noteq> 13 \<and> c \<noteq> 10) o' = encode_block xs"
    using put_block_filter [of ls w "encode_block xs"] filter_encode_block [OF assms] by simp
  with p show ?thesis by (intro exI [of _ w']) simp
qed

lemma encode_loop_blocks:
  "filter (\<lambda>c. c \<noteq> 13 \<and> c \<noteq> 10) (b64_encode_loop ((length xs + 2) div 3) xs ls w) = blocks xs"
proof (induction xs arbitrary: w rule: blocks.induct)
  case (2 x)
  show ?case using encode_loop_step [of "[x]" 0 ls w] by simp
next
  case (3 x y)
  show ?case using encode_loop_step [of "[x, y]" 0 ls w] by simp
next
  case (4 x y z r)
  have "(length (x # y # z # r) + 2) div 3 = Suc ((length r + 2) div 3)" by simp
  with 4 show ?case
    using encode_loop_step [of "x # y # z # r" "(length r + 2) div 3" ls w] by (auto simp del: b64_encode_loop.simps)
qed simp

lemma decode_blocks:
  "length out + length xs \<le> unat obl \<Longrightarrow>
     b64_decode_loop obl (blocks xs) ([], 0, out) = (NO_ERR, out @ xs)"
  by (induction xs arbitrary: out rule: blocks.induct)
    (simp_all add: decode_full_block decode_last_block)

lemma nblocks:
  assumes "n + 2 < 2 ^ 32"
  shows "unat ((of_nat n + 2 :: u32) div 3) = (n + 2) div 3"
proof -
  have "(of_nat n + 2 :: u32) = of_nat (n + 2)" by simp
  moreover have "unat (of_nat (n + 2) :: u32) = n + 2"
    using assms unfolding unat_of_nat by simp
  ultimately show ?thesis by (simp only: unat_div_distrib unat_3)
qed

lemma b64_decode_text:
  assumes "filter (\<lambda>c. c \<noteq> 13 \<and> c \<noteq> 10) ts = blocks xs" and "length xs \<le> unat buflen"
  shows "b64_decode ts buflen = (NO_ERR, xs)"
  using decode_breaks [of buflen "([], 0, [])" ts] decode_blocks [of "[]" xs buflen] assms
  by (simp add: b64_decode_def)

lemma b64_encode_result:
  assumes "b64_encode xs outlen ls = (NO_ERR, out, n)" and "length xs + 2 < 2 ^ 32"
  shows "take n out = b64_encode_loop ((length xs + 2) div 3) xs ls 0" and "length out = n + 1"
    and "n = length (b64_encode_loop ((length xs + 2) div 3) xs ls 0)"
  using assms nblocks [OF assms(2)] by (auto simp: b64_encode_def Let_def split: if_splits)

section \<open>Properties\<close>

lemma b64_roundtrip_all:
  assumes "b64_encode xs outlen ls = (NO_ERR, out, n)" and "length xs + 2 < 2 ^ 32"
    and "length xs \<le> unat buflen"
  shows "b64_decode (take n out) buflen = (NO_ERR, xs)"
  using b64_encode_result(1) [OF assms(1,2)] encode_loop_blocks assms(3)
  by (simp add: b64_decode_text)

text \<open>
  C34: whenever \<^verbatim>\<open>b64_encode\<close> accepts a buffer, with any line size, decoding the text it
  returns gives back exactly the original bytes, provided the result buffer can hold them.
\<close>
theorem b64_roundtrip:
  assumes "b64_encode xs outlen ls = (NO_ERR, out, n)" and "length xs + 2 < 2 ^ 32"
    and "length xs \<le> unat buflen"
  shows "b64_decode (take n out) buflen = (NO_ERR, xs)"
  using assms by (rule b64_roundtrip_all)

theorem b64_roundtrip_witness:
  "b64_decode [89, 87, 73, 13, 10, 61] 2 = (NO_ERR, [97, 98])"
proof -
  have "b64_encode [97, 98] 7 3 = (NO_ERR, [89, 87, 73, 13, 10, 61, 0], 6)"
    by code_simp
  from b64_roundtrip [OF this, of 2] show ?thesis by simp
qed

lemma length_encode_block: "length (encode_block xs) = 4"
  by (simp add: encode_block_def encode_last_1byte_def encode_last_2bytes_def encode_3bytes_def)

lemma encode_loop_length_0: "length (b64_encode_loop k xs 0 w) = 4 * k"
  by (induction k arbitrary: xs) (simp_all add: put_block_0 length_encode_block)

lemma encode_loop_length:
  "ls \<noteq> 0 \<Longrightarrow> w < ls \<Longrightarrow>
     length (b64_encode_loop k xs ls w) = 4 * k + 2 * ((unat w + 4 * k) div unat ls)"
proof (induction k arbitrary: xs w)
  case 0
  then show ?case by (simp add: word_less_nat_alt)
next
  case (Suc k)
  obtain o' w' where p: "put_block ls w (encode_block xs) = (o', w')"
    by (cases "put_block ls w (encode_block xs)")
  with put_block_length [OF Suc.prems, of "encode_block xs"]
  have o': "length o' = 4 + 2 * ((unat w + 4) div unat ls)" and w': "unat w' = (unat w + 4) mod unat ls"
    and lt: "w' < ls" by (simp_all add: length_encode_block)
  have pos: "unat ls \<noteq> 0" using Suc.prems(1) by (simp add: unat_eq_0)
  have "(unat w + 4 * Suc k) div unat ls = (unat w + 4) div unat ls + (unat w' + 4 * k) div unat ls"
  proof -
    let ?q = "(unat w + 4) div unat ls"
    have e: "unat w + 4 * Suc k = unat ls * ?q + (unat w' + 4 * k)"
      unfolding w' using mult_div_mod_eq [of "unat ls" "unat w + 4"] by simp
    show ?thesis unfolding e using pos by simp
  qed
  with p o' Suc.IH [OF Suc.prems(1) lt] show ?case by simp
qed

lemma b64_encode_written:
  assumes "b64_encode xs outlen ls = (NO_ERR, out, n)" and "length xs + 2 < 2 ^ 32"
  shows "length out = 4 * ((length xs + 2) div 3) +
     (if ls = 0 then 0 else 2 * (4 * ((length xs + 2) div 3) div unat ls)) + 1"
proof -
  let ?k = "(length xs + 2) div 3"
  have "n = length (b64_encode_loop ?k xs ls 0)"
    by (rule b64_encode_result(3) [OF assms])
  then show ?thesis
    using b64_encode_result(2) [OF assms] encode_loop_length_0 [of ?k xs 0]
      encode_loop_length [of ls 0 ?k xs] by (auto simp: word_gt_0)
qed

lemma encoded_str_len_0:
  assumes "length xs < 3 * 2 ^ 29"
  shows "unat (b64_get_encoded_str_len (of_nat (length xs)) 0) = 4 * ((length xs + 2) div 3) + 1"
proof -
  let ?n = "length xs"
  define q where "q = ?n div 3"
  define r where "r = ?n mod 3"
  have n: "?n = 3 * q + r" "r < 3" and q: "q < 2 ^ 29" using assms by (simp_all add: q_def r_def)
  have d: "(of_nat ?n :: u32) div 3 = of_nat q" "(of_nat ?n :: u32) mod 3 = of_nat r"
    using assms by (simp_all add: word_unat_eq_iff unat_div_distrib unat_mod_distrib unat_of_nat q_def r_def)
  have r0: "(of_nat r :: u32) = 0 \<longleftrightarrow> r = 0"
    using n(2) unat_of_nat32 [of r] by (auto simp: word_unat_eq_iff)
  have u: "unat (4 * (1 + of_nat q) + 1 :: u32) = 4 * (1 + q) + 1" "unat (4 * of_nat q + 1 :: u32) = 4 * q + 1"
  proof -
    have l: "4 * (1 + q) + 1 < 2 ^ 32" "4 * q + 1 < 2 ^ 32" using q by simp_all
    have e: "(4 * (1 + of_nat q) + 1 :: u32) = of_nat (4 * (1 + q) + 1)"
      "(4 * of_nat q + 1 :: u32) = of_nat (4 * q + 1)" by simp_all
    show "unat (4 * (1 + of_nat q) + 1 :: u32) = 4 * (1 + q) + 1"
      unfolding e(1) by (rule unat_of_nat32 [OF l(1)])
    show "unat (4 * of_nat q + 1 :: u32) = 4 * q + 1"
      unfolding e(2) by (rule unat_of_nat32 [OF l(2)])
  qed
  have "(?n + 2) div 3 = (if r = 0 then q else q + 1)" using n by auto
  then show ?thesis
    by (simp only: b64_get_encoded_str_len_def d r0 Let_def refl if_cancel if_True if_False not_True_eq_False u split: if_split) simp
qed

text \<open>
  without line breaks (\<open>linesize = 0\<close>) the buffer size that \<^verbatim>\<open>b64_get_encoded_str_len\<close>
  announces is exactly what \<^verbatim>\<open>b64_encode\<close> writes, and the encoder never writes past \<open>outbufflen\<close>.
\<close>
theorem b64_encode_fits:
  assumes "b64_encode xs outlen 0 = (NO_ERR, out, n)" and "length xs < 3 * 2 ^ 29"
  shows "length out = unat (b64_get_encoded_str_len (of_nat (length xs)) 0) \<and> length out \<le> unat outlen"
proof -
  have "\<not> b64_get_encoded_str_len (of_nat (length xs)) 0 > outlen"
    using assms(1) by (auto simp: b64_encode_def Let_def split: if_splits)
  then show ?thesis
    using b64_encode_written [OF assms(1)] encoded_str_len_0 [OF assms(2)] assms(2)
    by (simp add: word_le_nat_alt not_less)
qed

theorem b64_encode_fits_witness:
  "length [89, 87, 74, 106, 0 :: u8] = unat (b64_get_encoded_str_len 3 0) \<and> 5 \<le> unat (5 :: u32)"
proof -
  have "b64_encode [97, 98, 99] 5 0 = (NO_ERR, [89, 87, 74, 106, 0], 4)"
    by code_simp
  from b64_encode_fits [OF this] show ?thesis by simp
qed

text \<open>
  \<^verbatim>\<open>b64_decode\<close> never writes more than \<open>outbufflen\<close> bytes, whatever the input and whether
  or not it returns an error.
\<close>
theorem b64_decode_bounded: "length (snd (b64_decode ts buflen)) \<le> unat buflen"
  unfolding b64_decode_def by (rule decode_loop_bounded) simp

text \<open>
  with line breaks the announced size is too small.  \<^verbatim>\<open>b64_get_encoded_str_len\<close> counts
  breaks per \<open>linesize\<close> input bytes, the encoder writes one per \<open>linesize\<close> output characters; a buffer
  of the announced size is accepted and overrun by two bytes.
\<close>
theorem b64_encode_overruns:
  "b64_get_encoded_str_len 3 4 = 5 \<and>
   b64_encode [0, 0, 0] 5 4 = (NO_ERR, [65, 65, 65, 65, 13, 10, 0], 6)"
  by code_simp

lemma num_valid_filter:
  "get_num_valid_characters (filter (\<lambda>c. c \<noteq> 13 \<and> c \<noteq> 10) ts) = get_num_valid_characters ts"
proof (induction ts)
  case (Cons c ts)
  then show ?case using is_base64_neq [of c] by auto
qed simp

lemma num_valid_enc_char:
  "i < 64 \<Longrightarrow> get_num_valid_characters (enc_char i # cs) = 1 + get_num_valid_characters cs"
  using enc_char_class by simp

lemma num_valid_blocks:
  "get_num_valid_characters (blocks xs) =
     of_nat (4 * (length xs div 3) + (if length xs mod 3 = 0 then 0 else length xs mod 3 + 1))"
proof (induction xs rule: blocks.induct)
  case (4 x y z r)
  have "get_num_valid_characters (encode_block (x # y # z # r) @ blocks r) =
      4 + get_num_valid_characters (blocks r)"
    by (simp only: encode_block_eq append_Cons append_Nil num_valid_enc_char sextet_lt) simp
  moreover have "length (x # y # z # r) div 3 = Suc (length r div 3)"
    "length (x # y # z # r) mod 3 = length r mod 3" by simp_all
  ultimately show ?case unfolding blocks.simps 4 by (simp only:) simp
next
  case (2 x)
  have "get_num_valid_characters (encode_block [x]) = 2"
    by (simp only: encode_block_eq num_valid_enc_char sextet_lt) simp
  then show ?case by simp
next
  case (3 x y)
  have "get_num_valid_characters (encode_block [x, y]) = 3"
    by (simp only: encode_block_eq num_valid_enc_char sextet_lt) simp
  then show ?case by simp
qed simp

lemma u32_div_mod_4:
  assumes "m < 4" "4 * q + m < 2 ^ 32"
  shows "(of_nat (4 * q + m) :: u32) div 4 = of_nat q" "(of_nat (4 * q + m) :: u32) mod 4 = of_nat m"
proof -
  have four: "unat (4 :: u32) = 4" by simp
  have l: "q < 2 ^ 32" "m < 2 ^ 32" using assms by simp_all
  show "(of_nat (4 * q + m) :: u32) div 4 = of_nat q"
    unfolding word_unat_eq_iff unat_div_distrib four unat_of_nat32 [OF assms(2)] unat_of_nat32 [OF l(1)]
    using assms(1) by simp
  show "(of_nat (4 * q + m) :: u32) mod 4 = of_nat m"
    unfolding word_unat_eq_iff unat_mod_distrib four unat_of_nat32 [OF assms(2)] unat_of_nat32 [OF l(2)]
    using assms(1) by simp
qed

lemma b64_decoded_len:
  assumes "b64_encode xs outlen ls = (NO_ERR, out, n)" and "length xs < 3 * 2 ^ 29"
  shows "b64_get_decoded_str_len (take n out) = of_nat (length xs)"
proof -
  define q where "q = length xs div 3"
  define m where "m = (if length xs mod 3 = 0 then 0 else length xs mod 3 + 1)"
  have len: "length xs = 3 * q + (if m = 0 then 0 else m - 1)" unfolding q_def m_def using mult_div_mod_eq [of 3 "length xs"] by auto
  have m: "m < 4" unfolding m_def by (auto simp: less_Suc_eq) 
  have "4 * q + m < 2 ^ 32" using assms(2) m unfolding len by (simp split: if_splits)
  note dm = u32_div_mod_4 [OF m this]
  have small: "length xs + 2 < 2 ^ 32" using assms(2) by simp
  have v: "get_num_valid_characters (take n out) = of_nat (4 * q + m)"
    using b64_encode_result(1) [OF assms(1) small] encode_loop_blocks [of xs ls 0]
      num_valid_filter [of "take n out"] num_valid_blocks [of xs]
    by (simp only: q_def m_def)
  have m0: "(of_nat m :: u32) = 0 \<longleftrightarrow> m = 0" using m unat_of_nat32 [of m] by (auto simp: word_unat_eq_iff)
  have m1: "m \<noteq> 0 \<Longrightarrow> (of_nat m :: u32) - 1 = of_nat (m - 1)" by (simp add: of_nat_diff)
  show ?thesis
    unfolding b64_get_decoded_str_len_def Let_def v dm m0
    by (cases "m = 0") (simp_all only: m1 len, simp_all)
qed

section \<open>The codec contract\<close>

text \<open>
  The text that \<^verbatim>\<open>val.c\<close> obtains for a binary value: it passes \<^verbatim>\<open>NCX_MAX_UINT\<close> as the size of the
  output buffer, so the size check always succeeds.
\<close>

definition b64_text :: "u32 \<Rightarrow> u8 list \<Rightarrow> u8 list" where
  "b64_text linesize xs = (case b64_encode xs (-1) linesize of (res, out, n) \<Rightarrow> take n out)"

lemma b64_text_encode:
  "\<exists>out n. b64_encode xs (-1) ls = (NO_ERR, out, n) \<and> b64_text ls xs = take n out"
  by (simp add: b64_text_def b64_encode_def Let_def)

interpretation b64c: byte_codec b64_text "\<lambda>ts. b64_decode ts (-1)" "\<lambda>xs. length xs + 2 < 2 ^ 32"
proof
  fix xs :: "u8 list" and ls :: u32 assume small: "length xs + 2 < 2 ^ 32"
  obtain out n where e: "b64_encode xs (-1) ls = (NO_ERR, out, n)" "b64_text ls xs = take n out"
    using b64_text_encode by blast
  have "length xs \<le> unat (-1 :: u32)" using small by (simp add: unsigned_minus_1_eq_mask mask_eq_exp_minus_1)
  from b64_roundtrip_all [OF e(1) small this] show "b64_decode (b64_text ls xs) (-1) = (NO_ERR, xs)"
    by (simp add: e(2))
next
  fix ts :: "u8 list"
  show "b64_decode ts (-1) = b64_decode (filter (\<lambda>c. c \<noteq> 13 \<and> c \<noteq> 10) ts) (-1)"
    unfolding b64_decode_def by (rule decode_breaks) simp
qed

text \<open>
  two binary values with the same text, even written with different line sizes, are the
  same value.
\<close>
theorem b64_text_injective:
  "length xs + 2 < 2 ^ 32 \<Longrightarrow> length ys + 2 < 2 ^ 32 \<Longrightarrow> b64_text ls xs = b64_text ls' ys \<Longrightarrow> xs = ys"
  by (rule b64c.enc_linesize_irrelevant)

theorem b64_text_injective_witness: "[7 :: u8] = [7]"
  using b64_text_injective [of "[7]" "[7]" 0 0] by simp

end
