(* ===== verification/Dlq_Props.thy ===== *)
theory Dlq_Props
  imports Dlq
begin

text \<open>
  The queues of \<^verbatim>\<open>dlq.c\<close> as a whole: a heap with any number of queues against a map from headers to lists.
\<close>

section \<open>Steps on lists and on the heap\<close>

datatype 'a dlq_op =
    Create 'a | Enque 'a 'a | Deque 'a | Remove 'a | Insert_ahead 'a 'a | Insert_after 'a 'a | Swap 'a 'a
  | Block_enque 'a 'a | Block_ahead 'a 'a | Block_after 'a 'a | Block_move 'a 'a 'a 'a

fun heap_run :: "'a dlq_op \<Rightarrow> 'a dlq_heap \<Rightarrow> 'a dlq_heap option" where
  "heap_run (Create q) h = Some (dlq_createSQue q h)"
| "heap_run (Enque n q) h = dlq_enque n q h"
| "heap_run (Deque q) h = map_option snd (dlq_deque q h)"
| "heap_run (Remove x) h = dlq_remove x h"
| "heap_run (Insert_ahead n x) h = dlq_insertAhead n x h"
| "heap_run (Insert_after n x) h = dlq_insertAfter n x h"
| "heap_run (Swap n x) h = dlq_swap n x h"
| "heap_run (Block_enque s q) h = dlq_block_enque s q h"
| "heap_run (Block_ahead s x) h = dlq_block_insertAhead s x h"
| "heap_run (Block_after s x) h = dlq_block_insertAfter s x h"
| "heap_run (Block_move t s x q) h = dlq_block_move t s x q h"

type_synonym 'a queues = "'a \<Rightarrow> 'a list option"

definition cells :: "'a queues \<Rightarrow> 'a set" where
  "cells Q = {a. \<exists>q xs. Q q = Some xs \<and> a \<in> set (q # xs)}"

text \<open>What each operation means for lists, and what it asks for.\<close>

inductive list_step :: "'a dlq_op \<Rightarrow> 'a queues \<Rightarrow> 'a queues \<Rightarrow> bool" where
  "q \<notin> cells Q \<Longrightarrow> list_step (Create q) Q (Q(q \<mapsto> []))"
| "Q q = Some xs \<Longrightarrow> n \<notin> cells Q \<Longrightarrow> list_step (Enque n q) Q (Q(q \<mapsto> xs @ [n]))"
| "Q q = Some [] \<Longrightarrow> list_step (Deque q) Q Q"
| "Q q = Some (x # xs) \<Longrightarrow> list_step (Deque q) Q (Q(q \<mapsto> xs))"
| "Q q = Some (as @ x # bs) \<Longrightarrow> list_step (Remove x) Q (Q(q \<mapsto> as @ bs))"
| "Q q = Some (as @ x # bs) \<Longrightarrow> n \<notin> cells Q \<Longrightarrow> list_step (Insert_ahead n x) Q (Q(q \<mapsto> as @ n # x # bs))"
| "Q q = Some (as @ x # bs) \<Longrightarrow> n \<notin> cells Q \<Longrightarrow> list_step (Insert_after n x) Q (Q(q \<mapsto> as @ x # n # bs))"
| "Q q = Some (as @ x # bs) \<Longrightarrow> n \<notin> cells Q \<Longrightarrow> list_step (Swap n x) Q (Q(q \<mapsto> as @ n # bs))"
| "Q s = Some cs \<Longrightarrow> Q q = Some xs \<Longrightarrow> s \<noteq> q \<Longrightarrow> list_step (Block_enque s q) Q (Q(s \<mapsto> [], q \<mapsto> xs @ cs))"
| "Q s = Some cs \<Longrightarrow> Q q = Some (as @ x # bs) \<Longrightarrow> s \<noteq> q \<Longrightarrow> list_step (Block_ahead s x) Q (Q(s \<mapsto> [], q \<mapsto> as @ cs @ x # bs))"
| "Q s = Some cs \<Longrightarrow> Q q = Some (as @ x # bs) \<Longrightarrow> s \<noteq> q \<Longrightarrow> list_step (Block_after s x) Q (Q(s \<mapsto> [], q \<mapsto> as @ x # cs @ bs))"
| "Q s = Some (as @ x # bs) \<Longrightarrow> Q q = Some ys \<Longrightarrow> s \<noteq> q \<Longrightarrow> t \<notin> cells Q \<Longrightarrow>
     list_step (Block_move t s x q) Q (Q(s \<mapsto> as, q \<mapsto> ys @ x # bs))"

definition models :: "'a dlq_heap \<Rightarrow> 'a queues \<Rightarrow> bool" where
  "models h Q \<longleftrightarrow> (\<forall>q xs. Q q = Some xs \<longrightarrow> queue h q xs) \<and>
     (\<forall>p q xs ys. Q p = Some xs \<longrightarrow> Q q = Some ys \<longrightarrow> p \<noteq> q \<longrightarrow> set (p # xs) \<inter> set (q # ys) = {})"

lemma models_queue: "models h Q \<Longrightarrow> Q q = Some xs \<Longrightarrow> queue h q xs"
  by (simp add: models_def)

lemma models_apart: "models h Q \<Longrightarrow> Q p = Some xs \<Longrightarrow> Q q = Some ys \<Longrightarrow> p \<noteq> q \<Longrightarrow> set (p # xs) \<inter> set (q # ys) = {}"
  unfolding models_def by blast

lemma cellsI: "Q q = Some xs \<Longrightarrow> a \<in> set (q # xs) \<Longrightarrow> a \<in> cells Q"
  unfolding cells_def by blast

text \<open>
  The queues of the headers \<open>D\<close> change, by cells of their own and cells of no queue; \<open>own D Q\<close> are their cells.
\<close>

definition own :: "'a set \<Rightarrow> 'a queues \<Rightarrow> 'a set" where
  "own D Q = {a. \<exists>q \<in> D. \<exists>xs. Q q = Some xs \<and> a \<in> set (q # xs)}"

lemma models_upd:
  assumes m: "models h Q" and off: "same_off h' h A" "A \<subseteq> own D Q \<union> - cells Q"
    and rest: "\<And>p. p \<notin> D \<Longrightarrow> Q' p = Q p"
    and new: "\<And>q ys. q \<in> D \<Longrightarrow> Q' q = Some ys \<Longrightarrow> queue h' q ys \<and> set (q # ys) \<subseteq> own D Q \<union> - cells Q"
    and apart: "\<And>p q xs ys. p \<in> D \<Longrightarrow> q \<in> D \<Longrightarrow> p \<noteq> q \<Longrightarrow> Q' p = Some xs \<Longrightarrow> Q' q = Some ys \<Longrightarrow>
      set (p # xs) \<inter> set (q # ys) = {}"
  shows "models h' Q'"
proof -
  have far: "set (p # xs) \<inter> (own D Q \<union> - cells Q) = {}" if p: "Q p = Some xs" "p \<notin> D" for p xs
  proof -
    have "a \<in> cells Q" if "a \<in> set (p # xs)" for a using cellsI p(1) that by metis
    moreover have "a \<notin> own D Q" if "a \<in> set (p # xs)" for a
    proof
      assume "a \<in> own D Q"
      then obtain q zs where q: "q \<in> D" "Q q = Some zs" "a \<in> set (q # zs)" unfolding own_def by blast
      then have "p \<noteq> q" using p(2) by auto
      from models_apart [OF m p(1) q(2) this] show False using q(3) that by blast
    qed
    ultimately show ?thesis by blast
  qed
  have "queue h' p xs" if "Q' p = Some xs" for p xs
  proof (cases "p \<in> D")
    case False
    then have p: "Q p = Some xs" using rest that by simp
    have "A \<inter> set (p # xs) = {}" using far [OF p False] off(2) by blast
    from other_queue [OF models_queue [OF m p] off(1) this] show ?thesis .
  qed (use new that in blast)
  moreover have "set (p # xs) \<inter> set (q # ys) = {}" if pq: "Q' p = Some xs" "Q' q = Some ys" "p \<noteq> q" for p q xs ys
  proof (cases "p \<in> D"; cases "q \<in> D")
    assume "p \<in> D" "q \<in> D"
    then show ?thesis using apart pq by blast
  next
    assume d: "p \<in> D" "q \<notin> D"
    then have "Q q = Some ys" using rest pq by simp
    from far [OF this d(2)] show ?thesis using new [OF d(1) pq(1)] by blast
  next
    assume d: "p \<notin> D" "q \<in> D"
    then have "Q p = Some xs" using rest pq by simp
    from far [OF this d(1)] show ?thesis using new [OF d(2) pq(2)] by blast
  next
    assume d: "p \<notin> D" "q \<notin> D"
    then have "Q p = Some xs" "Q q = Some ys" using rest pq by simp_all
    from models_apart [OF m this pq(3)] show ?thesis .
  qed
  ultimately show ?thesis unfolding models_def by blast
qed

lemma own_one: "Q q = Some xs \<Longrightarrow> own {q} Q = set (q # xs)"
  by (auto simp: own_def)

lemma models_upd_one:
  assumes "models h Q" "Q q = Some xs" "queue h' q ys" "same_off h' h A"
    and "A \<subseteq> set (q # xs) \<union> - cells Q" "set ys \<subseteq> set (q # xs) \<union> - cells Q"
  shows "models h' (Q(q \<mapsto> ys))"
  using assms by (intro models_upd [where D = "{q}" and A = A, OF assms(1)]) (simp_all add: own_one)

lemma models_upd_two:
  assumes "models h Q" "Q s = Some cs" "Q q = Some xs" "s \<noteq> q" "queue h' s us" "queue h' q ys" "same_off h' h A"
    and "A \<subseteq> set (s # cs) \<union> set (q # xs) \<union> - cells Q"
    and "set us \<subseteq> set (s # cs) \<union> set (q # xs) \<union> - cells Q" "set ys \<subseteq> set (s # cs) \<union> set (q # xs) \<union> - cells Q"
    and "set (s # us) \<inter> set (q # ys) = {}"
  shows "models h' (Q(s \<mapsto> us, q \<mapsto> ys))"
proof -
  have own: "own {s, q} Q = set (s # cs) \<union> set (q # xs)" using assms(2,3) by (auto simp: own_def)
  show ?thesis
    using assms by (intro models_upd [where D = "{s, q}" and A = A, OF assms(1)]) (auto simp: own split: if_splits)
qed


lemma fresh_cells: "n \<notin> cells Q \<Longrightarrow> Q q = Some xs \<Longrightarrow> n \<notin> set (q # xs)"
  using cellsI by metis

lemma cells_new: "q \<notin> cells Q \<Longrightarrow> Q q = None"
  using cellsI [of Q q] by (cases "Q q") auto

lemma models_create:
  assumes m: "models h Q" and a: "q \<notin> cells Q"
  shows "\<exists>h'. heap_run (Create q) h = Some h' \<and> models h' (Q(q \<mapsto> []))"
proof -
  have "same_off (dlq_createSQue q h) h {q}" unfolding dlq_createSQue_def by (intro same_off_set) auto
  moreover have "own {q} Q = {}" using cells_new [OF a(1)] by (auto simp: own_def)
  ultimately have "models (dlq_createSQue q h) (Q(q \<mapsto> []))"
    using a(1) by (intro models_upd [where D = "{q}" and A = "{q}", OF m]) (auto simp: queue_new)
  then show ?thesis by simp
qed

lemma models_enque:
  assumes m: "models h Q" and a: "Q q = Some xs" "n \<notin> cells Q"
  shows "\<exists>h'. heap_run (Enque n q) h = Some h' \<and> models h' (Q(q \<mapsto> xs @ [n]))"
proof -
  note n = fresh_cells [OF a(2,1)]
  obtain h' where h': "dlq_enque n q h = Some h'" "queue h' q (xs @ [n])" "same_off h' h (set (n # q # xs))"
    by (rule queue_enque [OF models_queue [OF m a(1)] n])
  have "models h' (Q(q \<mapsto> xs @ [n]))" by (rule models_upd_one [OF m a(1) h'(2,3)]) (use a(2) in auto)
  then show ?thesis using h' by simp
qed

lemma models_deque_none:
  assumes m: "models h Q" and a: "Q q = Some []"
  shows "\<exists>h'. heap_run (Deque q) h = Some h' \<and> models h' Q"
proof -
  show ?thesis using a queue_deque_empty [OF models_queue [OF m a(1)]] m by simp
qed

lemma models_deque_one:
  assumes m: "models h Q" and a: "Q q = Some (x # xs)"
  shows "\<exists>h'. heap_run (Deque q) h = Some h' \<and> models h' (Q(q \<mapsto> xs))"
proof -
  obtain h' where h': "dlq_deque q h = Some (Some x, h')" "queue h' q xs" "same_off h' h (set (q # x # xs))"
    by (rule queue_deque [OF models_queue [OF m a(1)]])
  have "models h' (Q(q \<mapsto> xs))" by (rule models_upd_one [OF m a(1) h'(2,3)]) auto
  then show ?thesis using h' by simp
qed

lemma models_remove:
  assumes m: "models h Q" and a: "Q q = Some (as @ x # bs)"
  shows "\<exists>h'. heap_run (Remove x) h = Some h' \<and> models h' (Q(q \<mapsto> as @ bs))"
proof -
  obtain h' where h': "dlq_remove x h = Some h'" "queue h' q (as @ bs)" "same_off h' h (set (q # as @ x # bs))"
    by (rule queue_remove [OF models_queue [OF m a(1)]])
  have "models h' (Q(q \<mapsto> as @ bs))" by (rule models_upd_one [OF m a(1) h'(2,3)]) auto
  then show ?thesis using h' by simp
qed

lemma models_insert_ahead:
  assumes m: "models h Q" and a: "Q q = Some (as @ x # bs)" "n \<notin> cells Q"
  shows "\<exists>h'. heap_run (Insert_ahead n x) h = Some h' \<and> models h' (Q(q \<mapsto> as @ n # x # bs))"
proof -
  note n = fresh_cells [OF a(2,1)]
  obtain h' where h': "dlq_insertAhead n x h = Some h'" "queue h' q (as @ n # x # bs)"
      "same_off h' h (set (n # q # as @ x # bs))"
    using queue_insert_ahead [OF models_queue [OF m a(1)] n] by auto
  have "models h' (Q(q \<mapsto> as @ n # x # bs))" by (rule models_upd_one [OF m a(1) h'(2,3)]) (use a(2) in auto)
  then show ?thesis using h' by simp
qed

lemma models_insert_after:
  assumes m: "models h Q" and a: "Q q = Some (as @ x # bs)" "n \<notin> cells Q"
  shows "\<exists>h'. heap_run (Insert_after n x) h = Some h' \<and> models h' (Q(q \<mapsto> as @ x # n # bs))"
proof -
  have "queue h q ((as @ [x]) @ bs)" using models_queue [OF m a(1)] by simp
  moreover have "n \<notin> set (q # (as @ [x]) @ bs)" using fresh_cells [OF a(2,1)] by simp
  ultimately obtain h' where h': "dlq_insertAfter n x h = Some h'" "queue h' q (as @ x # n # bs)"
      "same_off h' h (set (n # q # as @ x # bs))"
    using queue_insert_after [of h q "as @ [x]" bs n] by auto
  have "models h' (Q(q \<mapsto> as @ x # n # bs))" by (rule models_upd_one [OF m a(1) h'(2,3)]) (use a(2) in auto)
  then show ?thesis using h' by simp
qed

lemma models_swap:
  assumes m: "models h Q" and a: "Q q = Some (as @ x # bs)" "n \<notin> cells Q"
  shows "\<exists>h'. heap_run (Swap n x) h = Some h' \<and> models h' (Q(q \<mapsto> as @ n # bs))"
proof -
  note n = fresh_cells [OF a(2,1)]
  obtain h' where h': "dlq_swap n x h = Some h'" "queue h' q (as @ n # bs)" "same_off h' h (set (n # q # as @ x # bs))"
    by (rule queue_swap [OF models_queue [OF m a(1)] n])
  have "models h' (Q(q \<mapsto> as @ n # bs))" by (rule models_upd_one [OF m a(1) h'(2,3)]) (use a(2) in auto)
  then show ?thesis using h' by simp
qed

lemma models_block_enque:
  assumes m: "models h Q" and a: "Q s = Some cs" "Q q = Some xs" "s \<noteq> q"
  shows "\<exists>h'. heap_run (Block_enque s q) h = Some h' \<and> models h' (Q(s \<mapsto> [], q \<mapsto> xs @ cs))"
proof -
  note apart = models_apart [OF m a(1,2,3)]
  obtain h' where h': "dlq_block_enque s q h = Some h'" "queue h' q (xs @ cs)" "queue h' s []" "same_off h' h (set (s # cs @ q # xs))"
    by (rule queue_block_enque [OF models_queue [OF m a(1)] models_queue [OF m a(2)] apart])
  have "models h' (Q(s \<mapsto> [], q \<mapsto> xs @ cs))"
    by (rule models_upd_two [OF m a(1,2,3) h'(3,2,4)])
      (use apart models_queue [OF m a(1)] in \<open>auto simp: queue_def\<close>)
  then show ?thesis using h' by simp
qed

lemma models_block_insert_ahead:
  assumes m: "models h Q" and a: "Q s = Some cs" "Q q = Some (as @ x # bs)" "s \<noteq> q"
  shows "\<exists>h'. heap_run (Block_ahead s x) h = Some h' \<and> models h' (Q(s \<mapsto> [], q \<mapsto> as @ cs @ x # bs))"
proof -
  note apart = models_apart [OF m a(1,2,3)]
  obtain h' where h': "dlq_block_insertAhead s x h = Some h'" "queue h' q (as @ cs @ x # bs)" "queue h' s []"
      "same_off h' h (set (s # cs @ q # as @ x # bs))"
    by (rule queue_block_insert_ahead [OF models_queue [OF m a(1)] models_queue [OF m a(2)] apart])
  have "models h' (Q(s \<mapsto> [], q \<mapsto> as @ cs @ x # bs))"
    by (rule models_upd_two [OF m a(1,2,3) h'(3,2,4)])
      (use apart models_queue [OF m a(1)] in \<open>auto simp: queue_def\<close>)
  then show ?thesis using h' by simp
qed

lemma models_block_insert_after:
  assumes m: "models h Q" and a: "Q s = Some cs" "Q q = Some (as @ x # bs)" "s \<noteq> q"
  shows "\<exists>h'. heap_run (Block_after s x) h = Some h' \<and> models h' (Q(s \<mapsto> [], q \<mapsto> as @ x # cs @ bs))"
proof -
  have q: "queue h q ((as @ [x]) @ bs)" and apart: "set (s # cs) \<inter> set (q # (as @ [x]) @ bs) = {}"
    using models_queue [OF m a(2)] models_apart [OF m a(1,2,3)] by simp_all
  obtain h' where h': "dlq_block_insertAfter s x h = Some h'" "queue h' q ((as @ [x]) @ cs @ bs)" "queue h' s []"
      "same_off h' h (set (s # cs @ q # (as @ [x]) @ bs))"
    by (rule queue_block_insert_after [OF models_queue [OF m a(1)] q apart])
  have "models h' (Q(s \<mapsto> [], q \<mapsto> (as @ [x]) @ cs @ bs))"
    by (rule models_upd_two [OF m a(1,2,3) h'(3,2,4)])
      (use apart models_queue [OF m a(1)] in \<open>auto simp: queue_def\<close>)
  then show ?thesis using h' by simp
qed

lemma models_block_move:
  assumes m: "models h Q" and a: "Q s = Some (as @ x # bs)" "Q q = Some ys" "s \<noteq> q" "t \<notin> cells Q"
  shows "\<exists>h'. heap_run (Block_move t s x q) h = Some h' \<and> models h' (Q(s \<mapsto> as, q \<mapsto> ys @ x # bs))"
proof -
  note apart = models_apart [OF m a(1,2,3)]
  have t: "t \<notin> set (s # as @ x # bs) \<union> set (q # ys)" using fresh_cells [OF a(4,1)] fresh_cells [OF a(4,2)] by blast
  note s = models_queue [OF m a(1)]
  obtain h' where h': "dlq_block_move t s x q h = Some h'" "queue h' s as" "queue h' q (ys @ x # bs)"
      "same_off h' h (set (t # s # as @ x # bs @ q # ys))"
    by (rule queue_block_move [OF s models_queue [OF m a(2)] apart t])
  have "models h' (Q(s \<mapsto> as, q \<mapsto> ys @ x # bs))"
    by (rule models_upd_two [OF m a(1,2,3) h'(2,3,4)]) (use apart a(4) s in \<open>auto simp: queue_def\<close>)
  then show ?thesis using h' by simp
qed

section \<open>Properties\<close>

text \<open>
  C26: the queue module does on the heap what its operations mean for lists.  Whenever the cells of
  some queues are linked as those of lists without common entries, every operation on one or two of them, with an entry
  that is in no queue where it adds one, goes through without following a null pointer, and leaves the cells linked as those
  of the lists it should give; all the other queues are as before.
\<close>
theorem dlq_refines_lists:
  assumes "list_step op Q Q'" and m: "models h Q"
  shows "\<exists>h'. heap_run op h = Some h' \<and> models h' Q'"
  by (rule list_step.cases [OF assms(1)]; hypsubst; rule models_create [OF m] models_enque [OF m] models_deque_none [OF m] models_deque_one [OF m] models_remove [OF m] models_insert_ahead [OF m]
    models_insert_after [OF m] models_swap [OF m] models_block_enque [OF m] models_block_insert_ahead [OF m] models_block_insert_after [OF m] models_block_move [OF m];
    assumption)

definition blank :: "nat dlq_heap" where "blank = (\<lambda>_. \<lparr>hdr_typ = DLQ_NULL_NODE, prev = None, next = None\<rparr>)"

theorem dlq_refines_lists_witness:
  "\<exists>h'. heap_run (Enque 5 7) (dlq_createSQue (7 :: nat) blank) = Some h' \<and> models h' [7 \<mapsto> [5]]"
proof -
  have "models (dlq_createSQue (7 :: nat) blank) [7 \<mapsto> []]" by (simp add: models_def queue_new)
  moreover have "list_step (Enque 5 7) [7 \<mapsto> []] [7 \<mapsto> [5 :: nat]]"
    using list_step.intros(2) [of "[7 :: nat \<mapsto> []]" 7 "[]" 5] by (simp add: cells_def)
  ultimately show ?thesis by (intro dlq_refines_lists)
qed

text \<open>
  removing an entry by calling the operation that removes the first entry of a queue on the
  entry itself, as the sessions do that leave the ready queues, removes another one.  It is the entry that follows, and
  after the last entry it is the header of the queue: then each later attempt to add an entry or to take the
  first one follows a null pointer.
\<close>
theorem deque_of_entry_breaks_queue:
  assumes "queue h q (as @ x # bs)"
  shows "\<exists>y h'. dlq_deque x h = Some (Some y, h') \<and> y \<noteq> x \<and>
    (case bs of [] \<Rightarrow> y = q \<and> dlq_deque q h' = None \<and> (\<forall>n. n \<noteq> q \<longrightarrow> dlq_enque n q h' = None)
     | b # bs' \<Rightarrow> y = b \<and> queue h' q (as @ x # bs'))"
proof (cases bs)
  case Nil
  then obtain h' where "dlq_deque x h = Some (Some q, h')" "\<And>n. n \<noteq> q \<Longrightarrow> dlq_enque n q h' = None" "dlq_deque q h' = None"
    using deque_last_breaks_queue [of h q as x] assms by metis
  moreover have "q \<noteq> x" using assms by (auto simp: queue_def)
  ultimately show ?thesis using Nil by auto
next
  case (Cons b bs')
  then obtain h' where "dlq_deque x h = Some (Some b, h')" "queue h' q (as @ x # bs')"
    using deque_entry_takes_next [of h q as x b bs'] assms by metis
  moreover have "b \<noteq> x" using assms Cons by (auto simp: queue_def)
  ultimately show ?thesis using Cons by auto
qed

lemma sample_queue: "queue (the (dlq_enque 5 7 (dlq_createSQue 7 blank))) (7 :: nat) [5]"
proof -
  obtain h' where "dlq_enque 5 7 (dlq_createSQue 7 blank) = Some h'" "queue h' (7 :: nat) ([] @ [5])"
    by (rule queue_enque [OF queue_new, of 5 7 blank]) auto
  then show ?thesis by simp
qed

theorem deque_of_entry_breaks_queue_witness:
  "\<exists>h'. dlq_deque 5 (the (dlq_enque 5 7 (dlq_createSQue (7 :: nat) blank))) = Some (Some 7, h') \<and> dlq_enque 6 7 h' = None"
proof -
  have "queue (the (dlq_enque 5 7 (dlq_createSQue 7 blank))) (7 :: nat) ([] @ [5])" using sample_queue by simp
  from deque_of_entry_breaks_queue [OF this] show ?thesis by auto
qed

end
