(* ===== verification/Hex_String.thy ===== *)
theory Hex_String
  imports Line_Wrap
begin

text \<open>
  The codec of \<^verbatim>\<open>netconf/src/ncx/hex_string.c\<close>: bytes as two hexadecimal digits each, separated by
  colons.  Neither function uses \<open>outbufflen\<close>, so it is not a parameter of the model.
\<close>

section \<open>Digits\<close>

definition is_hex_char :: "u8 \<Rightarrow> bool" where
  "is_hex_char c \<longleftrightarrow> 48 \<le> c \<and> c \<le> 57 \<or> 97 \<le> c \<and> c \<le> 102 \<or> 65 \<le> c \<and> c \<le> 70"

text \<open>The final \<^verbatim>\<open>assert(0)\<close> of the C function is unreachable: callers check \<open>is_hex_char\<close> first.\<close>

definition decode_nibble :: "u8 \<Rightarrow> u8" where
  "decode_nibble c =
     (if 48 \<le> c \<and> c \<le> 57 then c - 48
      else if 97 \<le> c \<and> c \<le> 102 then c - 97 + 10
      else c - 65 + 10)"

definition decode_byte :: "u8 list \<Rightarrow> u8" where
  "decode_byte hex = push_bit 4 (decode_nibble (hex ! 0)) OR decode_nibble (hex ! 1)"

definition encode_nibble :: "u8 \<Rightarrow> u8" where
  "encode_nibble data = (if data < 10 then data + 48 else data - 10 + 97)"

definition encode_byte :: "u8 \<Rightarrow> u8 list" where
  "encode_byte data = [encode_nibble (drop_bit 4 (data AND 0xf0)), encode_nibble (data AND 0x0f)]"

section \<open>Encoding and decoding\<close>

text \<open>One turn of the outer loop writes the two digits and, unless the byte is the last, a colon.\<close>

fun hex_encode_loop :: "u8 list \<Rightarrow> u32 \<Rightarrow> u32 \<Rightarrow> u8 list" where
  "hex_encode_loop [] linesize wrapindex = []"
| "hex_encode_loop (b # bs) linesize wrapindex =
     (let (out, w) = put_block linesize wrapindex (encode_byte b @ (if bs \<noteq> [] then [58] else []))
      in out @ hex_encode_loop bs linesize w)"

definition hex_string_encode :: "u8 list \<Rightarrow> u32 \<Rightarrow> status_t \<times> u8 list \<times> nat" where
  "hex_string_encode inbuff linesize =
     (let out = hex_encode_loop inbuff linesize 0 in (NO_ERR, out @ [0], length out))"

text \<open>The decoder's state: the digits of the current byte, \<open>expected_colon\<close>, the bytes written.\<close>

type_synonym hex_state = "u8 list \<times> bool \<times> u8 list"

fun hex_flush :: "hex_state \<Rightarrow> hex_state" where
  "hex_flush (hex, expected_colon, out) =
     (if length hex = 2 then ([], True, out @ [decode_byte hex]) else (hex, expected_colon, out))"

fun hex_decode_step :: "u8 \<Rightarrow> hex_state \<Rightarrow> (status_t \<times> u8 list) + hex_state" where
  "hex_decode_step c (hex, expected_colon, out) =
     (if expected_colon \<and> c = 58 then Inr (hex_flush (hex, False, out))
      else if is_hex_char c then Inr (hex_flush (hex @ [c], expected_colon, out))
      else if c = 13 \<or> c = 10 then Inr (hex_flush (hex, expected_colon, out))
      else Inl (ERR_NCX_WRONG_TKVAL, out))"

fun hex_decode_loop :: "u8 list \<Rightarrow> hex_state \<Rightarrow> status_t \<times> u8 list" where
  "hex_decode_loop [] (hex, expected_colon, out) = (NO_ERR, out)"
| "hex_decode_loop (c # cs) st =
     (case hex_decode_step c st of
        Inl result \<Rightarrow> result
      | Inr st' \<Rightarrow> hex_decode_loop cs st')"

definition hex_string_decode :: "u8 list \<Rightarrow> status_t \<times> u8 list" where
  "hex_string_decode inbuff = hex_decode_loop inbuff ([], False, [])"

section \<open>One byte\<close>

lemma nibble_inverse:
  assumes "n < 16"
  shows "decode_nibble (encode_nibble n) = n" "is_hex_char (encode_nibble n)"
    "encode_nibble n \<noteq> 58" "encode_nibble n \<noteq> 13" "encode_nibble n \<noteq> 10"
proof -
  have all: "list_all (\<lambda>k. decode_nibble (encode_nibble (of_nat k)) = of_nat k \<and>
      is_hex_char (encode_nibble (of_nat k)) \<and> encode_nibble (of_nat k) \<noteq> 58 \<and>
      encode_nibble (of_nat k) \<noteq> 13 \<and> encode_nibble (of_nat k) \<noteq> 10) [0..<16]"
    by code_simp
  have "unat n < 16" using assms by (simp add: word_less_nat_alt)
  then have "unat n \<in> set [0..<16]" by simp
  with all show "decode_nibble (encode_nibble n) = n" "is_hex_char (encode_nibble n)"
    "encode_nibble n \<noteq> 58" "encode_nibble n \<noteq> 13" "encode_nibble n \<noteq> 10"
    unfolding list_all_iff by (metis of_nat_unat ucast_id)+
qed

lemma nibble_lt: "drop_bit 4 (b AND 0xf0) < (16 :: u8)" "b AND 0x0f < (16 :: u8)"
proof -
  have "unat (drop_bit 4 (b AND 0xf0)) = unat b div 16"
    using u8_lt [of b] by (simp add: drop_bit_and and_masks unat_bits)
  then show "drop_bit 4 (b AND 0xf0) < (16 :: u8)"
    using u8_lt [of b] by (simp add: word_less_nat_alt)
  show "b AND 0x0f < (16 :: u8)"
    by (simp add: word_less_nat_alt and_masks unat_bits)
qed

lemma decode_encode_byte: "decode_byte (encode_byte b) = b"
proof -
  have "push_bit 4 (drop_bit 4 (b AND 0xf0)) OR (b AND 0x0f) = b"
  proof (rule bit_word_eqI)
    fix n assume "n < LENGTH(8)"
    then show "bit (push_bit 4 (drop_bit 4 (b AND 0xf0)) OR (b AND 0x0f)) n = bit b n"
      unfolding and_masks by (cases "n < 4") (auto simp: drop_bit_and and_masks bit_simps)
  qed
  then show ?thesis
    by (simp only: decode_byte_def encode_byte_def nth_Cons_0 nth_Cons_Suc One_nat_def
        nibble_inverse nibble_lt)
qed

section \<open>Line breaks and the text form\<close>

text \<open>The text without its line breaks.\<close>

fun hex_text :: "u8 list \<Rightarrow> u8 list" where
  "hex_text [] = []"
| "hex_text [b] = encode_byte b"
| "hex_text (b # b' # bs) = encode_byte b @ 58 # hex_text (b' # bs)"

lemma encode_byte_eq:
  "\<exists>h l. encode_byte b = [h, l] \<and> is_hex_char h \<and> is_hex_char l \<and>
     h \<notin> {58, 13, 10} \<and> l \<notin> {58, 13, 10}"
  unfolding encode_byte_def using nibble_inverse [OF nibble_lt(1) [of b]] nibble_inverse [OF nibble_lt(2) [of b]]
  by auto

lemma filter_encode_byte:
  "filter (\<lambda>c. c \<noteq> 13 \<and> c \<noteq> 10) (encode_byte b @ cs) = encode_byte b @ filter (\<lambda>c. c \<noteq> 13 \<and> c \<noteq> 10) cs"
  using encode_byte_eq [of b] by auto

lemma encode_loop_text:
  "filter (\<lambda>c. c \<noteq> 13 \<and> c \<noteq> 10) (hex_encode_loop bs ls w) = hex_text bs"
proof (induction bs arbitrary: w rule: hex_text.induct)
  case (2 b)
  show ?case
    using put_block_filter [of ls w "encode_byte b @ []"] filter_encode_byte [of b "[]"]
    by (simp add: split_beta)
next
  case (3 b b' bs)
  show ?case
    using put_block_filter [of ls w "encode_byte b @ [58]"] filter_encode_byte [of b "[58]"] 3
    by (simp add: split_beta del: hex_encode_loop.simps(2)) (simp add: split_beta 3 del: hex_encode_loop.simps(2) add: hex_encode_loop.simps(2) [of b])
qed simp

lemma hex_decode_breaks:
  "length hex < 2 \<Longrightarrow> hex_decode_loop ts (hex, ec, out) =
     hex_decode_loop (filter (\<lambda>c. c \<noteq> 13 \<and> c \<noteq> 10) ts) (hex, ec, out)"
proof (induction ts arbitrary: hex ec out)
  case (Cons c ts)
  have brk: "\<not> is_hex_char 13" "\<not> is_hex_char 10" by (simp_all add: is_hex_char_def)
  show ?case
    using Cons.prems brk
    by (cases hex) (auto simp: Cons.IH)
qed simp

section \<open>Decoding an encoded text\<close>

lemma decode_digits:
  "hex_decode_loop (encode_byte b @ cs) ([], ec, out) = hex_decode_loop cs ([], True, out @ [b])"
proof -
  obtain h l where e: "encode_byte b = [h, l]" "is_hex_char h" "is_hex_char l" "h \<noteq> 58" "l \<noteq> 58"
    using encode_byte_eq [of b] by auto
  from decode_encode_byte [of b] have "decode_byte [h, l] = b" by (simp only: e(1))
  with e show ?thesis by simp
qed

lemma decode_hex_text:
  "bs \<noteq> [] \<Longrightarrow> hex_decode_loop (hex_text bs) ([], ec, out) = (NO_ERR, out @ bs)"
proof (induction bs arbitrary: ec out rule: hex_text.induct)
  case (2 b)
  show ?case using decode_digits [of b "[]"] by simp
next
  case (3 b b' bs)
  then show ?case by (simp add: decode_digits)
qed simp

lemma hex_decode_text:
  "filter (\<lambda>c. c \<noteq> 13 \<and> c \<noteq> 10) ts = hex_text bs \<Longrightarrow> hex_string_decode ts = (NO_ERR, bs)"
  unfolding hex_string_decode_def
  using hex_decode_breaks [of "[]" ts False "[]"] decode_hex_text [of bs False "[]"]
  by (cases "bs = []") simp_all

section \<open>The codec contract\<close>

definition hex_encoded :: "u32 \<Rightarrow> u8 list \<Rightarrow> u8 list" where
  "hex_encoded linesize bs = (case hex_string_encode bs linesize of (res, out, n) \<Rightarrow> take n out)"

lemma hex_encoded_eq: "hex_encoded ls bs = hex_encode_loop bs ls 0"
  by (simp add: hex_encoded_def hex_string_encode_def Let_def)

interpretation hexc: byte_codec hex_encoded hex_string_decode "\<lambda>_. True"
proof
  fix bs :: "u8 list" and ls :: u32
  show "hex_string_decode (hex_encoded ls bs) = (NO_ERR, bs)"
    by (rule hex_decode_text) (simp add: hex_encoded_eq encode_loop_text)
next
  fix ts :: "u8 list"
  show "hex_string_decode ts = hex_string_decode (filter (\<lambda>c. c \<noteq> 13 \<and> c \<noteq> 10) ts)"
    unfolding hex_string_decode_def by (rule hex_decode_breaks) simp
qed

section \<open>Properties\<close>

text \<open>
  decoding the text of \<^verbatim>\<open>hex_string_encode\<close>, written with any line size and then re-wrapped in
  any other way, gives back exactly the bytes that were encoded.
\<close>
theorem hex_roundtrip:
  assumes "filter (\<lambda>c. c \<noteq> 13 \<and> c \<noteq> 10) ts = filter (\<lambda>c. c \<noteq> 13 \<and> c \<noteq> 10) (hex_encoded ls bs)"
  shows "hex_string_decode ts = (NO_ERR, bs)"
  using assms by (intro hexc.dec_same_text) simp_all

theorem hex_roundtrip_witness:
  "hex_string_decode [13, 55, 98, 58, 48, 97] = (NO_ERR, [123, 10])"
proof -
  have "hex_encoded 2 [123, 10] = [55, 98, 13, 10, 58, 48, 13, 10, 97]" by code_simp
  then show ?thesis using hex_roundtrip [of "[13, 55, 98, 58, 48, 97]" 2 "[123, 10]"] by simp
qed

text \<open>
  an odd number of digits is accepted: the last digit disappears without an error.
\<close>
theorem hex_odd_digit_lost:
  "hex_string_decode [97, 98, 58, 99] = (NO_ERR, [0xab])"
  by code_simp

end
