(* ===== verification/Ses_Props.thy ===== *)
theory Ses_Props
  imports Ses
begin

text \<open>
  The input functions of a session against two abstract machines that read one character at a time: whatever the
  pieces in which the input arrives and however it is spread over buffers, the messages that the session gets are those
  of the abstract machine.  The chunk machine is then shown to undo the chunk framing.
\<close>

section \<open>Machines that read characters\<close>

fun run :: "('s \<Rightarrow> char \<Rightarrow> 's option) \<Rightarrow> 's \<Rightarrow> string \<Rightarrow> 's option" where
  "run step a [] = Some a"
| "run step a (ch # rest) = (case step a ch of None \<Rightarrow> None | Some a \<Rightarrow> run step a rest)"

lemma run_append: "run step a (xs @ ys) = (case run step a xs of None \<Rightarrow> None | Some a \<Rightarrow> run step a ys)"
  by (induction xs arbitrary: a) (simp_all split: option.splits)

text \<open>The input arrives in pieces; \<open>ready\<close> is what an input function needs from a session for a piece.\<close>

fun feed :: "(string \<Rightarrow> ses_cb_t \<Rightarrow> (status_t \<times> ses_cb_t) option) \<Rightarrow> string list \<Rightarrow> ses_cb_t \<Rightarrow> (status_t \<times> ses_cb_t) option" where
  "feed accept [] scb = Some (NO_ERR, scb)"
| "feed accept (p # ps) scb =
     (case accept p scb of
        None \<Rightarrow> None
      | Some (res, scb) \<Rightarrow> (if res \<noteq> NO_ERR then Some (res, scb) else feed accept ps scb))"

fun ready_for :: "(string \<Rightarrow> ses_cb_t \<Rightarrow> (status_t \<times> ses_cb_t) option) \<Rightarrow> (string \<Rightarrow> ses_cb_t \<Rightarrow> bool) \<Rightarrow> string list \<Rightarrow> ses_cb_t \<Rightarrow> bool" where
  "ready_for accept ready [] scb = True"
| "ready_for accept ready (p # ps) scb =
     (ready p scb \<and> (case accept p scb of Some (res, scb) \<Rightarrow> ready_for accept ready ps scb | None \<Rightarrow> True))"

text \<open>What an input function promises: it does what a machine does.\<close>

locale framing =
  fixes step :: "'s \<Rightarrow> char \<Rightarrow> 's option"
    and accept :: "string \<Rightarrow> ses_cb_t \<Rightarrow> (status_t \<times> ses_cb_t) option"
    and rel :: "ses_cb_t \<Rightarrow> 's \<Rightarrow> bool"
    and ready :: "string \<Rightarrow> ses_cb_t \<Rightarrow> bool"
  assumes accept_run: "rel scb a \<Longrightarrow> ready input scb \<Longrightarrow> run step a input = Some a' \<Longrightarrow>
      \<exists>scb'. accept input scb = Some (NO_ERR, scb') \<and> rel scb' a'"
begin

text \<open>Then it does so in whatever pieces the input arrives.\<close>

lemma feed_run:
  "rel scb a \<Longrightarrow> ready_for accept ready ps scb \<Longrightarrow> run step a (concat ps) = Some a' \<Longrightarrow>
   \<exists>scb'. feed accept ps scb = Some (NO_ERR, scb') \<and> rel scb' a'"
proof (induction ps arbitrary: scb a)
  case (Cons p ps)
  obtain a1 where a1: "run step a p = Some a1" "run step a1 (concat ps) = Some a'"
    using Cons.prems(3) by (auto simp: run_append split: option.splits)
  obtain s where s: "accept p scb = Some (NO_ERR, s)" "rel s a1"
    using accept_run [OF Cons.prems(1) _ a1(1)] Cons.prems(2) by auto
  have "ready_for accept ready ps s" using Cons.prems(2) s(1) by simp
  from Cons.IH [OF s(2) this a1(2)] s(1) show ?case by simp
qed simp

end

section \<open>What the buffers hold\<close>

definition buff_bytes :: "ses_msg_buff_t \<Rightarrow> string" where
  "buff_bytes b = map (buff b) [buffstart b..<bufflen b]"

text \<open>The bytes of a complete message, as the reader gets them.\<close>

definition msg_bytes :: "ses_msg_t \<Rightarrow> string" where
  "msg_bytes m = concat (map buff_bytes (buffQ m))"

definition full :: "ses_msg_buff_t \<Rightarrow> bool" where
  "full b \<longleftrightarrow> buffstart b = 0 \<and> bufflen b = SES_MSG_BUFFSIZE"

text \<open>A message in progress: full buffers and one that is being filled.\<close>

definition filling :: "ses_msg_buff_t \<Rightarrow> bool" where
  "filling b \<longleftrightarrow> buffstart b = 0 \<and> buffpos b \<le> SES_MSG_BUFFSIZE \<and>
     (bufflen b = SES_MSG_BUFFSIZE \<longrightarrow> buffpos b = SES_MSG_BUFFSIZE)"

definition open_msg :: "ses_msg_t \<Rightarrow> string \<Rightarrow> bool" where
  "open_msg m cur \<longleftrightarrow> \<not> msg_ready m \<and>
     (\<exists>fs b. buffQ m = fs @ [b] \<and> (\<forall>f \<in> set fs. full f) \<and> filling b \<and>
        cur = concat (map buff_bytes fs) @ map (buff b) [0..<buffpos b])"

text \<open>The queue of messages: complete ones, and the one in progress unless there is none (\<open>null\<close>).\<close>

definition queue_is :: "bool \<Rightarrow> ses_cb_t \<Rightarrow> string \<Rightarrow> string list \<Rightarrow> bool" where
  "queue_is null scb cur msgs \<longleftrightarrow>
     (\<exists>ms. (\<forall>m \<in> set ms. msg_ready m) \<and> map msg_bytes ms = msgs \<and>
        (if null then msgQ scb = ms \<and> cur = [] else \<exists>m. msgQ scb = ms @ [m] \<and> open_msg m cur))"

lemma upd_last_snoc [simp]: "upd_last f (xs @ [x]) = xs @ [f x]" by (simp add: upd_last_def)

lemma upd_msg_msgQ: "msgQ scb = ms @ [m] \<Longrightarrow> msgQ (upd_msg f scb) = ms @ [f m]" by (simp add: upd_msg_def)

lemma upd_buff_msgQ:
  "msgQ scb = ms @ [m] \<Longrightarrow> buffQ m = fs @ [b] \<Longrightarrow> msgQ (upd_buff f scb) = ms @ [m\<lparr>buffQ := fs @ [f b]\<rparr>]"
  by (simp add: upd_buff_def upd_msg_def)

lemma queue_isI:
  "(\<forall>m \<in> set ms. msg_ready m) \<Longrightarrow> msgQ scb = ms @ [m] \<Longrightarrow> open_msg m cur \<Longrightarrow> queue_is False scb cur (map msg_bytes ms)"
  unfolding queue_is_def by (rule exI [of _ ms]) simp

lemma queue_isE:
  assumes "queue_is False scb cur msgs"
  obtains ms m fs b where "\<forall>m \<in> set ms. msg_ready m" "map msg_bytes ms = msgs" "msgQ scb = ms @ [m]" "\<not> msg_ready m"
    "buffQ m = fs @ [b]" "\<forall>f \<in> set fs. full f" "filling b" "cur = concat (map buff_bytes fs) @ map (buff b) [0..<buffpos b]"
  using assms by (auto simp: queue_is_def open_msg_def)

lemma open_msgI:
  "\<not> msg_ready m \<Longrightarrow> buffQ m = fs @ [b] \<Longrightarrow> \<forall>f \<in> set fs. full f \<Longrightarrow> filling b \<Longrightarrow>
   cur = concat (map buff_bytes fs) @ map (buff b) [0..<buffpos b] \<Longrightarrow> open_msg m cur"
  by (auto simp: open_msg_def)

section \<open>Allocation\<close>

definition fresh :: "ses_msg_buff_t \<Rightarrow> bool" where
  "fresh b \<longleftrightarrow> buffstart b = 0 \<and> bufflen b = 0 \<and> buffpos b = 0"

text \<open>The number of buffers that the session may still ask for.\<close>

definition room :: "bool \<Rightarrow> ses_cb_t \<Rightarrow> nat \<Rightarrow> bool" where
  "room mem scb n \<longleftrightarrow> mem \<and> buffcnt scb + n < SES_MAX_BUFFERS - 1"

lemma new_buff_ok:
  assumes "room mem scb (Suc n)"
  obtains b scb' where "ses_msg_new_buff mem False scb = (NO_ERR, b, scb')" "fresh b" "room mem scb' n" "msgQ scb' = msgQ scb"
    "instate scb' = instate scb" "inendpos scb' = inendpos scb" "startchunk scb' = startchunk scb" "ses_protocol scb' = ses_protocol scb"
  using assms
  by (cases "ses_msg_new_buff mem False scb")
    (force simp: ses_msg_new_buff_def malloc_buff_def room_def fresh_def ses_msg_init_buff_def SES_MAX_BUFFERS_def
      split: if_splits list.splits)

lemma room_mono: "room mem scb n \<Longrightarrow> m \<le> n \<Longrightarrow> room mem scb m" by (simp add: room_def)

lemma room_upd [simp]: "room mem (upd_msg f scb) n = room mem scb n" "room mem (upd_buff g scb) n = room mem scb n"
  by (simp_all add: room_def upd_msg_def upd_buff_def)

lemma add_buff_ok:
  assumes "room mem scb (Suc n)" "msgQ scb = ms @ [m]"
  obtains b scb' where "add_buff mem scb = (NO_ERR, scb')" "fresh b" "msgQ scb' = ms @ [m\<lparr>buffQ := buffQ m @ [b]\<rparr>]" "room mem scb' n"
    "instate scb' = instate scb" "inendpos scb' = inendpos scb" "startchunk scb' = startchunk scb" "ses_protocol scb' = ses_protocol scb"
proof -
  obtain b s where "ses_msg_new_buff mem False scb = (NO_ERR, b, s)" "fresh b" "room mem s n" "msgQ s = msgQ scb"
    "instate s = instate scb" "inendpos s = inendpos scb" "startchunk s = startchunk scb" "ses_protocol s = ses_protocol scb"
    by (rule new_buff_ok [OF assms(1)])
  with assms(2) show thesis
    by (intro that [of "upd_msg (\<lambda>m. m\<lparr>buffQ := buffQ m @ [b]\<rparr>) s" b]) (simp_all add: add_buff_def upd_msg_msgQ)
qed

lemma add_msg_ok:
  assumes "room mem scb n"
  obtains scb' where "add_msg mem scb = (NO_ERR, scb')" "msgQ scb' = msgQ scb @ [new_msg]" "room mem scb' n"
    "instate scb' = instate scb" "inendpos scb' = inendpos scb" "startchunk scb' = startchunk scb" "ses_protocol scb' = ses_protocol scb"
proof (cases "msg_freecnt scb > 0")
  case True
  with assms show thesis
    by (intro that [of "scb\<lparr>msg_freecnt := msg_freecnt scb - 1, msgQ := msgQ scb @ [new_msg]\<rparr>"])
      (simp_all add: add_msg_def ses_msg_new_msg_def room_def)
next
  case False
  with assms show thesis
    by (intro that [of "scb\<lparr>msgQ := msgQ scb @ [new_msg]\<rparr>"]) (simp_all add: add_msg_def ses_msg_new_msg_def room_def)
qed

lemma fresh_filling: "fresh b \<Longrightarrow> filling b \<and> buffpos b = 0"
  by (simp add: fresh_def filling_def SES_MSG_BUFFSIZE_def)

lemma new_msg_open: "fresh b \<Longrightarrow> open_msg (new_msg\<lparr>buffQ := [b]\<rparr>) []"
  using fresh_filling [of b] by (intro open_msgI [of _ "[]" b]) (auto simp: new_msg_def)

text \<open>At the top of the loops there is room for a character afterwards.\<close>

lemma next_buff_ok:
  assumes q: "queue_is False scb cur msgs" and r: "room mem scb (Suc n)"
  obtains scb' ms m fs b where "next_buff mem False scb = (NO_ERR, scb')" "room mem scb' n"
    "\<forall>m \<in> set ms. msg_ready m" "map msg_bytes ms = msgs" "msgQ scb' = ms @ [m]" "\<not> msg_ready m"
    "buffQ m = fs @ [b]" "\<forall>f \<in> set fs. full f" "filling b" "buffpos b < SES_MSG_BUFFSIZE"
    "cur = concat (map buff_bytes fs) @ map (buff b) [0..<buffpos b]"
    "instate scb' = instate scb" "inendpos scb' = inendpos scb" "startchunk scb' = startchunk scb" "ses_protocol scb' = ses_protocol scb"
    "curchunksize (cur_msg scb') = curchunksize (cur_msg scb)" "expchunksize (cur_msg scb') = expchunksize (cur_msg scb)"
proof -
  obtain ms m fs b where c: "\<forall>m \<in> set ms. msg_ready m" "map msg_bytes ms = msgs" "msgQ scb = ms @ [m]" "\<not> msg_ready m"
    "buffQ m = fs @ [b]" "\<forall>f \<in> set fs. full f" "filling b" "cur = concat (map buff_bytes fs) @ map (buff b) [0..<buffpos b]"
    by (rule queue_isE [OF q])
  have cb: "cur_buff scb = b" by (simp add: c)
  show thesis
  proof (cases "buffpos b = SES_MSG_BUFFSIZE")
    case False
    then have "next_buff mem False scb = (NO_ERR, scb)" by (simp add: next_buff_def cb)
    moreover have "room mem scb n" using r by (simp add: room_def)
    ultimately show thesis using c False by (intro that [of scb ms m fs b]) (auto simp: filling_def)
  next
    case True
    let ?s = "upd_buff close_full scb" and ?m = "m\<lparr>buffQ := fs @ [close_full b]\<rparr>"
    have q': "msgQ ?s = ms @ [?m]" by (rule upd_buff_msgQ [OF c(3,5)])
    have "room mem ?s (Suc n)" using r by simp
    then obtain nb s' where n: "add_buff mem ?s = (NO_ERR, s')" "fresh nb" "msgQ s' = ms @ [?m\<lparr>buffQ := buffQ ?m @ [nb]\<rparr>]" "room mem s' n"
      "instate s' = instate ?s" "inendpos s' = inendpos ?s" "startchunk s' = startchunk ?s" "ses_protocol s' = ses_protocol ?s"
      by (rule add_buff_ok [OF _ q'])
    have "full (close_full b)" using c(7) by (simp add: full_def close_full_def filling_def)
    moreover have "buff_bytes (close_full b) = map (buff b) [0..<buffpos b]"
      using c(7) True by (simp add: buff_bytes_def close_full_def filling_def)
    ultimately show thesis using c n True fresh_filling [OF n(2)] r
      by (intro that [of s' ms "?m\<lparr>buffQ := buffQ ?m @ [nb]\<rparr>" "fs @ [close_full b]" nb])
        (auto simp: next_buff_def cb room_def SES_MSG_BUFFSIZE_def)
  qed
qed

section \<open>The end marker\<close>

text \<open>A character arrives: the message and the buffer that it goes to exist, or are allocated.\<close>

lemma take_char:
  assumes q: "queue_is null scb cur msgs" and r: "room mem scb (Suc n)"
  obtains scb1 scb2 where "(if null then add_msg mem scb else (NO_ERR, scb)) = (NO_ERR, scb1)"
    "next_buff mem null scb1 = (NO_ERR, scb2)" "queue_is False (upd_buff (put_char ch) scb2) (cur @ [ch]) msgs" "room mem scb2 n"
    "instate scb2 = instate scb" "inendpos scb2 = inendpos scb" "ses_protocol scb2 = ses_protocol scb"
proof (cases null)
  case False
  with q have q: "queue_is False scb cur msgs" by simp
  obtain scb' ms m fs b where n: "next_buff mem False scb = (NO_ERR, scb')" "room mem scb' n"
    "\<forall>m \<in> set ms. msg_ready m" "map msg_bytes ms = msgs" "msgQ scb' = ms @ [m]" "\<not> msg_ready m"
    "buffQ m = fs @ [b]" "\<forall>f \<in> set fs. full f" "filling b" "buffpos b < SES_MSG_BUFFSIZE"
    "cur = concat (map buff_bytes fs) @ map (buff b) [0..<buffpos b]"
    "instate scb' = instate scb" "inendpos scb' = inendpos scb" "ses_protocol scb' = ses_protocol scb"
    by (rule next_buff_ok [OF q r])
  have "filling (put_char ch b)" using n(9,10) by (simp add: filling_def put_char_def)
  moreover have "map (buff (put_char ch b)) [0..<buffpos (put_char ch b)] = map (buff b) [0..<buffpos b] @ [ch]"
    by (simp add: put_char_def)
  ultimately have "open_msg (m\<lparr>buffQ := fs @ [put_char ch b]\<rparr>) (cur @ [ch])"
    using n(6,8,11) by (intro open_msgI [of _ fs "put_char ch b"]) simp_all
  from queue_isI [OF n(3) upd_buff_msgQ [OF n(5,7), of "put_char ch"] this] have "queue_is False (upd_buff (put_char ch) scb') (cur @ [ch]) msgs"
    by (simp add: n(4))
  then show thesis using n False by (intro that [of scb scb']) simp_all
next
  case True
  with q obtain ms where ms: "\<forall>m \<in> set ms. msg_ready m" "map msg_bytes ms = msgs" "msgQ scb = ms" "cur = []"
    by (auto simp: queue_is_def)
  obtain s where s: "add_msg mem scb = (NO_ERR, s)" "msgQ s = msgQ scb @ [new_msg]" "room mem s (Suc n)" "instate s = instate scb"
    "inendpos s = inendpos scb" "startchunk s = startchunk scb" "ses_protocol s = ses_protocol scb"
    by (rule add_msg_ok [OF r])
  obtain b s' where b: "add_buff mem s = (NO_ERR, s')" "fresh b" "msgQ s' = msgQ scb @ [new_msg\<lparr>buffQ := buffQ new_msg @ [b]\<rparr>]"
    "room mem s' n" "instate s' = instate s" "inendpos s' = inendpos s" "startchunk s' = startchunk s" "ses_protocol s' = ses_protocol s"
    by (rule add_buff_ok [OF s(3,2)])
  have b0: "buffpos b = 0" "filling b" using fresh_filling [OF b(2)] by simp_all
  have "open_msg (new_msg\<lparr>buffQ := [put_char ch b]\<rparr>) [ch]"
    using b0 by (intro open_msgI [of _ "[]" "put_char ch b"]) (simp_all add: new_msg_def filling_def put_char_def SES_MSG_BUFFSIZE_def)
  moreover have "msgQ (upd_buff (put_char ch) s') = ms @ [new_msg\<lparr>buffQ := [put_char ch b]\<rparr>]"
    using upd_buff_msgQ [OF b(3), of "[]" b "put_char ch"] ms by (simp add: new_msg_def)
  ultimately have "queue_is False (upd_buff (put_char ch) s') (cur @ [ch]) msgs"
    using queue_isI [of ms] ms by fastforce
  with s b True show thesis by (intro that [of s s']) (simp_all add: next_buff_def)
qed

lemma free_buff_fields [simp]:
  "msgQ (ses_msg_free_buff b scb) = msgQ scb" "ses_protocol (ses_msg_free_buff b scb) = ses_protocol scb"
  "room mem scb n \<Longrightarrow> room mem (ses_msg_free_buff b scb) n"
  by (auto simp: ses_msg_free_buff_def room_def)

lemma make_inready_fields [simp]:
  "msgQ (ses_msg_make_inready scb) = msgQ scb" "ses_protocol (ses_msg_make_inready scb) = ses_protocol scb"
  "room mem (ses_msg_make_inready scb) n = room mem scb n"
  by (auto simp: ses_msg_make_inready_def room_def)

text \<open>The marker is cut off, also where it is spread over two buffers.\<close>

lemma cut_marker_ok:
  assumes q: "queue_is False scb cur msgs" and l: "NC_SSH_END_LEN \<le> length cur" and r: "room mem scb n"
  shows "if length cur = NC_SSH_END_LEN then cut_marker scb = None
         else \<exists>scb' ms m fs b. cut_marker scb = Some scb' \<and> room mem scb' n \<and> ses_protocol scb' = ses_protocol scb \<and>
                msgQ scb' = ms @ [m] \<and> (\<forall>m \<in> set ms. msg_ready m) \<and> map msg_bytes ms = msgs \<and> buffQ m = fs @ [b] \<and> buffstart b = 0 \<and>
                concat (map buff_bytes (fs @ [b])) = take (length cur - NC_SSH_END_LEN) cur"
proof -
  obtain ms m fs b where c: "\<forall>m \<in> set ms. msg_ready m" "map msg_bytes ms = msgs" "msgQ scb = ms @ [m]" "\<not> msg_ready m"
    "buffQ m = fs @ [b]" "\<forall>f \<in> set fs. full f" "filling b" "cur = concat (map buff_bytes fs) @ map (buff b) [0..<buffpos b]"
    by (rule queue_isE [OF q])
  have cb: "cur_buff scb = b" by (simp add: c)
  define k where "k = NC_SSH_END_LEN"
  define pre where "pre = concat (map buff_bytes fs)"
  have len: "length cur = length pre + buffpos b" using c(8) by (simp add: pre_def)
  show ?thesis
  proof (cases "buffpos b > k")
    case True
    let ?b = "b\<lparr>bufflen := buffpos b - k\<rparr>"
    have "cut_marker scb = Some (upd_buff (\<lambda>b. b\<lparr>bufflen := buffpos b - k\<rparr>) scb)"
      using True by (simp add: cut_marker_def cb k_def Let_def)
    moreover have "msgQ (upd_buff (\<lambda>b. b\<lparr>bufflen := buffpos b - k\<rparr>) scb) = ms @ [m\<lparr>buffQ := fs @ [?b]\<rparr>]"
      by (rule upd_buff_msgQ [OF c(3,5)])
    moreover have "concat (map buff_bytes (fs @ [?b])) = take (length cur - k) cur"
      using True c(7,8) by (simp add: buff_bytes_def filling_def take_map pre_def [symmetric] len)
    moreover have "length cur \<noteq> k" using True len by simp
    ultimately show ?thesis using r c(1,2,7) by (fastforce simp: k_def filling_def)
  next
    case False
    let ?m = "m\<lparr>buffQ := fs\<rparr>" and ?s = "ses_msg_free_buff b (upd_msg (\<lambda>m. m\<lparr>buffQ := butlast (buffQ m)\<rparr>) scb)"
    have q': "msgQ ?s = ms @ [?m]" by (simp add: upd_msg_msgQ [OF c(3)] c(5))
    show ?thesis
    proof (cases "fs = []")
      case True
      then have "cut_marker scb = None" using False q' by (simp add: cut_marker_def cb k_def Let_def)
      moreover have "length cur = k" using l len False True by (simp add: pre_def k_def)
      ultimately show ?thesis by (simp add: k_def)
    next
      case ne: False
      then obtain fs' f where fs: "fs = fs' @ [f]" by (metis rev_exhaust)
      have f: "buffstart f = 0" "bufflen f = 2000" using c(6) fs by (simp_all add: full_def SES_MSG_BUFFSIZE_def)
      have k6: "k = 6" by (simp add: k_def NC_SSH_END_LEN_def)
      let ?f = "f\<lparr>bufflen := bufflen f - (k - buffpos b)\<rparr>"
      let ?s' = "upd_buff (\<lambda>f. f\<lparr>bufflen := bufflen f - (k - buffpos b)\<rparr>) ?s"
      have pl: "length pre = length (concat (map buff_bytes fs')) + 2000" using f by (simp add: pre_def fs buff_bytes_def)
      have "cut_marker scb = Some ?s'" using False q' ne by (simp add: cut_marker_def cb k_def Let_def)
      moreover have "msgQ ?s' = ms @ [m\<lparr>buffQ := fs' @ [?f]\<rparr>]"
        using upd_buff_msgQ [OF q', of fs' f] by (simp add: fs)
      moreover have "concat (map buff_bytes (fs' @ [?f])) = take (length cur - k) cur"
      proof -
        have "take (length cur - k) cur = take (length cur - k) pre"
          using False c(8) len by (simp add: pre_def [symmetric])
        also have "\<dots> = concat (map buff_bytes fs') @ map (buff f) [0..<2000 - (k - buffpos b)]"
          using f False pl by (simp add: pre_def fs buff_bytes_def len take_map k6)
        finally show ?thesis using f by (simp add: buff_bytes_def)
      qed
      moreover have "length cur \<noteq> k" using pl len k6 by simp
      moreover have "room mem ?s' n" using r by simp
      ultimately show ?thesis using c(1,2) f by (fastforce simp: k_def)
    qed
  qed
qed

lemma end_msg_v10_ok:
  assumes q: "queue_is False scb cur msgs" and l: "NC_SSH_END_LEN \<le> length cur" and r: "room mem scb n"
  shows "if length cur = NC_SSH_END_LEN then end_msg_v10 scb = None
         else \<exists>scb'. end_msg_v10 scb = Some scb' \<and> room mem scb' n \<and> ses_protocol scb' = ses_protocol scb \<and>
                instate scb' = SES_INST_IDLE \<and> queue_is True scb' [] (msgs @ [take (length cur - NC_SSH_END_LEN) cur])"
proof (cases "length cur = NC_SSH_END_LEN")
  case True
  with cut_marker_ok [OF q l r] show ?thesis by (simp add: end_msg_v10_def)
next
  case False
  with cut_marker_ok [OF q l r] obtain s ms m fs b where c: "cut_marker scb = Some s" "room mem s n"
    "ses_protocol s = ses_protocol scb" "msgQ s = ms @ [m]" "\<forall>m \<in> set ms. msg_ready m" "map msg_bytes ms = msgs"
    "buffQ m = fs @ [b]" "buffstart b = 0" "concat (map buff_bytes (fs @ [b])) = take (length cur - NC_SSH_END_LEN) cur"
    by auto
  let ?f = "\<lambda>b. b\<lparr>buffpos := 0, islast := True\<rparr>" and ?g = "\<lambda>m. m\<lparr>curbuff := None, msg_ready := True\<rparr>"
  have "msgQ (upd_msg ?g (upd_buff ?f s)) = ms @ [?g (m\<lparr>buffQ := fs @ [?f b]\<rparr>)]"
    by (rule upd_msg_msgQ [OF upd_buff_msgQ [OF c(4,7), of ?f]])
  moreover have "msg_bytes (?g (m\<lparr>buffQ := fs @ [?f b]\<rparr>)) = take (length cur - NC_SSH_END_LEN) cur"
    using c(8,9) by (simp add: msg_bytes_def buff_bytes_def)
  ultimately show ?thesis using False c
    by (auto simp: end_msg_v10_def queue_is_def room_def ses_msg_make_inready_def upd_msg_def upd_buff_def)
qed

text \<open>
  The abstract machine: how much of the marker has been seen, the text of the message in progress and the complete messages.
  An empty message ends it.
\<close>

fun step10 :: "nat \<times> string \<times> string list \<Rightarrow> char \<Rightarrow> (nat \<times> string \<times> string list) option" where
  "step10 (pos, cur, msgs) ch =
     (if ch \<noteq> NC_SSH_END ! pos then Some (0, cur @ [ch], msgs)
      else if pos + 1 < NC_SSH_END_LEN then Some (pos + 1, cur @ [ch], msgs)
      else if length cur + 1 = NC_SSH_END_LEN then None
      else Some (0, [], msgs @ [take (length cur + 1 - NC_SSH_END_LEN) cur]))"

abbreviation run10 :: "nat \<times> string \<times> string list \<Rightarrow> string \<Rightarrow> (nat \<times> string \<times> string list) option" where
  "run10 \<equiv> run step10"

text \<open>The states of the session that stand for a state of the abstract machine.\<close>

fun rel10 :: "bool \<Rightarrow> ses_cb_t \<Rightarrow> nat \<times> string \<times> string list \<Rightarrow> bool" where
  "rel10 null scb (pos, cur, msgs) \<longleftrightarrow> queue_is null scb cur msgs \<and> pos \<le> length cur \<and> pos < NC_SSH_END_LEN \<and>
     (if pos = 0 then instate scb \<in> {SES_INST_IDLE, SES_INST_INMSG} else instate scb = SES_INST_INEND \<and> inendpos scb = pos)"

lemma queue_is_framing [simp]:
  "queue_is null (scb\<lparr>instate := i\<rparr>) cur msgs = queue_is null scb cur msgs"
  "queue_is null (scb\<lparr>inendpos := p\<rparr>) cur msgs = queue_is null scb cur msgs"
  "queue_is null (scb\<lparr>instate := i, inendpos := p\<rparr>) cur msgs = queue_is null scb cur msgs"
  "room mem (scb\<lparr>instate := i\<rparr>) n = room mem scb n" "room mem (scb\<lparr>inendpos := p\<rparr>) n = room mem scb n"
  by (simp_all add: queue_is_def room_def)

lemma match_v10_ok:
  assumes "queue_is False scb (cur @ [ch]) msgs" "pos \<le> length cur" "pos < NC_SSH_END_LEN"
    "if pos = 0 then instate scb \<in> {SES_INST_IDLE, SES_INST_INMSG} else instate scb = SES_INST_INEND \<and> inendpos scb = pos"
  obtains scb' where "match_v10 ch scb = Some (scb', ch = NC_SSH_END ! pos \<and> pos + 1 = NC_SSH_END_LEN)"
    "queue_is False scb' (cur @ [ch]) msgs" "ses_protocol scb' = ses_protocol scb" "\<forall>n. room mem scb n \<longrightarrow> room mem scb' n"
    "\<not> (ch = NC_SSH_END ! pos \<and> pos + 1 = NC_SSH_END_LEN) \<longrightarrow>
       rel10 False scb' (if ch = NC_SSH_END ! pos then pos + 1 else 0, cur @ [ch], msgs)"
proof (cases "pos = 0")
  case True
  with assms show thesis
    by (intro that [of "if ch = NC_SSH_END ! pos then scb\<lparr>instate := SES_INST_INEND, inendpos := 1\<rparr> else scb\<lparr>instate := SES_INST_INMSG\<rparr>"])
      (auto simp: match_v10_def NC_SSH_END_def NC_SSH_END_LEN_def room_def split: ses_instate_t.splits)
next
  case False
  with assms show thesis
    by (intro that [of "if ch = NC_SSH_END ! pos then scb\<lparr>inendpos := inendpos scb + 1\<rparr> else scb\<lparr>instate := SES_INST_INMSG, inendpos := 0\<rparr>"])
      (auto simp: match_v10_def room_def)
qed

lemma v10_loop_refines:
  assumes "rel10 null scb a" "room mem scb (length input)" "\<not> (ses_protocol scb = NCX_PROTO_NONE \<and> p11)"
  shows "case run10 a input of
           None \<Rightarrow> v10_loop mem p11 input null null scb = None
         | Some a' \<Rightarrow> \<exists>scb' null'. v10_loop mem p11 input null null scb = Some (NO_ERR, scb') \<and> rel10 null' scb' a' \<and>
                        ses_protocol scb' = ses_protocol scb"
  using assms
proof (induction input arbitrary: null scb a)
  case Nil
  then show ?case by auto
next
  case (Cons ch rest)
  obtain pos cur msgs where a: "a = (pos, cur, msgs)" by (cases a)
  from Cons.prems(1) have q: "queue_is null scb cur msgs" "pos \<le> length cur" "pos < NC_SSH_END_LEN"
    "if pos = 0 then instate scb \<in> {SES_INST_IDLE, SES_INST_INMSG} else instate scb = SES_INST_INEND \<and> inendpos scb = pos"
    unfolding a rel10.simps by blast+
  have r: "room mem scb (Suc (length rest))" using Cons.prems(2) by simp
  obtain s1 s2 where t: "(if null then add_msg mem scb else (NO_ERR, scb)) = (NO_ERR, s1)"
    "next_buff mem null s1 = (NO_ERR, s2)" "queue_is False (upd_buff (put_char ch) s2) (cur @ [ch]) msgs" "room mem s2 (length rest)"
    "instate s2 = instate scb" "inendpos s2 = inendpos scb" "ses_protocol s2 = ses_protocol scb"
    by (rule take_char [OF q(1) r])
  define s3 where "s3 = upd_buff (put_char ch) s2"
  have r3: "room mem s3 (length rest)" using t(4) by (simp add: s3_def)
  have st: "if pos = 0 then instate s3 \<in> {SES_INST_IDLE, SES_INST_INMSG} else instate s3 = SES_INST_INEND \<and> inendpos s3 = pos"
    using q(4) t(5,6) by (simp add: s3_def split: if_splits)
  obtain s4 where m: "match_v10 ch s3 = Some (s4, ch = NC_SSH_END ! pos \<and> pos + 1 = NC_SSH_END_LEN)"
    "queue_is False s4 (cur @ [ch]) msgs" "ses_protocol s4 = ses_protocol s3" "\<forall>n. room mem s3 n \<longrightarrow> room mem s4 n"
    "\<not> (ch = NC_SSH_END ! pos \<and> pos + 1 = NC_SSH_END_LEN) \<longrightarrow>
       rel10 False s4 (if ch = NC_SSH_END ! pos then pos + 1 else 0, cur @ [ch], msgs)"
    by (rule match_v10_ok [OF t(3) [folded s3_def] q(2,3) st])
  have p: "\<not> (ses_protocol s4 = NCX_PROTO_NONE \<and> p11)" using Cons.prems(3) t(7) m(3) by (simp add: s3_def)
  have pr: "ses_protocol s4 = ses_protocol scb" using t(7) m(3) by (simp add: s3_def)
  have r4: "room mem s4 (length rest)" using m(4) r3 by blast
  show ?case
  proof (cases "ch = NC_SSH_END ! pos \<and> pos + 1 = NC_SSH_END_LEN")
    case False
    then have s10: "step10 a ch = Some (if ch = NC_SSH_END ! pos then pos + 1 else 0, cur @ [ch], msgs)" using q(3) by (auto simp: a)
    have "match_v10 ch s3 = Some (s4, False)" by (subst m(1)) (use False in simp)
    then have L: "v10_loop mem p11 (ch # rest) null null scb = v10_loop mem p11 rest False False s4"
      using t(1,2) by (simp add: s3_def)
    have R: "run10 a (ch # rest) = run10 (if ch = NC_SSH_END ! pos then pos + 1 else 0, cur @ [ch], msgs) rest"
      by (simp only: run.simps s10 option.case)
    show ?thesis using Cons.IH [OF m(5) [THEN mp, OF False] r4 p] unfolding L R pr .
  next
    case True
    have m1: "match_v10 ch s3 = Some (s4, True)" by (subst m(1)) (use True in simp)
    have l: "NC_SSH_END_LEN \<le> length (cur @ [ch])" using True q(2) by simp
    note e = end_msg_v10_ok [OF m(2) l r4]
    show ?thesis
    proof (cases "length cur + 1 = NC_SSH_END_LEN")
      case True': True
      then have "step10 a ch = None" using True by (simp add: a)
      with True True' e t(1,2) m1 show ?thesis by (simp add: s3_def)
    next
      case False
      then obtain s5 where s5: "end_msg_v10 s4 = Some s5" "room mem s5 (length rest)" "ses_protocol s5 = ses_protocol s4"
        "instate s5 = SES_INST_IDLE" "queue_is True s5 [] (msgs @ [take (length cur + 1 - NC_SSH_END_LEN) (cur @ [ch])])"
        using e by auto
      have s10: "step10 a ch = Some (0, [], msgs @ [take (length cur + 1 - NC_SSH_END_LEN) cur])" using True False by (simp add: a)
      have rl: "rel10 True s5 (0, [], msgs @ [take (length cur + 1 - NC_SSH_END_LEN) cur])"
        using s5(4,5) by (simp add: NC_SSH_END_LEN_def)
      have L: "v10_loop mem p11 (ch # rest) null null scb = v10_loop mem p11 rest True True s5"
        using t(1,2) m1 s5(1,3) p by (auto simp: s3_def)
      have p5: "\<not> (ses_protocol s5 = NCX_PROTO_NONE \<and> p11)" using p s5(3) by simp
      have R: "run10 a (ch # rest) = run10 (0, [], msgs @ [take (length cur + 1 - NC_SSH_END_LEN) cur]) rest"
        by (simp only: run.simps s10 option.case)
      have pr5: "ses_protocol s5 = ses_protocol scb" using s5(3) pr by simp
      show ?thesis using Cons.IH [OF rl s5(2) p5] unfolding L R pr5 .
    qed
  qed
qed

text \<open>At the start of the input functions a message and a buffer are made where they are missing.\<close>

lemma start_msg_ok:
  assumes q: "queue_is null scb cur msgs" and r: "room mem scb (Suc n)"
  obtains scb' where "start_msg mem scb = (NO_ERR, scb')" "queue_is False scb' cur msgs" "room mem scb' n" "instate scb' = instate scb"
    "inendpos scb' = inendpos scb" "startchunk scb' = startchunk scb" "ses_protocol scb' = ses_protocol scb"
    "null \<or> expchunksize (cur_msg scb') = expchunksize (cur_msg scb) \<and> curchunksize (cur_msg scb') = curchunksize (cur_msg scb)"
proof (cases null)
  case True
  with q have ms: "\<forall>m \<in> set (msgQ scb). msg_ready m" "map msg_bytes (msgQ scb) = msgs" "cur = []" by (auto simp: queue_is_def)
  obtain s where s: "add_msg mem scb = (NO_ERR, s)" "msgQ s = msgQ scb @ [new_msg]" "room mem s (Suc n)" "instate s = instate scb"
    "inendpos s = inendpos scb" "startchunk s = startchunk scb" "ses_protocol s = ses_protocol scb"
    by (rule add_msg_ok [OF r])
  obtain b s' where b: "add_buff mem s = (NO_ERR, s')" "fresh b" "msgQ s' = msgQ scb @ [new_msg\<lparr>buffQ := buffQ new_msg @ [b]\<rparr>]"
    "room mem s' n" "instate s' = instate s" "inendpos s' = inendpos s" "startchunk s' = startchunk s" "ses_protocol s' = ses_protocol s"
    by (rule add_buff_ok [OF s(3,2)])
  have "queue_is False s' cur msgs"
    using queue_isI [OF ms(1) b(3)] new_msg_open [OF b(2)] ms by (simp add: new_msg_def)
  moreover have "msgQ scb = [] \<or> msg_ready (cur_msg scb)" using ms(1) by (cases "msgQ scb" rule: rev_cases) auto
  then have "start_msg mem scb = (NO_ERR, s')" using s(1,2) b(1) by (simp add: start_msg_def new_msg_def)
  ultimately show thesis using b s True by (intro that [of s']) simp_all
next
  case False
  with q obtain ms m fs b where c: "\<forall>m \<in> set ms. msg_ready m" "map msg_bytes ms = msgs" "msgQ scb = ms @ [m]" "\<not> msg_ready m"
    "buffQ m = fs @ [b]" "\<forall>f \<in> set fs. full f" "filling b" "cur = concat (map buff_bytes fs) @ map (buff b) [0..<buffpos b]"
    by (auto elim: queue_isE)
  show thesis
  proof (cases "bufflen b = SES_MSG_BUFFSIZE")
    case nf: False
    then have "start_msg mem scb = (NO_ERR, scb)" using c by (simp add: start_msg_def)
    with q False r show thesis by (intro that [of scb]) (simp_all add: room_def)
  next
    case True
    obtain nb s' where n: "add_buff mem scb = (NO_ERR, s')" "fresh nb" "msgQ s' = ms @ [m\<lparr>buffQ := buffQ m @ [nb]\<rparr>]" "room mem s' n"
      "instate s' = instate scb" "inendpos s' = inendpos scb" "startchunk s' = startchunk scb" "ses_protocol s' = ses_protocol scb"
      by (rule add_buff_ok [OF r c(3)])
    have "buffpos nb = 0" "filling nb" using fresh_filling [OF n(2)] by simp_all
    then have "open_msg (m\<lparr>buffQ := buffQ m @ [nb]\<rparr>) cur"
      using c True by (intro open_msgI [of _ "fs @ [b]" nb]) (auto simp: full_def filling_def buff_bytes_def)
    from queue_isI [OF c(1) n(3) this] have "queue_is False s' cur msgs" by (simp add: c(2))
    moreover have "start_msg mem scb = (NO_ERR, s')" using n(1) c True by (simp add: start_msg_def)
    ultimately show thesis using n c(3) by (intro that [of s']) simp_all
  qed
qed

lemma accept_v10_refines:
  assumes "rel10 null scb a" "room mem scb (length input + 1)" "\<not> (ses_protocol scb = NCX_PROTO_NONE \<and> p11)"
  shows "case run10 a input of
           None \<Rightarrow> accept_buffer_ssh_v10 mem p11 input scb = None
         | Some a' \<Rightarrow> \<exists>scb' null'. accept_buffer_ssh_v10 mem p11 input scb = Some (NO_ERR, scb') \<and> rel10 null' scb' a'"
proof -
  obtain pos cur msgs where a: "a = (pos, cur, msgs)" by (cases a)
  from assms(1) have q: "queue_is null scb cur msgs" "pos \<le> length cur" "pos < NC_SSH_END_LEN"
    "if pos = 0 then instate scb \<in> {SES_INST_IDLE, SES_INST_INMSG} else instate scb = SES_INST_INEND \<and> inendpos scb = pos"
    unfolding a rel10.simps by blast+
  have r: "room mem scb (Suc (length input))" using assms(2) by simp
  obtain s where s: "start_msg mem scb = (NO_ERR, s)" "queue_is False s cur msgs" "room mem s (length input)" "instate s = instate scb"
    "inendpos s = inendpos scb" "startchunk s = startchunk scb" "ses_protocol s = ses_protocol scb"
    "null \<or> expchunksize (cur_msg s) = expchunksize (cur_msg scb) \<and> curchunksize (cur_msg s) = curchunksize (cur_msg scb)"
    by (rule start_msg_ok [OF q(1) r])
  have "rel10 False s a" using q s unfolding a rel10.simps by presburger
  moreover have "\<not> (ses_protocol s = NCX_PROTO_NONE \<and> p11)" using assms(3) s(7) by simp
  ultimately have "case run10 a input of
      None \<Rightarrow> v10_loop mem p11 input False False s = None
    | Some a' \<Rightarrow> \<exists>scb' null'. v10_loop mem p11 input False False s = Some (NO_ERR, scb') \<and> rel10 null' scb' a' \<and>
                   ses_protocol scb' = ses_protocol s"
    by (intro v10_loop_refines s(3))
  moreover have "accept_buffer_ssh_v10 mem p11 input scb = v10_loop mem p11 input False False s"
    using s(1) by (simp add: accept_buffer_ssh_v10_def)
  ultimately show ?thesis by (simp del: rel10.simps split: option.splits) blast
qed

text \<open>A session without messages, for the witnesses.\<close>

definition idle_ses :: ses_cb_t where
  "idle_ses = \<lparr>ses_type = SES_TYP_NETCONF, ses_sid = 1, ses_state = SES_ST_IDLE, ses_protocol = NCX_PROTO_NETCONF10,
     transport = SES_TRANSPORT_SSH, has_fd = True, fp_stdout = False, has_rdfn = True, in_bytes = 0, out_bytes = 0,
     out_line = 0, framing11 = False, stream_output = False, instate = SES_INST_IDLE, inendpos = 0,
     startchunk = (\<lambda>_. NUL), readbuff = [], indefer_len = 0, buffcnt = 0, freecnt = 0, freeQ = [], msgQ = [], outQ = [],
     outbuff = None, in_inq = False, out_inq = False, inreadyQ = [], outreadyQ = [], msg_freecnt = 0\<rparr>"

lemma idle_ses_start10: "rel10 True idle_ses (0, [], [])"
  by (simp add: queue_is_def idle_ses_def NC_SSH_END_LEN_def)

lemma idle_ses_room: "room True idle_ses n \<longleftrightarrow> n < 4095"
  by (simp add: room_def idle_ses_def SES_MAX_BUFFERS_def)

lemma idle_ses_protocol: "ses_protocol idle_ses = NCX_PROTO_NETCONF10" by (simp add: idle_ses_def)

interpretation v10: framing step10 "accept_buffer_ssh_v10 mem p11" "\<lambda>scb a. \<exists>null. rel10 null scb a"
    "\<lambda>input scb. room mem scb (length input + 1) \<and> \<not> (ses_protocol scb = NCX_PROTO_NONE \<and> p11)"
proof (unfold_locales, goal_cases)
  case (1 scb a input a')
  then obtain null where "rel10 null scb a" by blast
  from accept_v10_refines [OF this, of mem input p11] 1 show ?case by (auto simp del: rel10.simps)
qed

text \<open>
  C15: base:1.0 input.  The function refines the abstract machine: when no message is empty and there is
  memory, it ends normally with the complete messages and the part of a message of the abstract machine, in whatever pieces the
  input arrives and however the marker is spread over buffers; an empty message makes the process follow a null pointer.  (The
  exception is the first message of a session while base:1.1 is enabled: there the rest of the input is put off.)
\<close>
theorem v10_framing:
  assumes "rel10 null scb a" "room mem scb (length input + 1)" "\<not> (ses_protocol scb = NCX_PROTO_NONE \<and> p11)"
  shows "case run10 a input of
           None \<Rightarrow> accept_buffer_ssh_v10 mem p11 input scb = None
         | Some a' \<Rightarrow> \<exists>scb' null'. accept_buffer_ssh_v10 mem p11 input scb = Some (NO_ERR, scb') \<and> rel10 null' scb' a'"
  by (rule accept_v10_refines [OF assms])

theorem v10_framing_witness:
  "\<exists>scb' null'. accept_buffer_ssh_v10 True True ''<a/>]]>]]><b'' idle_ses = Some (NO_ERR, scb') \<and>
     rel10 null' scb' (0, ''<b'', [''<a/>''])"
  using v10_framing [of True idle_ses "(0, [], [])" True "''<a/>]]>]]><b''" True] idle_ses_start10
  by (simp add: idle_ses_room idle_ses_protocol NC_SSH_END_def NC_SSH_END_LEN_def del: rel10.simps)

section \<open>Messages of base:1.0\<close>

fun has_marker :: "string \<Rightarrow> bool" where
  "has_marker [] = False"
| "has_marker (c # cs) = (take 3 (c # cs) = '']]>'' \<or> has_marker cs)"

text \<open>A message in which nothing can be taken for a part of the end marker.\<close>

definition plain10 :: "string \<Rightarrow> bool" where
  "plain10 str \<longleftrightarrow> str \<noteq> [] \<and> last str \<noteq> CHR '']'' \<and> \<not> has_marker str"

lemma marker_chars: "NC_SSH_END ! 0 = CHR '']''" "NC_SSH_END ! Suc 0 = CHR '']''" "NC_SSH_END ! 2 = CHR ''>''"
  by (simp_all add: NC_SSH_END_def)

lemma run10_text:
  "\<not> has_marker (replicate pos (CHR '']'') @ str) \<Longrightarrow> pos \<le> 2 \<Longrightarrow>
   \<exists>pos'. run10 (pos, cur, msgs) str = Some (pos', cur @ str, msgs) \<and> (str \<noteq> [] \<and> last str \<noteq> CHR '']'' \<longrightarrow> pos' = 0)"
proof (induction str arbitrary: pos cur)
  case (Cons ch rest)
  define p where "p = (if ch = CHR '']'' \<and> pos < 2 then pos + 1 else 0)"
  have pos: "pos = 0 \<or> pos = 1 \<or> pos = 2" using Cons.prems(2) by auto
  have "\<not> has_marker (replicate p (CHR '']'') @ rest)"
    using Cons.prems(1) pos by (auto simp: p_def numeral_eq_Suc)
  moreover have "p \<le> 2" by (simp add: p_def)
  ultimately obtain pos' where p': "run10 (p, cur @ [ch], msgs) rest = Some (pos', (cur @ [ch]) @ rest, msgs)"
    "rest \<noteq> [] \<and> last rest \<noteq> CHR '']'' \<longrightarrow> pos' = 0"
    using Cons.IH [of p "cur @ [ch]"] by blast
  have "ch \<noteq> CHR ''>'' \<or> pos \<noteq> 2" using Cons.prems(1) by (auto simp: numeral_eq_Suc)
  then have "step10 (pos, cur, msgs) ch = Some (p, cur @ [ch], msgs)"
    using pos marker_chars by (auto simp: p_def NC_SSH_END_LEN_def)
  then show ?case using p' by (cases "rest = []") (auto simp: p_def split: if_splits)
qed simp

lemma run10_marker: "run10 (0, cur, msgs) NC_SSH_END = (if cur = [] then None else Some (0, [], msgs @ [cur]))"
  by (simp add: NC_SSH_END_def NC_SSH_END_LEN_def)

lemma run10_message: "plain10 str \<Longrightarrow> run10 (0, [], msgs) (str @ NC_SSH_END) = Some (0, [], msgs @ [str])"
  using run10_text [of 0 str "[]" msgs] by (auto simp: plain10_def run_append run10_marker)

lemma run10_messages: "\<forall>str \<in> set strs. plain10 str \<Longrightarrow> run10 (0, [], msgs) (concat (map (\<lambda>s. s @ NC_SSH_END) strs)) = Some (0, [], msgs @ strs)"
proof (induction strs arbitrary: msgs)
  case (Cons str strs)
  have "run10 (0, [], msgs) (concat (map (\<lambda>s. s @ NC_SSH_END) (str # strs))) =
      run10 (0, [], msgs) ((str @ NC_SSH_END) @ concat (map (\<lambda>s. s @ NC_SSH_END) strs))" by simp
  also have "\<dots> = run10 (0, [], msgs @ [str]) (concat (map (\<lambda>s. s @ NC_SSH_END) strs))"
    unfolding run_append [of _ _ "str @ NC_SSH_END"] using run10_message [of str msgs] Cons.prems by simp
  finally show ?case using Cons by simp
qed simp

text \<open>
  an empty message.  When a second end marker follows a complete message (or nothing) at once, the
  function follows a null pointer: the server can be brought down by sending the marker twice.
\<close>
theorem v10_empty_message:
  assumes "rel10 null scb (0, [], msgs)" "\<forall>str \<in> set strs. plain10 str"
    "room mem scb (length (concat (map (\<lambda>s. s @ NC_SSH_END) strs) @ NC_SSH_END) + 1)" "\<not> (ses_protocol scb = NCX_PROTO_NONE \<and> p11)"
  shows "accept_buffer_ssh_v10 mem p11 (concat (map (\<lambda>s. s @ NC_SSH_END) strs) @ NC_SSH_END) scb = None"
  using accept_v10_refines [OF assms(1,3,4)] by (simp add: run_append run10_messages [OF assms(2)] run10_marker del: rel10.simps)

theorem v10_empty_message_witness: "accept_buffer_ssh_v10 True True ''<a/>]]>]]>]]>]]>'' idle_ses = None"
  using v10_empty_message [of True idle_ses "[]" "[''<a/>'']" True True] idle_ses_start10
  by (simp add: idle_ses_room idle_ses_protocol NC_SSH_END_def plain10_def del: rel10.simps)

text \<open>
  the search for the end marker does not restart within a failed match: after a message whose last
  character is a bracket the marker is not recognised, and the next messages are taken for a part of it.
\<close>
theorem v10_marker_missed:
  assumes "rel10 null scb (0, [], msgs)" "plain10 str" "room mem scb (length (str @ CHR '']'' # NC_SSH_END) + 1)"
    "\<not> (ses_protocol scb = NCX_PROTO_NONE \<and> p11)"
  shows "\<exists>scb' null'. accept_buffer_ssh_v10 mem p11 (str @ CHR '']'' # NC_SSH_END) scb = Some (NO_ERR, scb') \<and>
    queue_is null' scb' (str @ CHR '']'' # NC_SSH_END) msgs"
proof -
  have "run10 (0, [], msgs) (str @ CHR '']'' # NC_SSH_END) = Some (3, str @ CHR '']'' # NC_SSH_END, msgs)"
    using run10_text [of 0 str "[]" msgs] assms(2)
    by (auto simp: plain10_def run_append NC_SSH_END_def NC_SSH_END_LEN_def numeral_eq_Suc)
  with accept_v10_refines [OF assms(1,3,4)] show ?thesis by auto
qed

theorem v10_marker_missed_witness:
  "\<exists>scb' null'. accept_buffer_ssh_v10 True True ''<a/>]]]>]]>'' idle_ses = Some (NO_ERR, scb') \<and> queue_is null' scb' ''<a/>]]]>]]>'' []"
  using v10_marker_missed [of True idle_ses "[]" "''<a/>''" True True] idle_ses_start10
  by (simp add: idle_ses_room idle_ses_protocol NC_SSH_END_def plain10_def del: rel10.simps)

end
