(* ===== verification/Ses_Chunk_Props.thy ===== *)
theory Ses_Chunk_Props
  imports Ses_Props Ncx_Num_Props
begin

text \<open>
  The chunk framing of base:1.1: the input function against an abstract machine that reads one character at a time, and
  the chunks that the output functions write, which the input function turns back into the messages.
\<close>

section \<open>The size of a chunk\<close>

lemma string_nat_snoc: "string_nat (ds @ [c]) = 10 * string_nat ds + (of_char c - 48)"
  by (simp add: string_nat_def)

lemma string_nat_bound: "list_all isdigit ds \<Longrightarrow> string_nat ds < 10 ^ length ds"
proof (induction ds rule: rev_induct)
  case Nil
  then show ?case by (simp add: string_nat_def)
next
  case (snoc c ds)
  then have "string_nat ds < 10 ^ length ds" "of_char c - 48 < (10 :: nat)" by (auto simp: isdigit_def)
  then show ?case by (simp add: string_nat_snoc)
qed

lemma convert_chunk_size:
  assumes "list_all isdigit ds" "ds \<noteq> []" "length ds \<le> 10"
  shows "ncx_convert_num fo ds NCX_NF_DEC NCX_BT_UINT32 v = (NO_ERR, v\<lparr>num_u := of_nat (string_nat ds)\<rparr>)"
proof -
  have "string_nat ds < 10 ^ length ds" by (rule string_nat_bound [OF assms(1)])
  also have "\<dots> \<le> 10 ^ 10" by (rule power_increasing) (use assms(3) in simp_all)
  also have "\<dots> < 2 ^ 64" by simp
  finally have "strtoull 10 ds = (of_nat (string_nat ds), [])"
    using assms by (simp add: strtoull_def strto_digits)
  moreover have "hd ds \<noteq> CHR ''-''" using assms(1,2) digit_neq by (cases ds) auto
  moreover have "ucast (of_nat (string_nat ds) :: u64) = (of_nat (string_nat ds) :: u32)"
    by (rule bit_word_eqI) (simp add: bit_simps)
  ultimately show ?thesis using assms(2)
    by (simp add: ncx_convert_num_def convert_uint_def int_btyps_def uint_btyps_def numfmt_base_def)
qed

section \<open>Copying\<close>

lemma xml_strncpy_at:
  "n \<le> length src \<Longrightarrow> NUL \<notin> set (take n src) \<Longrightarrow>
   xml_strncpy p src n a i = (if i < p then a i else if i < p + n then src ! (i - p) else if i = p + n then NUL else a i)"
proof (induction p src n a rule: xml_strncpy.induct)
  case (1 p src a)
  then show ?case by simp
next
  case (2 p n a)
  then show ?case by simp
next
  case (3 p c cs n a)
  have c: "c \<noteq> NUL" "n \<le> length cs" "NUL \<notin> set (take n cs)"
    using "3.prems" by auto
  from "3.IH" [OF c] c(1) show ?case by (simp add: nth_Cons' Suc_diff_le fun_upd_def)
qed

lemma xml_strncpy_bytes:
  assumes "n \<le> length src" "NUL \<notin> set src"
  shows "map (xml_strncpy p src n a) [0..<p + n] = map a [0..<p] @ take n src"
proof -
  have "NUL \<notin> set (take n src)" using assms(2) in_set_takeD by fast
  with assms(1) show ?thesis by (intro nth_equalityI) (auto simp: xml_strncpy_at nth_append)
qed

text \<open>The rest of the data, after buffers that are all full.\<close>

lemma copy_rest_ok:
  assumes "room mem scb (length src + j)" "msgQ scb = ms @ [m]" "\<not> msg_ready m" "\<forall>f \<in> set (buffQ m). full f" "NUL \<notin> set src" "src \<noteq> []"
  shows "\<exists>scb' bs. copy_rest mem src scb = (NO_ERR, scb') \<and> msgQ scb' = ms @ [m\<lparr>buffQ := bs\<rparr>] \<and>
           open_msg (m\<lparr>buffQ := bs\<rparr>) (concat (map buff_bytes (buffQ m)) @ src) \<and> room mem scb' j \<and>
           instate scb' = instate scb \<and> inendpos scb' = inendpos scb \<and> startchunk scb' = startchunk scb"
  using assms
proof (induction "length src" arbitrary: src scb m rule: less_induct)
  case less
  define n where "n = min SES_MSG_BUFFSIZE (length src)"
  have n: "0 < n" "n \<le> length src" "n \<le> SES_MSG_BUFFSIZE" using less.prems(6) by (auto simp: n_def SES_MSG_BUFFSIZE_def)
  obtain k where k: "length src = Suc k" using less.prems(6) by (cases "length src") auto
  have r: "room mem scb (Suc (k + j))" using less.prems(1) k by simp
  obtain b s where b: "add_buff mem scb = (NO_ERR, s)" "fresh b" "msgQ s = ms @ [m\<lparr>buffQ := buffQ m @ [b]\<rparr>]" "room mem s (k + j)"
    "instate s = instate scb" "inendpos s = inendpos scb" "startchunk s = startchunk scb" "ses_protocol s = ses_protocol scb"
    by (rule add_buff_ok [OF r less.prems(2)])
  let ?f = "\<lambda>b. b\<lparr>buff := xml_strncpy (buffpos b) src n (buff b), buffpos := buffpos b + n, bufflen := n\<rparr>"
  have q: "msgQ (upd_buff ?f s) = ms @ [m\<lparr>buffQ := buffQ m @ [?f b]\<rparr>]"
    using upd_buff_msgQ [OF b(3), of "buffQ m" b ?f] by simp
  have c: "copy_rest mem src scb = copy_rest mem (drop n src) (upd_buff ?f s)"
    by (subst copy_rest.simps) (simp add: less.prems(6) b(1) n_def Let_def)
  have bb: "buffpos (?f b) = n" "bufflen (?f b) = n" "buffstart (?f b) = 0" "map (buff (?f b)) [0..<n] = take n src"
    using b(2) xml_strncpy_bytes [OF n(2) less.prems(5), of 0] by (simp_all add: fresh_def)
  have fill: "filling (?f b)" using bb n(3) by (simp add: filling_def)
  show ?case
  proof (cases "n = length src")
    case True
    have "open_msg (m\<lparr>buffQ := buffQ m @ [?f b]\<rparr>) (concat (map buff_bytes (buffQ m)) @ src)"
      by (rule open_msgI [of _ "buffQ m" "?f b"]) (use less.prems fill bb True in simp_all)
    moreover have "copy_rest mem src scb = (NO_ERR, upd_buff ?f s)"
      using c copy_rest.simps [of mem "[]" "upd_buff ?f s"] True by simp
    moreover have "room mem (upd_buff ?f s) j" using room_mono [OF b(4)] by simp
    ultimately show ?thesis using q b by auto
  next
    case False
    then have n2: "n = SES_MSG_BUFFSIZE" "n < length src" using n(2) by (simp_all add: n_def)
    have "full (?f b)" using bb n2 by (simp add: full_def)
    let ?m = "m\<lparr>buffQ := buffQ m @ [?f b]\<rparr>"
    have "\<exists>scb' bs. copy_rest mem (drop n src) (upd_buff ?f s) = (NO_ERR, scb') \<and> msgQ scb' = ms @ [?m\<lparr>buffQ := bs\<rparr>] \<and>
           open_msg (?m\<lparr>buffQ := bs\<rparr>) (concat (map buff_bytes (buffQ ?m)) @ drop n src) \<and> room mem scb' j \<and>
           instate scb' = instate (upd_buff ?f s) \<and> inendpos scb' = inendpos (upd_buff ?f s) \<and>
           startchunk scb' = startchunk (upd_buff ?f s)"
    proof (rule less.hyps [of "drop n src" "upd_buff ?f s" ?m])
      show "length (drop n src) < length src" using n less.prems(6) by simp
      show "room mem (upd_buff ?f s) (length (drop n src) + j)" using room_mono [OF b(4), of "length (drop n src) + j"] k n by simp
      show "NUL \<notin> set (drop n src)" using less.prems(5) in_set_dropD by fast
    qed (use q less.prems n2 \<open>full (?f b)\<close> in auto)
    moreover have "buff_bytes (?f b) @ drop n src = src" using bb by (simp add: buff_bytes_def)
    ultimately show ?thesis using b by (simp add: c)
  qed
qed

section \<open>The abstract machine\<close>

text \<open>Where the input is: between messages, in the header of a chunk (its digits), in its data (how much is left), after it.\<close>

datatype frame = F_IDLE | F_HASH | F_DIGIT1 | F_SIZE string | F_DATA nat | F_NL | F_NLHASH | F_AFTER | F_END

definition chunk_size :: "string \<Rightarrow> nat" where
  "chunk_size ds = string_nat ds mod 2 ^ 32"

text \<open>A character that is not data.  What is left of an empty chunk is what follows it.\<close>

fun frame_step :: "frame \<Rightarrow> char \<Rightarrow> frame option" where
  "frame_step F_IDLE ch = (if ch = LF then Some F_HASH else None)"
| "frame_step F_HASH ch = (if ch = CHR ''#'' then Some F_DIGIT1 else None)"
| "frame_step F_DIGIT1 ch = (if is_digit1 ch then Some (F_SIZE [ch]) else None)"
| "frame_step (F_SIZE ds) ch =
     (if length ds > 10 then None
      else if ch = LF then Some (F_DATA (chunk_size ds))
      else if isdigit ch then Some (F_SIZE (ds @ [ch]))
      else None)"
| "frame_step (F_DATA n) ch = (if ch = LF then Some F_NLHASH else None)"
| "frame_step F_NL ch = (if ch = LF then Some F_NLHASH else None)"
| "frame_step F_NLHASH ch = (if ch = CHR ''#'' then Some F_AFTER else None)"
| "frame_step F_AFTER ch =
     (if ch = CHR ''#'' then Some F_END else if is_digit1 ch then Some (F_SIZE [ch]) else None)"
| "frame_step F_END ch = (if ch = LF then Some F_IDLE else None)"

fun step11 :: "frame \<times> string \<times> string list \<Rightarrow> char \<Rightarrow> (frame \<times> string \<times> string list) option" where
  "step11 (F_DATA (Suc n), cur, msgs) ch = Some (if n = 0 then F_NL else F_DATA n, cur @ [ch], msgs)"
| "step11 (F_END, cur, msgs) ch = (if ch = LF then Some (F_IDLE, [], msgs @ [cur]) else None)"
| "step11 (f, cur, msgs) ch = map_option (\<lambda>f. (f, cur, msgs)) (frame_step f ch)"

abbreviation run11 :: "frame \<times> string \<times> string list \<Rightarrow> string \<Rightarrow> (frame \<times> string \<times> string list) option" where
  "run11 \<equiv> run step11"

text \<open>The states of the session that stand for a frame.\<close>

definition size_digits :: "string \<Rightarrow> bool" where
  "size_digits ds \<longleftrightarrow> ds \<noteq> [] \<and> length ds \<le> 11 \<and> list_all isdigit ds"

fun frame_is :: "frame \<Rightarrow> ses_cb_t \<Rightarrow> bool" where
  "frame_is F_IDLE scb \<longleftrightarrow> instate scb = SES_INST_IDLE"
| "frame_is F_HASH scb \<longleftrightarrow> instate scb = SES_INST_INSTART \<and> inendpos scb = 1"
| "frame_is F_DIGIT1 scb \<longleftrightarrow> instate scb = SES_INST_INSTART \<and> inendpos scb = 2"
| "frame_is (F_SIZE ds) scb \<longleftrightarrow> instate scb = SES_INST_INSTART \<and> size_digits ds \<and> inendpos scb = length ds + 2 \<and>
     map (startchunk scb) [0..<length ds] = ds"
| "frame_is (F_DATA n) scb \<longleftrightarrow> instate scb = SES_INST_INMSG \<and> unat (expchunksize (cur_msg scb) - curchunksize (cur_msg scb)) = n"
| "frame_is F_NL scb \<longleftrightarrow> instate scb = SES_INST_INBETWEEN \<and> inendpos scb = 0"
| "frame_is F_NLHASH scb \<longleftrightarrow> instate scb = SES_INST_INBETWEEN \<and> inendpos scb = 1"
| "frame_is F_AFTER scb \<longleftrightarrow> instate scb = SES_INST_INBETWEEN \<and> inendpos scb = 2"
| "frame_is F_END scb \<longleftrightarrow> instate scb = SES_INST_INEND \<and> inendpos scb = 3"

text \<open>The loop with a buffer that has room.\<close>

lemma next_buff_frame:
  assumes q: "queue_is False scb cur msgs" and f: "frame_is f scb" and r: "room mem scb (Suc n)"
  obtains scb' where "next_buff mem False scb = (NO_ERR, scb')" "queue_is False scb' cur msgs" "frame_is f scb'"
    "buffpos (cur_buff scb') < SES_MSG_BUFFSIZE" "room mem scb' n"
proof -
  obtain scb' ms m fs b where n: "next_buff mem False scb = (NO_ERR, scb')" "room mem scb' n"
    "\<forall>m \<in> set ms. msg_ready m" "map msg_bytes ms = msgs" "msgQ scb' = ms @ [m]" "\<not> msg_ready m"
    "buffQ m = fs @ [b]" "\<forall>f \<in> set fs. full f" "filling b" "buffpos b < SES_MSG_BUFFSIZE"
    "cur = concat (map buff_bytes fs) @ map (buff b) [0..<buffpos b]"
    "instate scb' = instate scb" "inendpos scb' = inendpos scb" "startchunk scb' = startchunk scb"
    "curchunksize (cur_msg scb') = curchunksize (cur_msg scb)" "expchunksize (cur_msg scb') = expchunksize (cur_msg scb)"
    by (rule next_buff_ok [OF q r])
  have "queue_is False scb' cur msgs"
    using queue_isI [OF n(3,5) open_msgI [OF n(6,7,8,9,11)]] n(4) by simp
  moreover have "frame_is f scb'" using f n(12-16) by (cases f) simp_all
  ultimately show thesis using n by (intro that [of scb']) simp_all
qed

lemma queue_is_upd_msg:
  assumes "queue_is False scb cur msgs" "\<And>m. buffQ (f m) = buffQ m" "\<And>m. msg_ready (f m) = msg_ready m"
  shows "queue_is False (upd_msg f scb) cur msgs"
proof -
  obtain ms m where c: "\<forall>m \<in> set ms. msg_ready m" "map msg_bytes ms = msgs" "msgQ scb = ms @ [m]" "open_msg m cur"
    using assms(1) by (auto simp: queue_is_def)
  then show ?thesis using queue_isI [of ms "upd_msg f scb" "f m" cur] assms(2,3) by (simp add: upd_msg_msgQ open_msg_def)
qed

lemma v11_unfold:
  assumes "next_buff mem False scb = (NO_ERR, s)"
  shows "instate s = SES_INST_IDLE \<Longrightarrow> v11_loop mem (ch # rest) scb =
           (if ch = LF then v11_loop mem rest (s\<lparr>instate := SES_INST_INSTART, inendpos := 1\<rparr>) else (ERR_NCX_INVALID_FRAMING, s))"
    "instate s = SES_INST_INSTART \<Longrightarrow> v11_loop mem (ch # rest) scb =
       (case chunk_start ch s of (res, s) \<Rightarrow> (if res \<noteq> NO_ERR then (res, s) else v11_loop mem rest s))"
    "instate s = SES_INST_INMSG \<Longrightarrow> v11_loop mem (ch # rest) scb =
       (case copy_chunk mem (ch # rest) s of (res, left, s) \<Rightarrow> (if res \<noteq> NO_ERR then (res, s) else v11_loop mem left s))"
    "instate s = SES_INST_INBETWEEN \<Longrightarrow> v11_loop mem (ch # rest) scb =
       (case chunk_between ch s of
          (res, again, s) \<Rightarrow> (if res \<noteq> NO_ERR then (res, s) else v11_loop mem (if again then ch # rest else rest) s))"
    "instate s = SES_INST_INEND \<Longrightarrow> inendpos s = 3 \<Longrightarrow> v11_loop mem (ch # rest) scb =
       (if ch = LF
        then (case next_msg_v11 mem rest (end_msg_v11 s) of (res, s) \<Rightarrow> (if res \<noteq> NO_ERR then (res, s) else v11_loop mem rest s))
        else (ERR_NCX_INVALID_FRAMING, s))"
  by (subst v11_loop.simps, simp add: assms)+

lemma next_buff_room: "buffpos (cur_buff s) < SES_MSG_BUFFSIZE \<Longrightarrow> next_buff mem False s = (NO_ERR, s)"
  by (simp add: next_buff_def)

text \<open>The header of a chunk.\<close>

lemma chunk_number_digits:
  assumes "size_digits ds" "length ds \<le> 10" "inendpos s = length ds + 2" "map (startchunk s) [0..<length ds] = ds"
  shows "end_chunk_size s =
    (NO_ERR, (upd_msg (\<lambda>m. m\<lparr>expchunksize := of_nat (chunk_size ds), curchunksize := 0\<rparr>)
                (s\<lparr>startchunk := (startchunk s)(length ds := NUL), inendpos := 0\<rparr>))\<lparr>instate := SES_INST_INMSG\<rparr>)"
proof -
  have "map ((startchunk s)(length ds := NUL)) [0..<length ds] = ds" using assms(4) by (simp add: map_eq_conv)
  moreover have "ucast (of_nat (string_nat ds) :: u32) = (of_nat (chunk_size ds) :: u64)"
  proof -
    have "chunk_size ds = take_bit 32 (string_nat ds)" by (simp add: chunk_size_def take_bit_eq_mod)
    then show ?thesis by (intro bit_word_eqI) (auto simp: bit_simps bit_take_bit_iff)
  qed
  ultimately show ?thesis
    using assms convert_chunk_size [of ds] by (simp add: end_chunk_size_def chunk_number_def size_digits_def Let_def)
qed

lemma v11_size_step:
  assumes "next_buff mem False scb = (NO_ERR, s)" "queue_is False s cur msgs" "frame_is (F_SIZE ds) s" "room mem s n"
  shows "case frame_step (F_SIZE ds) ch of
      None \<Rightarrow> \<exists>s'. v11_loop mem (ch # rest) scb = (ERR_NCX_INVALID_FRAMING, s')
    | Some f' \<Rightarrow> \<exists>s'. v11_loop mem (ch # rest) scb = v11_loop mem rest s' \<and> queue_is False s' cur msgs \<and> frame_is f' s' \<and> room mem s' n"
proof -
  have f: "instate s = SES_INST_INSTART" "size_digits ds" "inendpos s = length ds + 2" "map (startchunk s) [0..<length ds] = ds"
    using assms(3) by simp_all
  note u = v11_unfold(2) [OF assms(1) f(1), of ch rest]
  have i: "inendpos s \<noteq> 1" "inendpos s \<noteq> 2" "(inendpos s = SES_MAX_STARTCHUNK_SIZE) = (length ds > 10)"
    using f(2,3) by (auto simp: size_digits_def SES_MAX_STARTCHUNK_SIZE_def)
  consider "length ds > 10" | "length ds \<le> 10" "ch = LF" | "length ds \<le> 10" "ch \<noteq> LF" "isdigit ch" | "length ds \<le> 10" "ch \<noteq> LF" "\<not> isdigit ch"
    by fastforce
  then show ?thesis
  proof cases
    case 2
    let ?s = "(upd_msg (\<lambda>m. m\<lparr>expchunksize := of_nat (chunk_size ds), curchunksize := 0\<rparr>)
                (s\<lparr>startchunk := (startchunk s)(length ds := NUL), inendpos := 0\<rparr>))\<lparr>instate := SES_INST_INMSG\<rparr>"
    have "chunk_start ch s = (NO_ERR, ?s)"
      using i 2 chunk_number_digits [OF f(2) 2(1) f(3,4)] by (simp add: chunk_start_def)
    moreover obtain ms m where m: "msgQ s = ms @ [m]" using assms(2) by (auto simp: queue_is_def)
    have "unat (of_nat (chunk_size ds) :: u64) = chunk_size ds"
      by (simp add: unat_of_nat chunk_size_def)
    then have "frame_is (F_DATA (chunk_size ds)) ?s"
      using upd_msg_msgQ [of "s\<lparr>startchunk := (startchunk s)(length ds := NUL), inendpos := 0\<rparr>" ms m] m by simp
    moreover have "queue_is False ?s cur msgs"
      using queue_is_upd_msg [of "s\<lparr>startchunk := (startchunk s)(length ds := NUL), inendpos := 0\<rparr>" cur msgs] assms(2)
      by (simp add: queue_is_def)
    moreover have "room mem ?s n" using assms(4) by (simp add: room_def upd_msg_def)
    ultimately show ?thesis using 2 u by auto
  next
    case 3
    let ?s = "s\<lparr>startchunk := (startchunk s)(length ds := ch), inendpos := length ds + 3\<rparr>"
    have "chunk_start ch s = (NO_ERR, ?s)" using i 3 f(3) by (simp add: chunk_start_def)
    moreover have "map ((startchunk s)(length ds := ch)) [0..<length ds] = ds" using f(4) by (simp add: map_eq_conv)
    then have "frame_is (F_SIZE (ds @ [ch])) ?s" using 3 f by (simp add: size_digits_def)
    moreover have "queue_is False ?s cur msgs" "room mem ?s n" using assms(2,4) by (simp_all add: queue_is_def room_def)
    ultimately show ?thesis using 3 u by auto
  qed (use i u in \<open>auto simp: chunk_start_def\<close>)
qed

lemma map_startchunk_first: "map ((startchunk s)(0 := ch)) [0..<Suc 0] = [ch]" by simp

lemma is_digit1_isdigit: "is_digit1 ch \<Longrightarrow> isdigit ch" by (simp add: is_digit1_def isdigit_def)

lemma is_digit1_hash: "\<not> is_digit1 (CHR ''#'')" by (simp add: is_digit1_def)

lemma v11_digit1_step:
  assumes "next_buff mem False scb = (NO_ERR, s)" "queue_is False s cur msgs" "frame_is F_DIGIT1 s" "room mem s n"
  shows "if is_digit1 ch
    then \<exists>s'. v11_loop mem (ch # rest) scb = v11_loop mem rest s' \<and> queue_is False s' cur msgs \<and> frame_is (F_SIZE [ch]) s' \<and> room mem s' n
    else \<exists>s'. v11_loop mem (ch # rest) scb = (ERR_NCX_INVALID_FRAMING, s')"
proof -
  have f: "instate s = SES_INST_INSTART" "inendpos s = 2" using assms(3) by simp_all
  let ?s = "s\<lparr>startchunk := (startchunk s)(0 := ch), inendpos := 3\<rparr>"
  have "queue_is False ?s cur msgs" "room mem ?s n" using assms(2,4) by (simp_all add: queue_is_def room_def)
  moreover have "is_digit1 ch \<Longrightarrow> frame_is (F_SIZE [ch]) ?s" using f is_digit1_isdigit by (simp add: size_digits_def)
  ultimately show ?thesis
    using v11_unfold(2) [OF assms(1) f(1), of ch rest] f by (auto simp: chunk_start_def)
qed

text \<open>A character of the header or of the end of a message up to its last line feed.\<close>

lemma v11_header_step:
  assumes nb: "next_buff mem False scb = (NO_ERR, s)" and q: "queue_is False s cur msgs" and f: "frame_is f s" and r: "room mem s n"
    and b: "buffpos (cur_buff s) < SES_MSG_BUFFSIZE" and ne: "f \<noteq> F_END" "\<And>k. f \<noteq> F_DATA k"
  shows "case frame_step f ch of
      None \<Rightarrow> \<exists>s'. v11_loop mem (ch # rest) scb = (ERR_NCX_INVALID_FRAMING, s')
    | Some f' \<Rightarrow> \<exists>s'. v11_loop mem (ch # rest) scb = v11_loop mem rest s' \<and> queue_is False s' cur msgs \<and> frame_is f' s' \<and> room mem s' n"
proof (cases f)
  case F_IDLE
  with f have "instate s = SES_INST_IDLE" by simp
  from v11_unfold(1) [OF nb this, of ch rest] F_IDLE show ?thesis using q r by (auto simp: queue_is_def room_def)
next
  case F_HASH
  with f have i: "instate s = SES_INST_INSTART" "inendpos s = 1" by simp_all
  from v11_unfold(2) [OF nb i(1), of ch rest] F_HASH i show ?thesis using q r
    by (auto simp: chunk_start_def queue_is_def room_def)
next
  case F_DIGIT1
  from v11_digit1_step [OF nb q _ r, of ch rest] f F_DIGIT1 show ?thesis by (auto split: if_splits)
next
  case (F_SIZE ds)
  with v11_size_step [OF nb q _ r, of ds ch rest] f show ?thesis by simp
next
  case F_NL
  with f have i: "instate s = SES_INST_INBETWEEN" "inendpos s = 0" by simp_all
  from v11_unfold(4) [OF nb i(1), of ch rest] F_NL i show ?thesis using q r
    by (auto simp: chunk_between_def queue_is_def room_def)
next
  case F_NLHASH
  with f have i: "instate s = SES_INST_INBETWEEN" "inendpos s = 1" by simp_all
  from v11_unfold(4) [OF nb i(1), of ch rest] F_NLHASH i show ?thesis using q r
    by (auto simp: chunk_between_def queue_is_def room_def)
next
  case F_AFTER
  with f have i: "instate s = SES_INST_INBETWEEN" "inendpos s = 2" by simp_all
  show ?thesis
  proof (cases "is_digit1 ch")
    case True
    let ?s = "s\<lparr>instate := SES_INST_INSTART\<rparr>"
    have "v11_loop mem (ch # rest) scb = v11_loop mem (ch # rest) ?s"
      using v11_unfold(4) [OF nb i(1), of ch rest] i True is_digit1_hash by (auto simp: chunk_between_def)
    moreover have "next_buff mem False ?s = (NO_ERR, ?s)" using b by (intro next_buff_room) simp
    moreover have "queue_is False ?s cur msgs" "frame_is F_DIGIT1 ?s" "room mem ?s n" using q r i by (simp_all add: queue_is_def)
    ultimately show ?thesis using v11_digit1_step [of mem ?s ?s cur msgs n ch rest] True F_AFTER is_digit1_hash by auto
  next
    case False
    with v11_unfold(4) [OF nb i(1), of ch rest] F_AFTER i show ?thesis using q r
      by (auto simp: chunk_between_def queue_is_def room_def)
  qed
qed (use ne in simp_all)

text \<open>The end of a message.\<close>

lemma end_msg_v11_ok:
  assumes "queue_is False scb cur msgs" "room mem scb n"
  shows "queue_is True (end_msg_v11 scb) [] (msgs @ [cur])" "instate (end_msg_v11 scb) = SES_INST_IDLE" "room mem (end_msg_v11 scb) n"
proof -
  obtain ms m fs b where c: "\<forall>m \<in> set ms. msg_ready m" "map msg_bytes ms = msgs" "msgQ scb = ms @ [m]" "\<not> msg_ready m"
    "buffQ m = fs @ [b]" "\<forall>f \<in> set fs. full f" "filling b" "cur = concat (map buff_bytes fs) @ map (buff b) [0..<buffpos b]"
    by (rule queue_isE [OF assms(1)])
  let ?g = "\<lambda>m. m\<lparr>curbuff := None, msg_ready := True\<rparr>"
  let ?s = "(ses_msg_make_inready (upd_msg ?g scb))\<lparr>instate := SES_INST_IDLE, inendpos := 0\<rparr>"
  have q: "msgQ ?s = ms @ [?g m]" by (simp add: upd_msg_msgQ [OF c(3)])
  show "queue_is True (end_msg_v11 scb) [] (msgs @ [cur])"
  proof (cases "buffpos b = 0")
    case True
    then have "msgQ (end_msg_v11 scb) = ms @ [(?g m)\<lparr>buffQ := fs\<rparr>]"
      using q c(5) upd_msg_msgQ [OF q] by (simp add: end_msg_v11_def Let_def)
    then show ?thesis using c True by (auto simp: queue_is_def msg_bytes_def)
  next
    case False
    let ?h = "\<lambda>b. b\<lparr>bufflen := buffpos b, buffpos := 0\<rparr>"
    have "msgQ (end_msg_v11 scb) = ms @ [(?g m)\<lparr>buffQ := fs @ [?h b]\<rparr>]"
      using False q c(5) upd_buff_msgQ [OF q, of fs b ?h] by (simp add: end_msg_v11_def Let_def)
    moreover have "buff_bytes (?h b) = map (buff b) [0..<buffpos b]" using c(7) by (simp add: buff_bytes_def filling_def)
    ultimately show ?thesis using c by (auto simp: queue_is_def msg_bytes_def)
  qed
  have "instate (ses_msg_free_buff b s) = instate s" for b s by (simp add: ses_msg_free_buff_def)
  then show "instate (end_msg_v11 scb) = SES_INST_IDLE" by (simp add: end_msg_v11_def Let_def)
  show "room mem (end_msg_v11 scb) n" using assms(2) by (simp add: end_msg_v11_def Let_def)
qed

text \<open>The data of a chunk.\<close>

lemma chunk_left:
  fixes e c :: u64
  assumes "unat (e - c) = k" "l \<le> k"
  shows "unat (e - (c + of_nat l)) = k - l" "c + of_nat l = e \<longleftrightarrow> l = k"
proof -
  have k: "e - c = of_nat k" "k < 2 ^ 64" using assms(1) unsigned_less [of "e - c"] by auto
  have "e - (c + of_nat l) = of_nat (k - l)" using k(1) assms(2) by (simp add: of_nat_diff algebra_simps)
  then show u: "unat (e - (c + of_nat l)) = k - l" using k(2) by (simp add: unat_of_nat)
  show "c + of_nat l = e \<longleftrightarrow> l = k"
    using u assms(2) unat_eq_zero [of "e - (c + of_nat l)"] by (auto simp: eq_diff_eq)
qed

lemma copy_chunk_ok:
  assumes q: "queue_is False s cur msgs" and f: "frame_is (F_DATA k) s" and b: "buffpos (cur_buff s) < SES_MSG_BUFFSIZE"
    and r: "room mem s (min (length input) k + j)" and nul: "NUL \<notin> set input"
  shows "\<exists>s'. copy_chunk mem input s = (NO_ERR, drop k input, s') \<and> queue_is False s' (cur @ take k input) msgs \<and> room mem s' j \<and>
           frame_is (if k \<le> length input then F_NL else F_DATA (k - length input)) s'"
proof -
  obtain ms m fs b where c: "\<forall>m \<in> set ms. msg_ready m" "map msg_bytes ms = msgs" "msgQ s = ms @ [m]" "\<not> msg_ready m"
    "buffQ m = fs @ [b]" "\<forall>f \<in> set fs. full f" "filling b" "cur = concat (map buff_bytes fs) @ map (buff b) [0..<buffpos b]"
    by (rule queue_isE [OF q])
  define l where "l = min (length input) k"
  have l: "l \<le> length input" "l \<le> k" by (simp_all add: l_def)
  have k: "unat (expchunksize m - curchunksize m) = k" "instate s = SES_INST_INMSG" using f c(3) by simp_all
  let ?m = "m\<lparr>curchunksize := curchunksize m + of_nat l\<rparr>"
  define s1 where "s1 = upd_msg (\<lambda>m. m\<lparr>curchunksize := curchunksize m + of_nat l\<rparr>) s"
  define s2 where "s2 = (if l = k then s1\<lparr>inendpos := 0, instate := SES_INST_INBETWEEN\<rparr> else s1)"
  have q1: "msgQ s1 = ms @ [?m]" unfolding s1_def by (rule upd_msg_msgQ [OF c(3)])
  have q2: "msgQ s2 = ms @ [?m]" using q1 by (simp add: s2_def)
  have r2: "room mem s2 (l + j)" using r [folded l_def] by (auto simp: s2_def s1_def)
  have fr: "frame_is (if k \<le> length input then F_NL else F_DATA (k - length input)) s'"
    if "instate s' = instate s2" "inendpos s' = inendpos s2" "msgQ s' = ms @ [?m\<lparr>buffQ := bs\<rparr>]" for s' bs
    using that chunk_left [OF k(1) l(2)] k(2) by (auto simp: s2_def s1_def l_def)
  define left where "left = SES_MSG_BUFFSIZE - buffpos b"
  have bp: "buffpos b < SES_MSG_BUFFSIZE" "bufflen b \<noteq> SES_MSG_BUFFSIZE" "buffstart b = 0"
    using assms(3) c(3,5,7) by (auto simp: filling_def)
  have cc: "copy_chunk mem input s =
    (if left \<ge> l
     then (NO_ERR, drop l input,
           upd_buff (\<lambda>b. b\<lparr>buff := xml_strncpy (buffpos b) input l (buff b), buffpos := buffpos b + l\<rparr>) s2)
     else (case copy_rest mem (drop left (take l input))
                  (upd_buff (\<lambda>b. close_full (b\<lparr>buff := xml_strncpy (buffpos b) input left (buff b)\<rparr>)) s2) of
             (res, scb) \<Rightarrow> (res, drop l input, scb)))"
  proof -
    have "curchunksize (cur_msg s1) = expchunksize (cur_msg s1) \<longleftrightarrow> l = k"
      using chunk_left(2) [OF k(1) l(2)] q1 by simp
    then have s2: "(if curchunksize (cur_msg s1) = expchunksize (cur_msg s1)
                    then s1\<lparr>inendpos := 0, instate := SES_INST_INBETWEEN\<rparr> else s1) = s2" by (simp add: s2_def)
    have cb: "cur_buff s2 = b" using q2 c(5) by simp
    have cl: "min (length input) (unat (expchunksize (cur_msg s) - curchunksize (cur_msg s))) = l"
      using c(3) k by (simp add: l_def)
    show ?thesis
      unfolding copy_chunk_def Let_def cl s1_def [symmetric] s2 cb left_def [symmetric] by (rule refl)
  qed
  have dl: "drop l input = drop k input" "take l input = take k input" by (simp_all add: l_def min_def)
  show ?thesis
  proof (cases "left \<ge> l")
    case True
    let ?f = "\<lambda>b. b\<lparr>buff := xml_strncpy (buffpos b) input l (buff b), buffpos := buffpos b + l\<rparr>"
    have q3: "msgQ (upd_buff ?f s2) = ms @ [?m\<lparr>buffQ := fs @ [?f b]\<rparr>]"
      using upd_buff_msgQ [OF q2, of fs b ?f] c(5) by simp
    have "open_msg (?m\<lparr>buffQ := fs @ [?f b]\<rparr>) (cur @ take l input)"
    proof (rule open_msgI [of _ fs "?f b"])
      show "filling (?f b)" using bp True by (simp add: filling_def left_def)
      show "cur @ take l input = concat (map buff_bytes fs) @ map (buff (?f b)) [0..<buffpos (?f b)]"
        using xml_strncpy_bytes [OF l(1) nul, of "buffpos b" "buff b"] c(8) by simp
    qed (use c in simp_all)
    from queue_isI [OF c(1) q3 this] have "queue_is False (upd_buff ?f s2) (cur @ take k input) msgs" by (simp add: c(2) dl)
    moreover have "room mem (upd_buff ?f s2) j" using room_mono [OF r2] by simp
    ultimately show ?thesis using cc True fr [OF _ _ q3] dl by auto
  next
    case False
    let ?f = "\<lambda>b. close_full (b\<lparr>buff := xml_strncpy (buffpos b) input left (buff b)\<rparr>)"
    let ?src = "drop left (take l input)"
    let ?m2 = "?m\<lparr>buffQ := fs @ [?f b]\<rparr>"
    have q3: "msgQ (upd_buff ?f s2) = ms @ [?m2]"
      using upd_buff_msgQ [OF q2, of fs b ?f] c(5) by simp
    have ll: "left < l" "left \<le> length input" using False l(1) by simp_all
    have "full (?f b)" using bp by (simp add: full_def close_full_def)
    have "buff_bytes (?f b) = map (buff b) [0..<buffpos b] @ take left input"
      using xml_strncpy_bytes [OF ll(2) nul, of "buffpos b" "buff b"] bp
      by (simp add: buff_bytes_def close_full_def left_def)
    then have bytes: "concat (map buff_bytes (buffQ ?m2)) @ ?src = cur @ take l input"
      using ll(1) c(8) by (simp add: min_absorb1 drop_take) (metis append_assoc le_add_diff_inverse less_imp_le_nat take_add)
    have "\<exists>scb' bs. copy_rest mem ?src (upd_buff ?f s2) = (NO_ERR, scb') \<and> msgQ scb' = ms @ [?m2\<lparr>buffQ := bs\<rparr>] \<and>
           open_msg (?m2\<lparr>buffQ := bs\<rparr>) (concat (map buff_bytes (buffQ ?m2)) @ ?src) \<and> room mem scb' j \<and>
           instate scb' = instate (upd_buff ?f s2) \<and> inendpos scb' = inendpos (upd_buff ?f s2) \<and>
           startchunk scb' = startchunk (upd_buff ?f s2)"
    proof (rule copy_rest_ok)
      show "room mem (upd_buff ?f s2) (length ?src + j)" using room_mono [OF r2, of "length ?src + j"] l(1) by simp
      show "NUL \<notin> set ?src" using nul in_set_dropD in_set_takeD by fast
      show "?src \<noteq> []" using ll(1) l(1) by simp
    qed (use q3 c(4,6) \<open>full (?f b)\<close> in auto)
    then obtain s' bs where s': "copy_rest mem ?src (upd_buff ?f s2) = (NO_ERR, s')" "msgQ s' = ms @ [?m\<lparr>buffQ := bs\<rparr>]"
      "open_msg (?m\<lparr>buffQ := bs\<rparr>) (cur @ take l input)" "room mem s' j" "instate s' = instate s2" "inendpos s' = inendpos s2"
      unfolding bytes by auto
    have "queue_is False s' (cur @ take k input) msgs" using queue_isI [OF c(1) s'(2,3)] by (simp add: c(2) dl)
    then show ?thesis using cc False s' fr [OF s'(5,6,2)] dl by auto
  qed
qed

section \<open>Refinement\<close>

fun rel11 :: "bool \<Rightarrow> ses_cb_t \<Rightarrow> frame \<times> string \<times> string list \<Rightarrow> bool" where
  "rel11 null scb (f, cur, msgs) \<longleftrightarrow> queue_is null scb cur msgs \<and> frame_is f scb \<and> (null \<longrightarrow> f = F_IDLE)"

lemma run11_data:
  "k \<noteq> 0 \<Longrightarrow> run11 (F_DATA k, cur, msgs) input =
     run11 (if k \<le> length input then F_NL else F_DATA (k - length input), cur @ take k input, msgs) (drop k input)"
proof (induction input arbitrary: k cur)
  case (Cons ch rest)
  then obtain n where n: "k = Suc n" by (cases k) auto
  show ?case
  proof (cases "n = 0")
    case False
    then show ?thesis using Cons.IH [OF False, of "cur @ [ch]"] by (simp add: n)
  qed (simp add: n)
qed simp

lemma step11_header: "f \<noteq> F_END \<Longrightarrow> (\<And>k. f \<noteq> F_DATA k) \<Longrightarrow> step11 (f, cur, msgs) ch = map_option (\<lambda>f. (f, cur, msgs)) (frame_step f ch)"
  by (cases f) auto

lemma run11_empty_chunk: "run11 (F_DATA 0, cur, msgs) (ch # rest) = run11 (F_NL, cur, msgs) (ch # rest)" by simp

lemma next_msg_v11_ok:
  assumes "queue_is True scb [] msgs" "instate scb = SES_INST_IDLE" "room mem scb (Suc n)" "rest \<noteq> []"
  shows "\<exists>s'. next_msg_v11 mem rest scb = (NO_ERR, s') \<and> queue_is False s' [] msgs \<and> frame_is F_IDLE s' \<and> room mem s' n"
proof -
  have ms: "\<forall>m \<in> set (msgQ scb). msg_ready m" "map msg_bytes (msgQ scb) = msgs" using assms(1) by (auto simp: queue_is_def)
  obtain s where s: "add_msg mem scb = (NO_ERR, s)" "msgQ s = msgQ scb @ [new_msg]" "room mem s (Suc n)" "instate s = instate scb"
    "inendpos s = inendpos scb" "startchunk s = startchunk scb" "ses_protocol s = ses_protocol scb"
    by (rule add_msg_ok [OF assms(3)])
  obtain b s' where b: "add_buff mem s = (NO_ERR, s')" "fresh b" "msgQ s' = msgQ scb @ [new_msg\<lparr>buffQ := buffQ new_msg @ [b]\<rparr>]"
    "room mem s' n" "instate s' = instate s" "inendpos s' = inendpos s" "startchunk s' = startchunk s" "ses_protocol s' = ses_protocol s"
    by (rule add_buff_ok [OF s(3,2)])
  have "queue_is False s' [] msgs" using queue_isI [OF ms(1) b(3)] new_msg_open [OF b(2)] ms(2) by (simp add: new_msg_def)
  then show ?thesis using s b assms(2,4) by (simp add: next_msg_v11_def)
qed

lemma v11_loop_refines:
  assumes "queue_is False scb cur msgs" "frame_is f scb" "room mem scb (2 * length input + (if f = F_DATA 0 then 1 else 0))" "NUL \<notin> set input"
  shows "case run11 (f, cur, msgs) input of
           None \<Rightarrow> \<exists>scb'. v11_loop mem input scb = (ERR_NCX_INVALID_FRAMING, scb')
         | Some a' \<Rightarrow> \<exists>scb' null. v11_loop mem input scb = (NO_ERR, scb') \<and> rel11 null scb' a'"
  using assms
proof (induction "2 * length input + (if f = F_DATA 0 then 1 else 0)" arbitrary: input scb f cur msgs rule: less_induct)
  case less
  show ?case
  proof (cases input)
    case Nil
    then show ?thesis using less.prems by (auto simp: v11_loop.simps)
  next
    case input: (Cons ch rest)
    define j where "j = (if f = F_DATA 0 then 2 * length input else 2 * length rest + 1)"
    have room: "room mem scb (Suc j)" by (rule room_mono [OF less.prems(3)]) (simp add: j_def input)
    obtain s where s: "next_buff mem False scb = (NO_ERR, s)" "queue_is False s cur msgs" "frame_is f s"
      "buffpos (cur_buff s) < SES_MSG_BUFFSIZE" "room mem s j"
      by (rule next_buff_frame [OF less.prems(1,2) room])
    have nul: "NUL \<notin> set rest" using less.prems(4) input by simp
    consider (data) k where "f = F_DATA k" | (fin) "f = F_END" | (header) "f \<noteq> F_END" "\<And>k. f \<noteq> F_DATA k" by blast
    then show ?thesis
    proof cases
      case data
      then have i: "instate s = SES_INST_INMSG" using s(3) by simp
      define jj where "jj = 2 * length (drop k input)"
      have "room mem s (min (length input) k + jj)"
        by (rule room_mono [OF s(5)]) (auto simp: j_def jj_def data input)
      from copy_chunk_ok [OF s(2) s(3) [unfolded data] s(4) this less.prems(4)] obtain s' where
        s': "copy_chunk mem input s = (NO_ERR, drop k input, s')" "queue_is False s' (cur @ take k input) msgs" "room mem s' jj"
          "frame_is (if k \<le> length input then F_NL else F_DATA (k - length input)) s'"
        by blast
      define f' where "f' = (if k \<le> length input then F_NL else F_DATA (k - length input))"
      have L: "v11_loop mem input scb = v11_loop mem (drop k input) s'"
        using v11_unfold(3) [OF s(1) i, of ch rest] s'(1) by (simp add: input)
      have R: "run11 (f, cur, msgs) input = run11 (f', cur @ take k input, msgs) (drop k input)"
      proof (cases "k = 0")
        case True
        then show ?thesis using run11_empty_chunk by (simp add: data f'_def input)
      next
        case False
        then show ?thesis unfolding data f'_def by (rule run11_data)
      qed
      have f0: "f' \<noteq> F_DATA 0" by (simp add: f'_def)
      have "2 * length (drop k input) + (if f' = F_DATA 0 then 1 else 0) < 2 * length input + (if f = F_DATA 0 then 1 else 0)"
        using f0 data by (cases k) (auto simp: input)
      moreover have "room mem s' (2 * length (drop k input) + (if f' = F_DATA 0 then 1 else 0))" using s'(3) f0 by (simp add: jj_def)
      moreover have "NUL \<notin> set (drop k input)" using less.prems(4) in_set_dropD by fast
      ultimately show ?thesis unfolding L R using less.hyps [OF _ s'(2) s'(4) [folded f'_def]] by blast
    next
      case fin
      have i: "instate s = SES_INST_INEND" "inendpos s = 3" using s(3) fin by simp_all
      note u = v11_unfold(5) [OF s(1) i, of ch rest]
      show ?thesis
      proof (cases "ch = LF")
        case False
        then show ?thesis using u by (simp add: input fin)
      next
        case True
        let ?e = "end_msg_v11 s"
        note e = end_msg_v11_ok [OF s(2,5)]
        have R: "run11 (f, cur, msgs) input = run11 (F_IDLE, [], msgs @ [cur]) rest" using True by (simp add: input fin)
        show ?thesis
        proof (cases "rest = []")
          case r: True
          then have "v11_loop mem input scb = (NO_ERR, ?e)"
            using u True by (simp add: input next_msg_v11_def v11_loop.simps)
          then show ?thesis unfolding R r using e by auto
        next
          case False
          have "room mem ?e (Suc (2 * length rest))" using e(3) fin by (simp add: j_def)
          from next_msg_v11_ok [OF e(1,2) this False] obtain s' where s': "next_msg_v11 mem rest ?e = (NO_ERR, s')"
            "queue_is False s' [] (msgs @ [cur])" "frame_is F_IDLE s'" "room mem s' (2 * length rest)" by blast
          have L: "v11_loop mem input scb = v11_loop mem rest s'" using u True s'(1) by (simp add: input)
          show ?thesis unfolding L R using less.hyps [OF _ s'(2,3) _ nul] s'(4) by (simp add: input)
        qed
      qed
    next
      case header
      note st = v11_header_step [OF s(1,2,3,5,4) header, of ch rest]
      note sh = step11_header [OF header, of cur msgs ch]
      show ?thesis
      proof (cases "frame_step f ch")
        case None
        then show ?thesis using st sh by (simp add: input)
      next
        case (Some f')
        with st obtain s' where s': "v11_loop mem (ch # rest) scb = v11_loop mem rest s'" "queue_is False s' cur msgs" "frame_is f' s'"
          "room mem s' j" by auto
        have R: "run11 (f, cur, msgs) input = run11 (f', cur, msgs) rest" using Some sh by (simp add: input)
        have L: "v11_loop mem input scb = v11_loop mem rest s'" using s'(1) by (simp add: input)
        have "2 * length rest + (if f' = F_DATA 0 then 1 else 0) < 2 * length input + (if f = F_DATA 0 then 1 else 0)" by (simp add: input)
        moreover have "room mem s' (2 * length rest + (if f' = F_DATA 0 then 1 else 0))"
          using header(2) by (intro room_mono [OF s'(4)]) (simp add: j_def)
        ultimately show ?thesis unfolding L R using less.hyps [OF _ s'(2,3) _ nul] by blast
      qed
    qed
  qed
qed

lemma accept_v11_refines:
  assumes "rel11 null scb a" "room mem scb (2 * length input + 2)" "NUL \<notin> set input"
  shows "case run11 a input of
           None \<Rightarrow> \<exists>scb'. accept_buffer_ssh_v11 mem input scb = (ERR_NCX_INVALID_FRAMING, scb')
         | Some a' \<Rightarrow> \<exists>scb' null'. accept_buffer_ssh_v11 mem input scb = (NO_ERR, scb') \<and> rel11 null' scb' a'"
proof -
  obtain f cur msgs where a: "a = (f, cur, msgs)" by (cases a)
  have h: "queue_is null scb cur msgs" "frame_is f scb" "null \<longrightarrow> f = F_IDLE" using assms(1) by (simp_all add: a)
  have r: "room mem scb (Suc (2 * length input + 1))" using assms(2) by simp
  obtain s where s: "start_msg mem scb = (NO_ERR, s)" "queue_is False s cur msgs" "room mem s (2 * length input + 1)" "instate s = instate scb"
    "inendpos s = inendpos scb" "startchunk s = startchunk scb" "ses_protocol s = ses_protocol scb"
    "null \<or> expchunksize (cur_msg s) = expchunksize (cur_msg scb) \<and> curchunksize (cur_msg s) = curchunksize (cur_msg scb)"
    by (rule start_msg_ok [OF h(1) r])
  have "frame_is f s" using h(2,3) s(4-6,8) by (cases f) auto
  moreover have "room mem s (2 * length input + (if f = F_DATA 0 then 1 else 0))" by (rule room_mono [OF s(3)]) simp
  moreover have "accept_buffer_ssh_v11 mem input scb = v11_loop mem input s" using s(1) by (simp add: accept_buffer_ssh_v11_def)
  ultimately show ?thesis using v11_loop_refines [OF s(2) _ _ assms(3)] unfolding a by presburger
qed

interpretation v11: framing step11 "\<lambda>input scb. Some (accept_buffer_ssh_v11 mem input scb)" "\<lambda>scb a. \<exists>null. rel11 null scb a"
    "\<lambda>input scb. room mem scb (2 * length input + 2) \<and> NUL \<notin> set input"
proof (unfold_locales, goal_cases)
  case (1 scb a input a')
  then obtain null where "rel11 null scb a" by blast
  from accept_v11_refines [OF this, of mem input] 1 show ?case by (auto simp del: rel11.simps)
qed

lemma idle_ses_start: "rel11 True idle_ses (F_IDLE, [], [])"
  by (simp add: queue_is_def idle_ses_def)





section \<open>The chunks of a message\<close>

definition chunk :: "string \<Rightarrow> string" where
  "chunk d = LF # CHR ''#'' # nat_string (length d) @ LF # d"

definition chunked :: "string list \<Rightarrow> string" where
  "chunked ds = concat (map chunk ds) @ NC_SSH_END_CHUNKS"

lemma nat_string_length: "n < 10 ^ Suc k \<Longrightarrow> length (nat_string n) \<le> Suc k"
proof (induction k arbitrary: n)
  case 0
  then show ?case by (subst nat_string.simps) simp
next
  case (Suc k)
  then have "n div 10 < 10 ^ Suc k" by (simp add: less_mult_imp_div_less mult.commute)
  from Suc.IH [OF this] show ?case by (subst nat_string.simps) simp
qed

lemma run11_size:
  "list_all isdigit es \<Longrightarrow> length (ds @ es) \<le> 10 \<Longrightarrow>
   run11 (F_SIZE ds, cur, msgs) (es @ [LF]) = Some (F_DATA (chunk_size (ds @ es)), cur, msgs)"
proof (induction es arbitrary: ds)
  case (Cons e es)
  moreover have "e \<noteq> LF" using Cons.prems(1) by (auto simp: isdigit_def)
  ultimately show ?case by simp
qed simp

lemma nat_string_digit1: "0 < n \<Longrightarrow> \<exists>c cs. nat_string n = c # cs \<and> is_digit1 c \<and> list_all isdigit cs"
proof -
  assume n: "0 < n"
  obtain c cs where c: "nat_string n = c # cs" using nat_string_neq_Nil [of n] by (cases "nat_string n") auto
  have d: "isdigit c" "list_all isdigit cs" using nat_string_digits [of n] c by simp_all
  have "c \<noteq> CHR ''0''" using hd_nat_string_zero [of n] c n by simp
  moreover have "c = CHR ''0''" if "(of_char c :: nat) = 48"
  proof -
    have "c = char_of (of_char c :: nat)" by simp
    also have "\<dots> = CHR ''0''" unfolding that by code_simp
    finally show ?thesis .
  qed
  ultimately have "(of_char c :: nat) \<noteq> 48" by blast
  then have "is_digit1 c" using d(1) by (simp add: isdigit_def is_digit1_def)
  with c d show ?thesis by blast
qed

lemma run11_sized:
  assumes "f \<in> {F_IDLE, F_NL}" "d \<noteq> []" "0 < n" "n < 10 ^ 10" "n mod 2 ^ 32 = length d"
  shows "run11 (f, cur, msgs) (LF # CHR ''#'' # nat_string n @ LF # d) = Some (F_NL, cur @ d, msgs)"
proof -
  obtain c cs where c: "nat_string n = c # cs" "is_digit1 c" "list_all isdigit cs"
    using nat_string_digit1 [OF assms(3)] by auto
  have "length ([c] @ cs) \<le> 10" using nat_string_length [of n 9] assms(4) c(1) by simp
  moreover have "chunk_size ([c] @ cs) = length d"
    using assms(5) string_nat_inverse [of n] c(1) by (simp add: chunk_size_def)
  ultimately have "run11 (F_SIZE [c], cur, msgs) (cs @ [LF]) = Some (F_DATA (length d), cur, msgs)"
    using run11_size [OF c(3), of "[c]"] by simp
  then have "run11 (F_SIZE [c], cur, msgs) ((cs @ [LF]) @ d) = run11 (F_DATA (length d), cur, msgs) d"
    by (simp only: run_append option.case)
  also have "\<dots> = Some (F_NL, cur @ d, msgs)" using run11_data [of "length d" cur msgs d] assms(2) by simp
  finally have "run11 (F_SIZE [c], cur, msgs) (cs @ LF # d) = Some (F_NL, cur @ d, msgs)" by simp
  moreover have "c \<noteq> CHR ''#''" using c(2) is_digit1_hash by auto
  ultimately show ?thesis using assms(1) c(1,2) by auto
qed

lemma run11_chunk:
  assumes "f \<in> {F_IDLE, F_NL}" "d \<noteq> []" "length d < 2 ^ 32"
  shows "run11 (f, cur, msgs) (chunk d) = Some (F_NL, cur @ d, msgs)"
  unfolding chunk_def by (rule run11_sized [OF assms(1,2)]) (use assms(2,3) in simp_all)

lemma run11_chunks:
  "\<forall>d \<in> set ds. d \<noteq> [] \<and> length d < 2 ^ 32 \<Longrightarrow> run11 (F_NL, cur, msgs) (chunked ds) = Some (F_IDLE, [], msgs @ [cur @ concat ds])"
proof (induction ds arbitrary: cur)
  case Nil
  then show ?case by (simp add: chunked_def NC_SSH_END_CHUNKS_def)
next
  case (Cons d ds)
  then have "run11 (F_NL, cur, msgs) (chunk d) = Some (F_NL, cur @ d, msgs)" by (intro run11_chunk) auto
  moreover have "run11 (F_NL, cur @ d, msgs) (chunked ds) = Some (F_IDLE, [], msgs @ [(cur @ d) @ concat ds])"
    by (rule Cons.IH) (use Cons.prems in simp)
  moreover have "chunked (d # ds) = chunk d @ chunked ds" by (simp add: chunked_def)
  ultimately show ?case by (simp only: run_append option.case) simp
qed

text \<open>The machine takes the chunks of a message apart, however the message was divided.\<close>

lemma run11_chunked:
  assumes "ds \<noteq> []" "\<forall>d \<in> set ds. d \<noteq> [] \<and> length d < 2 ^ 32"
  shows "run11 (F_IDLE, [], msgs) (chunked ds) = Some (F_IDLE, [], msgs @ [concat ds])"
proof -
  obtain d ds' where d: "ds = d # ds'" using assms(1) by (cases ds) auto
  have "run11 (F_IDLE, [], msgs) (chunk d) = Some (F_NL, d, msgs)" using run11_chunk [of F_IDLE d "[]"] assms(2) d by simp
  moreover have "run11 (F_NL, d, msgs) (chunked ds') = Some (F_IDLE, [], msgs @ [d @ concat ds'])"
    by (rule run11_chunks) (use assms(2) d in simp)
  moreover have "chunked ds = chunk d @ chunked ds'" by (simp add: chunked_def d)
  ultimately show ?thesis by (simp only: run_append option.case d) simp
qed

text \<open>
  the size of a chunk is only kept modulo 2^32, because the conversion of an unsigned 32 bit number has
  no check of its range: a header with a size above the limit of RFC 6242 is taken for one of a smaller chunk.
\<close>
theorem v11_size_wraps:
  assumes "rel11 null scb (F_IDLE, [], msgs)" "2 ^ 32 < n" "n < 10 ^ 10" "n mod 2 ^ 32 = length d" "d \<noteq> []" "NUL \<notin> set d"
    and "room mem scb (2 * length (LF # CHR ''#'' # nat_string n @ LF # d @ NC_SSH_END_CHUNKS) + 2)"
  shows "\<exists>scb' null'. accept_buffer_ssh_v11 mem (LF # CHR ''#'' # nat_string n @ LF # d @ NC_SSH_END_CHUNKS) scb = (NO_ERR, scb') \<and>
    queue_is null' scb' [] (msgs @ [d])"
proof -
  let ?in = "LF # CHR ''#'' # nat_string n @ LF # d @ NC_SSH_END_CHUNKS"
  have "run11 (F_IDLE, [], msgs) (LF # CHR ''#'' # nat_string n @ LF # d) = Some (F_NL, d, msgs)"
    using run11_sized [OF _ assms(5) _ assms(3,4), of F_IDLE "[]" msgs] assms(2) by simp
  moreover have "run11 (F_NL, d, msgs) NC_SSH_END_CHUNKS = Some (F_IDLE, [], msgs @ [d])" by (simp add: NC_SSH_END_CHUNKS_def)
  moreover have "?in = (LF # CHR ''#'' # nat_string n @ LF # d) @ NC_SSH_END_CHUNKS" by simp
  ultimately have run: "run11 (F_IDLE, [], msgs) ?in = Some (F_IDLE, [], msgs @ [d])" by (simp only: run_append option.case)
  have "NUL \<notin> set (nat_string n)" using nat_string_digits [of n] by (auto simp: list_all_iff isdigit_def)
  then have "NUL \<notin> set ?in" using assms(6) by (simp add: NC_SSH_END_CHUNKS_def)
  from accept_v11_refines [OF assms(1,7) this] show ?thesis unfolding run option.case by auto
qed

theorem v11_size_wraps_witness:
  "\<exists>scb' null'. accept_buffer_ssh_v11 True (LF # CHR ''#'' # nat_string 4294967299 @ LF # ''abc'' @ NC_SSH_END_CHUNKS) idle_ses = (NO_ERR, scb') \<and>
     queue_is null' scb' [] [''abc'']"
proof -
  have "length (nat_string 4294967299) \<le> Suc 9" by (rule nat_string_length) simp
  then have "room True idle_ses (2 * length (LF # CHR ''#'' # nat_string 4294967299 @ LF # ''abc'' @ NC_SSH_END_CHUNKS) + 2)"
    by (simp add: idle_ses_room NC_SSH_END_CHUNKS_def)
  with v11_size_wraps [of True idle_ses "[]" 4294967299 "''abc''" True] idle_ses_start show ?thesis by simp
qed

text \<open>
  the copy of chunk data adds a NUL.  When the data just fill the current buffer, that byte is written
  at the position \<^verbatim>\<open>SES_MSG_BUFFSIZE\<close>, one after the end of the array.
\<close>
theorem v11_copy_overrun:
  assumes "queue_is False s cur msgs" "unat (expchunksize (cur_msg s) - curchunksize (cur_msg s)) = k"
    and "buffpos (cur_buff s) + min (length input) k = SES_MSG_BUFFSIZE" "NUL \<notin> set input"
  shows "\<exists>s'. copy_chunk mem input s = (NO_ERR, drop k input, s') \<and> buffpos (cur_buff s') = SES_MSG_BUFFSIZE \<and>
    buff (cur_buff s') SES_MSG_BUFFSIZE = NUL"
proof -
  obtain ms m fs b where c: "msgQ s = ms @ [m]" "buffQ m = fs @ [b]" using queue_isE [OF assms(1)] by metis
  define l where "l = min (length input) k"
  have l: "l \<le> length input" "drop l input = drop k input" by (simp_all add: l_def min_def)
  have cl: "min (length input) (unat (expchunksize (cur_msg s) - curchunksize (cur_msg s))) = l" using assms(2) by (simp add: l_def)
  let ?f = "\<lambda>b. b\<lparr>buff := xml_strncpy (buffpos b) input l (buff b), buffpos := buffpos b + l\<rparr>"
  define s1 where "s1 = upd_msg (\<lambda>m. m\<lparr>curchunksize := curchunksize m + of_nat l\<rparr>) s"
  define s2 where "s2 = (if curchunksize (cur_msg s1) = expchunksize (cur_msg s1)
                         then s1\<lparr>inendpos := 0, instate := SES_INST_INBETWEEN\<rparr> else s1)"
  have q1: "msgQ s1 = ms @ [m\<lparr>curchunksize := curchunksize m + of_nat l\<rparr>]" unfolding s1_def by (rule upd_msg_msgQ [OF c(1)])
  then have q2: "msgQ s2 = ms @ [m\<lparr>curchunksize := curchunksize m + of_nat l\<rparr>]" by (simp add: s2_def)
  have cb: "cur_buff s2 = b" "cur_buff s = b" using q2 c by simp_all
  have bl: "buffpos b + l = SES_MSG_BUFFSIZE" using assms(3) cb(2) by (simp add: l_def)
  then have le: "l \<le> SES_MSG_BUFFSIZE - buffpos b" by simp
  have "copy_chunk mem input s = (NO_ERR, drop k input, upd_buff ?f s2)"
    unfolding copy_chunk_def Let_def cl s1_def [symmetric] s2_def [symmetric] cb(1) using le by (simp add: l(2))
  moreover have "msgQ (upd_buff ?f s2) = ms @ [m\<lparr>curchunksize := curchunksize m + of_nat l, buffQ := fs @ [?f b]\<rparr>]"
    using upd_buff_msgQ [OF q2, of fs b ?f] c(2) by simp
  moreover have "xml_strncpy (buffpos b) input l (buff b) SES_MSG_BUFFSIZE = NUL"
  proof -
    have "NUL \<notin> set (take l input)" using assms(4) in_set_takeD by fast
    from xml_strncpy_at [OF l(1) this] show ?thesis using bl by simp
  qed
  ultimately show ?thesis using bl by simp
qed

text \<open>A session in the data of a chunk of three bytes, with room for two.\<close>

definition chunk_ses :: ses_cb_t where
  "chunk_ses = idle_ses\<lparr>instate := SES_INST_INMSG,
     msgQ := [new_msg\<lparr>expchunksize := 3, buffQ := [cleared_buff\<lparr>buffpos := 1998\<rparr>]\<rparr>]\<rparr>"

theorem v11_copy_overrun_witness:
  "\<exists>s'. copy_chunk True ''ab'' chunk_ses = (NO_ERR, [], s') \<and> buff (cur_buff s') SES_MSG_BUFFSIZE = NUL"
proof -
  have "queue_is False chunk_ses (map (\<lambda>_. NUL) [0..<1998]) []"
    by (rule queue_isI [of "[]" _ "new_msg\<lparr>expchunksize := 3, buffQ := [cleared_buff\<lparr>buffpos := 1998\<rparr>]\<rparr>", simplified])
      (auto simp: chunk_ses_def new_msg_def filling_def cleared_buff_def SES_MSG_BUFFSIZE_def
        intro!: open_msgI [of _ "[]" "cleared_buff\<lparr>buffpos := 1998\<rparr>"])
  from v11_copy_overrun [OF this, of 3 "''ab''" True] show ?thesis
    by (auto simp: chunk_ses_def new_msg_def cleared_buff_def SES_MSG_BUFFSIZE_def)
qed

end
