(* ===== verification/Ses_Out_Props.thy ===== *)
theory Ses_Out_Props
  imports Ses_Chunk_Props
begin

text \<open>
  Output of a session: what is written is what is sent, once and in order, whatever part of it each write takes;
  and what one session sends another one receives.
\<close>

section \<open>A buffer on the wire\<close>

lemma put_at_nth: "put_at p xs a i = (if p \<le> i \<and> i < p + length xs then xs ! (i - p) else a i)"
  by (induction p xs a rule: put_at.induct) (auto simp: nth_Cons' Suc_diff_le fun_upd_def)

lemma map_put_at_before: "q \<le> p \<Longrightarrow> map (put_at p xs a) [k..<q] = map a [k..<q]"
  by (simp add: put_at_nth)

lemma map_put_at_after: "p + length xs \<le> k \<Longrightarrow> map (put_at p xs a) [k..<q] = map a [k..<q]"
  by (simp add: put_at_nth)

lemma map_put_at: "map (put_at p xs a) [p..<p + length xs] = xs"
  by (intro nth_equalityI) (simp_all add: put_at_nth)

text \<open>The buffers for output: where the data start and how many bytes there may be.\<close>

definition out_start :: "bool \<Rightarrow> nat" where
  "out_start f11 = (if f11 then SES_STARTCHUNK_PAD else 0)"

definition out_limit :: "bool \<Rightarrow> nat" where
  "out_limit f11 = (if f11 then SES_MSG_BUFFSIZE - SES_ENDCHUNK_PAD else SES_MSG_BUFFSIZE)"

definition out_buff :: "bool \<Rightarrow> ses_msg_buff_t \<Rightarrow> bool" where
  "out_buff f11 b \<longleftrightarrow> buffstart b = out_start f11 \<and> out_start f11 \<le> bufflen b \<and> bufflen b \<le> out_limit f11"

definition out_data :: "ses_msg_buff_t \<Rightarrow> string" where
  "out_data b = map (buff b) [buffstart b..<bufflen b]"

lemma out_start_limit: "out_start f11 < out_limit f11"
  by (simp add: out_start_def out_limit_def SES_STARTCHUNK_PAD_def SES_MSG_BUFFSIZE_def SES_ENDCHUNK_PAD_def)

lemma do_send_chunk:
  assumes "out_buff True b"
  shows "fst (do_send_buff True b) = chunk (out_data b) @ (if islast b then NC_SSH_END_CHUNKS else [])"
proof -
  define n where "n = bufflen b - 10"
  define hd where "hd = LF # CHR ''#'' # nat_string n @ [LF]"
  define start where "start = 10 - length hd"
  have b: "buffstart b = 10" "10 \<le> bufflen b" "bufflen b \<le> 1996"
    using assms by (simp_all add: out_buff_def out_start_def out_limit_def SES_STARTCHUNK_PAD_def SES_MSG_BUFFSIZE_def SES_ENDCHUNK_PAD_def)
  have nl: "length (nat_string n) \<le> 4" using nat_string_length [of n 3] b(3) by (simp add: n_def)
  have hl: "length hd = length (nat_string n) + 3" "start + length hd = 10" "start < bufflen b" using nl b(2) by (simp_all add: hd_def start_def)
  have tk: "take (SES_MAX_CHUNKNUM_SIZE - 1) (nat_string n) = nat_string n" using nl by (simp add: SES_MAX_CHUNKNUM_SIZE_def)
  define a where "a = put_at start hd (buff b)"
  have f: "ses_msg_add_framing True b =
    (if islast b
     then b\<lparr>buffstart := start, buff := put_at (bufflen b) NC_SSH_END_CHUNKS a, bufflen := bufflen b + 4 - start\<rparr>
     else b\<lparr>buffstart := start, buff := a, bufflen := bufflen b - start\<rparr>)"
    using tk hl by (simp add: ses_msg_add_framing_def Let_def SES_STARTCHUNK_PAD_def NC_SSH_END_CHUNKS_LEN_def a_def hd_def n_def start_def)
  have split: "[start..<bufflen b] = [start..<10] @ [10..<bufflen b]"
    using hl(2) b(2) upt_add_eq_append [of start 10 "bufflen b - 10"] by simp
  have data: "map a [10..<bufflen b] = out_data b"
    using map_put_at_after [of start hd 10 "buff b" "bufflen b"] hl(2) b(1) by (simp add: a_def out_data_def)
  have "map a [start..<10] = hd" using map_put_at [of start hd "buff b"] hl(2) by (simp add: a_def)
  moreover have "length (out_data b) = n" using b by (simp add: out_data_def n_def)
  ultimately have w: "map a [start..<bufflen b] = chunk (out_data b)"
    by (simp add: split data hd_def chunk_def)
  show ?thesis
  proof (cases "islast b")
    case False
    then show ?thesis using w hl(3) by (simp add: do_send_buff_def f bytes_def Let_def)
  next
    case True
    have "length NC_SSH_END_CHUNKS = 4" by (simp add: NC_SSH_END_CHUNKS_def)
    then have "map (put_at (bufflen b) NC_SSH_END_CHUNKS a) [bufflen b..<bufflen b + 4] = NC_SSH_END_CHUNKS"
      using map_put_at [of "bufflen b" NC_SSH_END_CHUNKS a] by (simp only:)
    moreover have "map (put_at (bufflen b) NC_SSH_END_CHUNKS a) [start..<bufflen b] = chunk (out_data b)"
      by (simp only: map_put_at_before [OF order_refl] w)
    moreover have "[start..<bufflen b + 4] = [start..<bufflen b] @ [bufflen b..<bufflen b + 4]"
      using hl(2) b(2) by (intro upt_add_eq_append) simp
    ultimately show ?thesis using True hl(3) by (simp add: do_send_buff_def f bytes_def Let_def)
  qed
qed

section \<open>Sending the queue\<close>

lemma setup_send_prefix: "setup_send n t bs = take (length (setup_send n t bs)) bs"
  by (induction n t bs rule: setup_send.induct) auto

lemma setup_send_first:
  "bs \<noteq> [] \<Longrightarrow> bufflen (hd bs) \<le> SES_MAX_BYTESEND \<Longrightarrow> setup_send SES_MAX_BUFFSEND 0 bs \<noteq> []"
  by (cases bs) (simp_all add: SES_MAX_BUFFSEND_def numeral_eq_Suc)

lemma free_buff_out [simp]:
  "outQ (ses_msg_free_buff b scb) = outQ scb" "framing11 (ses_msg_free_buff b scb) = framing11 scb"
  by (simp_all add: ses_msg_free_buff_def)

lemma send_chunks_all:
  "cnt \<le> length (outQ scb) \<Longrightarrow> \<exists>s'. send_chunks (\<lambda>_. NO_ERR) i cnt scb =
     (NO_ERR, concat (map (\<lambda>b. fst (do_send_buff (framing11 scb) b)) (take cnt (outQ scb))), s') \<and>
     outQ s' = drop cnt (outQ scb) \<and> framing11 s' = framing11 scb"
proof (induction cnt arbitrary: i scb)
  case (Suc cnt)
  then obtain b bs where q: "outQ scb = b # bs" by (cases "outQ scb") auto
  obtain w b' where w: "do_send_buff (framing11 scb) b = (w, b')" by (cases "do_send_buff (framing11 scb) b")
  define s where "s = ses_msg_free_buff b' (scb\<lparr>outQ := bs\<rparr>)"
  have s: "outQ s = bs" "framing11 s = framing11 scb" by (simp_all add: s_def)
  have "cnt \<le> length (outQ s)" using Suc.prems q s by simp
  from Suc.IH [OF this, of "Suc i"] show ?case by (auto simp: q w s s_def [symmetric] Let_def)
qed simp

lemma clean_sent_unsent:
  "concat (map unsent (outQ (clean_sent n bs scb))) = drop n (concat (map unsent bs))"
  "framing11 (clean_sent n bs scb) = framing11 scb"
proof (induction n bs scb rule: clean_sent.induct)
  case (2 n b bs scb)
  {
    case 1
    have l: "length (unsent b) = bufflen b - buffpos b" by (simp add: unsent_def)
    consider "n = 0" | "n \<noteq> 0" "n \<ge> bufflen b - buffpos b" | "n \<noteq> 0" "n < bufflen b - buffpos b" by linarith
    then show ?case
    proof cases
      case 3
      then have "unsent (b\<lparr>buffpos := buffpos b + n\<rparr>) = drop n (unsent b)" by (simp add: unsent_def drop_map)
      with 3 l show ?thesis by simp
    qed (use 2 l in auto)
  next
    case 2
    then show ?case using "2.IH"(2) by auto
  }
qed simp_all

lemma output_conserved_step:
  assumes "\<not> framing11 scb" "outQ scb \<noteq> []" "bufflen (hd (outQ scb)) \<le> SES_MAX_BYTESEND"
    and "n \<le> length (concat (map unsent (setup_send SES_MAX_BUFFSEND 0 (outQ scb))))"
  shows "case ses_msg_send_buffs io (Inr n) scb of
    (res, sent, scb') \<Rightarrow> res = NO_ERR \<and> length sent = n \<and>
      sent @ concat (map unsent (outQ scb')) = concat (map unsent (outQ scb))"
proof -
  define iovs where "iovs = setup_send SES_MAX_BUFFSEND 0 (outQ scb)"
  have ne: "iovs \<noteq> []" unfolding iovs_def by (rule setup_send_first [OF assms(2,3)])
  have "iovs = take (length iovs) (outQ scb)" unfolding iovs_def by (rule setup_send_prefix)
  then obtain rest where q: "outQ scb = iovs @ rest" by (metis append_take_drop_id)
  have n: "n \<le> length (concat (map unsent iovs))" using assms(4) by (simp add: iovs_def)
  have "ses_msg_send_buffs io (Inr n) scb = (NO_ERR, take n (concat (map unsent iovs)), clean_sent n (outQ scb) scb)"
    using ne assms(1) by (simp add: ses_msg_send_buffs_def iovs_def [symmetric] Let_def)
  moreover have "concat (map unsent (outQ (clean_sent n (outQ scb) scb))) = drop n (concat (map unsent iovs)) @ concat (map unsent rest)"
    unfolding clean_sent_unsent(1) using n by (simp add: q)
  ultimately show ?thesis using n by (simp add: q)
qed

text \<open>
  base:1.0 output.  Whatever number of bytes the socket takes in one write, what it was given followed
  by what is still queued is what was queued before: nothing is lost, repeated or reordered.
\<close>
theorem output_conserved:
  assumes "\<not> framing11 scb" "outQ scb \<noteq> []" "bufflen (hd (outQ scb)) \<le> SES_MAX_BYTESEND"
    and "n \<le> length (concat (map unsent (setup_send SES_MAX_BUFFSEND 0 (outQ scb))))"
  shows "case ses_msg_send_buffs io (Inr n) scb of
    (res, sent, scb') \<Rightarrow> res = NO_ERR \<and> length sent = n \<and>
      sent @ concat (map unsent (outQ scb')) = concat (map unsent (outQ scb))"
  by (rule output_conserved_step [OF assms])

definition queued :: "string \<Rightarrow> ses_msg_buff_t" where
  "queued str = cleared_buff\<lparr>bufflen := length str, buff := (\<lambda>i. str ! i)\<rparr>"

theorem output_conserved_witness:
  "case ses_msg_send_buffs (\<lambda>_. NO_ERR) (Inr 3) (idle_ses\<lparr>outQ := [queued ''ab'', queued ''cd'']\<rparr>) of
    (res, sent, scb') \<Rightarrow> sent @ concat (map unsent (outQ scb')) = concat (map unsent [queued ''ab'', queued ''cd''])"
proof -
  have b: "unsent (queued ''ab'') = ''ab''" "unsent (queued ''cd'') = ''cd''" "bufflen (queued ''ab'') = 2" "buffpos (queued ''ab'') = 0"
    "bufflen (queued ''cd'') = 2" "buffpos (queued ''cd'') = 0"
    by (simp_all add: queued_def unsent_def cleared_buff_def)
  have "setup_send SES_MAX_BUFFSEND 0 [queued ''ab'', queued ''cd''] = [queued ''ab'', queued ''cd'']"
    using setup_send.simps(3) [of 31 0 "queued ''ab''" "[queued ''cd'']"] setup_send.simps(3) [of 30 "Suc (Suc 0)" "queued ''cd''" "[]"] setup_send.simps(2) [of 29]
    by (simp add: SES_MAX_BUFFSEND_def SES_MAX_BYTESEND_def b)
  then show ?thesis
    using output_conserved [of "idle_ses\<lparr>outQ := [queued ''ab'', queued ''cd'']\<rparr>" 3 "\<lambda>_. NO_ERR"]
    by (simp add: idle_ses_def SES_MAX_BYTESEND_def b split: prod.splits)
qed

section \<open>Writing a message\<close>

text \<open>A session that writes to a socket through the queue, with an output buffer.\<close>

definition chan :: "ses_cb_t \<Rightarrow> bool \<times> bool \<times> bool \<times> ses_transport_t \<times> ses_type_t" where
  "chan scb = (has_fd scb, stream_output scb, framing11 scb, transport scb, ses_type scb)"

definition out_ses :: "ses_cb_t \<Rightarrow> ses_msg_buff_t \<Rightarrow> bool" where
  "out_ses scb b \<longleftrightarrow> has_fd scb \<and> \<not> stream_output scb \<and> outbuff scb = Some b \<and> out_buff (framing11 scb) b \<and> \<not> islast b"

text \<open>A buffer that waits for the next ones of its message.\<close>

definition waiting :: "bool \<Rightarrow> ses_msg_buff_t \<Rightarrow> bool" where
  "waiting f11 b \<longleftrightarrow> out_buff f11 b \<and> \<not> islast b \<and> buffpos b = 0 \<and> out_data b \<noteq> []"

definition cap :: "bool \<Rightarrow> nat" where "cap f11 = out_limit f11 - out_start f11"

lemma cap_pos: "0 < cap f11" using out_start_limit [of f11] by (simp add: cap_def)

text \<open>There is room for \<open>n\<close> more bytes: the buffers that they need can be allocated.\<close>

definition out_room :: "bool \<Rightarrow> ses_cb_t \<Rightarrow> nat \<Rightarrow> bool" where
  "out_room mem scb n \<longleftrightarrow> (\<exists>k. room mem scb k \<and> length (out_data (the (outbuff scb))) + n \<le> cap (framing11 scb) * (k + 1))"

lemma write_buff_ok:
  assumes "out_buff f11 b" "length (out_data b) < cap f11"
  shows "\<exists>b'. ses_msg_write_buff f11 ch b = (NO_ERR, b') \<and> out_buff f11 b' \<and> out_data b' = out_data b @ [ch] \<and>
           islast b' = islast b \<and> buffpos b' = buffpos b"
proof -
  have "bufflen b < out_limit f11" "buffstart b \<le> bufflen b" using assms by (auto simp: out_buff_def out_data_def cap_def)
  then show ?thesis using assms(1)
    by (intro exI [of _ "b\<lparr>buff := (buff b)(bufflen b := ch), bufflen := bufflen b + 1\<rparr>"])
      (auto simp: ses_msg_write_buff_def out_limit_def out_buff_def out_data_def)
qed

lemma write_buff_full:
  assumes "out_buff f11 b" "length (out_data b) \<ge> cap f11"
  shows "ses_msg_write_buff f11 ch b = (ERR_BUFF_OVFL, b)"
  using assms out_start_limit [of f11] by (auto simp: ses_msg_write_buff_def out_buff_def out_data_def cap_def out_limit_def)

lemma new_out_buff:
  assumes "room mem scb (Suc n)"
  obtains b scb' where "ses_msg_new_buff mem True scb = (NO_ERR, b, scb')" "out_buff (framing11 scb) b" "out_data b = []" "\<not> islast b"
    "room mem scb' n" "\<exists>c f q. scb' = scb\<lparr>buffcnt := c, freecnt := f, freeQ := q\<rparr>"
proof (cases "freecnt scb \<noteq> 0 \<and> freeQ scb \<noteq> []")
  case True
  then obtain b bs where q: "freeQ scb = b # bs" by (cases "freeQ scb") auto
  show thesis
  proof (rule that [of "ses_msg_init_buff (framing11 scb) True b" "scb\<lparr>freeQ := bs, freecnt := freecnt scb - 1\<rparr>"])
    show "\<exists>c f q. scb\<lparr>freeQ := bs, freecnt := freecnt scb - 1\<rparr> = scb\<lparr>buffcnt := c, freecnt := f, freeQ := q\<rparr>"
      by (intro exI [of _ "buffcnt scb"] exI [of _ "freecnt scb - 1"] exI [of _ bs]) simp
  qed (use True q assms out_start_limit [of "framing11 scb"] in
      \<open>auto simp: ses_msg_new_buff_def ses_msg_init_buff_def out_buff_def out_data_def out_start_def room_def Let_def\<close>)
next
  case False
  define s where "s = (if freecnt scb \<noteq> 0 then scb\<lparr>freecnt := 0\<rparr> else scb)"
  show thesis
  proof (rule that [of "ses_msg_init_buff (framing11 scb) True cleared_buff" "s\<lparr>buffcnt := buffcnt s + 1\<rparr>"])
    show "ses_msg_new_buff mem True scb = (NO_ERR, ses_msg_init_buff (framing11 scb) True cleared_buff, s\<lparr>buffcnt := buffcnt s + 1\<rparr>)"
      using False assms by (auto simp: ses_msg_new_buff_def malloc_buff_def s_def room_def split: list.splits)
    show "\<exists>c f q. s\<lparr>buffcnt := buffcnt s + 1\<rparr> = scb\<lparr>buffcnt := c, freecnt := f, freeQ := q\<rparr>"
      by (intro exI [of _ "buffcnt scb + 1"] exI [of _ 0] exI [of _ "freeQ scb"]) (simp add: s_def)
  qed (use assms out_start_limit [of "framing11 scb"] in
      \<open>auto simp: s_def ses_msg_init_buff_def out_buff_def out_data_def out_start_def room_def Let_def\<close>)
qed

lemma out_room_less:
  assumes "out_room mem scb (Suc n)" "length (out_data (the (outbuff scb))) \<ge> cap (framing11 scb)"
  obtains k where "room mem scb (Suc k)" "Suc n \<le> cap (framing11 scb) * (k + 1)"
proof -
  obtain k where k: "room mem scb k" "length (out_data (the (outbuff scb))) + Suc n \<le> cap (framing11 scb) * (k + 1)"
    using assms(1) by (auto simp: out_room_def)
  with assms(2) have "k \<noteq> 0" by (cases k) auto
  then obtain j where "k = Suc j" by (cases k) auto
  with k assms(2) show thesis by (intro that [of j]) auto
qed

lemma putchar_ok:
  assumes o: "out_ses scb b" and r: "out_room mem scb (Suc n)"
  shows "\<exists>s' b' qs. ses_putchar mem io ch scb = ([], s') \<and> out_ses s' b' \<and> outQ s' = outQ scb @ qs \<and> chan s' = chan scb \<and>
    (\<forall>q \<in> set qs. waiting (framing11 scb) q) \<and> concat (map out_data qs) @ out_data b' = out_data b @ [ch] \<and>
    out_data b' \<noteq> [] \<and> out_room mem s' n"
proof (cases "length (out_data b) < cap (framing11 scb)")
  case True
  then obtain b' where b': "ses_msg_write_buff (framing11 scb) ch b = (NO_ERR, b')" "out_buff (framing11 scb) b'"
    "out_data b' = out_data b @ [ch]" "islast b' = islast b"
    using write_buff_ok [of "framing11 scb" b ch] o by (auto simp: out_ses_def)
  let ?s = "scb\<lparr>outbuff := Some b', out_bytes := out_bytes scb + 1, out_line := (if ch = LF then 0 else out_line scb + 1)\<rparr>"
  have "ses_putchar mem io ch scb = ([], ?s)"
    using o b'(1) by (simp add: ses_putchar_def need_outbuff_def put_outbuff_def out_ses_def)
  moreover have "out_room mem ?s n" using r o b'(3) by (auto simp: out_room_def room_def out_ses_def)
  ultimately show ?thesis using o b' by (intro exI [of _ ?s] exI [of _ b'] exI [of _ "[]"]) (simp add: out_ses_def chan_def)
next
  case False
  then have full: "cap (framing11 scb) \<le> length (out_data b)" by simp
  have ob: "outbuff scb = Some b" using o by (simp add: out_ses_def)
  obtain k where k: "room mem scb (Suc k)" "Suc n \<le> cap (framing11 scb) * (k + 1)"
    by (rule out_room_less [OF r]) (use full ob in simp)
  define s1 where "s1 = ses_msg_make_outready (scb\<lparr>outQ := outQ scb @ [b\<lparr>buffpos := 0\<rparr>]\<rparr>)"
  have s1: "outQ s1 = outQ scb @ [b\<lparr>buffpos := 0\<rparr>]" "chan s1 = chan scb" "room mem s1 (Suc k)" "framing11 s1 = framing11 scb"
    using k(1) by (simp_all add: s1_def ses_msg_make_outready_def chan_def room_def)
  obtain nb s2 where nb: "ses_msg_new_buff mem True s1 = (NO_ERR, nb, s2)" "out_buff (framing11 s1) nb" "out_data nb = []" "\<not> islast nb"
    "room mem s2 k" "\<exists>c f q. s2 = s1\<lparr>buffcnt := c, freecnt := f, freeQ := q\<rparr>"
    by (rule new_out_buff [OF s1(3)])
  obtain b' where b': "ses_msg_write_buff (framing11 scb) ch nb = (NO_ERR, b')" "out_buff (framing11 scb) b'"
    "out_data b' = [ch]" "\<not> islast b'"
    using write_buff_ok [of "framing11 scb" nb ch] nb(2-4) s1(4) cap_pos [of "framing11 scb"] by auto
  have s2: "outQ s2 = outQ scb @ [b\<lparr>buffpos := 0\<rparr>]" "chan s2 = chan scb" "framing11 s2 = framing11 scb" "out_bytes s2 = out_bytes scb"
    "out_line s2 = out_line scb"
    using nb(6) s1 by (auto simp: chan_def) (auto simp: s1_def ses_msg_make_outready_def)
  let ?s = "s2\<lparr>outbuff := Some b', out_bytes := out_bytes scb + 1, out_line := (if ch = LF then 0 else out_line scb + 1)\<rparr>"
  have "ses_msg_new_output_buff mem io b scb = (NO_ERR, [], s2\<lparr>outbuff := Some nb\<rparr>)"
    using o nb(1) by (simp add: ses_msg_new_output_buff_def out_ses_def s1_def)
  moreover have "put_outbuff ch (need_outbuff mem scb) = (ERR_BUFF_OVFL, scb)"
    using o write_buff_full [OF _ full, of ch] by (simp add: need_outbuff_def put_outbuff_def out_ses_def)
  moreover have "put_outbuff ch (s2\<lparr>outbuff := Some nb\<rparr>) = (NO_ERR, s2\<lparr>outbuff := Some b'\<rparr>)"
    using b'(1) s2(3) by (simp add: put_outbuff_def)
  ultimately have "ses_putchar mem io ch scb = ([], ?s)"
    using o s2 by (simp add: ses_putchar_def out_ses_def)
  moreover have "waiting (framing11 scb) (b\<lparr>buffpos := 0\<rparr>)"
    using o full cap_pos [of "framing11 scb"] by (auto simp: waiting_def out_ses_def out_buff_def out_data_def)
  moreover have "out_ses ?s b'" using o b' s2(2,3) by (simp add: out_ses_def chan_def)
  moreover have "out_room mem ?s n" using nb(5) k(2) b'(3) s2(3) by (auto simp: out_room_def room_def intro!: exI [of _ k])
  ultimately show ?thesis using b'(3) s2
    by (intro exI [of _ ?s] exI [of _ b'] exI [of _ "[b\<lparr>buffpos := 0\<rparr>]"]) (simp add: out_data_def chan_def)
qed

lemma putstr_ok:
  assumes "out_ses scb b" "out_room mem scb (length str + n)"
  shows "\<exists>s' b' qs. ses_putstr mem io str scb = ([], s') \<and> out_ses s' b' \<and> outQ s' = outQ scb @ qs \<and> chan s' = chan scb \<and>
    (\<forall>q \<in> set qs. waiting (framing11 scb) q) \<and> concat (map out_data qs) @ out_data b' = out_data b @ str \<and>
    (str \<noteq> [] \<or> out_data b \<noteq> [] \<longrightarrow> out_data b' \<noteq> []) \<and> out_room mem s' n"
  using assms
proof (induction str arbitrary: scb b)
  case Nil
  then show ?case by (intro exI [of _ scb] exI [of _ b] exI [of _ "[]"]) simp
next
  case (Cons ch str)
  have "out_room mem scb (Suc (length str + n))" using Cons.prems(2) by simp
  from putchar_ok [OF Cons.prems(1) this] obtain s1 b1 q1 where 1: "ses_putchar mem io ch scb = ([], s1)" "out_ses s1 b1"
    "outQ s1 = outQ scb @ q1" "chan s1 = chan scb" "\<forall>q \<in> set q1. waiting (framing11 scb) q"
    "concat (map out_data q1) @ out_data b1 = out_data b @ [ch]" "out_data b1 \<noteq> []" "out_room mem s1 (length str + n)" by blast
  from Cons.IH [OF 1(2,8)] obtain s2 b2 q2 where 2: "ses_putstr mem io str s1 = ([], s2)" "out_ses s2 b2" "outQ s2 = outQ s1 @ q2"
    "chan s2 = chan s1" "\<forall>q \<in> set q2. waiting (framing11 s1) q" "concat (map out_data q2) @ out_data b2 = out_data b1 @ str"
    "str \<noteq> [] \<or> out_data b1 \<noteq> [] \<longrightarrow> out_data b2 \<noteq> []" "out_room mem s2 n" by blast
  have "framing11 s1 = framing11 scb" using 1(4) by (simp add: chan_def)
  moreover have "concat (map out_data (q1 @ q2)) @ out_data b2 = out_data b @ ch # str" using 1(6) 2(6) by simp
  moreover have "out_data b2 \<noteq> []" using 1(7) 2(7) by simp
  ultimately show ?case using 1 2 by (intro exI [of _ s2] exI [of _ b2] exI [of _ "q1 @ q2"]) auto
qed

text \<open>The end of a message puts its last buffer into the queue.\<close>

definition last_buff :: "bool \<Rightarrow> ses_msg_buff_t \<Rightarrow> bool" where
  "last_buff f11 b \<longleftrightarrow> out_buff f11 b \<and> islast b = f11 \<and> buffpos b = buffstart b \<and> out_data b \<noteq> []"

lemma make_outready_out [simp]:
  "outQ (ses_msg_make_outready scb) = outQ scb" "framing11 (ses_msg_make_outready scb) = framing11 scb"
  "outbuff (ses_msg_make_outready scb) = outbuff scb"
  by (simp_all add: ses_msg_make_outready_def)

lemma new_buff_out: "ses_msg_new_buff mem out scb = (res, b, s) \<Longrightarrow> outQ s = outQ scb \<and> framing11 s = framing11 scb"
  by (auto simp: ses_msg_new_buff_def malloc_buff_def split: if_splits list.splits)

lemma finish_outmsg_queue:
  assumes "\<not> stream_output scb"
  shows "\<exists>s'. ses_msg_finish_outmsg mem b scb = ([], s') \<and> outQ s' = outQ scb @ [b\<lparr>buffpos := buffstart b\<rparr>] \<and> framing11 s' = framing11 scb"
proof (cases "ses_msg_new_buff mem True (scb\<lparr>outQ := outQ scb @ [b\<lparr>buffpos := buffstart b\<rparr>]\<rparr>)")
  case (fields res nb s)
  with new_buff_out [OF fields] assms show ?thesis by (simp add: ses_msg_finish_outmsg_def Let_def)
qed

definition msg_ses :: "ses_cb_t \<Rightarrow> bool" where
  "msg_ses scb \<longleftrightarrow> transport scb \<in> {SES_TRANSPORT_SSH, SES_TRANSPORT_TCP} \<and> ses_type scb \<noteq> SES_TYP_DUMMY"

lemma finish_msg_ok:
  assumes o: "out_ses scb b" and m: "msg_ses scb" and d: "out_data b \<noteq> []" and r: "out_room mem scb NC_SSH_END_LEN"
  shows "\<exists>s' b' qs. ses_finish_msg mem io scb = Some ([], s') \<and> outQ s' = outQ scb @ qs @ [b'] \<and> framing11 s' = framing11 scb \<and>
    (\<forall>q \<in> set qs. waiting (framing11 scb) q) \<and> last_buff (framing11 scb) b' \<and>
    concat (map out_data qs) @ out_data b' = out_data b @ (if framing11 scb then [] else NC_SSH_END)"
proof (cases "framing11 scb")
  case True
  let ?b = "b\<lparr>islast := True\<rparr>" and ?s = "scb\<lparr>outbuff := Some (b\<lparr>islast := True\<rparr>)\<rparr>"
  obtain s' where s': "ses_msg_finish_outmsg mem ?b ?s = ([], s')" "outQ s' = outQ scb @ [?b\<lparr>buffpos := buffstart ?b\<rparr>]"
    "framing11 s' = framing11 scb"
    using finish_outmsg_queue [of ?s mem ?b] o by (auto simp: out_ses_def)
  have "ses_finish_msg mem io scb = Some ([], s')"
    using o m True s'(1) by (simp add: ses_finish_msg_def msg_ses_def out_ses_def)
  moreover have "last_buff True (?b\<lparr>buffpos := buffstart ?b\<rparr>)" "out_data (?b\<lparr>buffpos := buffstart ?b\<rparr>) = out_data b"
    using o True d by (simp_all add: last_buff_def out_ses_def out_buff_def out_data_def)
  ultimately show ?thesis using s' True
    by (intro exI [of _ s'] exI [of _ "?b\<lparr>buffpos := buffstart ?b\<rparr>"] exI [of _ "[]"]) simp
next
  case False
  have "out_room mem scb (length NC_SSH_END + 0)" using r by (simp add: NC_SSH_END_def NC_SSH_END_LEN_def numeral_eq_Suc)
  from putstr_ok [OF o this] obtain s1 b1 qs where 1: "ses_putstr mem io NC_SSH_END scb = ([], s1)" "out_ses s1 b1" "outQ s1 = outQ scb @ qs"
    "chan s1 = chan scb" "\<forall>q \<in> set qs. waiting (framing11 scb) q" "concat (map out_data qs) @ out_data b1 = out_data b @ NC_SSH_END"
    "out_data b1 \<noteq> []" using d by blast
  have c: "transport s1 = transport scb" "ses_type s1 = ses_type scb" "framing11 s1 = framing11 scb" "has_fd s1"
    using 1(2,4) by (simp_all add: chan_def out_ses_def)
  obtain s' where s': "ses_msg_finish_outmsg mem b1 s1 = ([], s')" "outQ s' = outQ s1 @ [b1\<lparr>buffpos := buffstart b1\<rparr>]"
    "framing11 s' = framing11 s1"
    using finish_outmsg_queue [of s1 mem b1] 1(2) by (auto simp: out_ses_def)
  have "ses_finish_msg mem io scb = Some ([], s')"
    using m False s'(1) 1(1,2) c by (simp add: ses_finish_msg_def msg_ses_def out_ses_def)
  moreover have "last_buff False (b1\<lparr>buffpos := buffstart b1\<rparr>)" "out_data (b1\<lparr>buffpos := buffstart b1\<rparr>) = out_data b1"
    using 1(2,7) c(3) False by (simp_all add: last_buff_def out_ses_def out_buff_def out_data_def)
  ultimately show ?thesis using s' 1 c False
    by (intro exI [of _ s'] exI [of _ "b1\<lparr>buffpos := buffstart b1\<rparr>"] exI [of _ qs]) simp
qed

section \<open>The queue empties\<close>

text \<open>
  The server sends again as long as there is something in the queue.  \<open>w\<close> says for each turn how much the socket takes of
  what it is offered: at least a byte.
\<close>

definition offered :: "ses_cb_t \<Rightarrow> nat" where
  "offered scb = length (concat (map unsent (setup_send SES_MAX_BUFFSEND 0 (outQ scb))))"

fun drain :: "(nat \<Rightarrow> nat) \<Rightarrow> nat \<Rightarrow> ses_cb_t \<Rightarrow> string \<times> ses_cb_t" where
  "drain w 0 scb = ([], scb)"
| "drain w (Suc n) scb =
     (if outQ scb = [] then ([], scb)
      else case ses_msg_send_buffs (\<lambda>_. NO_ERR) (Inr (min (offered scb) (Suc (w n)))) scb of
             (res, sent, scb) \<Rightarrow> (case drain w n scb of (sent', scb) \<Rightarrow> (sent @ sent', scb)))"

definition sendable :: "ses_msg_buff_t \<Rightarrow> bool" where
  "sendable b \<longleftrightarrow> buffpos b < bufflen b \<and> bufflen b \<le> SES_MAX_BYTESEND"

definition wire :: "bool \<Rightarrow> ses_msg_buff_t \<Rightarrow> string" where
  "wire f11 b = (if f11 then fst (do_send_buff True b) else unsent b)"

lemma clean_sent_sendable: "\<forall>b \<in> set bs. sendable b \<Longrightarrow> \<forall>b \<in> set (outQ (clean_sent n bs scb)). sendable b"
  by (induction n bs scb rule: clean_sent.induct) (auto simp: sendable_def)

lemma unsent_sendable: "sendable b \<Longrightarrow> unsent b \<noteq> []" by (simp add: sendable_def unsent_def)

lemma drain_all:
  assumes "\<forall>b \<in> set (outQ scb). sendable b" "length (concat (map unsent (outQ scb))) \<le> n"
  shows "fst (drain w n scb) = concat (map (wire (framing11 scb)) (outQ scb)) \<and> outQ (snd (drain w n scb)) = []"
  using assms
proof (induction n arbitrary: scb)
  case 0
  then have "outQ scb = []" using unsent_sendable by (cases "outQ scb") auto
  then show ?case by simp
next
  case (Suc n)
  show ?case
  proof (cases "outQ scb = []")
    case False
    define iovs where "iovs = setup_send SES_MAX_BUFFSEND 0 (outQ scb)"
    have hd: "bufflen (hd (outQ scb)) \<le> SES_MAX_BYTESEND" using Suc.prems(1) False by (simp add: sendable_def)
    have ne: "iovs \<noteq> []" unfolding iovs_def by (rule setup_send_first [OF False hd])
    have "iovs = take (length iovs) (outQ scb)" unfolding iovs_def by (rule setup_send_prefix)
    then obtain rest where q: "outQ scb = iovs @ rest" by (metis append_take_drop_id)
    let ?t = "min (offered scb) (Suc (w n))"
    have offered: "offered scb = length (concat (map unsent iovs))" by (simp add: offered_def iovs_def)
    obtain b bs where "iovs = b # bs" using ne by (cases iovs) auto
    moreover from this have "sendable b" using q Suc.prems(1) by simp
    ultimately have off: "offered scb \<noteq> 0" using unsent_sendable by (simp add: offered)
    obtain res sent s where s: "ses_msg_send_buffs (\<lambda>_. NO_ERR) (Inr ?t) scb = (res, sent, s)" by (metis prod_cases3)
    have "fst (drain w n s) = concat (map (wire (framing11 s)) (outQ s)) \<and> outQ (snd (drain w n s)) = [] \<and>
      sent @ concat (map (wire (framing11 s)) (outQ s)) = concat (map (wire (framing11 scb)) (outQ scb))"
    proof (cases "framing11 scb")
      case True
      have "send_chunks (\<lambda>_. NO_ERR) 0 (length iovs) scb = (res, sent, s)"
        using s ne True by (simp add: ses_msg_send_buffs_def iovs_def [symmetric])
      then have s2: "sent = concat (map (\<lambda>b. fst (do_send_buff True b)) iovs)" "outQ s = rest" "framing11 s"
        using send_chunks_all [of "length iovs" scb 0] q True by auto
      have "length (concat (map unsent (outQ scb))) = offered scb + length (concat (map unsent rest))" by (simp add: q offered)
      then have "length (concat (map unsent rest)) \<le> n" using Suc.prems(2) off by linarith
      moreover have "wire True = (\<lambda>b. fst (do_send_buff True b))" by (simp add: wire_def fun_eq_iff)
      ultimately show ?thesis using Suc.IH [of s] Suc.prems(1) s2 True q by simp
    next
      case False: False
      have t: "?t \<le> length (concat (map unsent (setup_send SES_MAX_BUFFSEND 0 (outQ scb))))" by (simp add: offered_def)
      have c: "length sent = ?t" "sent @ concat (map unsent (outQ s)) = concat (map unsent (outQ scb))"
        using output_conserved_step [OF False \<open>outQ scb \<noteq> []\<close> hd t, of "\<lambda>_. NO_ERR"] s by simp_all
      have s2: "s = clean_sent ?t (outQ scb) scb" using s ne False by (simp add: ses_msg_send_buffs_def iovs_def [symmetric])
      have "length (concat (map unsent (outQ scb))) = ?t + length (concat (map unsent (outQ s)))" by (metis c length_append)
      then have "length (concat (map unsent (outQ s))) \<le> n" using Suc.prems(2) off by simp
      moreover have "\<forall>b \<in> set (outQ s). sendable b" unfolding s2 by (rule clean_sent_sendable [OF Suc.prems(1)])
      moreover have "framing11 s = False" unfolding s2 clean_sent_unsent(2) using False by simp
      moreover have "wire False = unsent" by (simp add: wire_def fun_eq_iff)
      ultimately show ?thesis using Suc.IH [of s] c(2) False by simp
    qed
    then show ?thesis using False s by (auto split: prod.splits)
  qed simp
qed



section \<open>From one session to another\<close>

lemma waiting_sendable: "waiting f11 b \<Longrightarrow> sendable b"
  by (auto simp: waiting_def sendable_def out_buff_def out_data_def out_limit_def SES_MSG_BUFFSIZE_def SES_ENDCHUNK_PAD_def
      SES_MAX_BYTESEND_def split: if_splits)

lemma last_buff_sendable: "last_buff f11 b \<Longrightarrow> sendable b"
  by (auto simp: last_buff_def sendable_def out_buff_def out_data_def out_limit_def SES_MSG_BUFFSIZE_def SES_ENDCHUNK_PAD_def
      SES_MAX_BYTESEND_def split: if_splits)

lemma out_data_length: "out_buff f11 b \<Longrightarrow> length (out_data b) < 2 ^ 32"
  by (auto simp: out_data_def out_buff_def out_limit_def SES_MSG_BUFFSIZE_def SES_ENDCHUNK_PAD_def split: if_splits)

lemma wire_chunked:
  assumes "\<forall>q \<in> set qs. waiting True q" "last_buff True b"
  shows "concat (map (wire True) (qs @ [b])) = chunked (map out_data (qs @ [b]))"
proof -
  have "concat (map (wire True) qs) = concat (map (\<lambda>q. chunk (out_data q)) qs)"
    using assms(1) do_send_chunk by (intro arg_cong [of _ _ concat] map_cong) (auto simp: wire_def waiting_def)
  moreover have "wire True b = chunk (out_data b) @ NC_SSH_END_CHUNKS" using assms(2) do_send_chunk by (simp add: wire_def last_buff_def)
  ultimately show ?thesis unfolding map_append chunked_def by (simp add: comp_def)
qed

lemma wire_plain:
  assumes "\<forall>q \<in> set qs. waiting False q" "last_buff False b"
  shows "concat (map (wire False) (qs @ [b])) = concat (map out_data (qs @ [b]))"
proof -
  have "concat (map (wire False) qs) = concat (map out_data qs)"
    using assms(1) by (intro arg_cong [of _ _ concat] map_cong) (auto simp: wire_def waiting_def unsent_def out_data_def out_buff_def out_start_def)
  moreover have "wire False b = out_data b" using assms(2) by (simp add: wire_def last_buff_def unsent_def out_data_def out_buff_def out_start_def)
  ultimately show ?thesis unfolding map_append by simp
qed

text \<open>What is in the queue after a message has been written: its bytes, divided.\<close>

lemma message_queued:
  assumes o: "out_ses scb b" "out_data b = []" "outQ scb = []" and m: "msg_ses scb"
    and r: "out_room mem scb (length str + NC_SSH_END_LEN)" and ne: "str \<noteq> []"
  obtains s1 s2 qs b' where "ses_putstr mem io str scb = ([], s1)" "ses_finish_msg mem io s1 = Some ([], s2)"
    "outQ s2 = qs @ [b']" "framing11 s2 = framing11 scb" "\<forall>q \<in> set qs. waiting (framing11 scb) q" "last_buff (framing11 scb) b'"
    "concat (map out_data (qs @ [b'])) = str @ (if framing11 scb then [] else NC_SSH_END)"
proof -
  from putstr_ok [OF o(1) r] obtain s1 b1 q1 where 1: "ses_putstr mem io str scb = ([], s1)" "out_ses s1 b1"
    "outQ s1 = outQ scb @ q1" "chan s1 = chan scb" "\<forall>q \<in> set q1. waiting (framing11 scb) q"
    "concat (map out_data q1) @ out_data b1 = out_data b @ str" "out_data b1 \<noteq> []" "out_room mem s1 NC_SSH_END_LEN"
    using ne by blast
  have c: "framing11 s1 = framing11 scb" "msg_ses s1" using 1(4) m by (simp_all add: chan_def msg_ses_def)
  from finish_msg_ok [OF 1(2) c(2) 1(7,8)] obtain s2 b' q2 where 2: "ses_finish_msg mem io s1 = Some ([], s2)"
    "outQ s2 = outQ s1 @ q2 @ [b']" "framing11 s2 = framing11 s1" "\<forall>q \<in> set q2. waiting (framing11 s1) q" "last_buff (framing11 s1) b'"
    "concat (map out_data q2) @ out_data b' = out_data b1 @ (if framing11 s1 then [] else NC_SSH_END)" by blast
  have "concat (map out_data q1) @ out_data b1 @ (if framing11 s1 then [] else NC_SSH_END) = str @ (if framing11 s1 then [] else NC_SSH_END)"
    using 1(6) o(2) by simp
  then have "concat (map out_data ((q1 @ q2) @ [b'])) = str @ (if framing11 scb then [] else NC_SSH_END)" using 2(6) c(1) by simp
  then show thesis using 1 2 c o(3) by (intro that [of s1 s2 "q1 @ q2" b']) auto
qed

lemma queue_drained:
  assumes "outQ s = qs @ [b]" "\<forall>q \<in> set qs. waiting f11 q" "last_buff f11 b" "framing11 s = f11" "length (concat (map unsent (outQ s))) \<le> n"
  shows "fst (drain w n s) = concat (map (wire f11) (qs @ [b]))"
proof -
  have "\<forall>b \<in> set (outQ s). sendable b" using assms(1-3) waiting_sendable last_buff_sendable by auto
  from drain_all [OF this assms(5)] assms(1,4) show ?thesis by simp
qed

lemma chunked_no_nul: "NUL \<notin> set (concat ds) \<Longrightarrow> NUL \<notin> set (chunked ds)"
proof -
  assume a: "NUL \<notin> set (concat ds)"
  have "NUL \<notin> set (nat_string n)" for n
    using nat_string_digits [of n] by (auto simp: list_all_iff isdigit_def)
  with a show ?thesis by (auto simp: chunked_def chunk_def NC_SSH_END_CHUNKS_def)
qed

lemma out_data_bound: "out_buff f11 b \<Longrightarrow> length (out_data b) \<le> 2000"
  by (auto simp: out_data_def out_buff_def out_limit_def SES_MSG_BUFFSIZE_def SES_ENDCHUNK_PAD_def split: if_splits)

lemma chunked_length: "\<forall>d \<in> set ds. d \<noteq> [] \<and> length d \<le> 2000 \<Longrightarrow> length (chunked ds) \<le> 8 * length (concat ds) + 4"
proof (induction ds)
  case Nil
  then show ?case by (simp add: chunked_def NC_SSH_END_CHUNKS_def)
next
  case (Cons d ds)
  then have d: "1 \<le> length d" "length d \<le> 2000" by (auto simp: Suc_le_eq)
  then have "length (nat_string (length d)) \<le> 4" using nat_string_length [of "length d" 3] by simp
  then have "length (chunk d) \<le> 8 * length d" using d(1) by (simp add: chunk_def)
  with Cons show ?case by (simp add: chunked_def)
qed


definition out_idle :: "bool \<Rightarrow> ses_cb_t" where
  "out_idle f11 = idle_ses\<lparr>framing11 := f11, outbuff := Some (ses_msg_init_buff f11 True cleared_buff), buffcnt := 1\<rparr>"

lemma out_idle_ses:
  "out_ses (out_idle f11) (ses_msg_init_buff f11 True cleared_buff)" "out_data (ses_msg_init_buff f11 True cleared_buff) = []"
  "outQ (out_idle f11) = []" "msg_ses (out_idle f11)" "framing11 (out_idle f11) = f11"
  using out_start_limit [of f11]
  by (simp_all add: out_ses_def out_idle_def idle_ses_def ses_msg_init_buff_def cleared_buff_def out_buff_def out_start_def out_data_def
      msg_ses_def Let_def)

lemma out_idle_room: "n \<le> 1000 \<Longrightarrow> out_room True (out_idle f11) n"
  unfolding out_room_def
  by (rule exI [of _ 0])
    (simp add: room_def out_idle_def idle_ses_def SES_MAX_BUFFERS_def ses_msg_init_buff_def cleared_buff_def out_data_def cap_def
      out_limit_def out_start_def SES_MSG_BUFFSIZE_def SES_ENDCHUNK_PAD_def SES_STARTCHUNK_PAD_def Let_def)


text \<open>
  base:1.0 from end to end, for messages in which nothing looks like a part of the end marker.
\<close>
theorem message_delivered_base10:
  assumes "out_ses scb b" "out_data b = []" "outQ scb = []" "msg_ses scb" "\<not> framing11 scb"
    and "out_room mem scb (length str + NC_SSH_END_LEN)" "plain10 str"
    and r: "rel10 null r (0, [], msgs)" "room mem' r (length str + 7)" "ses_protocol r = NCX_PROTO_NETCONF10"
  shows "\<exists>s1 s2. ses_putstr mem io str scb = ([], s1) \<and> ses_finish_msg mem io s1 = Some ([], s2) \<and>
    (\<forall>w n. length (concat (map unsent (outQ s2))) \<le> n \<longrightarrow>
      (\<exists>r' null'. accept_buffer_ssh_v10 mem' p11 (fst (drain w n s2)) r = Some (NO_ERR, r') \<and> rel10 null' r' (0, [], msgs @ [str])))"
proof -
  have ne: "str \<noteq> []" using assms(7) by (simp add: plain10_def)
  obtain s1 s2 qs b' where s: "ses_putstr mem io str scb = ([], s1)" "ses_finish_msg mem io s1 = Some ([], s2)"
    "outQ s2 = qs @ [b']" "framing11 s2 = framing11 scb" "\<forall>q \<in> set qs. waiting (framing11 scb) q" "last_buff (framing11 scb) b'"
    "concat (map out_data (qs @ [b'])) = str @ (if framing11 scb then [] else NC_SSH_END)"
    by (rule message_queued [OF assms(1-4,6) ne])
  have q: "\<forall>q \<in> set qs. waiting False q" "last_buff False b'" "framing11 s2 = False" "concat (map out_data (qs @ [b'])) = str @ NC_SSH_END"
    using s(4-7) assms(5) by simp_all
  have bytes: "fst (drain w n s2) = str @ NC_SSH_END" if "length (concat (map unsent (outQ s2))) \<le> n" for w n
    using queue_drained [OF s(3) q(1-3) that] wire_plain [OF q(1,2)] q(4) by simp
  have "room mem' r (length (str @ NC_SSH_END) + 1)" by (rule room_mono [OF r(2)]) (simp add: NC_SSH_END_def)
  moreover have "\<not> (ses_protocol r = NCX_PROTO_NONE \<and> p11)" using r(3) by simp
  ultimately have recv: "\<exists>r' null'. accept_buffer_ssh_v10 mem' p11 (fst (drain w n s2)) r = Some (NO_ERR, r') \<and> rel10 null' r' (0, [], msgs @ [str])"
    if n: "length (concat (map unsent (outQ s2))) \<le> n" for w n
    using accept_v10_refines [OF r(1), of mem' "str @ NC_SSH_END" p11] unfolding bytes [OF n] run10_message [OF assms(7)] option.case by blast
  show ?thesis using s(1,2) recv by blast
qed

theorem message_delivered_base10_witness:
  "\<exists>s1 s2. ses_putstr True NO_ERR ''<ok/>'' (out_idle False) = ([], s1) \<and> ses_finish_msg True NO_ERR s1 = Some ([], s2) \<and>
    (\<exists>r' null'. accept_buffer_ssh_v10 True True (fst (drain (\<lambda>_. 0) (length (concat (map unsent (outQ s2)))) s2)) idle_ses = Some (NO_ERR, r') \<and>
       rel10 null' r' (0, [], [''<ok/>'']))"
  using message_delivered_base10 [OF out_idle_ses(1-4) _ out_idle_room _ idle_ses_start10 _ idle_ses_protocol, of False "''<ok/>''" True NO_ERR]
  by (fastforce simp: out_idle_ses(5) NC_SSH_END_LEN_def plain10_def idle_ses_room)

end
