(* ===== verification/Ses_Wf_Props.thy ===== *)
theory Ses_Wf_Props
  imports Ses
begin

text \<open>
  The buffers of a session are accounted for: every operation keeps the counters equal to what is in the queues, so that
  the limit on the number of buffers means something and the end of a session gives all of them back.
\<close>

section \<open>Well-formed sessions\<close>

definition nbuffs :: "ses_msg_t list \<Rightarrow> nat" where
  "nbuffs ms = sum_list (map (\<lambda>m. length (buffQ m)) ms)"

text \<open>\<open>k\<close> buffers are in nobody's queue.\<close>

definition held :: "nat \<Rightarrow> ses_cb_t \<Rightarrow> bool" where
  "held k scb \<longleftrightarrow> freecnt scb = length (freeQ scb) \<and> freecnt scb \<le> SES_MAX_FREE_BUFFERS \<and> buffcnt scb < SES_MAX_BUFFERS \<and>
     buffcnt scb = k + length (freeQ scb) + nbuffs (msgQ scb) + length (outQ scb) + (if outbuff scb = None then 0 else 1)"

definition wf_ses :: "ses_cb_t \<Rightarrow> bool" where "wf_ses scb \<longleftrightarrow> held 0 scb"

definition has_buff :: "ses_cb_t \<Rightarrow> bool" where
  "has_buff scb \<longleftrightarrow> msgQ scb \<noteq> [] \<and> buffQ (cur_msg scb) \<noteq> []"

lemma nbuffs_simps [simp]: "nbuffs [] = 0" "nbuffs (m # ms) = length (buffQ m) + nbuffs ms" "nbuffs (ms @ ms') = nbuffs ms + nbuffs ms'"
  by (simp_all add: nbuffs_def)

lemma nbuffs_upd_last:
  "xs \<noteq> [] \<Longrightarrow> nbuffs (upd_last f xs) + length (buffQ (last xs)) = nbuffs xs + length (buffQ (f (last xs)))"
  by (cases xs rule: rev_cases) (simp_all add: upd_last_def)

lemma length_upd_last [simp]: "length (upd_last f xs) = length xs" by (simp add: upd_last_def)

lemma upd_last_Nil [simp]: "upd_last f xs = [] \<longleftrightarrow> xs = []" by (simp add: upd_last_def)

lemma last_upd_last [simp]: "xs \<noteq> [] \<Longrightarrow> last (upd_last f xs) = f (last xs)" by (simp add: upd_last_def)

lemma held_fields [simp]:
  "held k (scb\<lparr>instate := i\<rparr>) = held k scb" "held k (scb\<lparr>inendpos := p\<rparr>) = held k scb" "held k (scb\<lparr>startchunk := c\<rparr>) = held k scb"
  "held k (scb\<lparr>indefer_len := n\<rparr>) = held k scb" "held k (scb\<lparr>readbuff := r\<rparr>) = held k scb" "held k (scb\<lparr>msg_freecnt := n\<rparr>) = held k scb"
  "held k (scb\<lparr>in_bytes := w\<rparr>) = held k scb" "held k (scb\<lparr>out_bytes := w\<rparr>) = held k scb" "held k (scb\<lparr>out_line := w\<rparr>) = held k scb"
  "held k (scb\<lparr>ses_protocol := pr\<rparr>) = held k scb" "held k (scb\<lparr>framing11 := t\<rparr>) = held k scb"
  "held k (ses_msg_make_inready scb) = held k scb" "held k (ses_msg_make_outready scb) = held k scb"
  by (simp_all add: held_def ses_msg_make_inready_def ses_msg_make_outready_def)

lemma has_buff_fields [simp]:
  "has_buff (scb\<lparr>instate := i\<rparr>) = has_buff scb" "has_buff (scb\<lparr>inendpos := p\<rparr>) = has_buff scb" "has_buff (scb\<lparr>startchunk := c\<rparr>) = has_buff scb"
  "has_buff (ses_msg_make_inready scb) = has_buff scb"
  by (simp_all add: has_buff_def ses_msg_make_inready_def)

lemma held_upd_msg_same: "(\<And>m. buffQ (f m) = buffQ m) \<Longrightarrow> held k (upd_msg f scb) = held k scb"
  using nbuffs_upd_last [of "msgQ scb" f] by (cases "msgQ scb = []") (simp_all add: held_def upd_msg_def upd_last_def)

lemma has_buff_upd_msg_same: "(\<And>m. buffQ (f m) = buffQ m) \<Longrightarrow> has_buff (upd_msg f scb) = has_buff scb"
  by (auto simp: has_buff_def upd_msg_def)

lemma held_upd_buff [simp]: "held k (upd_buff g scb) = held k scb"
proof (cases "msgQ scb = []")
  case True
  then show ?thesis by (simp add: held_def upd_buff_def upd_msg_def upd_last_def)
next
  case False
  then show ?thesis
    using nbuffs_upd_last [OF False, of "\<lambda>m. m\<lparr>buffQ := upd_last g (buffQ m)\<rparr>"] by (simp add: held_def upd_buff_def upd_msg_def)
qed

lemma has_buff_upd_buff [simp]: "has_buff (upd_buff g scb) = has_buff scb"
  by (auto simp: has_buff_def upd_buff_def upd_msg_def)

section \<open>Buffers and messages\<close>

lemma new_buff_held:
  assumes "ses_msg_new_buff mem out scb = (res, b, scb')" "held k scb"
  shows "held (if res = NO_ERR then Suc k else k) scb'" "msgQ scb' = msgQ scb" "outQ scb' = outQ scb" "outbuff scb' = outbuff scb"
  using assms by (auto simp: ses_msg_new_buff_def malloc_buff_def held_def SES_MAX_BUFFERS_def split: if_splits list.splits)

lemma free_buff_held: "held (Suc k) scb \<Longrightarrow> held k (ses_msg_free_buff b scb)"
  by (auto simp: ses_msg_free_buff_def held_def)

lemma free_buff_queues [simp]:
  "msgQ (ses_msg_free_buff b scb) = msgQ scb" "outQ (ses_msg_free_buff b scb) = outQ scb" "outbuff (ses_msg_free_buff b scb) = outbuff scb"
  by (simp_all add: ses_msg_free_buff_def)

lemma free_buff_commute:
  "ses_msg_free_buff b (s\<lparr>outQ := q\<rparr>) = (ses_msg_free_buff b s)\<lparr>outQ := q\<rparr>"
  "ses_msg_free_buff b (s\<lparr>outbuff := x\<rparr>) = (ses_msg_free_buff b s)\<lparr>outbuff := x\<rparr>"
  by (simp_all add: ses_msg_free_buff_def SES_KILLREQ_SET_def)

lemma free_buffs_held:
  "held (length bs + k) scb \<Longrightarrow> held k (fold ses_msg_free_buff bs scb) \<and> msgQ (fold ses_msg_free_buff bs scb) = msgQ scb"
proof (induction bs arbitrary: scb)
  case (Cons b bs)
  then have "held (length bs + k) (ses_msg_free_buff b scb)" by (intro free_buff_held) simp
  from Cons.IH [OF this] show ?case by simp
qed simp

lemma free_msg_held: "held (length (buffQ m) + k) scb \<Longrightarrow> held k (ses_msg_free_msg m scb)"
  using free_buffs_held [of "buffQ m" k scb] by (simp add: ses_msg_free_msg_def Let_def)

lemma add_msg_held:
  assumes "add_msg mem scb = (res, scb')" "held k scb"
  shows "held k scb'" "res = NO_ERR \<Longrightarrow> msgQ scb' \<noteq> []"
  using assms by (auto simp: add_msg_def ses_msg_new_msg_def new_msg_def held_def split: if_splits)

lemma add_buff_held:
  assumes "add_buff mem scb = (res, scb')" "held k scb" "msgQ scb \<noteq> []"
  shows "held k scb' \<and> (res = NO_ERR \<longrightarrow> has_buff scb')"
proof (cases "ses_msg_new_buff mem False scb")
  case (fields r b s)
  note n = new_buff_held [OF fields assms(2)]
  show ?thesis
  proof (cases "r = NO_ERR")
    case True
    have "held k (upd_msg (\<lambda>m. m\<lparr>buffQ := buffQ m @ [b]\<rparr>) s)"
      using n True assms(3) nbuffs_upd_last [of "msgQ s" "\<lambda>m. m\<lparr>buffQ := buffQ m @ [b]\<rparr>"]
      by (auto simp: held_def upd_msg_def)
    moreover have "has_buff (upd_msg (\<lambda>m. m\<lparr>buffQ := buffQ m @ [b]\<rparr>) s)" using n(2) assms(3) by (simp add: has_buff_def upd_msg_def)
    ultimately show ?thesis using assms(1) fields True by (auto simp: add_buff_def)
  next
    case False
    then show ?thesis using assms(1) fields n(1) by (auto simp: add_buff_def)
  qed
qed

lemma remove_last_held: "held k scb \<Longrightarrow> has_buff scb \<Longrightarrow> held (Suc k) (upd_msg (\<lambda>m. m\<lparr>buffQ := butlast (buffQ m)\<rparr>) scb)"
  using nbuffs_upd_last [of "msgQ scb" "\<lambda>m. m\<lparr>buffQ := butlast (buffQ m)\<rparr>"]
  by (cases "buffQ (cur_msg scb)" rule: rev_cases) (auto simp: held_def has_buff_def upd_msg_def)

lemma start_msg_held:
  assumes "start_msg mem scb = (res, scb')" "held k scb"
  shows "held k scb' \<and> (res = NO_ERR \<longrightarrow> has_buff scb')"
proof -
  obtain r s where s: "(if msgQ scb = [] \<or> msg_ready (cur_msg scb) then add_msg mem scb else (NO_ERR, scb)) = (r, s)" by fastforce
  then have h: "held k s" "r = NO_ERR \<Longrightarrow> msgQ s \<noteq> []" using add_msg_held assms(2) by (auto split: if_splits)
  show ?thesis
  proof (cases "r = NO_ERR")
    case False
    then show ?thesis using assms(1) s h(1) by (auto simp: start_msg_def split: prod.splits)
  next
    case True
    then show ?thesis
      using assms(1) s h add_buff_held [of mem s res scb' k] by (auto simp: start_msg_def has_buff_def split: if_splits)
  qed
qed

lemma next_buff_held:
  assumes "next_buff mem nobuff scb = (res, scb')" "held k scb" "msgQ scb \<noteq> []" "nobuff \<or> has_buff scb"
  shows "held k scb' \<and> (res = NO_ERR \<longrightarrow> has_buff scb')"
proof -
  have "msgQ (upd_buff close_full scb) \<noteq> []" using assms(3) by (simp add: upd_buff_def upd_msg_def)
  then show ?thesis
    using assms add_buff_held [of mem scb res scb' k] add_buff_held [of mem "upd_buff close_full scb" res scb' k]
    by (auto simp: next_buff_def split: if_splits)
qed

section \<open>Input\<close>

lemma match_v10_held:
  assumes "match_v10 ch scb = Some (scb', fin)" "held k scb" "has_buff scb"
  shows "held k scb' \<and> has_buff scb'"
  using assms by (auto simp: match_v10_def split: ses_instate_t.splits if_splits)

lemma end_msg_v10_held:
  assumes "end_msg_v10 scb = Some scb'" "held k scb" "has_buff scb"
  shows "held k scb'"
proof -
  obtain s where c: "cut_marker scb = Some s"
    and e: "scb' = (ses_msg_make_inready (upd_msg (\<lambda>m. m\<lparr>curbuff := None, msg_ready := True\<rparr>)
                      (upd_buff (\<lambda>b. b\<lparr>buffpos := 0, islast := True\<rparr>) s)))\<lparr>instate := SES_INST_IDLE, inendpos := 0\<rparr>"
    using assms(1) by (auto simp: end_msg_v10_def)
  have "held k s"
  proof (cases "buffpos (cur_buff scb) > NC_SSH_END_LEN")
    case True
    then show ?thesis using c assms(2) by (auto simp: cut_marker_def Let_def)
  next
    case False
    then show ?thesis
      using c free_buff_held [OF remove_last_held [OF assms(2,3)]] by (auto simp: cut_marker_def Let_def split: if_splits)
  qed
  then show ?thesis unfolding e by (simp add: held_upd_msg_same)
qed

lemma v10_loop_held:
  assumes "v10_loop mem p11 input null null scb = Some (res, scb')" "held k scb" "null \<or> has_buff scb"
  shows "held k scb'"
  using assms
proof (induction input arbitrary: null scb)
  case (Cons ch rest)
  obtain r1 s1 where s1: "(if null then add_msg mem scb else (NO_ERR, scb)) = (r1, s1)" by fastforce
  then have h1: "held k s1" "r1 = NO_ERR \<Longrightarrow> msgQ s1 \<noteq> [] \<and> (null \<or> has_buff s1)"
    using add_msg_held Cons.prems(2,3) by (auto simp: has_buff_def split: if_splits)
  show ?case
  proof (cases "r1 = NO_ERR")
    case False
    then show ?thesis using Cons.prems(1) s1 h1(1) by auto
  next
    case True
    obtain r2 s2 where s2: "next_buff mem null s1 = (r2, s2)" by fastforce
    then have h2: "held k s2" "r2 = NO_ERR \<Longrightarrow> has_buff s2" using next_buff_held [OF s2 h1(1)] h1(2) True by auto
    show ?thesis
    proof (cases "r2 = NO_ERR")
      case False
      then show ?thesis using Cons.prems(1) s1 s2 True h2(1) by auto
    next
      case r2: True
      define s3 where "s3 = upd_buff (put_char ch) s2"
      have h3: "held k s3" "has_buff s3" using h2 r2 by (simp_all add: s3_def)
      have L: "v10_loop mem p11 (ch # rest) null null scb =
        (case match_v10 ch s3 of
           None \<Rightarrow> Some (ERR_INTERNAL_VAL, s3)
         | Some (scb, False) \<Rightarrow> v10_loop mem p11 rest False False scb
         | Some (scb, True) \<Rightarrow>
             (case end_msg_v10 scb of
                None \<Rightarrow> None
              | Some scb \<Rightarrow>
                  (if ses_protocol scb = NCX_PROTO_NONE \<and> p11
                   then if length (msgQ scb) \<noteq> 1 then None
                        else Some (NO_ERR, scb\<lparr>indefer_len := length rest, readbuff := rest\<rparr>)
                   else v10_loop mem p11 rest True True scb)))"
        unfolding s3_def using s1 s2 True r2 by simp
      show ?thesis
      proof (cases "match_v10 ch s3")
        case None
        then show ?thesis using Cons.prems(1) h3 unfolding L by simp
      next
        case (Some p)
        obtain s4 fin where p: "p = (s4, fin)" by fastforce
        have h4: "held k s4" "has_buff s4" using match_v10_held [OF Some [unfolded p] h3] by auto
        show ?thesis
        proof (cases fin)
          case False
          then show ?thesis using Cons.IH [of False s4] Cons.prems(1) h4 Some p unfolding L by simp
        next
          case fin: True
          then obtain s5 where s5: "end_msg_v10 s4 = Some s5" using Cons.prems(1) Some p unfolding L by (auto split: option.splits)
          have h5: "held k s5" by (rule end_msg_v10_held [OF s5 h4])
          show ?thesis using Cons.IH [of True s5] Cons.prems(1) h5 Some p fin s5 unfolding L by (auto split: if_splits)
        qed
      qed
    qed
  qed
qed simp

lemma copy_rest_held:
  "copy_rest mem src scb = (res, scb') \<Longrightarrow> held k scb \<Longrightarrow> has_buff scb \<Longrightarrow> held k scb' \<and> (res = NO_ERR \<longrightarrow> has_buff scb')"
proof (induction "length src" arbitrary: src scb rule: less_induct)
  case less
  show ?case
  proof (cases "src = []")
    case True
    then show ?thesis using less.prems by (simp add: copy_rest.simps)
  next
    case False
    obtain r s where s: "add_buff mem scb = (r, s)" by fastforce
    have h: "held k s" "r = NO_ERR \<Longrightarrow> has_buff s" using add_buff_held [OF s less.prems(2)] less.prems(3) by (auto simp: has_buff_def)
    define n where "n = min SES_MSG_BUFFSIZE (length src)"
    let ?f = "\<lambda>b. b\<lparr>buff := xml_strncpy (buffpos b) src n (buff b), buffpos := buffpos b + n, bufflen := n\<rparr>"
    show ?thesis
    proof (cases "r = NO_ERR")
      case True
      then have c: "copy_rest mem src scb = copy_rest mem (drop n src) (upd_buff ?f s)"
        by (subst copy_rest.simps) (simp add: False s n_def Let_def)
      have l: "length (drop n src) < length src" using False by (simp add: n_def SES_MSG_BUFFSIZE_def)
      from less.hyps [OF l, of "upd_buff ?f s"] less.prems(1) h True show ?thesis unfolding c by simp
    next
      case r: False
      then show ?thesis using less.prems(1) s h(1) False by (subst (asm) copy_rest.simps) auto
    qed
  qed
qed

lemma copy_chunk_held:
  assumes "copy_chunk mem input scb = (res, left, scb')" "held k scb" "has_buff scb"
  shows "held k scb' \<and> (res = NO_ERR \<longrightarrow> has_buff scb')"
proof -
  define s1 where "s1 = upd_msg (\<lambda>m. m\<lparr>curchunksize := curchunksize m +
    of_nat (min (length input) (unat (expchunksize (cur_msg scb) - curchunksize (cur_msg scb))))\<rparr>) scb"
  have h1: "held k s1" "has_buff s1" using assms(2,3) by (simp_all add: s1_def held_upd_msg_same has_buff_upd_msg_same)
  define s2 where "s2 = (if curchunksize (cur_msg s1) = expchunksize (cur_msg s1)
                         then s1\<lparr>inendpos := 0, instate := SES_INST_INBETWEEN\<rparr> else s1)"
  have h2: "held k s2" "has_buff s2" using h1 by (simp_all add: s2_def)
  note c = assms(1) [unfolded copy_chunk_def Let_def, folded s1_def, folded s2_def]
  show ?thesis
  proof (cases "SES_MSG_BUFFSIZE - buffpos (cur_buff s2) \<ge>
      min (length input) (unat (expchunksize (cur_msg scb) - curchunksize (cur_msg scb)))")
    case True
    then show ?thesis using c h2 by auto
  next
    case False
    from c show ?thesis using False copy_rest_held h2 by (auto split: prod.splits)
  qed
qed

lemma end_chunk_size_held: "end_chunk_size scb = (res, scb') \<Longrightarrow> held k scb' = held k scb \<and> has_buff scb' = has_buff scb"
  by (auto simp: end_chunk_size_def Let_def held_upd_msg_same has_buff_upd_msg_same split: prod.splits if_splits)

lemma chunk_start_held: "chunk_start ch scb = (res, scb') \<Longrightarrow> held k scb' = held k scb \<and> has_buff scb' = has_buff scb"
  using end_chunk_size_held by (auto simp: chunk_start_def split: if_splits)

lemma chunk_between_held: "chunk_between ch scb = (res, again, scb') \<Longrightarrow> held k scb' = held k scb \<and> has_buff scb' = has_buff scb"
  by (auto simp: chunk_between_def split: if_splits)

lemma end_msg_v11_held:
  assumes "held k scb" "has_buff scb"
  shows "held k (end_msg_v11 scb)" "msgQ (end_msg_v11 scb) \<noteq> []"
proof -
  let ?s = "(ses_msg_make_inready (upd_msg (\<lambda>m. m\<lparr>curbuff := None, msg_ready := True\<rparr>) scb))\<lparr>instate := SES_INST_IDLE, inendpos := 0\<rparr>"
  have h: "held k ?s" "has_buff ?s" using assms by (simp_all add: held_upd_msg_same has_buff_upd_msg_same)
  show "held k (end_msg_v11 scb)"
    using h free_buff_held [OF remove_last_held [OF h]] by (simp add: end_msg_v11_def Let_def)
  show "msgQ (end_msg_v11 scb) \<noteq> []"
    using h(2) by (auto simp: end_msg_v11_def Let_def has_buff_def upd_msg_def upd_buff_def)
qed

lemma next_msg_v11_held:
  assumes "next_msg_v11 mem rest scb = (res, scb')" "held k scb"
  shows "held k scb' \<and> (res = NO_ERR \<and> rest \<noteq> [] \<longrightarrow> has_buff scb')"
proof -
  obtain r s where s: "add_msg mem scb = (r, s)" by fastforce
  then show ?thesis
    using assms add_msg_held [OF s assms(2)] add_buff_held [of mem s res scb' k] by (auto simp: next_msg_v11_def split: if_splits)
qed

lemma v11_loop_held:
  "v11_loop mem input scb = (res, scb') \<Longrightarrow> held k scb \<Longrightarrow> input = [] \<or> has_buff scb \<Longrightarrow> held k scb'"
proof (induction mem input scb arbitrary: res scb' rule: v11_loop.induct)
  case (1 mem input scb)
  show ?case
  proof (cases "input = []")
    case True
    then show ?thesis using "1.prems" by (simp add: v11_loop.simps)
  next
    case ne: False
    obtain r s where s: "next_buff mem False scb = (r, s)" by fastforce
    have h: "held k s" "r = NO_ERR \<Longrightarrow> has_buff s"
      using next_buff_held [OF s "1.prems"(2)] "1.prems"(3) ne by (auto simp: has_buff_def)
    note L = "1.prems"(1) [unfolded v11_loop.simps [of mem input scb]]
    show ?thesis
    proof (cases "r = NO_ERR")
      case False
      then show ?thesis using L ne s h(1) by auto
    next
      case r: True
      note h = h(1) h(2) [OF r]
      have "\<not> r \<noteq> NO_ERR" using r by simp
      note IH = "1.IH" [OF ne s [symmetric] this refl refl]
      have rest: "tl input = [] \<or> has_buff s" using h(2) by simp
      consider "instate s = SES_INST_IDLE" | "instate s = SES_INST_INSTART" | "instate s = SES_INST_INMSG"
        | "instate s = SES_INST_INBETWEEN" | "instate s = SES_INST_INEND" | "instate s = SES_INST_NONE"
        by (cases "instate s") auto
      then show ?thesis
      proof cases
        case 1
        then show ?thesis using L ne s r IH(1) h by (auto simp: Let_def split: if_splits)
      next
        case 2
        obtain r2 s2 where c: "chunk_start (hd input) s = (r2, s2)" by fastforce
        then show ?thesis using 2 L ne s r IH(2) h chunk_start_held [OF c] by (auto simp: Let_def split: if_splits)
      next
        case 3
        obtain r2 left s2 where c: "copy_chunk mem input s = (r2, left, s2)" by (metis prod_cases3)
        then show ?thesis using 3 L ne s r IH(3) copy_chunk_held [OF c h] by (auto simp: Let_def split: if_splits)
      next
        case 4
        obtain r2 again s2 where c: "chunk_between (hd input) s = (r2, again, s2)" by (metis prod_cases3)
        then show ?thesis using 4 L ne s r IH(4) h chunk_between_held [OF c] by (auto simp: Let_def split: if_splits)
      next
        case 5
        obtain r2 s2 where c: "next_msg_v11 mem (tl input) (end_msg_v11 s) = (r2, s2)" by fastforce
        then show ?thesis using 5 L ne s r IH(5,6) h next_msg_v11_held [OF c end_msg_v11_held(1) [OF h]]
          by (auto simp: Let_def split: if_splits)
      next
        case 6
        then show ?thesis using L ne s r h by (simp add: Let_def)
      qed
    qed
  qed
qed

lemma accept_buffer_held:
  assumes "accept_buffer mem p11 input scb = Some (res, scb')" "held k scb"
  shows "held k scb'"
proof -
  obtain r s where s: "start_msg mem scb = (r, s)" by fastforce
  note h = start_msg_held [OF s assms(2)]
  show ?thesis
    using assms(1) s h v10_loop_held [of mem p11 input False s res scb' k] v11_loop_held [of mem input s res scb' k]
    by (auto simp: accept_buffer_def accept_buffer_ssh_v10_def accept_buffer_ssh_v11_def split: if_splits)
qed

lemma accept_input_held:
  "ses_accept_input mem p11 reads scb = Some (res, reads', scb') \<Longrightarrow> held k scb \<Longrightarrow> held k scb'"
proof (induction mem p11 reads scb arbitrary: res reads' scb' rule: ses_accept_input.induct)
  case (1 mem p11 reads scb)
  note L = "1.prems"(1) [unfolded ses_accept_input.simps [of mem p11 reads scb]]
  show ?case
  proof (cases "SES_KILLREQ_SET scb")
    case True
    then show ?thesis using L "1.prems"(2) by simp
  next
    case kill: False
    obtain r got rs where t: "(if indefer_len scb = 0 then read_tries MAX_READ_TRIES reads else (NO_ERR, [], reads)) = (r, got, rs)"
      by (metis prod_cases3)
    consider "r = ERR_NCX_SKIPPED" | "r \<noteq> ERR_NCX_SKIPPED" "r \<noteq> NO_ERR" | "r = NO_ERR" "indefer_len scb > 0"
      | "r = NO_ERR" "indefer_len scb = 0" "got = []" | "r = NO_ERR" "indefer_len scb = 0" "got \<noteq> []" by fastforce
    then show ?thesis
    proof cases
      case 3
      then show ?thesis
        using L kill t "1.prems"(2) accept_buffer_held [of mem p11 "take (indefer_len scb) (readbuff scb)" "scb\<lparr>indefer_len := 0\<rparr>" _ _ k]
        by auto
    next
      case 5
      let ?s = "scb\<lparr>readbuff := got, in_bytes := in_bytes scb + of_nat (length got)\<rparr>"
      obtain r2 s2 where a: "accept_buffer mem p11 (drop_zero got) ?s = Some (r2, s2)"
        using L kill t 5 by (auto split: option.splits)
      have h: "held k s2" by (rule accept_buffer_held [OF a]) (use "1.prems"(2) in simp)
      have n: "\<not> indefer_len scb > 0" "\<not> r \<noteq> NO_ERR" "r \<noteq> ERR_NCX_SKIPPED" using 5 by simp_all
      show ?thesis
      proof (cases "r2 \<noteq> NO_ERR \<or> length (drop_zero got) < SES_READBUFF_SIZE \<or> \<not> has_rdfn s2 \<or> indefer_len s2 > 0")
        case True
        then show ?thesis using L kill t 5 a h by auto
      next
        case False
        then have "ses_accept_input mem p11 rs s2 = Some (res, reads', scb')" using L kill t 5 a by auto
        from "1.IH" [OF kill t [symmetric] refl n(3,2,1) 5(3) a refl False this h] show ?thesis .
      qed
    qed (use L kill t "1.prems"(2) in auto)
  qed
qed

section \<open>Output\<close>

lemma held_outbuff: "outbuff scb = Some b \<Longrightarrow> held k (scb\<lparr>outbuff := Some b'\<rparr>) = held k scb" by (simp add: held_def)

lemma held_set_outbuff: "outbuff scb = None \<Longrightarrow> held k (scb\<lparr>outbuff := Some b\<rparr>) = held (Suc k) scb" by (simp add: held_def)

lemma need_outbuff_held: "held k scb \<Longrightarrow> held k (need_outbuff mem scb)"
proof (cases "outbuff scb")
  case None
  obtain r b s where n: "ses_msg_new_buff mem True scb = (r, b, s)" by (metis prod_cases3)
  assume "held k scb"
  from new_buff_held [OF n this] None n show ?thesis by (auto simp: need_outbuff_def held_set_outbuff split: if_splits)
qed (simp add: need_outbuff_def)

lemma put_outbuff_held:
  assumes "put_outbuff ch scb = (res, scb')" "held k scb"
  shows "held k scb'" "res = ERR_BUFF_OVFL \<Longrightarrow> outbuff scb' \<noteq> None"
  using assms by (auto simp: put_outbuff_def held_outbuff split: option.splits prod.splits)

lemma enqueue_held: "outbuff scb = Some b \<Longrightarrow> held k scb \<Longrightarrow> held k (scb\<lparr>outQ := outQ scb @ [b'], outbuff := None\<rparr>)"
  by (simp add: held_def)

lemma held_outbuff_none: "held k (scb\<lparr>outbuff := None\<rparr>) \<Longrightarrow> outbuff scb = None \<Longrightarrow> held k scb" by (simp add: held_def)

lemma new_buff_outbuff:
  "ses_msg_new_buff mem True (scb\<lparr>outbuff := x\<rparr>) = (case ses_msg_new_buff mem True scb of (res, b, s) \<Rightarrow> (res, b, s\<lparr>outbuff := x\<rparr>))"
  by (auto simp: ses_msg_new_buff_def malloc_buff_def split: list.splits)

text \<open>A buffer goes to the queue and a new one takes its place, if there is one.\<close>

lemma replace_outbuff_held:
  assumes "outbuff scb = Some b" "held k scb" "ses_msg_new_buff mem True (ses_msg_make_outready (scb\<lparr>outQ := outQ scb @ [b']\<rparr>)) = (res, nb, s)"
  shows "held k (s\<lparr>outbuff := (if res = NO_ERR then Some nb else None)\<rparr>)"
proof -
  let ?q = "ses_msg_make_outready (scb\<lparr>outQ := outQ scb @ [b']\<rparr>)"
  have "held k (ses_msg_make_outready (scb\<lparr>outQ := outQ scb @ [b'], outbuff := None\<rparr>))" using enqueue_held [OF assms(1,2)] by simp
  moreover have "ses_msg_make_outready (scb\<lparr>outQ := outQ scb @ [b'], outbuff := None\<rparr>) = ?q\<lparr>outbuff := None\<rparr>"
    by (simp add: ses_msg_make_outready_def)
  ultimately have q: "held k (?q\<lparr>outbuff := None\<rparr>)" by simp
  have n: "ses_msg_new_buff mem True (?q\<lparr>outbuff := None\<rparr>) = (res, nb, s\<lparr>outbuff := None\<rparr>)"
    using assms(3) by (simp add: new_buff_outbuff)
  have "held (if res = NO_ERR then Suc k else k) (s\<lparr>outbuff := None\<rparr>)" by (rule new_buff_held(1) [OF n q])
  then show ?thesis by (auto simp: held_def)
qed

lemma new_output_buff_held:
  assumes "ses_msg_new_output_buff mem io b scb = (res, out, scb')" "held k scb" "outbuff scb = Some b0"
  shows "held k scb'"
proof (cases "stream_output scb")
  case True
  then show ?thesis using assms by (auto simp: ses_msg_new_output_buff_def held_outbuff Let_def split: if_splits)
next
  case False
  obtain r nb s where n: "ses_msg_new_buff mem True (ses_msg_make_outready (scb\<lparr>outQ := outQ scb @ [b\<lparr>buffpos := 0\<rparr>]\<rparr>)) = (r, nb, s)"
    by (metis prod_cases3)
  from replace_outbuff_held [OF assms(3,2) n] show ?thesis using assms(1) False n by (auto simp: ses_msg_new_output_buff_def Let_def)
qed

lemma putchar_held: "ses_putchar mem io ch scb = (out, scb') \<Longrightarrow> held k scb \<Longrightarrow> held k scb'"
proof (cases "has_fd scb")
  case False
  assume "ses_putchar mem io ch scb = (out, scb')" "held k scb"
  with False show ?thesis by (auto simp: ses_putchar_def split: if_splits)
next
  case fd: True
  assume a: "ses_putchar mem io ch scb = (out, scb')" and h: "held k scb"
  obtain r s where p: "put_outbuff ch (need_outbuff mem scb) = (r, s)" by fastforce
  have s: "held k s" "r = ERR_BUFF_OVFL \<Longrightarrow> outbuff s \<noteq> None"
    using put_outbuff_held [OF p need_outbuff_held [OF h]] by auto
  show ?thesis
  proof (cases "r = ERR_BUFF_OVFL")
    case False
    then show ?thesis using a fd p s(1) by (auto simp: ses_putchar_def Let_def split: if_splits)
  next
    case True
    then obtain b where b: "outbuff s = Some b" using s(2) by auto
    obtain r2 o2 s2 where n: "ses_msg_new_output_buff mem io b s = (r2, o2, s2)" by (metis prod_cases3)
    have h2: "held k s2" by (rule new_output_buff_held [OF n s(1) b])
    obtain r3 s3 where p3: "put_outbuff ch s2 = (r3, s3)" by fastforce
    have h3: "held k s3" by (rule put_outbuff_held(1) [OF p3 h2])
    show ?thesis using a fd p True b n p3 h2 h3 by (auto simp: ses_putchar_def Let_def split: if_splits)
  qed
qed

lemma putstr_held: "ses_putstr mem io str scb = (out, scb') \<Longrightarrow> held k scb \<Longrightarrow> held k scb'"
proof (induction str arbitrary: scb out scb')
  case (Cons ch str)
  obtain o1 s1 where 1: "ses_putchar mem io ch scb = (o1, s1)" by fastforce
  obtain o2 s2 where 2: "ses_putstr mem io str s1 = (o2, s2)" by fastforce
  from Cons.IH [OF 2 putchar_held [OF 1 Cons.prems(2)]] Cons.prems(1) 1 2 show ?case by simp
qed simp

lemma finish_outmsg_held:
  assumes "ses_msg_finish_outmsg mem b scb = (out, scb')" "held k scb" "outbuff scb = Some b0"
  shows "held k scb'"
proof (cases "stream_output scb")
  case True
  then show ?thesis using assms by (auto simp: ses_msg_finish_outmsg_def held_outbuff)
next
  case False
  let ?b = "b\<lparr>buffpos := buffstart b\<rparr>"
  obtain r nb s where n: "ses_msg_new_buff mem True (scb\<lparr>outQ := outQ scb @ [?b]\<rparr>) = (r, nb, s)" by (metis prod_cases3)
  have n': "ses_msg_new_buff mem True (scb\<lparr>outQ := outQ scb @ [?b], outbuff := None\<rparr>) = (r, nb, s\<lparr>outbuff := None\<rparr>)"
    using n new_buff_outbuff [of mem None "scb\<lparr>outQ := outQ scb @ [?b]\<rparr>"] by simp
  have "held (if r = NO_ERR then Suc k else k) (s\<lparr>outbuff := None\<rparr>)"
    by (rule new_buff_held(1) [OF n' enqueue_held [OF assms(3,2)]])
  then have "held k (s\<lparr>outbuff := (if r = NO_ERR then Some nb else None)\<rparr>)" by (auto simp: held_def)
  then show ?thesis using assms(1) False n by (auto simp: ses_msg_finish_outmsg_def Let_def)
qed

lemma finish_msg_held:
  assumes "ses_finish_msg mem io scb = Some (out, scb')" "held k scb"
  shows "held k scb'"
proof -
  define p where "p = (if transport scb \<in> {SES_TRANSPORT_SSH, SES_TRANSPORT_TCP}
    then (if framing11 scb then ([], scb\<lparr>outbuff := map_option (\<lambda>b. b\<lparr>islast := True\<rparr>) (outbuff scb)\<rparr>)
          else ses_putstr mem io NC_SSH_END scb)
    else ([], scb))"
  obtain o1 s1 where 1: "p = (o1, s1)" by fastforce
  have "held k (scb\<lparr>outbuff := map_option f (outbuff scb)\<rparr>)" for f using assms(2) by (simp add: held_def)
  then have h1: "held k s1" using 1 assms(2) putstr_held by (auto simp: p_def split: if_splits)
  obtain o2 s2 where 2: "(if \<not> has_fd s1 \<and> \<not> fp_stdout s1 then ses_putchar mem io LF s1 else ([], s1)) = (o2, s2)" by fastforce
  then have h2: "held k s2" using h1 putchar_held by (auto split: if_splits)
  have f: "(if ses_type s2 = SES_TYP_DUMMY then Some (o1 @ o2, s2)
      else case outbuff s2 of None \<Rightarrow> None
           | Some b \<Rightarrow> (case ses_msg_finish_outmsg mem b s2 of (o3, s3) \<Rightarrow> Some (o1 @ o2 @ o3, s3))) = Some (out, scb')"
    using assms(1) unfolding ses_finish_msg_def p_def [symmetric] 1 by (simp add: 2 split: if_splits)
  then show ?thesis using h2 finish_outmsg_held by (auto split: if_splits option.splits prod.splits)
qed

lemma held_outQ: "outQ scb = b # bs \<Longrightarrow> held k scb \<Longrightarrow> held (Suc k) (scb\<lparr>outQ := bs\<rparr>)" by (simp add: held_def)

lemma send_chunks_held: "send_chunks io i cnt scb = (res, out, scb') \<Longrightarrow> held k scb \<Longrightarrow> held k scb'"
proof (induction cnt arbitrary: i scb out)
  case (Suc cnt)
  show ?case
  proof (cases "outQ scb")
    case (Cons b bs)
    obtain w b' where w: "do_send_buff (framing11 scb) b = (w, b')" by fastforce
    let ?s = "ses_msg_free_buff b' (scb\<lparr>outQ := bs\<rparr>)"
    have h: "held k ?s" by (rule free_buff_held [OF held_outQ [OF Cons Suc.prems(2)]])
    obtain r2 o2 s2 where 2: "send_chunks io (Suc i) cnt ?s = (r2, o2, s2)" by (metis prod_cases3)
    show ?thesis
    proof (cases "io i = NO_ERR")
      case True
      then have "scb' = s2" "res = r2" using Suc.prems(1) Cons w 2 by (auto simp: Let_def)
      then show ?thesis using Suc.IH [of "Suc i" ?s o2] 2 h by simp
    next
      case False
      then show ?thesis using Suc.prems(1) Cons w h by (auto simp: Let_def)
    qed
  qed (use Suc.prems in auto)
qed simp

lemma clean_sent_held: "held (length bs + k) (scb\<lparr>outQ := []\<rparr>) \<Longrightarrow> held k (clean_sent n bs scb)"
proof (induction n bs scb rule: clean_sent.induct)
  case (2 n b bs scb)
  have "held (length bs + k) ((ses_msg_free_buff b scb)\<lparr>outQ := []\<rparr>)"
    using free_buff_held [of "length bs + k" "scb\<lparr>outQ := []\<rparr>" b] "2.prems" by (simp add: free_buff_commute)
  moreover have "held k (scb\<lparr>outQ := b' # bs\<rparr>)" for b' using "2.prems" by (simp add: held_def)
  ultimately show ?case using "2.IH" by simp
qed simp

lemma send_buffs_held: "ses_msg_send_buffs io w scb = (res, out, scb') \<Longrightarrow> held k scb \<Longrightarrow> held k scb'"
proof -
  assume a: "ses_msg_send_buffs io w scb = (res, out, scb')" and h: "held k scb"
  have "held (length (outQ scb) + k) (scb\<lparr>outQ := []\<rparr>)" using h by (simp add: held_def)
  then have "held k (clean_sent n (outQ scb) scb)" for n by (rule clean_sent_held)
  with a h send_chunks_held show ?thesis
    by (auto simp: ses_msg_send_buffs_def Let_def split: if_splits sum.splits)
qed

lemma set_protocol_held: "ses_set_protocol proto scb = (res, scb') \<Longrightarrow> held k scb \<Longrightarrow> held k scb'"
  by (auto simp: ses_set_protocol_def Let_def held_def split: if_splits)

section \<open>The life of a session\<close>

text \<open>
  What may happen to a session: input, output of any strings, the end of an outgoing message, sending, the choice of
  the protocol, the allocation of the output buffer, the removal of the first message when it has been handled, and changes
  of the state.
\<close>

inductive ses_step :: "ses_cb_t \<Rightarrow> ses_cb_t \<Rightarrow> bool" where
  S_input: "ses_accept_input mem p11 reads scb = Some (res, reads', scb') \<Longrightarrow> ses_step scb scb'"
| S_put: "ses_putstr mem io str scb = (out, scb') \<Longrightarrow> ses_step scb scb'"
| S_finish: "ses_finish_msg mem io scb = Some (out, scb') \<Longrightarrow> ses_step scb scb'"
| S_send: "ses_msg_send_buffs ios w scb = (res, out, scb') \<Longrightarrow> ses_step scb scb'"
| S_protocol: "ses_set_protocol proto scb = (res, scb') \<Longrightarrow> ses_step scb scb'"
| S_handled: "msgQ scb = m # ms \<Longrightarrow> msg_ready m \<Longrightarrow> ses_step scb (ses_msg_free_msg m (scb\<lparr>msgQ := ms\<rparr>))"
| S_outbuff: "ses_step scb (need_outbuff mem scb)"
| S_state: "ses_step scb (scb\<lparr>ses_state := st\<rparr>)"

lemma ses_step_held:
  assumes "ses_step scb scb'" "held k scb"
  shows "held k scb'"
  using assms
proof (induction rule: ses_step.induct)
  case (S_handled scb m ms)
  then have "held (length (buffQ m) + k) (scb\<lparr>msgQ := ms\<rparr>)" by (simp add: held_def)
  then show ?case by (rule free_msg_held)
next
  case (S_state scb st)
  then show ?case by (simp add: held_def)
qed (auto intro: accept_input_held putstr_held finish_msg_held send_buffs_held set_protocol_held need_outbuff_held)

lemma new_scb_held: "wf_ses ses_new_scb" by (simp add: wf_ses_def held_def ses_new_scb_def SES_MAX_BUFFERS_def)

lemma reachable_held: "ses_step\<^sup>*\<^sup>* ses_new_scb scb \<Longrightarrow> wf_ses scb"
  by (induction rule: rtranclp_induct) (use new_scb_held ses_step_held wf_ses_def in auto)



lemma free_freeQ_count:
  "buffcnt scb = length (freeQ scb) + n \<Longrightarrow> buffcnt (free_freeQ scb) = n"
proof (induction scb rule: free_freeQ.induct)
  case (1 scb)
  show ?case
  proof (cases "freeQ scb")
    case Nil
    then show ?thesis using "1.prems" by (simp add: free_freeQ.simps)
  next
    case (Cons b bs)
    have "buffcnt (ses_msg_free_buff b (scb\<lparr>freeQ := bs\<rparr>)) = length (freeQ (ses_msg_free_buff b (scb\<lparr>freeQ := bs\<rparr>))) + n"
      using "1.prems" Cons by (auto simp: ses_msg_free_buff_def)
    from "1.IH" [OF Cons this] show ?thesis by (simp add: Cons free_freeQ.simps [of scb])
  qed
qed

lemma free_msgs_held:
  "held (nbuffs ms + k) scb \<Longrightarrow> held k (fold ses_msg_free_msg ms scb)"
proof (induction ms arbitrary: scb)
  case (Cons m ms)
  have "held (nbuffs ms + k) (ses_msg_free_msg m scb)" by (rule free_msg_held) (use Cons.prems in \<open>simp add: add.assoc\<close>)
  from Cons.IH [OF this] show ?case by simp
qed simp



end
