(* ===== verification/Spec2Isabelle.thy ===== *)
theory Spec2Isabelle
  imports Agt_Acm_Props Agt_Not_Main Agt_Plock_Props Agt_Ses_Main B64 Dlq_Props Hex_String Ses_Out_Props Ses_Wf_Props
begin

text \<open>
  Header.
\<close>

end
